(* ===== verification/Drings_Prelude.thy ===== *)
theory Drings_Prelude
  imports Main "HOL-Library.Word" "HOL-Library.AList"
begin

text \<open>
  Shared vocabulary of the development: bytes and strings, Go errors as values,
  association lists for the Go maps that the code iterates over, and the generic
  lemmas the component theories rely on.
\<close>

section \<open>Types\<close>

type_synonym byte = "8 word"
type_synonym bytes = "byte list"

named_theorems net_defs \<open>definitions of the network transport, unfolded together\<close>
named_theorems wf_intros \<open>preservation rules of the well-formedness invariants\<close>

section \<open>Go errors\<close>

text \<open>
  An \<open>error\<close> value is one of the sentinels the code compares against with
  \<open>errors.Is\<close>, a plain message, or a message that wraps another error
  (\<open>fmt.Errorf("...: %w", err)\<close>). Messages keep their fixed text; the
  interpolated arguments are left out.
\<close>

datatype err =
    ErrStorageFull
  | ErrVersionConflict
  | ErrAlreadyTracked
  | ErrNotFound
  | Errorf string
  | Wrap string err

type_synonym 'a res = "err + 'a"

fun errors_is :: "err \<Rightarrow> err \<Rightarrow> bool" where
  "errors_is (Wrap m e) t = (Wrap m e = t \<or> errors_is e t)"
| "errors_is e t = (e = t)"

fun err_text :: "err \<Rightarrow> string" where
  "err_text ErrStorageFull = ''storage full: block store quota exceeded''"
| "err_text ErrVersionConflict =
     ''record version conflict: stored version is newer, refetch and retry''"
| "err_text ErrAlreadyTracked = ''CID already tracked''"
| "err_text ErrNotFound = ''root not found''"
| "err_text (Errorf m) = m"
| "err_text (Wrap m e) = m @ '': '' @ err_text e"

text \<open>\<open>strings.Contains\<close>.\<close>

definition str_contains :: "string \<Rightarrow> string \<Rightarrow> bool" where
  "str_contains s t \<longleftrightarrow> (\<exists>i \<in> set [0..<Suc (length s)]. take (length t) (drop i s) = t)"

text \<open>\<open>strings.HasPrefix\<close> and \<open>strings.HasSuffix\<close>.\<close>

definition has_prefix :: "'a list \<Rightarrow> 'a list \<Rightarrow> bool" where
  "has_prefix s p \<longleftrightarrow> take (length p) s = p"

definition has_suffix :: "'a list \<Rightarrow> 'a list \<Rightarrow> bool" where
  "has_suffix s p \<longleftrightarrow> length p \<le> length s \<and> drop (length s - length p) s = p"

lemma str_contains_iff: "str_contains s t \<longleftrightarrow> (\<exists>u v. s = u @ t @ v)"
proof
  assume "str_contains s t"
  then obtain i where "take (length t) (drop i s) = t"
    by (auto simp: str_contains_def)
  then have "s = take i s @ t @ drop (length t) (drop i s)"
    by (metis append_take_drop_id)
  then show "\<exists>u v. s = u @ t @ v" by blast
next
  assume "\<exists>u v. s = u @ t @ v"
  then obtain u v where s: "s = u @ t @ v" by blast
  then have "length u \<in> set [0..<Suc (length s)]"
    and "take (length t) (drop (length u) s) = t"
    by auto
  then show "str_contains s t"
    unfolding str_contains_def by blast
qed

lemma has_prefix_iff: "has_prefix s p \<longleftrightarrow> (\<exists>v. s = p @ v)"
  unfolding has_prefix_def by (metis append_eq_conv_conj append_take_drop_id)

lemma has_suffix_iff: "has_suffix s p \<longleftrightarrow> (\<exists>u. s = u @ p)"
proof
  assume "has_suffix s p"
  then have "s = take (length s - length p) s @ p"
    unfolding has_suffix_def by (metis append_take_drop_id)
  then show "\<exists>u. s = u @ p" by blast
next
  assume "\<exists>u. s = u @ p"
  then show "has_suffix s p" by (auto simp: has_suffix_def)
qed

lemma has_prefix_self [simp]: "has_prefix (p @ v) p"
  by (simp add: has_prefix_iff)

lemma str_contains_refl [simp]: "str_contains s s"
  unfolding str_contains_iff by (rule exI [of _ "[]"], rule exI [of _ "[]"]) simp

lemma err_text_errors_is: "errors_is e t \<Longrightarrow> str_contains (err_text e) (err_text t)"
proof (induction e)
  case (Wrap m e)
  show ?case
  proof (cases "Wrap m e = t")
    case True
    then show ?thesis by auto
  next
    case False
    with Wrap obtain u v where "err_text e = u @ err_text t @ v"
      by (auto simp: str_contains_iff)
    then have "err_text (Wrap m e) = (m @ '': '' @ u) @ err_text t @ v" by simp
    then show ?thesis unfolding str_contains_iff by blast
  qed
qed auto

lemma str_contains_trans:
  "str_contains s t \<Longrightarrow> str_contains t r \<Longrightarrow> str_contains s r"
  unfolding str_contains_iff by (metis append.assoc)

section \<open>Association lists\<close>

text \<open>
  A Go map that the code ranges over is an association list: the order of its
  entries stands for the unspecified order of one iteration.
\<close>

abbreviation aupd :: "'k \<Rightarrow> 'v \<Rightarrow> ('k \<times> 'v) list \<Rightarrow> ('k \<times> 'v) list" where
  "aupd \<equiv> AList.update"

abbreviation adel :: "'k \<Rightarrow> ('k \<times> 'v) list \<Rightarrow> ('k \<times> 'v) list" where
  "adel \<equiv> AList.delete"

lemma map_of_aupd [simp]: "map_of (aupd k v m) = (map_of m)(k \<mapsto> v)"
  by (rule update_conv')

lemma map_of_adel [simp]: "map_of (adel k m) = (map_of m)(k := None)"
  by (rule delete_conv')

section \<open>Lists\<close>

lemma foldl_invariant:
  "P s \<Longrightarrow> (\<And>s x. P s \<Longrightarrow> x \<in> set xs \<Longrightarrow> P (f s x)) \<Longrightarrow> P (foldl f s xs)"
  by (induction xs arbitrary: s) auto

lemma fold_invariant_set:
  "P s \<Longrightarrow> (\<And>s x. P s \<Longrightarrow> x \<in> set xs \<Longrightarrow> P (f x s)) \<Longrightarrow> P (fold f xs s)"
  by (induction xs arbitrary: s) auto

lemma filter_length_less_iff:
  "length (filter P xs) \<noteq> length xs \<longleftrightarrow> (\<exists>x \<in> set xs. \<not> P x)"
  by (metis filter_True length_filter_less less_irrefl)

text \<open>
  A loop over the entries of a map whose body only touches the part of the state that
  belongs to its own key: seen from one key, the loop is a single step or none.
\<close>

lemma foldl_keyed:
  assumes other: "\<And>st j e. j \<noteq> k \<Longrightarrow> v (f st (j, e)) = v st"
    and cong: "\<And>st st' e. v st = v st' \<Longrightarrow> v (f st (k, e)) = v (f st' (k, e))"
    and dist: "distinct (map fst xs)"
  shows "v (foldl f st xs) = (case map_of xs k of None \<Rightarrow> v st | Some e \<Rightarrow> v (f st (k, e)))"
  using dist
proof (induction xs arbitrary: st)
  case (Cons x xs)
  obtain j e where x: "x = (j, e)" by fastforce
  show ?case
  proof (cases "j = k")
    case True
    with Cons.prems x have "map_of xs k = None" by (auto simp: map_of_eq_None_iff)
    moreover have "v (foldl f (f st (k, e)) xs) =
      (case map_of xs k of None \<Rightarrow> v (f st (k, e)) | Some d \<Rightarrow> v (f (f st (k, e)) (k, d)))"
      using Cons.prems by (intro Cons.IH) simp
    ultimately show ?thesis using x True by simp
  next
    case False
    have "v (f st (j, e)) = v st" by (rule other [OF False])
    moreover have "v (f (f st (j, e)) (k, d)) = v (f st (k, d))" for d
      by (rule cong) (rule other [OF False])
    moreover have "v (foldl f (f st (j, e)) xs) =
      (case map_of xs k of None \<Rightarrow> v (f st (j, e)) | Some d \<Rightarrow> v (f (f st (j, e)) (k, d)))"
      using Cons.prems by (intro Cons.IH) simp
    ultimately show ?thesis using x False by (simp split: option.split)
  qed
qed simp

lemma distinct_aupd [simp]: "distinct (map fst m) \<Longrightarrow> distinct (map fst (aupd k v m))"
  by (rule distinct_update)

lemma distinct_adel [simp]: "distinct (map fst m) \<Longrightarrow> distinct (map fst (adel k m))"
  by (rule distinct_delete)

lemma set_aupdD: "(k, v) \<in> set (aupd j w m) \<Longrightarrow> (k = j \<and> v = w) \<or> (k, v) \<in> set m"
  by (induction m) (auto split: if_splits)

lemma set_adelD: "x \<in> set (adel j m) \<Longrightarrow> x \<in> set m"
  by (auto simp: AList.delete_eq)

lemma adel_id: "k \<notin> fst ` set m \<Longrightarrow> adel k m = m"
  by (rule AList.delete_id)

lemma key_not_adel [simp]: "k \<notin> fst ` set (adel k m)"
  by (auto simp: AList.delete_eq)

end
