(* ===== verification/Byte_Codec.thy ===== *)
theory Byte_Codec
  imports Drings_Prelude
begin

text \<open>
  The byte-level codecs: hexadecimal strings (the standard library's
  \<open>encoding/hex\<close>, and the hand-written \<open>decodeHex\<close> of
  \<open>store/network_block_store.go\<close>), and the little-endian 64-bit counters the
  network block store persists.
\<close>

unbundle bit_operations_syntax

section \<open>Hexadecimal\<close>

text \<open>\<open>hex.EncodeToString\<close>: two lower-case digits per byte, high nibble first.\<close>

definition hex_digit :: "nat \<Rightarrow> char" where
  "hex_digit d = (if d < 10 then char_of (48 + d) else char_of (87 + d))"

definition hex_byte :: "byte \<Rightarrow> string" where
  "hex_byte b = [hex_digit (unat b div 16), hex_digit (unat b mod 16)]"

definition hex_EncodeToString :: "bytes \<Rightarrow> string" where
  "hex_EncodeToString bs = concat (map hex_byte bs)"

text \<open>\<open>hexNibble\<close>: the value of one hexadecimal digit, either case.\<close>

definition hexNibble :: "char \<Rightarrow> byte res" where
  "hexNibble c = (let b = (of_char c :: nat) in
     if 48 \<le> b \<and> b \<le> 57 then Inr (of_nat (b - 48))
     else if 97 \<le> b \<and> b \<le> 102 then Inr (of_nat (b - 97 + 10))
     else if 65 \<le> b \<and> b \<le> 70 then Inr (of_nat (b - 65 + 10))
     else Inl (Errorf ''invalid hex character''))"

fun decodeHex_loop :: "string \<Rightarrow> bytes res" where
  "decodeHex_loop (h # l # s) =
     (case hexNibble h of Inl e \<Rightarrow> Inl e | Inr hi \<Rightarrow>
      (case hexNibble l of Inl e \<Rightarrow> Inl e | Inr lo \<Rightarrow>
       (case decodeHex_loop s of Inl e \<Rightarrow> Inl e | Inr out \<Rightarrow>
          Inr ((push_bit 4 hi OR lo) # out))))"
| "decodeHex_loop _ = Inr []"

definition decodeHex :: "string \<Rightarrow> bytes res" where
  "decodeHex s =
     (if length s mod 2 \<noteq> 0 then Inl (Errorf ''odd-length hex string'')
      else decodeHex_loop s)"

text \<open>
  \<open>hex.DecodeString\<close>: the partial inverse of the encoder, accepting both cases
  and refusing odd lengths and other characters.
\<close>

definition digit_val :: "char \<Rightarrow> nat option" where
  "digit_val c = (let b = (of_char c :: nat) in
     if b \<in> {48..57} then Some (b - 48)
     else if b \<in> {97..102} then Some (b - 87)
     else if b \<in> {65..70} then Some (b - 55)
     else None)"

fun hex_DecodeString :: "string \<Rightarrow> bytes option" where
  "hex_DecodeString [] = Some []"
| "hex_DecodeString [_] = None"
| "hex_DecodeString (h # l # s) =
     (case (digit_val h, digit_val l, hex_DecodeString s) of
        (Some hi, Some lo, Some out) \<Rightarrow> Some (of_nat (16 * hi + lo) # out)
      | _ \<Rightarrow> None)"

lemma hexNibble_digit_val:
  "hexNibble c = (case digit_val c of None \<Rightarrow> Inl (Errorf ''invalid hex character'')
     | Some d \<Rightarrow> Inr (of_nat d))"
  by (auto simp: hexNibble_def digit_val_def Let_def)

lemma digit_val_less: "digit_val c = Some d \<Longrightarrow> d < 16"
  by (auto simp: digit_val_def Let_def split: if_splits)

lemma nibbles_join:
  assumes "lo < 16"
  shows "(push_bit 4 (of_nat hi) OR of_nat lo :: byte) = of_nat (16 * hi + lo)"
proof -
  have "take_bit 4 lo = lo"
    using assms by (simp add: take_bit_eq_mod)
  then have "\<not> bit lo n" if "4 \<le> n" for n
    using that by (metis bit_take_bit_iff leD)
  then have "(push_bit 4 (of_nat hi) + of_nat lo :: byte) = push_bit 4 (of_nat hi) OR of_nat lo"
    by (intro disjunctive_add) (auto simp: bit_simps)
  then show ?thesis
    by (simp add: push_bit_eq_mult mult.commute)
qed

lemma decodeHex_loop_DecodeString:
  "length s mod 2 = 0 \<Longrightarrow>
   (case decodeHex_loop s of Inl e \<Rightarrow> None | Inr out \<Rightarrow> Some out) = hex_DecodeString s"
proof (induction s rule: hex_DecodeString.induct)
  case (3 h l s)
  then have IH: "(case decodeHex_loop s of Inl e \<Rightarrow> None | Inr out \<Rightarrow> Some out) = hex_DecodeString s"
    by simp
  show ?case
    using digit_val_less [of l]
    by (auto simp: hexNibble_digit_val nibbles_join IH [symmetric]
        split: option.splits sum.splits)
qed simp_all

lemma hex_DecodeString_odd: "length s mod 2 \<noteq> 0 \<Longrightarrow> hex_DecodeString s = None"
  by (induction s rule: hex_DecodeString.induct) (auto split: option.splits)

text \<open>The hand-written decoder accepts the strings the standard one does, with the same bytes.\<close>

lemma decodeHex_iff_DecodeString: "decodeHex s = Inr bs \<longleftrightarrow> hex_DecodeString s = Some bs"
proof (cases "length s mod 2 = 0")
  case True
  then show ?thesis
    using decodeHex_loop_DecodeString [OF True] by (auto simp: decodeHex_def split: sum.splits)
qed (simp add: decodeHex_def hex_DecodeString_odd)

lemma digit_val_hex_digit: "d < 16 \<Longrightarrow> digit_val (hex_digit d) = Some d"
  by (auto simp: digit_val_def hex_digit_def Let_def)

lemma of_nat_nibbles: "of_nat (16 * (unat b div 16) + unat b mod 16) = (b :: byte)"
  by (metis mult_div_mod_eq unsigned_of_nat word_nat_cases word_unat_eq_iff unat_of_nat take_bit_nat_def mod_mod_trivial)

lemma hex_DecodeString_Encode [simp]: "hex_DecodeString (hex_EncodeToString bs) = Some bs"
proof (induction bs)
  case (Cons b bs)
  have "unat b < 256" using unsigned_less [of b, where ?'a = nat] by simp
  then have "unat b div 16 < 16" "unat b mod 16 < 16" by auto
  with Cons show ?case
    by (simp only: hex_EncodeToString_def hex_byte_def list.map concat.simps append.simps
        hex_DecodeString.simps digit_val_hex_digit prod.case option.case of_nat_nibbles)
qed (simp add: hex_EncodeToString_def)

lemma hex_EncodeToString_inj [simp]:
  "hex_EncodeToString a = hex_EncodeToString b \<longleftrightarrow> a = b"
  by (metis hex_DecodeString_Encode option.inject)

section \<open>Little-endian counters\<close>

text \<open>
  \<open>encodeInt64LE\<close> and \<open>decodeInt64LE\<close> on 64-bit words. \<open>data[i]\<close> panics past the
  end of the slice, so a short slice is \<open>None\<close>.
\<close>

definition encodeInt64LE :: "64 word \<Rightarrow> bytes" where
  "encodeInt64LE v = map (\<lambda>i. ucast (signed_drop_bit (i * 8) v)) [0..<8]"

definition decodeInt64LE :: "bytes \<Rightarrow> 64 word option" where
  "decodeInt64LE data =
     (if length data < 8 then None
      else Some (foldl (\<lambda>v i. v OR push_bit (i * 8) (ucast (data ! i))) 0 [0..<8]))"

lemma length_encodeInt64LE [simp]: "length (encodeInt64LE v) = 8"
  by (simp add: encodeInt64LE_def)

lemma bit_foldl_or:
  "bit (foldl (\<lambda>w i. w OR f i) a xs) n \<longleftrightarrow> bit (a :: 64 word) n \<or> (\<exists>i \<in> set xs. bit (f i) n)"
  by (induction xs arbitrary: a) (auto simp: bit_or_iff)

lemma bit_byte_of_int64:
  fixes v :: "64 word"
  assumes "n < 64" "i < 8"
  shows "bit (push_bit (i * 8) (ucast (ucast (signed_drop_bit (i * 8) v) :: byte)) :: 64 word) n
    \<longleftrightarrow> n div 8 = i \<and> bit v n"
proof (cases "n div 8 = i")
  case True
  have "n - n div 8 * 8 < 8" "n div 8 * 8 + (n - n div 8 * 8) = n" by arith+
  with True assms show ?thesis by (auto simp: bit_simps add.commute)
next
  case False
  then have "\<not> (i * 8 \<le> n \<and> n - i * 8 < 8)" by (simp add: div_nat_eqI) arith
  with False show ?thesis by (auto simp: bit_simps)
qed

lemma decode_encodeInt64LE: "decodeInt64LE (encodeInt64LE v) = Some v"
proof -
  have "foldl (\<lambda>w i. w OR push_bit (i * 8) (ucast (encodeInt64LE v ! i))) 0 [0..<8] = v"
    (is "?w = v")
  proof (rule bit_word_eqI)
    fix n :: nat
    assume "n < LENGTH(64)"
    then have n: "n < 64" by simp
    have "bit ?w n \<longleftrightarrow> (\<exists>i \<in> {0..<8}. n div 8 = i \<and> bit v n)"
      using n by (auto simp: bit_foldl_or encodeInt64LE_def bit_byte_of_int64)
    also have "\<dots> \<longleftrightarrow> bit v n"
      using n by (auto simp: Bex_def)
    finally show "bit ?w n \<longleftrightarrow> bit v n" .
  qed
  then show ?thesis by (simp add: decodeInt64LE_def)
qed

end
