(* ===== verification/Chord_Id.thy ===== *)
theory Chord_Id
  imports Byte_Codec
begin

text \<open>
  Ring identifiers, from \<open>dht/chord.go\<close>: the 20-byte \<open>NodeID\<close>, its byte-wise
  order, the two interval tests of the Chord ring and the finger start points.
  The interval tests are shown to be comparisons of clockwise distances on the
  circle of \<open>2\<^sup>1\<^sup>6\<^sup>0\<close> points, the form in which the routing theories use them.
\<close>

section \<open>Big-endian integers\<close>

text \<open>\<open>big.Int.SetBytes\<close> and \<open>big.Int.Bytes\<close> (minimal length, empty for zero).\<close>

definition SetBytes :: "bytes \<Rightarrow> nat" where
  "SetBytes bs = foldl (\<lambda>v b. v * 256 + unat b) 0 bs"

fun big_Bytes :: "nat \<Rightarrow> bytes" where
  "big_Bytes n = (if n = 0 then [] else big_Bytes (n div 256) @ [of_nat (n mod 256)])"

declare big_Bytes.simps [simp del]

lemma SetBytes_Nil [simp]: "SetBytes [] = 0"
  by (simp add: SetBytes_def)

lemma SetBytes_snoc [simp]: "SetBytes (bs @ [b]) = SetBytes bs * 256 + unat b"
  by (simp add: SetBytes_def)

lemma unat_byte_less [simp]: "unat (b :: byte) < 256"
  using unsigned_less [of b, where ?'a = nat] by simp

lemma SetBytes_less: "SetBytes bs < 256 ^ length bs"
proof (induction bs rule: rev_induct)
  case (snoc b bs)
  have "SetBytes bs * 256 + unat b < (SetBytes bs + 1) * 256"
    using unat_byte_less [of b] by simp
  also have "\<dots> \<le> 256 ^ length bs * 256"
    using snoc by (intro mult_right_mono) auto
  finally show ?case by simp
qed simp

lemma SetBytes_append: "SetBytes (as @ bs) = SetBytes as * 256 ^ length bs + SetBytes bs"
proof (induction bs rule: rev_induct)
  case (snoc b bs)
  then show ?case
    by (simp add: append_assoc [symmetric] distrib_right del: append_assoc)
qed simp

lemma SetBytes_Cons: "SetBytes (b # bs) = unat b * 256 ^ length bs + SetBytes bs"
  using SetBytes_append [of "[b]" bs] SetBytes_snoc [of "[]" b] by simp

lemma SetBytes_zeros [simp]: "SetBytes (replicate k 0) = 0"
  by (induction k) (simp_all add: SetBytes_Cons)

lemma SetBytes_big_Bytes [simp]: "SetBytes (big_Bytes n) = n"
proof (induction n rule: big_Bytes.induct)
  case (1 n)
  then show ?case
    by (subst big_Bytes.simps) (auto simp: unat_of_nat)
qed

lemma length_big_Bytes: "n < 256 ^ k \<Longrightarrow> length (big_Bytes n) \<le> k"
proof (induction k arbitrary: n)
  case 0
  then show ?case by (simp add: big_Bytes.simps)
next
  case (Suc k)
  then have "n div 256 < 256 ^ k" by (simp add: less_mult_imp_div_less mult.commute)
  with Suc.IH show ?case by (subst big_Bytes.simps) auto
qed

lemma SetBytes_inj: "length as = length bs \<Longrightarrow> SetBytes as = SetBytes bs \<Longrightarrow> as = bs"
proof (induction as arbitrary: bs rule: rev_induct)
  case (snoc a as)
  then obtain b bs' where bs: "bs = bs' @ [b]" "length as = length bs'"
    by (metis length_append_singleton length_Suc_conv_rev)
  with snoc.prems have eq: "SetBytes as * 256 + unat a = SetBytes bs' * 256 + unat b" by simp
  then have "(SetBytes as * 256 + unat a) div 256 = (SetBytes bs' * 256 + unat b) div 256"
    "(SetBytes as * 256 + unat a) mod 256 = (SetBytes bs' * 256 + unat b) mod 256"
    by simp_all
  then have "SetBytes as = SetBytes bs'" "a = b" by (simp_all add: word_unat_eq_iff)
  with snoc.IH bs show ?case by simp
qed simp

section \<open>The 20-byte identifier\<close>

typedef NodeID = "{bs :: bytes. length bs = 20}"
  morphisms id_bytes mk_id
  by (rule exI [of _ "replicate 20 0"]) simp

setup_lifting type_definition_NodeID

lemma length_id_bytes [simp]: "length (id_bytes i) = 20"
  using id_bytes [of i] by simp

text \<open>\<open>NodeID{}\<close>: the zero value.\<close>

lift_definition zeroID :: NodeID is "replicate 20 0"
  by simp

text \<open>The position on the circle: the identifier read as a big-endian integer.\<close>

definition id_val :: "NodeID \<Rightarrow> nat" where
  "id_val i = SetBytes (id_bytes i)"

definition ringSize :: nat where
  "ringSize = 2 ^ 160"

lemma ringSize_pos [simp]: "0 < ringSize"
  by (simp add: ringSize_def)

lemma ringSize_bytes: "ringSize = 256 ^ 20"
  by (simp add: ringSize_def)

lemma id_val_less: "id_val i < ringSize"
  using SetBytes_less [of "id_bytes i"] by (simp add: id_val_def ringSize_bytes)

lemma id_val_inj: "id_val a = id_val b \<longleftrightarrow> a = b"
  by (metis SetBytes_inj id_bytes_inject id_val_def length_id_bytes)

subsection \<open>The order\<close>

text \<open>\<open>Equal\<close> and \<open>Less\<close>: the first differing byte decides.\<close>

instantiation NodeID :: equal
begin

lift_definition equal_NodeID :: "NodeID \<Rightarrow> NodeID \<Rightarrow> bool" is "(=)" .

instance
  by standard (transfer, simp)

end

function Less_loop :: "bytes \<Rightarrow> bytes \<Rightarrow> nat \<Rightarrow> bool" where
  "Less_loop a b i =
     (if i < 20 then (if a ! i \<noteq> b ! i then a ! i < b ! i else Less_loop a b (Suc i))
      else False)"
  by pat_completeness auto
termination
  by (relation "measure (\<lambda>(a, b, i). 20 - i)") auto

declare Less_loop.simps [simp del]

definition Less :: "NodeID \<Rightarrow> NodeID \<Rightarrow> bool" where
  "Less a b = Less_loop (id_bytes a) (id_bytes b) 0"

lemma Less_loop_val:
  assumes "length a = 20" "length b = 20" "i \<le> 20"
  shows "Less_loop a b i \<longleftrightarrow> SetBytes (drop i a) < SetBytes (drop i b)"
  using assms
proof (induction a b i rule: Less_loop.induct)
  case (1 a b i)
  show ?case
  proof (cases "i < 20")
    case False
    with "1.prems" show ?thesis by (subst Less_loop.simps) simp
  next
    case True
    let ?n = "256 ^ (19 - i) :: nat" and ?x = "unat (a ! i)" and ?y = "unat (b ! i)"
    let ?r = "SetBytes (drop (Suc i) a)" and ?s = "SetBytes (drop (Suc i) b)"
    have va: "SetBytes (drop i a) = ?x * ?n + ?r" and vb: "SetBytes (drop i b) = ?y * ?n + ?s"
      using True "1.prems" by (simp_all add: Cons_nth_drop_Suc [symmetric] SetBytes_Cons)
    have r: "?r < ?n" and s: "?s < ?n"
      using SetBytes_less [of "drop (Suc i) a"] SetBytes_less [of "drop (Suc i) b"] "1.prems"
      by simp_all
    show ?thesis
    proof (cases "a ! i = b ! i")
      case eq: True
      with True "1.prems" "1.IH" show ?thesis by (simp add: va vb Less_loop.simps [of a b i])
    next
      case False
      have "?x < ?y \<longleftrightarrow> ?x * ?n + ?r < ?y * ?n + ?s"
      proof
        assume "?x < ?y"
        then have "(?x + 1) * ?n \<le> ?y * ?n" by (intro mult_right_mono) auto
        with r show "?x * ?n + ?r < ?y * ?n + ?s" by simp
      next
        assume lt: "?x * ?n + ?r < ?y * ?n + ?s"
        show "?x < ?y"
        proof (rule ccontr)
          assume "\<not> ?x < ?y"
          with False have "?y < ?x" by (metis linorder_neqE_nat word_unat_eq_iff)
          then have "(?y + 1) * ?n \<le> ?x * ?n" by (intro mult_right_mono) auto
          with s lt show False by simp
        qed
      qed
      with True False show ?thesis
        by (simp add: va vb word_less_nat_alt Less_loop.simps [of a b i])
    qed
  qed
qed

lemma Less_val: "Less a b \<longleftrightarrow> id_val a < id_val b"
  by (simp add: Less_def Less_loop_val id_val_def)

text \<open>\<open>Less\<close> is a linear order: the library's order automation applies to identifiers.\<close>

instantiation NodeID :: linorder
begin

definition less_NodeID :: "NodeID \<Rightarrow> NodeID \<Rightarrow> bool" where
  "less_NodeID = Less"

definition less_eq_NodeID :: "NodeID \<Rightarrow> NodeID \<Rightarrow> bool" where
  "less_eq_NodeID a b \<longleftrightarrow> a = b \<or> Less a b"

instance
  by standard (auto simp: less_NodeID_def less_eq_NodeID_def Less_val id_val_inj [symmetric])

end

lemma less_id_val: "a < b \<longleftrightarrow> id_val a < id_val b"
  by (simp add: less_NodeID_def Less_val)

subsection \<open>Intervals of the circle\<close>

definition BetweenExclusive :: "NodeID \<Rightarrow> NodeID \<Rightarrow> NodeID \<Rightarrow> bool" where
  "BetweenExclusive x lo hi =
     (if lo = hi then x \<noteq> lo
      else if Less lo hi then Less lo x \<and> Less x hi
      else Less lo x \<or> Less x hi)"

definition BetweenRightInclusive :: "NodeID \<Rightarrow> NodeID \<Rightarrow> NodeID \<Rightarrow> bool" where
  "BetweenRightInclusive x lo hi \<longleftrightarrow> x = hi \<or> BetweenExclusive x lo hi"

text \<open>
  The clockwise distance: the number of steps, from 1 to the ring size, that lead
  from \<open>a\<close> to \<open>b\<close>. From a point to itself it is a full turn, which is how the
  code reads an interval whose ends are equal.
\<close>

definition cw :: "NodeID \<Rightarrow> NodeID \<Rightarrow> nat" where
  "cw a b = (id_val b + ringSize - id_val a - 1) mod ringSize + 1"

lemma cw_alt:
  "cw a b = (if id_val a < id_val b then id_val b - id_val a
             else id_val b + ringSize - id_val a)"
proof (cases "id_val a < id_val b")
  case True
  then have "id_val b + ringSize - id_val a - 1 = (id_val b - id_val a - 1) + ringSize"
    by simp
  moreover have "id_val b - id_val a - 1 < ringSize"
    using id_val_less [of b] by linarith
  ultimately have "(id_val b + ringSize - id_val a - 1) mod ringSize = id_val b - id_val a - 1"
    by (metis mod_add_self2 mod_less)
  with True show ?thesis unfolding cw_def by simp
next
  case False
  with id_val_less [of a] have "id_val b + ringSize - id_val a - 1 < ringSize" by linarith
  with False id_val_less [of a] show ?thesis by (simp add: cw_def)
qed

lemma cw_pos [simp]: "0 < cw a b"
  by (simp add: cw_def)

lemma cw_self [simp]: "cw a a = ringSize"
  by (simp add: cw_alt)

lemma cw_le [simp]: "cw a b \<le> ringSize"
  using id_val_less [of b] by (auto simp: cw_alt)

lemma cw_less_iff [simp]: "cw a b < ringSize \<longleftrightarrow> a \<noteq> b"
proof -
  have "cw a b < ringSize \<longleftrightarrow> id_val a \<noteq> id_val b"
    using id_val_less [of a] id_val_less [of b] by (auto simp: cw_alt)
  then show ?thesis by (simp add: id_val_inj)
qed

lemma cw_inj [simp]: "cw a b = cw a c \<longleftrightarrow> b = c"
proof -
  have "cw a b = cw a c \<longleftrightarrow> id_val b = id_val c"
    using id_val_less [of a] id_val_less [of b] id_val_less [of c] by (auto simp: cw_alt split: if_splits)
  then show ?thesis by (simp add: id_val_inj)
qed

lemma cw_split: "cw a b < cw a c \<Longrightarrow> cw a c = cw a b + cw b c"
  using id_val_less [of a] id_val_less [of b] id_val_less [of c]
  by (auto simp: cw_alt split: if_splits)

lemma cw_swap: "a \<noteq> b \<Longrightarrow> cw a b + cw b a = ringSize"
  using cw_split [of a b a] by auto

text \<open>The interval tests of the code are comparisons of clockwise distances.\<close>

lemma BetweenExclusive_cw: "BetweenExclusive x lo hi \<longleftrightarrow> cw lo x < cw lo hi"
proof (cases "lo = hi")
  case True
  then show ?thesis by (auto simp: BetweenExclusive_def)
next
  case False
  then have "id_val lo \<noteq> id_val hi" by (simp add: id_val_inj)
  with False id_val_less [of lo] id_val_less [of hi] id_val_less [of x] show ?thesis
    by (auto simp: BetweenExclusive_def Less_val cw_alt)
qed

lemma BetweenRightInclusive_cw: "BetweenRightInclusive x lo hi \<longleftrightarrow> cw lo x \<le> cw lo hi"
  by (auto simp: BetweenRightInclusive_def BetweenExclusive_cw le_less)

lemmas between_cw = BetweenExclusive_cw BetweenRightInclusive_cw

subsection \<open>Finger start points\<close>

definition copy_tail :: "bytes \<Rightarrow> NodeID" where
  "copy_tail b =
     mk_id (if length b \<le> 20 then replicate (20 - length b) 0 @ b else replicate 20 0)"

lemma id_bytes_copy_tail [code abstract]:
  "id_bytes (copy_tail b) =
     (if length b \<le> 20 then replicate (20 - length b) 0 @ b else replicate 20 0)"
  unfolding copy_tail_def by (rule mk_id_inverse) simp

definition fingerStart :: "NodeID \<Rightarrow> nat \<Rightarrow> NodeID" where
  "fingerStart i k = copy_tail (big_Bytes ((SetBytes (id_bytes i) + 2 ^ k) mod ringSize))"

lemma id_val_fingerStart: "id_val (fingerStart i k) = (id_val i + 2 ^ k) mod ringSize"
proof -
  let ?r = "(id_val i + 2 ^ k) mod ringSize"
  have "?r < ringSize" by simp
  then have "?r < 256 ^ 20" by (simp add: ringSize_bytes)
  then have "length (big_Bytes ?r) \<le> 20" by (rule length_big_Bytes)
  then have "id_bytes (fingerStart i k) = replicate (20 - length (big_Bytes ?r)) 0 @ big_Bytes ?r"
    by (simp add: fingerStart_def id_val_def id_bytes_copy_tail)
  then show ?thesis
    by (subst id_val_def) (simp add: SetBytes_append)
qed

lemma cw_fingerStart:
  assumes "k < 160"
  shows "cw i (fingerStart i k) = 2 ^ k"
proof -
  let ?v = "id_val i" and ?p = "2 ^ k :: nat"
  have p: "?p < ringSize"
    unfolding ringSize_def by (rule power_strict_increasing) (use assms in auto)
  have p0: "0 < ?p" by simp
  show ?thesis
  proof (cases "?v + ?p < ringSize")
    case True
    then have "id_val (fingerStart i k) = ?v + ?p" by (simp add: id_val_fingerStart)
    with p0 show ?thesis unfolding cw_alt by simp
  next
    case False
    then have "(?v + ?p) mod ringSize = ?v + ?p - ringSize"
      using p id_val_less [of i] by (subst mod_if) simp
    then have "id_val (fingerStart i k) = ?v + ?p - ringSize"
      by (simp add: id_val_fingerStart)
    with False p id_val_less [of i] show ?thesis unfolding cw_alt by auto
  qed
qed

subsection \<open>Text form\<close>

text \<open>
  \<open>String\<close> and the JSON form are the hexadecimal digits. \<open>UnmarshalJSON\<close> takes the
  outcome of \<open>json.Unmarshal\<close> into a Go string.
\<close>

definition id_String :: "NodeID \<Rightarrow> string" where
  "id_String i = hex_EncodeToString (id_bytes i)"

definition NodeID_of_hex :: "string \<Rightarrow> NodeID res" where
  "NodeID_of_hex s =
     (case hex_DecodeString s of
        None \<Rightarrow> Inl (Errorf ''encoding/hex'')
      | Some b \<Rightarrow>
          if length b \<noteq> 20 then Inl (Errorf ''NodeID: expected 20 bytes'')
          else Inr (copy_tail b))"

definition UnmarshalJSON :: "string res \<Rightarrow> NodeID res" where
  "UnmarshalJSON j = (case j of Inl e \<Rightarrow> Inl e | Inr s \<Rightarrow> NodeID_of_hex s)"

lemma copy_tail_id_bytes [simp]: "copy_tail (id_bytes i) = i"
  by (simp add: id_bytes_inject [symmetric] id_bytes_copy_tail)

lemma NodeID_of_hex_String [simp]: "NodeID_of_hex (id_String i) = Inr i"
  by (simp add: NodeID_of_hex_def id_String_def)

lemma id_String_inj [simp]: "id_String a = id_String b \<longleftrightarrow> a = b"
  by (simp add: id_String_def id_bytes_inject)

subsection \<open>Identifiers of the test ring\<close>

text \<open>\<open>testNodeID\<close> of \<open>dht/local.go\<close>: the position in the first byte.\<close>

definition testNodeID :: "byte \<Rightarrow> NodeID" where
  "testNodeID pos = mk_id (pos # replicate 19 0)"

lemma id_bytes_testNodeID [code abstract]: "id_bytes (testNodeID pos) = pos # replicate 19 0"
  unfolding testNodeID_def by (rule mk_id_inverse) simp

lemma id_val_testNodeID: "id_val (testNodeID p) = unat p * 256 ^ 19"
  unfolding id_val_def id_bytes_testNodeID by (simp add: SetBytes_Cons)

lemma testNodeID_eq [simp]: "testNodeID a = testNodeID b \<longleftrightarrow> a = b"
  by (simp add: id_bytes_inject [symmetric] id_bytes_testNodeID)

lemma testNodeID_Less [simp]: "Less (testNodeID a) (testNodeID b) \<longleftrightarrow> a < b"
  by (simp add: Less_val id_val_testNodeID word_less_nat_alt)

end
