(* ===== verification/Block_Iface.thy ===== *)
theory Block_Iface
  imports Byte_Codec
begin

text \<open>
  The \<open>BlockStore\<close> interface of \<open>store/blockstore.go\<close> and the stores that implement it
  outright: the in-memory store of \<open>dht/local.go\<close>, the quota wrapper of
  \<open>store/quota.go\<close> and the read cache of \<open>store/cache.go\<close>.

  The locale \<open>block_store\<close> is the contract: an invariant, an abstract content (a map
  from the part of the CID the store keys on to data) and what each operation does to
  it. The in-memory store interprets it, and each wrapper turns an implementation of
  the contract into another one, as a sublocale.

  A \<open>cid.Cid\<close> is either undefined or a version, a codec and a multihash.
\<close>

section \<open>Content identifiers\<close>

datatype cid = Undef | Cid nat nat bytes

abbreviation codec_Raw :: nat where "codec_Raw \<equiv> 0x55"
abbreviation codec_DagProtobuf :: nat where "codec_DagProtobuf \<equiv> 0x70"

fun Hash :: "cid \<Rightarrow> bytes" where
  "Hash Undef = []"
| "Hash (Cid v c h) = h"

fun Codec :: "cid \<Rightarrow> nat" where
  "Codec Undef = 0"
| "Codec (Cid v c h) = c"

definition NewCidV1 :: "nat \<Rightarrow> bytes \<Rightarrow> cid" where
  "NewCidV1 c h = Cid 1 c h"

definition Defined :: "cid \<Rightarrow> bool" where
  "Defined c \<longleftrightarrow> c \<noteq> Undef"

definition HexString :: "cid \<Rightarrow> string" where
  "HexString c = hex_EncodeToString (Hash c)"

lemma Hash_NewCidV1 [simp]: "Hash (NewCidV1 c h) = h"
  by (simp add: NewCidV1_def)

lemma HexString_eq [simp]: "HexString c = HexString d \<longleftrightarrow> Hash c = Hash d"
  by (simp add: HexString_def)

section \<open>The interface\<close>

record 's bs_ops =
  bs_Put :: "cid \<Rightarrow> bytes \<Rightarrow> 's \<Rightarrow> unit res \<times> 's"
  bs_Get :: "cid \<Rightarrow> 's \<Rightarrow> bytes res \<times> 's"
  bs_Delete :: "cid \<Rightarrow> 's \<Rightarrow> unit res \<times> 's"
  bs_Has :: "cid \<Rightarrow> 's \<Rightarrow> bool res"
  bs_AllKeys :: "'s \<Rightarrow> cid list res"

definition usage :: "('k \<rightharpoonup> bytes) \<Rightarrow> int" where
  "usage m = (\<Sum>k \<in> dom m. int (length (the (m k))))"

lemma usage_empty [simp]: "usage Map.empty = 0"
  by (simp add: usage_def)

lemma usage_upd:
  "finite (dom m) \<Longrightarrow> m k = None \<Longrightarrow> usage (m(k \<mapsto> d)) = usage m + int (length d)"
  unfolding usage_def by (subst dom_fun_upd) (auto simp: domIff intro!: sum.cong)

lemma usage_del:
  assumes "finite (dom m)" "m k = Some d"
  shows "usage (m(k := None)) = usage m - int (length d)"
proof -
  have "k \<in> dom m" using assms(2) by auto
  then have "usage m = int (length d) + (\<Sum>j \<in> dom m - {k}. int (length (the (m j))))"
    unfolding usage_def using assms by (subst sum.remove [of _ k]) auto
  moreover have "usage (m(k := None)) = (\<Sum>j \<in> dom m - {k}. int (length (the (m j))))"
    unfolding usage_def by (rule sum.cong) auto
  ultimately show ?thesis by simp
qed

lemma usage_nonneg [simp]: "0 \<le> usage m"
  by (simp add: usage_def sum_nonneg)

lemma usage_not_neg [simp]: "\<not> usage m < 0"
  by (simp add: not_less)

lemma usage_ge: "finite (dom m) \<Longrightarrow> m k = Some d \<Longrightarrow> int (length d) \<le> usage m"
  using usage_del [of m k d] usage_nonneg [of "m(k := None)"] by simp

text \<open>
  \<open>kf\<close> is what the store keys on. Blocks are content addressed, so a \<open>Put\<close> is
  coherent: the store has nothing under the key, or the same bytes.
\<close>

locale block_store =
  fixes ops :: "'s bs_ops" and kf :: "cid \<Rightarrow> 'k"
    and inv :: "'s \<Rightarrow> bool" and content :: "'s \<Rightarrow> 'k \<rightharpoonup> bytes"
  assumes finite_content: "inv s \<Longrightarrow> finite (dom (content s))"
    and put: "inv s \<Longrightarrow> content s (kf k) \<in> {None, Some d} \<Longrightarrow> bs_Put ops k d s = (r, s') \<Longrightarrow>
      inv s' \<and> content s' = (if r = Inr () then (content s)(kf k \<mapsto> d) else content s)"
    and get: "inv s \<Longrightarrow> bs_Get ops k s = (b, s') \<Longrightarrow>
      inv s' \<and> content s' = content s \<and>
      (case content s (kf k) of Some d \<Rightarrow> b = Inr d | None \<Rightarrow> b \<in> range Inl)"
    and delete: "inv s \<Longrightarrow> bs_Delete ops k s = (r, s') \<Longrightarrow>
      inv s' \<and> content s' = (if r = Inr () then (content s)(kf k := None) else content s)"
    and has: "inv s \<Longrightarrow> bs_Has ops k s = Inr (content s (kf k) \<noteq> None)"
    and keys: "inv s \<Longrightarrow> \<exists>ks. bs_AllKeys ops s = Inr ks \<and> distinct (map kf ks) \<and>
      kf ` set ks = dom (content s)"
begin

text \<open>What a client sees: a stored block is read back until it is deleted.\<close>

lemma get_after_put:
  assumes "inv s" "content s (kf k) \<in> {None, Some d}" "bs_Put ops k d s = (Inr (), s')"
  shows "fst (bs_Get ops k s') = Inr d"
proof -
  have "inv s'" "content s' (kf k) = Some d" using put [OF assms] by simp_all
  then show ?thesis using get [of s' k "fst (bs_Get ops k s')" "snd (bs_Get ops k s')"] by simp
qed

lemma has_after_delete:
  assumes "inv s" "bs_Delete ops k s = (Inr (), s')"
  shows "bs_Has ops k s' = Inr False"
  using delete [OF assms] has [of s' k] by simp

lemma put_other:
  assumes "inv s" "content s (kf k) \<in> {None, Some d}" "bs_Put ops k d s = (r, s')" "kf j \<noteq> kf k"
  shows "content s' (kf j) = content s (kf j)"
  using put [OF assms(1-3)] assms(4) by simp

end

section \<open>The in-memory store\<close>

type_synonym testMemStore = "(cid \<times> bytes) list"

definition newTestMemStore :: testMemStore where "newTestMemStore = []"

definition mem_Put :: "cid \<Rightarrow> bytes \<Rightarrow> testMemStore \<Rightarrow> unit res \<times> testMemStore" where
  "mem_Put key data m = (Inr (), aupd key data m)"

definition mem_Get :: "cid \<Rightarrow> testMemStore \<Rightarrow> bytes res \<times> testMemStore" where
  "mem_Get key m =
     ((case map_of m key of None \<Rightarrow> Inl (Errorf ''block not found'') | Some d \<Rightarrow> Inr d), m)"

definition mem_Delete :: "cid \<Rightarrow> testMemStore \<Rightarrow> unit res \<times> testMemStore" where
  "mem_Delete key m = (Inr (), adel key m)"

definition mem_Has :: "cid \<Rightarrow> testMemStore \<Rightarrow> bool res" where
  "mem_Has key m = Inr (map_of m key \<noteq> None)"

definition mem_AllKeysChan :: "testMemStore \<Rightarrow> cid list res" where
  "mem_AllKeysChan m = Inr (map fst m)"

definition mem_ops :: "testMemStore bs_ops" where
  "mem_ops = \<lparr>bs_Put = mem_Put, bs_Get = mem_Get, bs_Delete = mem_Delete, bs_Has = mem_Has,
     bs_AllKeys = mem_AllKeysChan\<rparr>"

lemmas mem_defs = mem_ops_def mem_Put_def mem_Get_def mem_Delete_def mem_Has_def mem_AllKeysChan_def

interpretation mem: block_store mem_ops "\<lambda>k. k" "\<lambda>m. distinct (map fst m)" map_of
  by unfold_locales (auto simp: mem_defs finite_dom_map_of dom_map_of_conv_image_fst
      split: option.splits dest: eq_key_imp_eq_value)

section \<open>The quota wrapper\<close>

definition storageFullPrefix :: string where "storageFullPrefix = ''storage full''"

definition IsStorageFull :: "err option \<Rightarrow> bool" where
  "IsStorageFull e =
     (case e of None \<Rightarrow> False
      | Some x \<Rightarrow> errors_is x ErrStorageFull \<or> str_contains (err_text x) storageFullPrefix)"

record 's quotaBlockStore =
  q_inner :: 's
  q_maxBytes :: int
  q_usedBytes :: int

fun sum_sizes :: "'s bs_ops \<Rightarrow> cid list \<Rightarrow> 's \<Rightarrow> int \<times> 's" where
  "sum_sizes ops [] s = (0, s)"
| "sum_sizes ops (k # ks) s =
     (case bs_Get ops k s of
        (Inl _, s1) \<Rightarrow> sum_sizes ops ks s1
      | (Inr d, s1) \<Rightarrow> (let (t, s2) = sum_sizes ops ks s1 in (int (length d) + t, s2)))"

definition newQuotaBlockStore :: "'s bs_ops \<Rightarrow> 's \<Rightarrow> int \<Rightarrow> 's quotaBlockStore res" where
  "newQuotaBlockStore ops s maxB =
     (case bs_AllKeys ops s of
        Inl e \<Rightarrow> Inl e
      | Inr ks \<Rightarrow> (let (t, s1) = sum_sizes ops ks s
                  in Inr \<lparr>q_inner = s1, q_maxBytes = maxB, q_usedBytes = t\<rparr>))"

definition quota_Put ::
  "'s bs_ops \<Rightarrow> cid \<Rightarrow> bytes \<Rightarrow> 's quotaBlockStore \<Rightarrow> unit res \<times> 's quotaBlockStore" where
  "quota_Put ops key data q =
     (case bs_Has ops key (q_inner q) of
        Inl e \<Rightarrow> (Inl e, q)
      | Inr has \<Rightarrow>
          if has then (Inr (), q)
          else let size = int (length data) in
            if q_maxBytes q > 0 \<and> q_usedBytes q + size > q_maxBytes q then (Inl ErrStorageFull, q)
            else (case bs_Put ops key data (q_inner q) of
                    (Inl e, s) \<Rightarrow> (Inl e, q\<lparr>q_inner := s\<rparr>)
                  | (Inr u, s) \<Rightarrow> (Inr (), q\<lparr>q_inner := s, q_usedBytes := q_usedBytes q + size\<rparr>)))"

definition quota_Get :: "'s bs_ops \<Rightarrow> cid \<Rightarrow> 's quotaBlockStore \<Rightarrow> bytes res \<times> 's quotaBlockStore" where
  "quota_Get ops key q = (case bs_Get ops key (q_inner q) of (r, s) \<Rightarrow> (r, q\<lparr>q_inner := s\<rparr>))"

definition quota_Delete :: "'s bs_ops \<Rightarrow> cid \<Rightarrow> 's quotaBlockStore \<Rightarrow> unit res \<times> 's quotaBlockStore" where
  "quota_Delete ops key q =
     (case bs_Get ops key (q_inner q) of
        (Inl _, s) \<Rightarrow> (case bs_Delete ops key s of (r, s') \<Rightarrow> (r, q\<lparr>q_inner := s'\<rparr>))
      | (Inr d, s) \<Rightarrow>
          (case bs_Delete ops key s of
             (Inl e, s') \<Rightarrow> (Inl e, q\<lparr>q_inner := s'\<rparr>)
           | (Inr u, s') \<Rightarrow>
               let newUsed = q_usedBytes q - int (length d)
               in (Inr (), q\<lparr>q_inner := s', q_usedBytes := (if newUsed < 0 then 0 else newUsed)\<rparr>)))"

definition quota_ops :: "'s bs_ops \<Rightarrow> 's quotaBlockStore bs_ops" where
  "quota_ops ops = \<lparr>bs_Put = quota_Put ops, bs_Get = quota_Get ops, bs_Delete = quota_Delete ops,
     bs_Has = (\<lambda>k q. bs_Has ops k (q_inner q)), bs_AllKeys = (\<lambda>q. bs_AllKeys ops (q_inner q))\<rparr>"

section \<open>The read cache\<close>

record cacheEntry =
  ce_key :: cid
  ce_data :: bytes

text \<open>
  \<open>order\<close> is the list from most to least recently used, tagged with the multihash
  string under which the map \<open>items\<close> holds the element.
\<close>

record 's cachedBlockStore =
  c_inner :: 's
  c_order :: "(string \<times> cacheEntry) list"
  c_curBytes :: int
  c_maxBytes :: int

definition DefaultCacheOpts :: int where "DefaultCacheOpts = 64 * 2 ^ 20"

definition newCachedBlockStore :: "'s \<Rightarrow> int \<Rightarrow> 's cachedBlockStore" where
  "newCachedBlockStore s maxB =
     \<lparr>c_inner = s, c_order = [], c_curBytes = 0,
      c_maxBytes = (if maxB \<le> 0 then DefaultCacheOpts else maxB)\<rparr>"

definition removeLocked :: "string \<Rightarrow> 's cachedBlockStore \<Rightarrow> 's cachedBlockStore" where
  "removeLocked mh c =
     (case map_of (c_order c) mh of
        None \<Rightarrow> c
      | Some e \<Rightarrow> c\<lparr>c_order := adel mh (c_order c),
                   c_curBytes := c_curBytes c - int (length (ce_data e))\<rparr>)"

function evictLocked :: "'s cachedBlockStore \<Rightarrow> 's cachedBlockStore" where
  "evictLocked c =
     (if c_curBytes c > c_maxBytes c \<and> c_order c \<noteq> []
      then evictLocked (removeLocked (fst (last (c_order c))) c) else c)"
  by pat_completeness auto

lemma removeLocked_shrinks:
  assumes "c_order c \<noteq> []"
  shows "length (c_order (removeLocked (fst (last (c_order c))) c)) < length (c_order c)"
proof -
  let ?mh = "fst (last (c_order c))"
  have mem: "last (c_order c) \<in> set (c_order c)" using assms by simp
  then have "?mh \<in> fst ` set (c_order c)" by (rule imageI)
  then obtain e where e: "map_of (c_order c) ?mh = Some e"
    by (metis domIff dom_map_of_conv_image_fst option.exhaust)
  have "length (adel ?mh (c_order c)) < length (c_order c)"
    unfolding AList.delete_eq using mem by (intro length_filter_less [of "last (c_order c)"]) auto
  then show ?thesis using e by (simp add: removeLocked_def)
qed

termination evictLocked
  by (relation "measure (\<lambda>c. length (c_order c))") (simp_all add: removeLocked_shrinks)

declare evictLocked.simps [simp del]

definition cache_put :: "cid \<Rightarrow> bytes \<Rightarrow> 's cachedBlockStore \<Rightarrow> 's cachedBlockStore" where
  "cache_put key data c =
     (let size = int (length data); mh = HexString key in
      if size > c_maxBytes c then c
      else case map_of (c_order c) mh of
        Some old \<Rightarrow>
          evictLocked (c\<lparr>c_curBytes := c_curBytes c + (size - int (length (ce_data old))),
                         c_order := (mh, old\<lparr>ce_data := data\<rparr>) # adel mh (c_order c)\<rparr>)
      | None \<Rightarrow>
          evictLocked (c\<lparr>c_curBytes := c_curBytes c + size,
                         c_order := (mh, \<lparr>ce_key = key, ce_data = data\<rparr>) # c_order c\<rparr>))"

definition evict :: "cid \<Rightarrow> 's cachedBlockStore \<Rightarrow> 's cachedBlockStore" where
  "evict key c = removeLocked (HexString key) c"

definition cache_Get :: "'s bs_ops \<Rightarrow> cid \<Rightarrow> 's cachedBlockStore \<Rightarrow> bytes res \<times> 's cachedBlockStore" where
  "cache_Get ops key c =
     (let mh = HexString key in
      case map_of (c_order c) mh of
        Some e \<Rightarrow> (Inr (ce_data e), c\<lparr>c_order := (mh, e) # adel mh (c_order c)\<rparr>)
      | None \<Rightarrow>
          (case bs_Get ops key (c_inner c) of
             (Inl e, s) \<Rightarrow> (Inl e, c\<lparr>c_inner := s\<rparr>)
           | (Inr d, s) \<Rightarrow> (Inr d, cache_put key d (c\<lparr>c_inner := s\<rparr>))))"

definition cache_Put :: "'s bs_ops \<Rightarrow> cid \<Rightarrow> bytes \<Rightarrow> 's cachedBlockStore \<Rightarrow> unit res \<times> 's cachedBlockStore" where
  "cache_Put ops key data c =
     (case bs_Put ops key data (c_inner c) of
        (Inl e, s) \<Rightarrow> (Inl e, c\<lparr>c_inner := s\<rparr>)
      | (Inr u, s) \<Rightarrow> (Inr (), cache_put key data (c\<lparr>c_inner := s\<rparr>)))"

definition cache_Delete :: "'s bs_ops \<Rightarrow> cid \<Rightarrow> 's cachedBlockStore \<Rightarrow> unit res \<times> 's cachedBlockStore" where
  "cache_Delete ops key c =
     (let c1 = evict key c in
      case bs_Delete ops key (c_inner c1) of (r, s) \<Rightarrow> (r, c1\<lparr>c_inner := s\<rparr>))"

definition cache_Has :: "'s bs_ops \<Rightarrow> cid \<Rightarrow> 's cachedBlockStore \<Rightarrow> bool res" where
  "cache_Has ops key c =
     (if map_of (c_order c) (HexString key) \<noteq> None then Inr True else bs_Has ops key (c_inner c))"

definition cache_ops :: "'s bs_ops \<Rightarrow> 's cachedBlockStore bs_ops" where
  "cache_ops ops = \<lparr>bs_Put = cache_Put ops, bs_Get = cache_Get ops, bs_Delete = cache_Delete ops,
     bs_Has = cache_Has ops, bs_AllKeys = (\<lambda>c. bs_AllKeys ops (c_inner c))\<rparr>"

section \<open>The quota wrapper keeps the contract\<close>

definition quota_inv :: "('s \<Rightarrow> bool) \<Rightarrow> ('s \<Rightarrow> 'k \<rightharpoonup> bytes) \<Rightarrow> 's quotaBlockStore \<Rightarrow> bool" where
  "quota_inv I content q \<longleftrightarrow> I (q_inner q) \<and> q_usedBytes q = usage (content (q_inner q))"

lemmas quota_defs = quota_ops_def quota_Put_def quota_Get_def quota_Delete_def quota_inv_def

context block_store
begin

lemma quota_put:
  assumes q: "quota_inv inv content q" and c: "content (q_inner q) (kf k) \<in> {None, Some d}"
    and p: "quota_Put ops k d q = (r, q')"
  shows "quota_inv inv content q' \<and>
    content (q_inner q') =
      (if r = Inr () then (content (q_inner q))(kf k \<mapsto> d) else content (q_inner q))"
proof -
  let ?s = "q_inner q"
  have i: "inv ?s" and u: "q_usedBytes q = usage (content ?s)" using q by (simp_all add: quota_inv_def)
  show ?thesis
  proof (cases "content ?s (kf k)")
    case (Some b)
    then show ?thesis using c p q has [OF i, of k] by (auto simp: quota_Put_def fun_upd_idem)
  next
    case None
    show ?thesis
    proof (cases "q_maxBytes q > 0 \<and> q_usedBytes q + int (length d) > q_maxBytes q")
      case True
      then show ?thesis using p q None has [OF i, of k] by (auto simp: quota_Put_def)
    next
      case False
      obtain x s where x: "bs_Put ops k d ?s = (x, s)" by fastforce
      note P = put [OF i c x]
      show ?thesis
      proof (cases x)
        case (Inl e)
        then show ?thesis
          using p q None has [OF i, of k] False x P by (auto simp: quota_Put_def quota_inv_def)
      next
        case (Inr v)
        have "usage ((content ?s)(kf k \<mapsto> d)) = usage (content ?s) + int (length d)"
          using finite_content [OF i] None by (rule usage_upd)
        then show ?thesis
          using p u None has [OF i, of k] False x P Inr by (auto simp: quota_Put_def quota_inv_def)
      qed
    qed
  qed
qed

lemma quota_delete:
  assumes q: "quota_inv inv content q" and p: "quota_Delete ops k q = (r, q')"
  shows "quota_inv inv content q' \<and>
    content (q_inner q') =
      (if r = Inr () then (content (q_inner q))(kf k := None) else content (q_inner q))"
proof -
  let ?s = "q_inner q"
  have i: "inv ?s" and u: "q_usedBytes q = usage (content ?s)" using q by (simp_all add: quota_inv_def)
  obtain b s where b: "bs_Get ops k ?s = (b, s)" by fastforce
  note G = get [OF i b]
  then have si: "inv s" and sc: "content s = content ?s" by simp_all
  obtain x s' where x: "bs_Delete ops k s = (x, s')" by fastforce
  note D = delete [OF si x]
  show ?thesis
  proof (cases "content ?s (kf k)")
    case None
    then obtain e where "b = Inl e" using G by auto
    moreover have "(content ?s)(kf k := None) = content ?s" using None by auto
    ultimately show ?thesis using p b x D u sc by (auto simp: quota_Delete_def quota_inv_def)
  next
    case (Some d)
    then have "b = Inr d" using G by simp
    moreover have "usage ((content ?s)(kf k := None)) = usage (content ?s) - int (length d)"
      using finite_content [OF i] Some by (rule usage_del)
    moreover have "int (length d) \<le> usage (content ?s)"
      using finite_content [OF i] Some by (rule usage_ge)
    ultimately show ?thesis using p b x D u sc
      by (cases x) (auto simp: quota_Delete_def quota_inv_def Let_def)
  qed
qed

lemma quota_block_store:
  "block_store (quota_ops ops) kf (quota_inv inv content) (\<lambda>q. content (q_inner q))"
proof (unfold_locales, goal_cases)
  case (1 s)
  then show ?case by (simp add: quota_inv_def finite_content)
next
  case (2 s k d r s')
  then show ?case using quota_put [of s k d r s'] by (simp add: quota_ops_def)
next
  case (3 s k b s')
  then obtain x where x: "bs_Get ops k (q_inner s) = (b, x)" "s' = s\<lparr>q_inner := x\<rparr>"
    by (auto simp: quota_defs split: prod.splits)
  with 3 get [of "q_inner s" k b x] show ?case by (simp add: quota_inv_def)
next
  case (4 s k r s')
  then show ?case using quota_delete [of s k r s'] by (simp add: quota_ops_def)
next
  case (5 s k)
  then show ?case by (simp add: quota_ops_def quota_inv_def has)
next
  case (6 s)
  then show ?case by (simp add: quota_ops_def quota_inv_def keys)
qed

lemma sum_sizes_usage:
  assumes "inv s" "distinct (map kf ks)"
  shows "inv (snd (sum_sizes ops ks s)) \<and> content (snd (sum_sizes ops ks s)) = content s \<and>
    fst (sum_sizes ops ks s) = usage (content s |` (kf ` set ks))"
  using assms
proof (induction ks arbitrary: s)
  case (Cons k ks)
  obtain b s1 where b: "bs_Get ops k s = (b, s1)" by fastforce
  note G = get [OF Cons.prems(1) b]
  have IH: "inv (snd (sum_sizes ops ks s1))" "content (snd (sum_sizes ops ks s1)) = content s1"
    "fst (sum_sizes ops ks s1) = usage (content s1 |` (kf ` set ks))"
    using Cons.IH [of s1] G Cons.prems(2) by simp_all
  have fin: "finite (dom (content s |` (kf ` set ks)))"
    using finite_content [OF Cons.prems(1)] by simp
  have nin: "kf k \<notin> kf ` set ks" using Cons.prems(2) by simp
  show ?case
  proof (cases "content s (kf k)")
    case None
    then have "content s |` insert (kf k) (kf ` set ks) = content s |` (kf ` set ks)"
      by (auto simp: restrict_map_def fun_eq_iff)
    then show ?thesis using b G IH None by auto
  next
    case (Some d)
    have "content s |` insert (kf k) (kf ` set ks) = (content s |` (kf ` set ks))(kf k \<mapsto> d)"
      using Some by (auto simp: restrict_map_def fun_eq_iff)
    moreover have "usage ((content s |` (kf ` set ks))(kf k \<mapsto> d)) =
        usage (content s |` (kf ` set ks)) + int (length d)"
      using fin nin by (intro usage_upd) (simp_all add: restrict_map_def)
    ultimately show ?thesis using b G IH Some by (simp add: case_prod_beta Let_def del: fun_upd_apply)
  qed
qed simp

lemma newQuota_inv:
  assumes "inv s" "newQuotaBlockStore ops s m = Inr q"
  shows "quota_inv inv content q \<and> content (q_inner q) = content s \<and> q_maxBytes q = m"
proof -
  obtain ks where ks: "bs_AllKeys ops s = Inr ks" "distinct (map kf ks)" "kf ` set ks = dom (content s)"
    using keys [OF assms(1)] by blast
  have "content s |` dom (content s) = content s"
    by (auto simp: restrict_map_def fun_eq_iff dom_def)
  with sum_sizes_usage [OF assms(1) ks(2)] ks assms(2) show ?thesis
    by (auto simp: newQuotaBlockStore_def quota_inv_def case_prod_beta)
qed

end

interpretation quota_mem: block_store "quota_ops mem_ops" "\<lambda>k. k"
    "quota_inv (\<lambda>m. distinct (map fst m)) map_of" "\<lambda>q. map_of (q_inner q)"
  by (rule mem.quota_block_store)

section \<open>The cache keeps the contract\<close>

abbreviation entry_size :: "string \<times> cacheEntry \<Rightarrow> int" where
  "entry_size x \<equiv> int (length (ce_data (snd x)))"

text \<open>The cache agrees with the store below it, and its byte count with its entries.\<close>

definition cache_pre :: "(string \<rightharpoonup> bytes) \<Rightarrow> 's cachedBlockStore \<Rightarrow> bool" where
  "cache_pre m c \<longleftrightarrow>
     distinct (map fst (c_order c)) \<and>
     (\<forall>x \<in> set (c_order c). m (fst x) = Some (ce_data (snd x))) \<and>
     c_curBytes c = sum_list (map entry_size (c_order c)) \<and> 0 \<le> c_maxBytes c"

definition cache_ok :: "(string \<rightharpoonup> bytes) \<Rightarrow> 's cachedBlockStore \<Rightarrow> bool" where
  "cache_ok m c \<longleftrightarrow> cache_pre m c \<and> c_curBytes c \<le> c_maxBytes c"

definition cache_inv :: "('s \<Rightarrow> bool) \<Rightarrow> ('s \<Rightarrow> string \<rightharpoonup> bytes) \<Rightarrow> 's cachedBlockStore \<Rightarrow> bool" where
  "cache_inv I content c \<longleftrightarrow> I (c_inner c) \<and> cache_ok (content (c_inner c)) c"

lemma sum_list_adel:
  assumes "distinct (map fst xs)" "map_of xs k = Some e"
  shows "sum_list (map f (adel k xs)) = sum_list (map f xs) - (f (k, e) :: int)"
  using assms
proof (induction xs)
  case (Cons x xs)
  show ?case
  proof (cases "fst x = k")
    case True
    then have "k \<notin> fst ` set xs" using Cons.prems(1) by auto
    then have "adel k xs = xs" by (rule adel_id)
    then show ?thesis using Cons.prems(2) True by (cases x) simp
  next
    case False
    then show ?thesis using Cons by (cases x) simp
  qed
qed simp

lemma map_of_order_inner [simp]: "c_inner (removeLocked mh c) = c_inner c"
  "c_maxBytes (removeLocked mh c) = c_maxBytes c"
  by (simp_all add: removeLocked_def split: option.split)

lemma removeLocked_pre:
  assumes "cache_pre m c"
  shows "cache_pre m (removeLocked mh c)"
  using assms
  by (auto simp: cache_pre_def removeLocked_def sum_list_adel dest: set_adelD
      split: option.split)

lemma removeLocked_gone: "cache_pre m c \<Longrightarrow> map_of (c_order (removeLocked mh c)) mh = None"
  by (simp add: removeLocked_def split: option.split)

lemma removeLocked_sub: "set (c_order (removeLocked mh c)) \<subseteq> set (c_order c)"
  by (auto simp: removeLocked_def dest: set_adelD split: option.split)

lemma evictLocked_ok:
  "cache_pre m c \<Longrightarrow>
   cache_ok m (evictLocked c) \<and> c_inner (evictLocked c) = c_inner c \<and> c_maxBytes (evictLocked c) = c_maxBytes c"
proof (induction c rule: evictLocked.induct)
  case (1 c)
  show ?case
  proof (cases "c_curBytes c > c_maxBytes c \<and> c_order c \<noteq> []")
    case True
    then show ?thesis using 1 removeLocked_pre [OF 1(2)] by (subst (1 2 3) evictLocked.simps) simp
  next
    case False
    then have "c_curBytes c \<le> c_maxBytes c" using 1(2) by (auto simp: cache_pre_def)
    then show ?thesis using False 1(2) by (subst (1 2 3) evictLocked.simps) (simp add: cache_ok_def)
  qed
qed

lemma cache_pre_front:
  assumes "cache_pre m c" "map_of (c_order c) mh = Some e"
  shows "cache_pre m (c\<lparr>c_order := (mh, e) # adel mh (c_order c)\<rparr>)"
  using assms
  by (auto simp: cache_pre_def sum_list_adel dest: set_adelD map_of_SomeD)

lemma cache_put_ok:
  assumes c: "cache_ok m c" and m: "m (HexString k) = Some d"
  shows "cache_ok m (cache_put k d c) \<and> c_inner (cache_put k d c) = c_inner c"
proof (cases "int (length d) > c_maxBytes c")
  case True
  then show ?thesis using c by (simp add: cache_put_def)
next
  case False
  let ?mh = "HexString k"
  have pre: "cache_pre m c" using c by (simp add: cache_ok_def)
  show ?thesis
  proof (cases "map_of (c_order c) ?mh")
    case None
    then have "?mh \<notin> fst ` set (c_order c)" by (simp add: map_of_eq_None_iff)
    then have "cache_pre m (c\<lparr>c_curBytes := c_curBytes c + int (length d),
        c_order := (?mh, \<lparr>ce_key = k, ce_data = d\<rparr>) # c_order c\<rparr>)"
      using pre m by (auto simp: cache_pre_def)
    from evictLocked_ok [OF this] show ?thesis using None False by (simp add: cache_put_def Let_def)
  next
    case (Some old)
    have "ce_data old = d"
      using pre m map_of_SomeD [OF Some] by (auto simp: cache_pre_def)
    then have "old\<lparr>ce_data := d\<rparr> = old" by simp
    then have "cache_pre m (c\<lparr>c_curBytes := c_curBytes c + (int (length d) - int (length (ce_data old))),
        c_order := (?mh, old\<lparr>ce_data := d\<rparr>) # adel ?mh (c_order c)\<rparr>)"
      using cache_pre_front [OF pre Some] \<open>ce_data old = d\<close>
      by (simp only: \<open>old\<lparr>ce_data := d\<rparr> = old\<close>) simp
    from evictLocked_ok [OF this] show ?thesis using Some False by (simp add: cache_put_def Let_def)
  qed
qed

lemma cache_ok_inner [simp]: "cache_ok m (c\<lparr>c_inner := s\<rparr>) = cache_ok m c"
  by (simp add: cache_ok_def cache_pre_def)

lemma cache_ok_cong:
  "cache_ok m c \<Longrightarrow> (\<And>x. x \<in> set (c_order c) \<Longrightarrow> m' (fst x) = m (fst x)) \<Longrightarrow> cache_ok m' c"
  by (simp add: cache_ok_def cache_pre_def)

lemma cache_ok_hit:
  "cache_ok m c \<Longrightarrow> map_of (c_order c) mh = Some e \<Longrightarrow> m mh = Some (ce_data e)"
  by (auto simp: cache_ok_def cache_pre_def dest: map_of_SomeD)

lemma cache_Put_ok:
  assumes bs: "block_store ops HexString I content" and c: "cache_inv I content c"
    and coh: "content (c_inner c) (HexString k) \<in> {None, Some d}"
    and p: "cache_Put ops k d c = (r, c')"
  shows "cache_inv I content c' \<and> content (c_inner c') =
    (if r = Inr () then (content (c_inner c))(HexString k \<mapsto> d) else content (c_inner c))"
proof -
  let ?m = "content (c_inner c)" and ?mh = "HexString k"
  have i: "I (c_inner c)" and ok: "cache_ok ?m c" using c by (simp_all add: cache_inv_def)
  obtain x s where x: "bs_Put ops k d (c_inner c) = (x, s)" by fastforce
  note P = block_store.put [OF bs i coh x]
  show ?thesis
  proof (cases x)
    case (Inl e)
    then show ?thesis using p x P ok by (auto simp: cache_Put_def cache_inv_def)
  next
    case (Inr u)
    have "cache_ok (?m(?mh \<mapsto> d)) c"
      using ok coh by (rule_tac cache_ok_cong) (auto simp: cache_ok_def cache_pre_def)
    then have "cache_ok (content s) (c\<lparr>c_inner := s\<rparr>)" using P Inr by simp
    from cache_put_ok [OF this, of k d] show ?thesis
      using p x P Inr by (auto simp: cache_Put_def cache_inv_def)
  qed
qed

lemma cache_Get_ok:
  assumes bs: "block_store ops HexString I content" and c: "cache_inv I content c"
    and g: "cache_Get ops k c = (b, c')"
  shows "cache_inv I content c' \<and> content (c_inner c') = content (c_inner c) \<and>
    (case content (c_inner c) (HexString k) of Some d \<Rightarrow> b = Inr d | None \<Rightarrow> b \<in> range Inl)"
proof -
  let ?m = "content (c_inner c)" and ?mh = "HexString k"
  have i: "I (c_inner c)" and ok: "cache_ok ?m c" using c by (simp_all add: cache_inv_def)
  show ?thesis
  proof (cases "map_of (c_order c) ?mh")
    case (Some e)
    then show ?thesis
      using g i ok cache_ok_hit [OF ok Some] cache_pre_front [of ?m c ?mh e]
      by (auto simp: cache_Get_def cache_inv_def cache_ok_def Let_def)
  next
    case None
    obtain x s where x: "bs_Get ops k (c_inner c) = (x, s)" by fastforce
    note G = block_store.get [OF bs i x]
    show ?thesis
    proof (cases "?m ?mh")
      case m: None
      then show ?thesis using g x G ok None by (auto simp: cache_Get_def cache_inv_def)
    next
      case m: (Some d)
      then have "cache_ok (content s) (c\<lparr>c_inner := s\<rparr>)" "content s ?mh = Some d" "x = Inr d"
        using G ok by simp_all
      with cache_put_ok [OF this(1,2)] show ?thesis
        using g x G m None by (auto simp: cache_Get_def cache_inv_def)
    qed
  qed
qed

lemma cache_Delete_ok:
  assumes bs: "block_store ops HexString I content" and c: "cache_inv I content c"
    and d: "cache_Delete ops k c = (r, c')"
  shows "cache_inv I content c' \<and> content (c_inner c') =
    (if r = Inr () then (content (c_inner c))(HexString k := None) else content (c_inner c))"
proof -
  let ?m = "content (c_inner c)" and ?mh = "HexString k"
  let ?c = "removeLocked ?mh c"
  have i: "I (c_inner c)" and ok: "cache_ok ?m c" using c by (simp_all add: cache_inv_def)
  obtain s where s: "bs_Delete ops k (c_inner c) = (r, s)" "c' = ?c\<lparr>c_inner := s\<rparr>"
    using d by (auto simp: cache_Delete_def evict_def Let_def split: prod.splits)
  have pre: "cache_pre ?m c" using ok by (simp add: cache_ok_def)
  have "c_curBytes ?c \<le> c_maxBytes ?c"
    using ok by (auto simp: removeLocked_def cache_ok_def split: option.split)
  then have ok': "cache_ok ?m ?c" using removeLocked_pre [OF pre] by (simp add: cache_ok_def)
  have "?mh \<notin> fst ` set (c_order ?c)"
    using removeLocked_gone [OF pre, of ?mh] by (simp add: map_of_eq_None_iff)
  then have "cache_ok (?m(?mh := None)) ?c" by (intro cache_ok_cong [OF ok']) (auto simp: image_iff)
  then show ?thesis using block_store.delete [OF bs i s(1)] s ok' by (simp add: cache_inv_def)
qed

text \<open>
  C30. The read cache is transparent: over any store that keeps the \<open>BlockStore\<close> contract
  and keys on the multihash, the cached store keeps the same contract with the same
  content, and it never holds more bytes than its limit.
\<close>

theorem cache_transparent:
  assumes bs: "block_store ops HexString I content"
  shows "block_store (cache_ops ops) HexString (cache_inv I content) (\<lambda>c. content (c_inner c))
    \<and> (\<forall>c. cache_inv I content c \<longrightarrow> sum_list (map entry_size (c_order c)) \<le> c_maxBytes c)"
proof (intro conjI allI impI)
  show "block_store (cache_ops ops) HexString (cache_inv I content) (\<lambda>c. content (c_inner c))"
  proof (unfold_locales, goal_cases)
    case (1 s)
    then show ?case by (simp add: cache_inv_def block_store.finite_content [OF bs])
  next
    case (2 c k d r c')
    then show ?case using cache_Put_ok [OF bs 2(1,2)] by (simp add: cache_ops_def)
  next
    case (3 c k b c')
    then show ?case using cache_Get_ok [OF bs 3(1)] by (simp add: cache_ops_def)
  next
    case (4 c k r c')
    then show ?case using cache_Delete_ok [OF bs 4(1)] by (simp add: cache_ops_def)
  next
    case (5 c k)
    then show ?case
      using block_store.has [OF bs, of "c_inner c" k] cache_ok_hit [of "content (c_inner c)" c "HexString k"]
      by (auto simp: cache_ops_def cache_Has_def cache_inv_def)
  next
    case (6 c)
    then show ?case by (simp add: cache_ops_def cache_inv_def block_store.keys [OF bs])
  qed
  show "sum_list (map entry_size (c_order c)) \<le> c_maxBytes c" if "cache_inv I content c" for c
    using that by (simp add: cache_inv_def cache_ok_def cache_pre_def)
qed

text \<open>A concrete store keyed on the multihash.\<close>

definition hmem_ops :: "(bytes \<times> bytes) list bs_ops" where
  "hmem_ops = \<lparr>bs_Put = (\<lambda>k d s. (Inr (), aupd (Hash k) d s)),
     bs_Get = (\<lambda>k s. (case map_of s (Hash k) of Some d \<Rightarrow> Inr d | None \<Rightarrow> Inl (Errorf ''not found''), s)),
     bs_Delete = (\<lambda>k s. (Inr (), adel (Hash k) s)),
     bs_Has = (\<lambda>k s. Inr (map_of s (Hash k) \<noteq> None)),
     bs_AllKeys = (\<lambda>s. Inr (map (NewCidV1 codec_Raw \<circ> fst) s))\<rparr>"

definition hmem_content :: "(bytes \<times> bytes) list \<Rightarrow> string \<rightharpoonup> bytes" where
  "hmem_content s x = (case hex_DecodeString x of
     Some h \<Rightarrow> if hex_EncodeToString h = x then map_of s h else None | None \<Rightarrow> None)"

lemma hmem_content_hex [simp]: "hmem_content s (hex_EncodeToString h) = map_of s h"
  by (simp add: hmem_content_def)

lemma hmem_content_dom: "dom (hmem_content s) = hex_EncodeToString ` fst ` set s"
proof (rule set_eqI)
  fix x
  show "x \<in> dom (hmem_content s) \<longleftrightarrow> x \<in> hex_EncodeToString ` fst ` set s"
  proof (cases "\<exists>h. x = hex_EncodeToString h")
    case True
    then obtain h where h: "x = hex_EncodeToString h" by blast
    have "x \<in> hex_EncodeToString ` fst ` set s \<longleftrightarrow> h \<in> fst ` set s"
      unfolding h by (rule inj_image_mem_iff) (simp add: inj_def)
    then show ?thesis
      by (simp add: h domIff map_of_eq_None_iff del: not_None_eq)
  next
    case False
    then have "hmem_content s x = None" by (auto simp: hmem_content_def split: option.split)
    with False show ?thesis by (auto simp: domIff)
  qed
qed

lemma hmem_content_upd:
  "map_of s' = (map_of s)(h := v) \<Longrightarrow> hmem_content s' = (hmem_content s)(hex_EncodeToString h := v)"
  by (rule ext) (auto simp: hmem_content_def split: option.split)

interpretation hmem: block_store hmem_ops HexString "\<lambda>s. distinct (map fst s)" hmem_content
proof (unfold_locales, goal_cases)
  case (6 s)
  have "map HexString (map (NewCidV1 codec_Raw \<circ> fst) s) = map hex_EncodeToString (map fst s)"
    by (simp add: HexString_def comp_def)
  moreover have "distinct (map hex_EncodeToString (map fst s))"
    using 6 by (simp add: distinct_map inj_on_def)
  moreover have "HexString ` set (map (NewCidV1 codec_Raw \<circ> fst) s) = dom (hmem_content s)"
    by (simp add: hmem_content_dom HexString_def image_image)
  ultimately show ?case by (simp add: hmem_ops_def del: map_map)
qed (auto simp: hmem_ops_def HexString_def hmem_content_dom hmem_content_upd
    split: option.splits dest: eq_key_imp_eq_value)

theorem cache_transparent_witness:
  "block_store (cache_ops hmem_ops) HexString
     (cache_inv (\<lambda>s. distinct (map fst s)) hmem_content) (\<lambda>c. hmem_content (c_inner c))"
  using cache_transparent [OF hmem.block_store_axioms] by simp

text \<open>
  C31. The quota wrapper counts right. Over any store that keeps the \<open>BlockStore\<close> contract, \<open>newQuotaBlockStore\<close> starts
  with the bytes stored; the wrapped store keeps the contract, with the byte counter equal to
  the bytes stored, and a \<open>Put\<close> never takes them above the limit. A block that is there is not
  put again; a new one is refused with \<open>ErrStorageFull\<close> if there is a limit and the block would exceed it, and
  otherwise handed to the store below, whose answer is returned.
\<close>

theorem quota_exact:
  assumes bs: "block_store ops kf I content" and s: "I s"
  shows "block_store (quota_ops ops) kf (quota_inv I content) (\<lambda>q. content (q_inner q))
    \<and> (\<exists>q0. newQuotaBlockStore ops s m = Inr q0 \<and> quota_inv I content q0 \<and> content (q_inner q0) = content s \<and> q_maxBytes q0 = m)
    \<and> (quota_inv I content q \<and> 0 < q_maxBytes q \<and> usage (content (q_inner q)) \<le> q_maxBytes q
       \<and> content (q_inner q) (kf k) \<in> {None, Some d} \<and> quota_Put ops k d q = (r, q') \<longrightarrow>
         usage (content (q_inner q')) \<le> q_maxBytes q')
    \<and> (quota_inv I content q \<longrightarrow>
         quota_Put ops k d q =
           (if content (q_inner q) (kf k) \<noteq> None then (Inr (), q)
            else if 0 < q_maxBytes q \<and> usage (content (q_inner q)) + int (length d) > q_maxBytes q then (Inl ErrStorageFull, q)
            else (fst (bs_Put ops k d (q_inner q)),
                  q\<lparr>q_inner := snd (bs_Put ops k d (q_inner q)), q_usedBytes := usage (content (snd (bs_Put ops k d (q_inner q))))\<rparr>)))"
proof (intro conjI impI)
  show "block_store (quota_ops ops) kf (quota_inv I content) (\<lambda>q. content (q_inner q))"
    by (rule block_store.quota_block_store [OF bs])
next
  obtain ks where "bs_AllKeys ops s = Inr ks" using block_store.keys [OF bs s] by blast
  then obtain q0 where "newQuotaBlockStore ops s m = Inr q0" by (auto simp: newQuotaBlockStore_def case_prod_beta)
  then show "\<exists>q0. newQuotaBlockStore ops s m = Inr q0 \<and> quota_inv I content q0 \<and> content (q_inner q0) = content s \<and> q_maxBytes q0 = m"
    using block_store.newQuota_inv [OF bs s] by blast
next
  assume *: "quota_inv I content q \<and> 0 < q_maxBytes q \<and> usage (content (q_inner q)) \<le> q_maxBytes q
    \<and> content (q_inner q) (kf k) \<in> {None, Some d} \<and> quota_Put ops k d q = (r, q')"
  then have q': "q_usedBytes q' = usage (content (q_inner q'))"
    using block_store.quota_put [OF bs, of q k d r q'] by (simp add: quota_inv_def)
  have "q_usedBytes q' \<le> q_maxBytes q'"
    using * by (auto simp: quota_Put_def quota_inv_def Let_def split: sum.splits prod.splits if_splits)
  then show "usage (content (q_inner q')) \<le> q_maxBytes q'" using q' by simp
next
  assume q: "quota_inv I content q"
  let ?s = "q_inner q" and ?p = "bs_Put ops k d (q_inner q)"
  have i: "I ?s" and u: "q_usedBytes q = usage (content ?s)" using q by (simp_all add: quota_inv_def)
  note h = block_store.has [OF bs i, of k]
  have "usage (content (snd ?p)) = (if fst ?p = Inr () then usage (content ?s) + int (length d) else usage (content ?s))"
    if new: "content ?s (kf k) = None"
    using block_store.put [OF bs i, of k d "fst ?p" "snd ?p"] new usage_upd [OF block_store.finite_content [OF bs i] new, of d] by simp
  then show "quota_Put ops k d q =
      (if content ?s (kf k) \<noteq> None then (Inr (), q)
       else if 0 < q_maxBytes q \<and> usage (content ?s) + int (length d) > q_maxBytes q then (Inl ErrStorageFull, q)
       else (fst ?p, q\<lparr>q_inner := snd ?p, q_usedBytes := usage (content (snd ?p))\<rparr>))"
    using h u by (cases ?p; cases "fst ?p") (auto simp: quota_Put_def Let_def)
qed

definition wit_quota :: "testMemStore quotaBlockStore" where
  "wit_quota = \<lparr>q_inner = [(Cid 1 85 [1], [7, 7, 7])], q_maxBytes = 4, q_usedBytes = 3\<rparr>"

theorem quota_exact_witness:
  "newQuotaBlockStore mem_ops [(Cid 1 85 [1], [7, 7, 7])] 4 = Inr wit_quota
   \<and> quota_Put mem_ops (Cid 1 85 [2]) [8, 8] wit_quota = (Inl ErrStorageFull, wit_quota)
   \<and> fst (quota_Put mem_ops (Cid 1 85 [2]) [8] wit_quota) = Inr ()"
proof -
  have n: "newQuotaBlockStore mem_ops [(Cid 1 85 [1], [7, 7, 7])] 4 = Inr wit_quota"
    by (simp add: newQuotaBlockStore_def mem_defs wit_quota_def)
  have m: "distinct (map fst [(Cid 1 85 [1], [7, 7, 7 :: 8 word])])" by simp
  have u: "usage (map_of (q_inner wit_quota)) = 3" by (simp add: wit_quota_def usage_def)
  have i: "quota_inv (\<lambda>m. distinct (map fst m)) map_of wit_quota"
    using u by (simp add: quota_inv_def) (simp add: wit_quota_def)
  have q: "map_of (q_inner wit_quota) (Cid 1 85 [2]) = None" "q_maxBytes wit_quota = 4"
    by (simp_all add: wit_quota_def)
  note t = quota_exact [OF mem.block_store_axioms m, of 4 wit_quota "Cid 1 85 [2]" _ "Inr ()" wit_quota]
  have "quota_Put mem_ops (Cid 1 85 [2]) [8, 8] wit_quota = (Inl ErrStorageFull, wit_quota)"
    using t [of "[8, 8]"] i q u by (simp del: fun_upd_apply)
  moreover have "fst (quota_Put mem_ops (Cid 1 85 [2]) [8] wit_quota) = fst (mem_Put (Cid 1 85 [2]) [8] (q_inner wit_quota))"
    using t [of "[8]"] i q u by (simp add: mem_ops_def del: fun_upd_apply)
  ultimately show ?thesis using n by (simp add: mem_Put_def)
qed

text \<open>
  The storage-full condition is still recognised after an RPC boundary has reduced the
  error to its text.
\<close>

lemma storage_full_survives_rpc:
  assumes "errors_is e ErrStorageFull"
  shows "IsStorageFull (Some e) \<and> IsStorageFull (Some (Errorf (err_text e)))"
proof -
  have "str_contains (err_text e) (err_text ErrStorageFull)"
    using assms by (rule err_text_errors_is)
  moreover have "str_contains (err_text ErrStorageFull) storageFullPrefix"
    by (simp add: str_contains_iff storageFullPrefix_def) (rule exI [of _ "[]"], rule exI, simp)
  ultimately have "str_contains (err_text e) storageFullPrefix" by (rule str_contains_trans)
  then show ?thesis using assms by (simp add: IsStorageFull_def)
qed

end
