(* ===== verification/Net_Store.thy ===== *)
theory Net_Store
  imports Block_Iface
begin

text \<open>
  The network block store of \<open>store/network_block_store.go\<close>: one pool of blocks shared
  by all rings of a host, with an aggregate byte quota, and per ring an index of which
  roots keep which block, byte and block counters, a quota and the expiry of the roots.

  The key-value store (\<open>leveldb\<close>), the block store below (\<open>boxo\<close>), the CBOR codec of the
  root record and the text form of a CID come from outside the repository; they are the
  fields of the record \<open>nenv\<close>, an argument of every definition. Errors they may return
  are branches of the model. The clock is the argument \<open>now\<close> (nanoseconds).

  Byte and block counters are 64-bit in the code; they are mathematical integers here,
  since they count stored bytes and stay far below the word sz.
\<close>

section \<open>Outside operations\<close>

record ('d, 'b) nenv =
  NewKey :: "string \<Rightarrow> string"
  ds_Get :: "string \<Rightarrow> 'd \<Rightarrow> bytes res"
  ds_Has :: "string \<Rightarrow> 'd \<Rightarrow> bool res"
  ds_Put :: "string \<Rightarrow> bytes \<Rightarrow> 'd \<Rightarrow> err option \<times> 'd"
  ds_Delete :: "string \<Rightarrow> 'd \<Rightarrow> err option \<times> 'd"
  ds_Query :: "string \<Rightarrow> nat \<Rightarrow> 'd \<Rightarrow> (string \<times> bytes) res list res"
  ds_Batch :: "'d \<Rightarrow> err option"
  ds_Commit :: "(string \<times> bytes) list \<Rightarrow> 'd \<Rightarrow> err option \<times> 'd"
  blk_Has :: "cid \<Rightarrow> 'b \<Rightarrow> bool res"
  blk_Get :: "cid \<Rightarrow> 'b \<Rightarrow> bytes res"
  blk_GetSize :: "cid \<Rightarrow> 'b \<Rightarrow> nat res"
  blk_Put :: "cid \<Rightarrow> bytes \<Rightarrow> 'b \<Rightarrow> err option \<times> 'b"
  blk_DeleteBlock :: "cid \<Rightarrow> 'b \<Rightarrow> err option \<times> 'b"
  blk_AllKeys :: "'b \<Rightarrow> cid list res"
  NewBlockWithCid :: "bytes \<Rightarrow> cid \<Rightarrow> err option"
  root_Marshal :: "int \<Rightarrow> bytes res"
  root_Unmarshal :: "bytes \<Rightarrow> int res"
  cid_String :: "cid \<Rightarrow> string"
  cid_Parse :: "string \<Rightarrow> cid res"

section \<open>State\<close>

abbreviation RingPublic :: string where "RingPublic \<equiv> ''public''"
abbreviation nbKeyUsedBytes :: string where "nbKeyUsedBytes \<equiv> ''/meta/used_bytes''"
abbreviation nbKeyBlockCount :: string where "nbKeyBlockCount \<equiv> ''/meta/block_count''"
abbreviation nbPrefixRings :: string where "nbPrefixRings \<equiv> ''/rings/''"
abbreviation nbPrefixRing :: string where "nbPrefixRing \<equiv> ''/ring/''"

record ringCounters =
  rc_used :: int
  rc_count :: int
  rc_quota :: int

record NetworkRootEntry =
  nr_CID :: string
  nr_ExpiresAt :: int

record ('d, 'b) nbs =
  ds :: 'd
  blks :: 'b
  maxBytes :: int
  usedBytesAtomic :: int
  blockCountAtomic :: int
  ringCtrs :: "(string \<times> ringCounters) list"
  knownRings :: "string list"

record RingView =
  rv_ringID :: string
  prefixRoots :: string
  prefixBlockRoots :: string
  prefixCIDUsage :: string
  keyUsedBytes :: string
  keyBlockCount :: string
  keyQuota :: string

text \<open>Calls whose error the code drops.\<close>

definition ds_put :: "('d, 'b) nenv \<Rightarrow> string \<Rightarrow> bytes \<Rightarrow> ('d, 'b) nbs \<Rightarrow> ('d, 'b) nbs" where
  "ds_put E k v s = s\<lparr>ds := snd (ds_Put E (NewKey E k) v (ds s))\<rparr>"

definition ds_delete :: "('d, 'b) nenv \<Rightarrow> string \<Rightarrow> ('d, 'b) nbs \<Rightarrow> ('d, 'b) nbs" where
  "ds_delete E k s = s\<lparr>ds := snd (ds_Delete E (NewKey E k) (ds s))\<rparr>"

text \<open>The loop over \<open>results.Next()\<close>, skipping results that carry an error.\<close>

fun ok_results :: "'a res list \<Rightarrow> 'a list" where
  "ok_results [] = []"
| "ok_results (Inr x # rs) = x # ok_results rs"
| "ok_results (Inl e # rs) = ok_results rs"

definition query_all :: "('d, 'b) nenv \<Rightarrow> string \<Rightarrow> ('d, 'b) nbs \<Rightarrow> (string \<times> bytes) list" where
  "query_all E p s = (case ds_Query E p 0 (ds s) of Inl _ \<Rightarrow> [] | Inr rs \<Rightarrow> ok_results rs)"

section \<open>Counters\<close>

definition applySignedDelta :: "int \<Rightarrow> int \<Rightarrow> int" where
  "applySignedDelta cur delta = (let nxt = cur + delta in if nxt < 0 then 0 else nxt)"

text \<open>Without interference the compare-and-swap of the loop succeeds at once.\<close>

definition reserveAggBytes :: "int \<Rightarrow> ('d, 'b) nbs \<Rightarrow> bool \<times> ('d, 'b) nbs" where
  "reserveAggBytes sz s =
     (if maxBytes s \<le> 0 then (True, s\<lparr>usedBytesAtomic := usedBytesAtomic s + sz\<rparr>)
      else if usedBytesAtomic s + sz > maxBytes s then (False, s)
      else (True, s\<lparr>usedBytesAtomic := usedBytesAtomic s + sz\<rparr>))"

definition addAggDelta :: "int \<Rightarrow> int \<Rightarrow> ('d, 'b) nbs \<Rightarrow> ('d, 'b) nbs" where
  "addAggDelta bytesDelta blockDelta s =
     (let s1 = (if bytesDelta \<noteq> 0
                then s\<lparr>usedBytesAtomic := applySignedDelta (usedBytesAtomic s) bytesDelta\<rparr> else s)
      in if blockDelta \<noteq> 0
         then s1\<lparr>blockCountAtomic := applySignedDelta (blockCountAtomic s1) blockDelta\<rparr> else s1)"

definition reserveBytes :: "int \<Rightarrow> ringCounters \<Rightarrow> bool \<times> ringCounters" where
  "reserveBytes sz rc =
     (if rc_quota rc > 0
      then if rc_used rc + sz > rc_quota rc then (False, rc)
           else (True, rc\<lparr>rc_used := rc_used rc + sz\<rparr>)
      else (True, rc\<lparr>rc_used := rc_used rc + sz\<rparr>))"

definition addUsageDelta :: "int \<Rightarrow> int \<Rightarrow> ringCounters \<Rightarrow> ringCounters" where
  "addUsageDelta bytesDelta blockDelta rc =
     (let rc1 = (if bytesDelta \<noteq> 0
                 then rc\<lparr>rc_used := applySignedDelta (rc_used rc) bytesDelta\<rparr> else rc)
      in if blockDelta \<noteq> 0
         then rc1\<lparr>rc_count := applySignedDelta (rc_count rc1) blockDelta\<rparr> else rc1)"

definition load_int :: "('d, 'b) nenv \<Rightarrow> string \<Rightarrow> ('d, 'b) nbs \<Rightarrow> int" where
  "load_int E k s =
     (case ds_Get E (NewKey E k) (ds s) of
        Inr data \<Rightarrow> if length data = 8 then (case decodeInt64LE data of Some v \<Rightarrow> sint v | None \<Rightarrow> 0) else 0
      | Inl _ \<Rightarrow> 0)"

definition getRingCounters :: "('d, 'b) nenv \<Rightarrow> string \<Rightarrow> ('d, 'b) nbs \<Rightarrow> ringCounters \<times> ('d, 'b) nbs" where
  "getRingCounters E ringID s =
     (case map_of (ringCtrs s) ringID of
        Some rc \<Rightarrow> (rc, s)
      | None \<Rightarrow>
          (let base = nbPrefixRing @ ringID @ ''/'';
               rc = \<lparr>rc_used = load_int E (base @ ''usedbytes'') s,
                     rc_count = load_int E (base @ ''blockcount'') s,
                     rc_quota = load_int E (base @ ''quota'') s\<rparr>
           in (rc, s\<lparr>ringCtrs := aupd ringID rc (ringCtrs s)\<rparr>)))"

text \<open>Updating the shared counter object of a ring through its pointer.\<close>

definition upd_ring :: "('d, 'b) nenv \<Rightarrow> string \<Rightarrow> (ringCounters \<Rightarrow> ringCounters) \<Rightarrow> ('d, 'b) nbs \<Rightarrow> ('d, 'b) nbs" where
  "upd_ring E ringID f s =
     (let (rc, s1) = getRingCounters E ringID s
      in s1\<lparr>ringCtrs := aupd ringID (f rc) (ringCtrs s1)\<rparr>)"

definition int64 :: "int \<Rightarrow> bytes" where "int64 v = encodeInt64LE (word_of_int v)"

definition writeAggCounters :: "('d, 'b) nenv \<Rightarrow> int \<Rightarrow> int \<Rightarrow> ('d, 'b) nbs \<Rightarrow> ('d, 'b) nbs" where
  "writeAggCounters E b c s =
     (let b' = (if b < 0 then 0 else b); c' = (if c < 0 then 0 else c) in
      case ds_Batch E (ds s) of
        Some _ \<Rightarrow> ds_put E nbKeyBlockCount (int64 c') (ds_put E nbKeyUsedBytes (int64 b') s)
      | None \<Rightarrow> s\<lparr>ds := snd (ds_Commit E [(NewKey E nbKeyUsedBytes, int64 b'),
                                          (NewKey E nbKeyBlockCount, int64 c')] (ds s))\<rparr>)"

definition flushAggCountersLocked :: "('d, 'b) nenv \<Rightarrow> ('d, 'b) nbs \<Rightarrow> ('d, 'b) nbs" where
  "flushAggCountersLocked E s = writeAggCounters E (usedBytesAtomic s) (blockCountAtomic s) s"

definition flush_ring :: "('d, 'b) nenv \<Rightarrow> ('d, 'b) nbs \<Rightarrow> string \<times> ringCounters \<Rightarrow> ('d, 'b) nbs" where
  "flush_ring E s x =
     (let base = nbPrefixRing @ fst x @ ''/'' in
      ds_put E (base @ ''quota'') (int64 (rc_quota (snd x)))
        (ds_put E (base @ ''blockcount'') (int64 (rc_count (snd x)))
          (ds_put E (base @ ''usedbytes'') (int64 (rc_used (snd x))) s)))"

definition flushRingCountersLocked :: "('d, 'b) nenv \<Rightarrow> ('d, 'b) nbs \<Rightarrow> ('d, 'b) nbs" where
  "flushRingCountersLocked E s = foldl (flush_ring E) s (ringCtrs s)"

fun sum_block_sizes :: "('d, 'b) nenv \<Rightarrow> 'b \<Rightarrow> cid list \<Rightarrow> int \<times> int" where
  "sum_block_sizes E b [] = (0, 0)"
| "sum_block_sizes E b (k # ks) =
     (let (t, n) = sum_block_sizes E b ks in
      case blk_GetSize E k b of Inl _ \<Rightarrow> (t, n) | Inr sz \<Rightarrow> (int sz + t, 1 + n))"

definition recount_counters :: "('d, 'b) nenv \<Rightarrow> ('d, 'b) nbs \<Rightarrow> unit res \<times> ('d, 'b) nbs" where
  "recount_counters E s =
     (case blk_AllKeys E (blks s) of
        Inl e \<Rightarrow> (Inl e, s)
      | Inr ks \<Rightarrow>
          (let (t, n) = sum_block_sizes E (blks s) ks in
           (Inr (), writeAggCounters E t n (s\<lparr>usedBytesAtomic := t, blockCountAtomic := n\<rparr>))))"

definition loadCounters :: "('d, 'b) nenv \<Rightarrow> ('d, 'b) nbs \<Rightarrow> unit res \<times> ('d, 'b) nbs" where
  "loadCounters E s =
     (case (ds_Get E (NewKey E nbKeyUsedBytes) (ds s), ds_Get E (NewKey E nbKeyBlockCount) (ds s)) of
        (Inr bd, Inr cd) \<Rightarrow>
          if length bd = 8 \<and> length cd = 8
          then (Inr (), s\<lparr>usedBytesAtomic := load_int E nbKeyUsedBytes s,
                         blockCountAtomic := load_int E nbKeyBlockCount s\<rparr>)
          else recount_counters E s
      | _ \<Rightarrow> recount_counters E s)"

section \<open>The block pool\<close>

definition nbs_UsedBytes :: "('d, 'b) nbs \<Rightarrow> int" where "nbs_UsedBytes s = usedBytesAtomic s"

definition nbs_Put :: "('d, 'b) nenv \<Rightarrow> cid \<Rightarrow> bytes \<Rightarrow> ('d, 'b) nbs \<Rightarrow> unit res \<times> ('d, 'b) nbs" where
  "nbs_Put E key data s =
     (case blk_Has E key (blks s) of
        Inl e \<Rightarrow> (Inl e, s)
      | Inr True \<Rightarrow> (Inr (), s)
      | Inr False \<Rightarrow>
          (let sz = int (length data) in
           case reserveAggBytes sz s of
             (False, s1) \<Rightarrow> (Inl ErrStorageFull, s1)
           | (True, s1) \<Rightarrow>
               (case NewBlockWithCid E data key of
                  Some e \<Rightarrow> (Inl e, addAggDelta (- sz) 0 s1)
                | None \<Rightarrow>
                    (case blk_Put E key data (blks s1) of
                       (Some e, b) \<Rightarrow> (Inl e, addAggDelta (- sz) 0 (s1\<lparr>blks := b\<rparr>))
                     | (None, b) \<Rightarrow>
                         (Inr (), s1\<lparr>blks := b, blockCountAtomic := blockCountAtomic s1 + 1\<rparr>)))))"

definition nbs_Get :: "('d, 'b) nenv \<Rightarrow> cid \<Rightarrow> ('d, 'b) nbs \<Rightarrow> bytes res" where
  "nbs_Get E key s = blk_Get E key (blks s)"

definition deleteLocked :: "('d, 'b) nenv \<Rightarrow> cid \<Rightarrow> ('d, 'b) nbs \<Rightarrow> unit res \<times> ('d, 'b) nbs" where
  "deleteLocked E key s =
     (case blk_GetSize E key (blks s) of
        Inr n \<Rightarrow>
          (case blk_DeleteBlock E key (blks s) of
             (Some e, b) \<Rightarrow> (Inl e, s\<lparr>blks := b\<rparr>)
           | (None, b) \<Rightarrow> (Inr (), addAggDelta (- int n) (- 1) (s\<lparr>blks := b\<rparr>)))
      | Inl _ \<Rightarrow>
          (case blk_DeleteBlock E key (blks s) of
             (Some e, b) \<Rightarrow> (Inl e, s\<lparr>blks := b\<rparr>)
           | (None, b) \<Rightarrow> (Inr (), s\<lparr>blks := b\<rparr>)))"

definition nbs_Delete :: "('d, 'b) nenv \<Rightarrow> cid \<Rightarrow> ('d, 'b) nbs \<Rightarrow> unit res \<times> ('d, 'b) nbs" where
  "nbs_Delete E key s = deleteLocked E key s"

definition nbs_Has :: "('d, 'b) nenv \<Rightarrow> cid \<Rightarrow> ('d, 'b) nbs \<Rightarrow> bool res" where
  "nbs_Has E key s = blk_Has E key (blks s)"

definition nbs_AllKeysChan :: "('d, 'b) nenv \<Rightarrow> ('d, 'b) nbs \<Rightarrow> cid list res" where
  "nbs_AllKeysChan E s = blk_AllKeys E (blks s)"

definition blockSize :: "('d, 'b) nenv \<Rightarrow> cid \<Rightarrow> ('d, 'b) nbs \<Rightarrow> nat res" where
  "blockSize E key s = blk_GetSize E key (blks s)"

definition HasBlockStr :: "('d, 'b) nenv \<Rightarrow> string \<Rightarrow> ('d, 'b) nbs \<Rightarrow> bool res" where
  "HasBlockStr E cidStr s =
     (case cid_Parse E cidStr of Inl e \<Rightarrow> Inl (Wrap ''invalid CID'' e) | Inr c \<Rightarrow> blk_Has E c (blks s))"

definition ListBlockCIDs :: "('d, 'b) nenv \<Rightarrow> ('d, 'b) nbs \<Rightarrow> string list res" where
  "ListBlockCIDs E s =
     (case blk_AllKeys E (blks s) of Inl e \<Rightarrow> Inl e | Inr ks \<Rightarrow> Inr (map (cid_String E) ks))"

section \<open>Known rings\<close>

definition ringPresenceKey :: "string \<Rightarrow> string" where
  "ringPresenceKey ringID = nbPrefixRings @ ringID"

definition markRingKnown :: "('d, 'b) nenv \<Rightarrow> string \<Rightarrow> ('d, 'b) nbs \<Rightarrow> ('d, 'b) nbs" where
  "markRingKnown E ringID s =
     (if ringID \<in> set (knownRings s) then s
      else ds_put E (ringPresenceKey ringID) [] (s\<lparr>knownRings := ringID # knownRings s\<rparr>))"

definition MarkRingKnown :: "('d, 'b) nenv \<Rightarrow> string \<Rightarrow> ('d, 'b) nbs \<Rightarrow> ('d, 'b) nbs" where
  "MarkRingKnown E ringID s = (if ringID = [] then s else markRingKnown E ringID s)"

definition RingsKnown :: "('d, 'b) nenv \<Rightarrow> ('d, 'b) nbs \<Rightarrow> string list" where
  "RingsKnown E s = map (\<lambda>(k, _). drop (length nbPrefixRings) k) (query_all E nbPrefixRings s)"

definition ForgetRing :: "('d, 'b) nenv \<Rightarrow> string \<Rightarrow> ('d, 'b) nbs \<Rightarrow> ('d, 'b) nbs" where
  "ForgetRing E ringID s =
     (let p = nbPrefixRing @ ringID @ ''/'';
          s1 = foldl (\<lambda>s (k, _). ds_delete E k s) s (query_all E p s);
          s2 = ds_delete E (ringPresenceKey ringID) s1
      in s2\<lparr>knownRings := removeAll ringID (knownRings s2)\<rparr>)"

text \<open>\<open>Ring\<close> panics on an empty ring id.\<close>

definition Ring :: "string \<Rightarrow> RingView option" where
  "Ring ringID =
     (if ringID = [] then None
      else let base = nbPrefixRing @ ringID @ ''/'' in
        Some \<lparr>rv_ringID = ringID, prefixRoots = base @ ''netroots/'',
              prefixBlockRoots = base @ ''blockroots/'', prefixCIDUsage = base @ ''cidusage/'',
              keyUsedBytes = base @ ''usedbytes'', keyBlockCount = base @ ''blockcount'',
              keyQuota = base @ ''quota''\<rparr>)"

section \<open>Roots of a ring\<close>

definition rootKey :: "RingView \<Rightarrow> string \<Rightarrow> string" where
  "rootKey r cidStr = prefixRoots r @ cidStr"

definition blockRootKey :: "RingView \<Rightarrow> string \<Rightarrow> string \<Rightarrow> string" where
  "blockRootKey r mhHex cidStr = prefixBlockRoots r @ mhHex @ ''/'' @ cidStr"

definition cidUsageKey :: "RingView \<Rightarrow> string \<Rightarrow> string" where
  "cidUsageKey r cidStr = prefixCIDUsage r @ cidStr"

definition AddRootWithExpiry :: "('d, 'b) nenv \<Rightarrow> RingView \<Rightarrow> string \<Rightarrow> int \<Rightarrow> ('d, 'b) nbs \<Rightarrow> ('d, 'b) nbs" where
  "AddRootWithExpiry E r cidStr expiresAtNanos s =
     (case root_Marshal E expiresAtNanos of
        Inl _ \<Rightarrow> s
      | Inr data \<Rightarrow>
          (case ds_Put E (NewKey E (rootKey r cidStr)) data (ds s) of
             (Some _, d) \<Rightarrow> s\<lparr>ds := d\<rparr>
           | (None, d) \<Rightarrow> markRingKnown E (rv_ringID r) (s\<lparr>ds := d\<rparr>)))"

definition AddRootWithTTL :: "('d, 'b) nenv \<Rightarrow> int \<Rightarrow> RingView \<Rightarrow> cid \<Rightarrow> int \<Rightarrow> ('d, 'b) nbs \<Rightarrow> ('d, 'b) nbs" where
  "AddRootWithTTL E now r c ttl s =
     AddRootWithExpiry E r (cid_String E c) (if ttl > 0 then now + ttl else 0) s"

definition AddAllRootEntries :: "('d, 'b) nenv \<Rightarrow> RingView \<Rightarrow> NetworkRootEntry list \<Rightarrow> ('d, 'b) nbs \<Rightarrow> ('d, 'b) nbs" where
  "AddAllRootEntries E r es s =
     foldl (\<lambda>s e. AddRootWithExpiry E r (nr_CID e) (nr_ExpiresAt e) s) s es"

definition HasRootStr :: "('d, 'b) nenv \<Rightarrow> int \<Rightarrow> RingView \<Rightarrow> string \<Rightarrow> ('d, 'b) nbs \<Rightarrow> bool" where
  "HasRootStr E now r cidStr s =
     (case ds_Get E (NewKey E (rootKey r cidStr)) (ds s) of
        Inl _ \<Rightarrow> False
      | Inr data \<Rightarrow>
          (case root_Unmarshal E data of
             Inl _ \<Rightarrow> False
           | Inr ex \<Rightarrow> \<not> (ex > 0 \<and> now > ex)))"

definition listRootsFiltered :: "('d, 'b) nenv \<Rightarrow> int \<Rightarrow> bool \<Rightarrow> RingView \<Rightarrow> ('d, 'b) nbs \<Rightarrow> string list" where
  "listRootsFiltered E now filterExpired r s =
     map (\<lambda>(k, _). drop (length (prefixRoots r)) k)
       (filter (\<lambda>(_, v). \<not> filterExpired \<or>
                  (case root_Unmarshal E v of Inl _ \<Rightarrow> False | Inr ex \<Rightarrow> \<not> (ex > 0 \<and> now > ex)))
          (query_all E (prefixRoots r) s))"

definition ListRoots :: "('d, 'b) nenv \<Rightarrow> int \<Rightarrow> RingView \<Rightarrow> ('d, 'b) nbs \<Rightarrow> string list" where
  "ListRoots E now r s = listRootsFiltered E now True r s"

fun root_entries :: "('d, 'b) nenv \<Rightarrow> int \<Rightarrow> RingView \<Rightarrow> (string \<times> bytes) list \<Rightarrow> NetworkRootEntry list" where
  "root_entries E now r [] = []"
| "root_entries E now r ((k, v) # rs) =
     (case root_Unmarshal E v of
        Inl _ \<Rightarrow> root_entries E now r rs
      | Inr ex \<Rightarrow>
          if ex > 0 \<and> now > ex then root_entries E now r rs
          else \<lparr>nr_CID = drop (length (prefixRoots r)) k, nr_ExpiresAt = ex\<rparr> # root_entries E now r rs)"

definition ListRootEntries :: "('d, 'b) nenv \<Rightarrow> int \<Rightarrow> RingView \<Rightarrow> ('d, 'b) nbs \<Rightarrow> NetworkRootEntry list" where
  "ListRootEntries E now r s = root_entries E now r (query_all E (prefixRoots r) s)"

definition RootCount :: "('d, 'b) nenv \<Rightarrow> int \<Rightarrow> RingView \<Rightarrow> ('d, 'b) nbs \<Rightarrow> nat" where
  "RootCount E now r s = length (ListRoots E now r s)"

section \<open>The block index of a ring\<close>

definition ringHasBlock :: "('d, 'b) nenv \<Rightarrow> RingView \<Rightarrow> string \<Rightarrow> ('d, 'b) nbs \<Rightarrow> bool" where
  "ringHasBlock E r mhHex s =
     (case ds_Query E (prefixBlockRoots r @ mhHex @ ''/'') 1 (ds s) of
        Inl _ \<Rightarrow> False
      | Inr rs \<Rightarrow> ok_results rs \<noteq> [])"

definition RootsForBlock :: "('d, 'b) nenv \<Rightarrow> RingView \<Rightarrow> cid \<Rightarrow> ('d, 'b) nbs \<Rightarrow> string list" where
  "RootsForBlock E r key s =
     (let p = prefixBlockRoots r @ HexString key @ ''/''
      in map (\<lambda>(k, _). drop (length p) k) (query_all E p s))"

fun roots_entries :: "('d, 'b) nenv \<Rightarrow> RingView \<Rightarrow> ('d, 'b) nbs \<Rightarrow> string list \<Rightarrow> NetworkRootEntry list" where
  "roots_entries E r s [] = []"
| "roots_entries E r s (c # cs) =
     (case ds_Get E (NewKey E (rootKey r c)) (ds s) of
        Inl _ \<Rightarrow> roots_entries E r s cs
      | Inr data \<Rightarrow>
          (case root_Unmarshal E data of
             Inl _ \<Rightarrow> roots_entries E r s cs
           | Inr ex \<Rightarrow> \<lparr>nr_CID = c, nr_ExpiresAt = ex\<rparr> # roots_entries E r s cs))"

definition RootsForBlockEntries :: "('d, 'b) nenv \<Rightarrow> RingView \<Rightarrow> cid \<Rightarrow> ('d, 'b) nbs \<Rightarrow> NetworkRootEntry list" where
  "RootsForBlockEntries E r key s = roots_entries E r s (RootsForBlock E r key s)"

definition rv_HasBlock :: "('d, 'b) nenv \<Rightarrow> RingView \<Rightarrow> cid \<Rightarrow> ('d, 'b) nbs \<Rightarrow> bool" where
  "rv_HasBlock E r key s = ringHasBlock E r (HexString key) s"

definition BlockHasLiveRoot :: "('d, 'b) nenv \<Rightarrow> int \<Rightarrow> RingView \<Rightarrow> cid \<Rightarrow> ('d, 'b) nbs \<Rightarrow> bool" where
  "BlockHasLiveRoot E now r key s =
     list_ex (\<lambda>c. case ds_Get E (NewKey E (rootKey r c)) (ds s) of
                Inl _ \<Rightarrow> False
              | Inr data \<Rightarrow>
                  (case root_Unmarshal E data of
                     Inl _ \<Rightarrow> False
                   | Inr ex \<Rightarrow> ex = 0 \<or> now \<le> ex))
       (RootsForBlock E r key s)"

definition addCIDUsageLocked :: "('d, 'b) nenv \<Rightarrow> RingView \<Rightarrow> string \<Rightarrow> int \<Rightarrow> ('d, 'b) nbs \<Rightarrow> ('d, 'b) nbs" where
  "addCIDUsageLocked E r rootCID delta s =
     (if delta = 0 then s
      else let current = load_int E (cidUsageKey r rootCID) s + delta;
               current' = (if current < 0 then 0 else current)
           in ds_put E (cidUsageKey r rootCID) (int64 current') s)"

text \<open>The part of \<open>PutWithRoot\<close> that writes the block itself.\<close>

definition put_block_data :: "('d, 'b) nenv \<Rightarrow> cid \<Rightarrow> bytes \<Rightarrow> ('d, 'b) nbs \<Rightarrow> err option \<times> ('d, 'b) nbs" where
  "put_block_data E key data s =
     (case NewBlockWithCid E data key of
        Some e \<Rightarrow> (Some e, s)
      | None \<Rightarrow>
          (case blk_Put E key data (blks s) of
             (Some e, b) \<Rightarrow> (Some e, s\<lparr>blks := b\<rparr>)
           | (None, b) \<Rightarrow> (None, s\<lparr>blks := b, blockCountAtomic := blockCountAtomic s + 1\<rparr>)))"

text \<open>The part that records the root: ring count, per-root usage, index entry, root record.\<close>

definition index_root ::
  "('d, 'b) nenv \<Rightarrow> int \<Rightarrow> RingView \<Rightarrow> cid \<Rightarrow> int \<Rightarrow> bool \<Rightarrow> string \<Rightarrow> int \<Rightarrow> ('d, 'b) nbs \<Rightarrow> ('d, 'b) nbs" where
  "index_root E now r key sz adding rootStr expiresAtNanos s =
     (let brKey = blockRootKey r (HexString key) rootStr;
          s1 = (if adding then upd_ring E (rv_ringID r) (\<lambda>rc. rc\<lparr>rc_count := rc_count rc + 1\<rparr>) s else s);
          s2 = (case ds_Has E (NewKey E brKey) (ds s1) of
                  Inr True \<Rightarrow> s1
                | _ \<Rightarrow> addCIDUsageLocked E r rootStr sz s1);
          s3 = ds_put E brKey [] s2;
          s4 = (if HasRootStr E now r rootStr s3 then s3
                else AddRootWithExpiry E r rootStr expiresAtNanos s3)
      in markRingKnown E (rv_ringID r) s4)"

definition reserve_agg :: "bool \<Rightarrow> int \<Rightarrow> ('d, 'b) nbs \<Rightarrow> bool \<times> ('d, 'b) nbs" where
  "reserve_agg hasBlock sz s = (if \<not> hasBlock then reserveAggBytes sz s else (True, s))"

definition undo_agg :: "bool \<Rightarrow> int \<Rightarrow> ('d, 'b) nbs \<Rightarrow> ('d, 'b) nbs" where
  "undo_agg hasBlock sz s = (if \<not> hasBlock then addAggDelta (- sz) 0 s else s)"

definition ring_reserve :: "('d, 'b) nenv \<Rightarrow> string \<Rightarrow> int \<Rightarrow> ('d, 'b) nbs \<Rightarrow> bool \<times> ('d, 'b) nbs" where
  "ring_reserve E ringID sz s =
     (let (rc, s1) = getRingCounters E ringID s; (ok, rc') = reserveBytes sz rc
      in (ok, s1\<lparr>ringCtrs := aupd ringID rc' (ringCtrs s1)\<rparr>))"

definition PutWithRoot ::
  "('d, 'b) nenv \<Rightarrow> int \<Rightarrow> RingView \<Rightarrow> cid \<Rightarrow> bytes \<Rightarrow> cid \<Rightarrow> int \<Rightarrow> ('d, 'b) nbs \<Rightarrow> unit res \<times> ('d, 'b) nbs" where
  "PutWithRoot E now r key data rootCID expiresAtNanos s =
     (case blk_Has E key (blks s) of
        Inl e \<Rightarrow> (Inl e, s)
      | Inr hasBlock \<Rightarrow>
          (let sz = int (length data) in
           case reserve_agg hasBlock sz s of
             (False, s1) \<Rightarrow> (Inl ErrStorageFull, s1)
           | (True, s1) \<Rightarrow>
               (let s2 = snd (getRingCounters E (rv_ringID r) s1);
                    adding = (Defined rootCID \<and> \<not> ringHasBlock E r (HexString key) s2)
                in case (if adding then ring_reserve E (rv_ringID r) sz s2 else (True, s2)) of
                     (False, s3) \<Rightarrow> (Inl ErrStorageFull, undo_agg hasBlock sz s3)
                   | (True, s3) \<Rightarrow>
                       (case (if hasBlock then (None, s3) else put_block_data E key data s3) of
                          (Some e, s4) \<Rightarrow>
                            (Inl e, (if adding
                                     then upd_ring E (rv_ringID r) (addUsageDelta (- sz) 0) (undo_agg hasBlock sz s4)
                                     else undo_agg hasBlock sz s4))
                        | (None, s4) \<Rightarrow>
                            (Inr (), (if Defined rootCID
                                      then index_root E now r key sz adding (cid_String E rootCID) expiresAtNanos s4
                                      else s4))))))"

text \<open>The loop body shared by \<open>DropBlock\<close>: remove an index entry and its usage.\<close>

definition drop_entry :: "('d, 'b) nenv \<Rightarrow> RingView \<Rightarrow> cid \<Rightarrow> string \<Rightarrow> ('d, 'b) nbs \<Rightarrow> string \<times> bytes \<Rightarrow> ('d, 'b) nbs" where
  "drop_entry E r key p s x =
     (let s1 = ds_delete E (fst x) s in
      case blockSize E key s1 of
        Inr n \<Rightarrow> if n > 0 then addCIDUsageLocked E r (drop (length p) (fst x)) (- int n) s1 else s1
      | Inl _ \<Rightarrow> s1)"

definition DropBlock :: "('d, 'b) nenv \<Rightarrow> RingView \<Rightarrow> cid \<Rightarrow> ('d, 'b) nbs \<Rightarrow> bool \<times> ('d, 'b) nbs" where
  "DropBlock E r key s =
     (let p = prefixBlockRoots r @ HexString key @ ''/'';
          xs = query_all E p s;
          s1 = foldl (drop_entry E r key p) s xs
      in if xs \<noteq> []
         then (True, (case blockSize E key s1 of
                        Inr n \<Rightarrow> if n > 0 then upd_ring E (rv_ringID r) (addUsageDelta (- int n) (- 1)) s1 else s1
                      | Inl _ \<Rightarrow> s1))
         else (False, s1))"

definition AddBlockRootIndex :: "('d, 'b) nenv \<Rightarrow> RingView \<Rightarrow> cid \<Rightarrow> string \<Rightarrow> ('d, 'b) nbs \<Rightarrow> ('d, 'b) nbs" where
  "AddBlockRootIndex E r key rootCIDStr s =
     (let brKey = blockRootKey r (HexString key) rootCIDStr in
      case ds_Has E (NewKey E brKey) (ds s) of
        Inr True \<Rightarrow> s
      | _ \<Rightarrow>
          (let s2 = (case blockSize E key s of
                       Inr n \<Rightarrow>
                         if n > 0
                         then addCIDUsageLocked E r rootCIDStr (int n)
                                (if ringHasBlock E r (HexString key) s then s
                                 else upd_ring E (rv_ringID r) (addUsageDelta (int n) 1) s)
                         else s
                     | Inl _ \<Rightarrow> s)
           in markRingKnown E (rv_ringID r) (ds_put E brKey [] s2)))"

definition lookupBlockCID :: "('d, 'b) nenv \<Rightarrow> string \<Rightarrow> ('d, 'b) nbs \<Rightarrow> cid option" where
  "lookupBlockCID E mhHex s =
     (case decodeHex mhHex of
        Inl _ \<Rightarrow> None
      | Inr mh \<Rightarrow>
          (let c = NewCidV1 codec_Raw mh in
           if blk_Has E c (blks s) = Inr True then Some c
           else (case blk_AllKeys E (blks s) of
                   Inl _ \<Rightarrow> None
                 | Inr ks \<Rightarrow> find (\<lambda>k. HexString k = mhHex) ks)))"

definition index_byte :: "char \<Rightarrow> string \<Rightarrow> nat option" where
  "index_byte c str = (if c \<in> set str then Some (length (takeWhile (\<lambda>x. x \<noteq> c) str)) else None)"

fun collect_blocks ::
  "('d, 'b) nenv \<Rightarrow> RingView \<Rightarrow> ('d, 'b) nbs \<Rightarrow> (string \<times> cid) list \<Rightarrow> (string \<times> bytes) list \<Rightarrow> (string \<times> cid) list" where
  "collect_blocks E r s seen [] = seen"
| "collect_blocks E r s seen ((k, _) # rs) =
     (let rest = drop (length (prefixBlockRoots r)) k in
      case index_byte (CHR ''/'') rest of
        None \<Rightarrow> collect_blocks E r s seen rs
      | Some i \<Rightarrow>
          (let mhHex = take i rest in
           if map_of seen mhHex \<noteq> None then collect_blocks E r s seen rs
           else (case lookupBlockCID E mhHex s of
                   None \<Rightarrow> collect_blocks E r s seen rs
                 | Some c \<Rightarrow> collect_blocks E r s (seen @ [(mhHex, c)]) rs)))"

definition Blocks :: "('d, 'b) nenv \<Rightarrow> RingView \<Rightarrow> ('d, 'b) nbs \<Rightarrow> cid list res" where
  "Blocks E r s =
     (case ds_Query E (prefixBlockRoots r) 0 (ds s) of
        Inl e \<Rightarrow> Inl e
      | Inr rs \<Rightarrow> Inr (map snd (collect_blocks E r s [] (ok_results rs))))"

definition remove_entry :: "('d, 'b) nenv \<Rightarrow> RingView \<Rightarrow> string \<Rightarrow> ('d, 'b) nbs \<Rightarrow> string \<times> bytes \<Rightarrow> ('d, 'b) nbs" where
  "remove_entry E r suffix s x =
     (let k = fst x in
      if length k \<le> length suffix \<or> \<not> has_suffix k suffix then s
      else
        let mhHex = take (length k - length suffix - length (prefixBlockRoots r))
                      (drop (length (prefixBlockRoots r)) k);
            s1 = ds_delete E k s
        in if ringHasBlock E r mhHex s1 then s1
           else (case lookupBlockCID E mhHex s1 of
                   None \<Rightarrow> s1
                 | Some c \<Rightarrow>
                     (case blockSize E c s1 of
                        Inr n \<Rightarrow> upd_ring E (rv_ringID r) (addUsageDelta (- int n) (- 1)) s1
                      | Inl _ \<Rightarrow> s1)))"

definition removeBlockRootEntries :: "('d, 'b) nenv \<Rightarrow> RingView \<Rightarrow> string \<Rightarrow> ('d, 'b) nbs \<Rightarrow> ('d, 'b) nbs" where
  "removeBlockRootEntries E r rootCIDStr s =
     (case ds_Query E (prefixBlockRoots r) 0 (ds s) of
        Inl _ \<Rightarrow> s
      | Inr rs \<Rightarrow>
          (let (_, s1) = getRingCounters E (rv_ringID r) s
           in foldl (remove_entry E r (''/'' @ rootCIDStr)) s1 (ok_results rs)))"

definition RemoveRootStr :: "('d, 'b) nenv \<Rightarrow> RingView \<Rightarrow> string \<Rightarrow> ('d, 'b) nbs \<Rightarrow> ('d, 'b) nbs" where
  "RemoveRootStr E r cidStr s =
     removeBlockRootEntries E r cidStr
       (ds_delete E (cidUsageKey r cidStr) (ds_delete E (rootKey r cidStr) s))"

definition expired_root :: "('d, 'b) nenv \<Rightarrow> int \<Rightarrow> string \<times> bytes \<Rightarrow> bool" where
  "expired_root E now x =
     (case root_Unmarshal E (snd x) of Inl _ \<Rightarrow> False | Inr ex \<Rightarrow> ex > 0 \<and> now > ex)"

definition rv_PruneExpiredRoots :: "('d, 'b) nenv \<Rightarrow> int \<Rightarrow> RingView \<Rightarrow> ('d, 'b) nbs \<Rightarrow> nat \<times> ('d, 'b) nbs" where
  "rv_PruneExpiredRoots E now r s =
     (let xs = filter (expired_root E now) (query_all E (prefixRoots r) s)
      in (length xs, foldl (\<lambda>s (k, _). RemoveRootStr E r (drop (length (prefixRoots r)) k) s) s xs))"

definition SetQuota :: "('d, 'b) nenv \<Rightarrow> RingView \<Rightarrow> int \<Rightarrow> ('d, 'b) nbs \<Rightarrow> unit res \<times> ('d, 'b) nbs" where
  "SetQuota E r m s =
     (if m < 0 then (Inl (Errorf ''quota must be non-negative''), s)
      else
        let (rc, s1) = getRingCounters E (rv_ringID r) s in
        if m > 0 \<and> m < rc_used rc then (Inl (Errorf ''quota below current ring usage''), s1)
        else
          let s2 = s1\<lparr>ringCtrs := aupd (rv_ringID r) (rc\<lparr>rc_quota := m\<rparr>) (ringCtrs s1)\<rparr> in
          (case ds_Put E (NewKey E (keyQuota r)) (int64 m) (ds s2) of
             (Some e, d) \<Rightarrow> (Inl e, s2\<lparr>ds := d\<rparr>)
           | (None, d) \<Rightarrow> (Inr (), markRingKnown E (rv_ringID r) (s2\<lparr>ds := d\<rparr>))))"

definition rv_CIDUsage :: "('d, 'b) nenv \<Rightarrow> RingView \<Rightarrow> ('d, 'b) nbs \<Rightarrow> (string \<times> int) list" where
  "rv_CIDUsage E r s =
     foldl (\<lambda>out (k, v).
        if length v = 8
        then (case decodeInt64LE v of
                Some w \<Rightarrow> if sint w > 0 then aupd (drop (length (prefixCIDUsage r)) k) (sint w) out else out
              | None \<Rightarrow> out)
        else out) [] (query_all E (prefixCIDUsage r) s)"

section \<open>Operations over all rings\<close>

text \<open>
  The loops over \<open>RingsKnown()\<close> call \<open>Ring(ringID)\<close>, which panics on an empty id;
  \<open>rings_of\<close> keeps the views of the non-empty ids, so a state that lists an empty
  ring id (which \<open>MarkRingKnown\<close> and \<open>Ring\<close> exclude) is outside the model.
\<close>

definition rings_of :: "string list \<Rightarrow> RingView list" where
  "rings_of ids = List.map_filter Ring ids"

definition BlockHasLiveRootAnyRing :: "('d, 'b) nenv \<Rightarrow> int \<Rightarrow> cid \<Rightarrow> ('d, 'b) nbs \<Rightarrow> bool" where
  "BlockHasLiveRootAnyRing E now key s =
     list_ex (\<lambda>r. BlockHasLiveRoot E now r key s) (rings_of (RingsKnown E s))"

definition PruneExpiredRoots :: "('d, 'b) nenv \<Rightarrow> int \<Rightarrow> ('d, 'b) nbs \<Rightarrow> nat \<times> ('d, 'b) nbs" where
  "PruneExpiredRoots E now s =
     foldl (\<lambda>(n, s) r. let (m, s') = rv_PruneExpiredRoots E now r s in (n + m, s'))
       (0, s) (rings_of (RingsKnown E s))"

definition nbs_ListRoots :: "('d, 'b) nenv \<Rightarrow> int \<Rightarrow> ('d, 'b) nbs \<Rightarrow> string list" where
  "nbs_ListRoots E now s =
     remdups (concat (map (\<lambda>r. ListRoots E now r s) (rings_of (RingsKnown E s))))"

definition add_usage :: "(string \<times> int) list \<Rightarrow> string \<times> int \<Rightarrow> (string \<times> int) list" where
  "add_usage out x =
     aupd (fst x) ((case map_of out (fst x) of Some b \<Rightarrow> b | None \<Rightarrow> 0) + snd x) out"

definition nbs_CIDUsage :: "('d, 'b) nenv \<Rightarrow> ('d, 'b) nbs \<Rightarrow> (string \<times> int) list" where
  "nbs_CIDUsage E s =
     foldl add_usage [] (concat (map (\<lambda>r. rv_CIDUsage E r s) (rings_of (RingsKnown E s))))"

definition latest_entry :: "(string \<times> NetworkRootEntry) list \<Rightarrow> NetworkRootEntry \<Rightarrow> (string \<times> NetworkRootEntry) list" where
  "latest_entry seen e =
     (case map_of seen (nr_CID e) of
        None \<Rightarrow> aupd (nr_CID e) e seen
      | Some cur \<Rightarrow> if nr_ExpiresAt e > nr_ExpiresAt cur then aupd (nr_CID e) e seen else seen)"

definition nbs_ListRootEntries :: "('d, 'b) nenv \<Rightarrow> int \<Rightarrow> ('d, 'b) nbs \<Rightarrow> NetworkRootEntry list" where
  "nbs_ListRootEntries E now s =
     map snd (foldl latest_entry []
       (concat (map (\<lambda>r. ListRootEntries E now r s) (rings_of (RingsKnown E s)))))"

section \<open>Garbage collection\<close>

record GCResult =
  gc_Removed :: nat
  gc_Kept :: nat

definition cleanupRingBlockIndex :: "('d, 'b) nenv \<Rightarrow> RingView \<Rightarrow> string \<Rightarrow> int \<Rightarrow> ('d, 'b) nbs \<Rightarrow> ('d, 'b) nbs" where
  "cleanupRingBlockIndex E r mhHex sz s =
     (let p = prefixBlockRoots r @ mhHex @ ''/'';
          xs = query_all E p s;
          s1 = foldl (\<lambda>s x. addCIDUsageLocked E r (drop (length p) (fst x)) (- sz) (ds_delete E (fst x) s)) s xs
      in if xs \<noteq> [] then upd_ring E (rv_ringID r) (addUsageDelta (- sz) (- 1)) s1 else s1)"

definition blockHasLiveRootInSet :: "('d, 'b) nenv \<Rightarrow> cid \<Rightarrow> RingView list \<Rightarrow> string list \<Rightarrow> ('d, 'b) nbs \<Rightarrow> bool" where
  "blockHasLiveRootInSet E key rings live s =
     list_ex (\<lambda>r. list_ex (\<lambda>c. c \<in> set live) (RootsForBlock E r key s)) rings"

text \<open>
  The sweep. The last two components are \<open>totalBytesFreed\<close> and \<open>totalBlocksFreed\<close>;
  a failing \<open>DeleteBlock\<close> returns at once.
\<close>

fun gc_sweep ::
  "('d, 'b) nenv \<Rightarrow> RingView list \<Rightarrow> string list \<Rightarrow> cid list \<Rightarrow> GCResult \<Rightarrow> int \<Rightarrow> int \<Rightarrow> ('d, 'b) nbs
     \<Rightarrow> GCResult res \<times> ('d, 'b) nbs" where
  "gc_sweep E rings live [] g freed n s =
     (Inr g, (if n > 0 then addAggDelta (- freed) (- n) s else s))"
| "gc_sweep E rings live (c # cs) g freed n s =
     (if blockHasLiveRootInSet E c rings live s
      then gc_sweep E rings live cs (g\<lparr>gc_Kept := Suc (gc_Kept g)\<rparr>) freed n s
      else
        let sz = (case blockSize E c s of Inr k \<Rightarrow> int k | Inl _ \<Rightarrow> 0);
            s1 = foldl (\<lambda>s r. cleanupRingBlockIndex E r (HexString c) sz s) s rings
        in case blk_DeleteBlock E c (blks s1) of
             (Some e, b) \<Rightarrow> (Inl (Wrap ''delete block'' e), s1\<lparr>blks := b\<rparr>)
           | (None, b) \<Rightarrow>
               gc_sweep E rings live cs (g\<lparr>gc_Removed := Suc (gc_Removed g)\<rparr>) (freed + sz) (n + 1)
                 (s1\<lparr>blks := b\<rparr>))"

definition nbs_GC :: "('d, 'b) nenv \<Rightarrow> int \<Rightarrow> ('d, 'b) nbs \<Rightarrow> GCResult res \<times> ('d, 'b) nbs" where
  "nbs_GC E now s =
     (let (_, s1) = PruneExpiredRoots E now s;
          rings = rings_of (RingsKnown E s1);
          live = concat (map (\<lambda>r. ListRoots E now r s1) rings)
      in case nbs_AllKeysChan E s1 of
           Inl e \<Rightarrow> (Inl (Wrap ''enumerate blocks'' e), s1)
         | Inr ks \<Rightarrow> gc_sweep E rings live ks \<lparr>gc_Removed = 0, gc_Kept = 0\<rparr> 0 0 s1)"

section \<open>Opening and closing\<close>

definition OpenNetworkBlockStore :: "('d, 'b) nenv \<Rightarrow> 'd \<Rightarrow> 'b \<Rightarrow> int \<Rightarrow> ('d, 'b) nbs res" where
  "OpenNetworkBlockStore E d b storageMax =
     (case loadCounters E \<lparr>ds = d, blks = b, maxBytes = storageMax, usedBytesAtomic = 0,
             blockCountAtomic = 0, ringCtrs = [], knownRings = []\<rparr> of
        (Inl e, _) \<Rightarrow> Inl e
      | (Inr _, s) \<Rightarrow> Inr (s\<lparr>knownRings := RingsKnown E s\<rparr>))"

text \<open>\<open>err1\<close> and \<open>err2\<close> are the results of closing the two databases.\<close>

definition nbs_Close :: "('d, 'b) nenv \<Rightarrow> err option \<Rightarrow> err option \<Rightarrow> ('d, 'b) nbs \<Rightarrow> err option \<times> ('d, 'b) nbs" where
  "nbs_Close E err1 err2 s =
     (case err1 of Some e \<Rightarrow> Some e | None \<Rightarrow> err2, flushRingCountersLocked E (flushAggCountersLocked E s))"

end
