(* ===== verification/Chord_Node.thy ===== *)
theory Chord_Node
  imports Chord_Id Net_Store
begin

text \<open>
  A Chord node by itself, from \<open>dht/dht.go\<close> and \<open>dht/node.go\<close>: its configuration,
  its routing state, the local routing decision and the iterative lookup. The
  transport is an argument: the answer of a remote \<open>ClosestPrecedingNode\<close> call, which
  may depend on the caller's own state because a node can be asked about itself.

  Goroutines that the routing code starts are values: the operation returns the tasks
  it would have spawned, and the network theory keeps them as pending work.
\<close>

section \<open>Addresses and configuration\<close>

record NodeAddr =
  ID :: NodeID
  Addr :: string

text \<open>\<open>Config\<close> with its defaults; durations are in nanoseconds.\<close>

record Config =
  cfg_Replication :: int
  cfg_SuccessorListSize :: int
  cfg_StabilizeInterval :: int
  cfg_FixFingersInterval :: int
  cfg_CheckPredInterval :: int
  cfg_PeerRecordTTL :: int
  cfg_GroupRecordTTL :: int
  cfg_ProviderRecordTTL :: int
  cfg_RecordPurgePeriod :: int
  cfg_PeerRepublishInterval :: int
  cfg_ProviderRepublishInterval :: int

abbreviation millisecond :: int where "millisecond \<equiv> 1000000"
abbreviation second :: int where "second \<equiv> 1000000000"
abbreviation minute :: int where "minute \<equiv> 60000000000"

definition stabilizeInterval :: "Config \<Rightarrow> int" where
  "stabilizeInterval c =
     (if cfg_StabilizeInterval c > 0 then cfg_StabilizeInterval c else 500 * millisecond)"

definition fixFingersInterval :: "Config \<Rightarrow> int" where
  "fixFingersInterval c =
     (if cfg_FixFingersInterval c > 0 then cfg_FixFingersInterval c else 300 * millisecond)"

definition checkPredInterval :: "Config \<Rightarrow> int" where
  "checkPredInterval c = (if cfg_CheckPredInterval c > 0 then cfg_CheckPredInterval c else second)"

definition cfg_replication :: "Config \<Rightarrow> int" where
  "cfg_replication c = (if cfg_Replication c > 0 then cfg_Replication c else 3)"

definition cfg_successorListSize :: "Config \<Rightarrow> int" where
  "cfg_successorListSize c =
     (if cfg_SuccessorListSize c > 0 then cfg_SuccessorListSize c
      else let r = cfg_replication c in if r < 5 then 5 else r)"

definition cfg_peerRecordTTL :: "Config \<Rightarrow> int" where
  "cfg_peerRecordTTL c = (if cfg_PeerRecordTTL c > 0 then cfg_PeerRecordTTL c else 20 * minute)"

definition cfg_groupRecordTTL :: "Config \<Rightarrow> int" where
  "cfg_groupRecordTTL c = (if cfg_GroupRecordTTL c > 0 then cfg_GroupRecordTTL c else 20 * minute)"

definition cfg_providerRecordTTL :: "Config \<Rightarrow> int" where
  "cfg_providerRecordTTL c =
     (if cfg_ProviderRecordTTL c > 0 then cfg_ProviderRecordTTL c else 70 * minute)"

definition cfg_recordPurgePeriod :: "Config \<Rightarrow> int" where
  "cfg_recordPurgePeriod c =
     (if cfg_RecordPurgePeriod c < 0 then 0
      else if cfg_RecordPurgePeriod c > 0 then cfg_RecordPurgePeriod c
      else 5 * minute)"

definition peerRepublishInterval :: "Config \<Rightarrow> int" where
  "peerRepublishInterval c =
     (if cfg_PeerRepublishInterval c > 0 then cfg_PeerRepublishInterval c else 15 * minute)"

definition providerRepublishInterval :: "Config \<Rightarrow> int" where
  "providerRepublishInterval c =
     (if cfg_ProviderRepublishInterval c > 0 then cfg_ProviderRepublishInterval c else 60 * minute)"

section \<open>Node state\<close>

abbreviation fingerCount :: nat where "fingerCount \<equiv> 160"
abbreviation maxLookupHops :: nat where "maxLookupHops \<equiv> 160"

text \<open>
  The routing fields of \<open>Node\<close>. \<open>fingers\<close> is the array of 160 entries;
  \<open>replicateSlot\<close> is whether the one-place channel \<open>replicateToSuccessorsSlot\<close> is
  taken and \<open>replicateDropped\<close> the number of rounds refused because it was.
\<close>

record node =
  node_id :: NodeID
  addr :: string
  successor :: NodeAddr
  successorList :: "NodeAddr list"
  predecessor :: "NodeAddr option"
  predecessorList :: "NodeAddr list"
  prevPredID :: NodeID
  fingers :: "NodeAddr list"
  nextFinger :: nat
  replication :: int
  successorListSize :: int
  addrRefresher :: "(NodeID \<Rightarrow> string) option"
  backgroundPaused :: bool
  replicateSlot :: bool
  replicateDropped :: nat

datatype task =
    ReplicateToNewSuccessors "NodeAddr list" "NodeAddr list"
  | TransferKeysRange NodeAddr NodeID NodeID
  | TransferRecordsRange NodeAddr NodeID NodeID
  | PushTask NodeAddr cid bytes "NetworkRootEntry list"

definition LocalNode :: "'a node_scheme \<Rightarrow> NodeAddr" where
  "LocalNode n = \<lparr>ID = node_id n, Addr = addr n\<rparr>"

lemma ID_LocalNode [simp]: "ID (LocalNode n) = node_id n"
  by (simp add: LocalNode_def)

definition NewNode :: "NodeID \<Rightarrow> string \<Rightarrow> Config \<Rightarrow> node" where
  "NewNode i a cfg = (let self = \<lparr>ID = i, Addr = a\<rparr> in
     \<lparr>node_id = i, addr = a, successor = self, successorList = [self], predecessor = None,
      predecessorList = [], prevPredID = zeroID, fingers = replicate fingerCount self,
      nextFinger = 0, replication = cfg_replication cfg,
      successorListSize = cfg_successorListSize cfg, addrRefresher = None,
      backgroundPaused = False, replicateSlot = False, replicateDropped = 0\<rparr>)"

definition Create :: "'a node_scheme \<Rightarrow> 'a node_scheme" where
  "Create n = (let self = LocalNode n in
     n\<lparr>successor := self, successorList := [self], predecessor := None,
       fingers := replicate (length (fingers n)) self\<rparr>)"

definition setAddr :: "string \<Rightarrow> 'a node_scheme \<Rightarrow> 'a node_scheme" where
  "setAddr a n =
     (let oldSelf = LocalNode n; newSelf = \<lparr>ID = node_id n, Addr = a\<rparr>;
          swap = (\<lambda>s. if s = oldSelf then newSelf else s)
      in n\<lparr>addr := a, successor := swap (successor n),
           successorList := map swap (successorList n), fingers := map swap (fingers n),
           predecessor := map_option swap (predecessor n)\<rparr>)"

text \<open>
  The well-formedness invariant of a node: the finger array has its full length, the
  cursor of \<open>fixFinger\<close> is inside it, and the predecessor list starts at the
  predecessor it was built from, names no node twice and respects its size limit.
\<close>

definition node_wf :: "'a node_scheme \<Rightarrow> bool" where
  "node_wf n \<longleftrightarrow>
     length (fingers n) = fingerCount \<and> nextFinger n < fingerCount \<and>
     replication n > 0 \<and> successorListSize n > 0 \<and>
     distinct (map ID (predecessorList n)) \<and>
     int (length (predecessorList n)) \<le> successorListSize n"

lemma node_wf_NewNode [wf_intros]: "node_wf (NewNode i a cfg)"
  by (simp add: node_wf_def NewNode_def Let_def cfg_replication_def cfg_successorListSize_def)

lemma node_wf_Create [wf_intros]: "node_wf n \<Longrightarrow> node_wf (Create n)"
  by (simp add: node_wf_def Create_def Let_def)

lemma node_wf_setAddr [wf_intros]: "node_wf n \<Longrightarrow> node_wf (setAddr a n)"
  by (simp add: node_wf_def setAddr_def Let_def)

section \<open>The local routing decision\<close>

definition best_finger :: "'a node_scheme \<Rightarrow> NodeID \<Rightarrow> NodeAddr" where
  "best_finger n i =
     (case find (\<lambda>f. BetweenExclusive (ID f) (node_id n) i) (rev (fingers n)) of
        None \<Rightarrow> LocalNode n
      | Some f \<Rightarrow> f)"

definition better_successor :: "'a node_scheme \<Rightarrow> NodeID \<Rightarrow> NodeAddr \<Rightarrow> NodeAddr \<Rightarrow> NodeAddr" where
  "better_successor n i best s =
     (if BetweenExclusive (ID s) (node_id n) i
      then (if ID best = node_id n \<or> BetweenExclusive (ID s) (ID best) i then s else best)
      else best)"

definition closestPrecedingNode :: "'a node_scheme \<Rightarrow> NodeID \<Rightarrow> NodeAddr" where
  "closestPrecedingNode n i =
     foldl (better_successor n i) (best_finger n i) (successorList n)"

section \<open>Eviction of a dead peer\<close>

definition triggerReplicateToNewSuccessors ::
  "NodeAddr list \<Rightarrow> NodeAddr list \<Rightarrow> 'a node_scheme \<Rightarrow> 'a node_scheme \<times> task list" where
  "triggerReplicateToNewSuccessors oldList newList n =
     (if replicateSlot n then (n\<lparr>replicateDropped := Suc (replicateDropped n)\<rparr>, [])
      else (n\<lparr>replicateSlot := True\<rparr>, [ReplicateToNewSuccessors oldList newList]))"

definition evictNode :: "NodeID \<Rightarrow> 'a node_scheme \<Rightarrow> 'a node_scheme \<times> task list" where
  "evictNode dead n =
     (let self = LocalNode n;
          oldList = successorList n;
          newList = filter (\<lambda>s. ID s \<noteq> dead) oldList;
          n' = n\<lparr>fingers := map (\<lambda>f. if ID f = dead then self else f) (fingers n),
                 successorList := newList\<rparr>
      in if length oldList \<noteq> length newList
         then triggerReplicateToNewSuccessors oldList newList n' else (n', []))"

section \<open>The iterative lookup\<close>

type_synonym 'a cpn_rpc = "'a node_scheme \<Rightarrow> NodeAddr \<Rightarrow> NodeID \<Rightarrow> (NodeAddr \<times> NodeAddr) res"

text \<open>
  The loop of \<open>FindSuccessor\<close>; the first argument is the number of hops left, and
  \<open>ctx h\<close> is \<open>ctx.Err()\<close> as seen with \<open>h\<close> hops left.
\<close>

fun lookup_loop ::
  "nat \<Rightarrow> (nat \<Rightarrow> err option) \<Rightarrow> 'a cpn_rpc \<Rightarrow> NodeID \<Rightarrow> NodeAddr \<Rightarrow> 'a node_scheme
     \<Rightarrow> NodeAddr res \<times> 'a node_scheme \<times> task list" where
  "lookup_loop 0 ctx rpc i candidate n = (Inr candidate, n, [])"
| "lookup_loop (Suc h) ctx rpc i candidate n =
     (case ctx (Suc h) of
        Some e \<Rightarrow> (Inl e, n, [])
      | None \<Rightarrow>
          (case rpc n candidate i of
             Inl _ \<Rightarrow>
               (let (n', ts) = evictNode (ID candidate) n;
                    candidate' = closestPrecedingNode n' i
                in if ID candidate' = node_id n' then (Inr (LocalNode n'), n', ts)
                   else (let (r, n'', ts') = lookup_loop h ctx rpc i candidate' n'
                         in (r, n'', ts @ ts')))
           | Inr (cpn, cSucc) \<Rightarrow>
               if BetweenRightInclusive i (ID candidate) (ID cSucc) then (Inr cSucc, n, [])
               else if ID cpn = ID candidate then (Inr cSucc, n, [])
               else lookup_loop h ctx rpc i cpn n))"

definition FindSuccessor ::
  "(nat \<Rightarrow> err option) \<Rightarrow> 'a cpn_rpc \<Rightarrow> NodeID \<Rightarrow> 'a node_scheme
     \<Rightarrow> NodeAddr res \<times> 'a node_scheme \<times> task list" where
  "FindSuccessor ctx rpc i n =
     (let succ = successor n in
      if BetweenRightInclusive i (node_id n) (ID succ) then (Inr succ, n, [])
      else let candidate = closestPrecedingNode n i in
        if ID candidate = node_id n then (Inr (LocalNode n), n, [])
        else lookup_loop maxLookupHops ctx rpc i candidate n)"

section \<open>Lemmas\<close>

text \<open>Eviction only rewrites the finger table and the successor list.\<close>

lemma triggerReplicate_frame:
  assumes "triggerReplicateToNewSuccessors old new n = (n', ts)"
  shows "node_id n' = node_id n" "addr n' = addr n" "successor n' = successor n"
    "successorList n' = successorList n" "predecessor n' = predecessor n"
    "predecessorList n' = predecessorList n" "fingers n' = fingers n"
    "nextFinger n' = nextFinger n" "replication n' = replication n"
    "successorListSize n' = successorListSize n" "prevPredID n' = prevPredID n"
    "addrRefresher n' = addrRefresher n" "backgroundPaused n' = backgroundPaused n"
  using assms by (auto simp: triggerReplicateToNewSuccessors_def split: if_splits)

lemma node_wf_triggerReplicate [wf_intros]:
  "node_wf n \<Longrightarrow> node_wf (fst (triggerReplicateToNewSuccessors old new n))"
  by (simp add: triggerReplicateToNewSuccessors_def node_wf_def)

lemma evictNode_frame:
  assumes "evictNode dead n = (n', ts)"
  shows "node_id n' = node_id n" "addr n' = addr n" "successor n' = successor n"
    "predecessor n' = predecessor n" "predecessorList n' = predecessorList n"
    "nextFinger n' = nextFinger n" "replication n' = replication n"
    "successorListSize n' = successorListSize n"
    "successorList n' = filter (\<lambda>s. ID s \<noteq> dead) (successorList n)"
    "fingers n' = map (\<lambda>f. if ID f = dead then LocalNode n else f) (fingers n)"
  using assms
  by (auto simp: evictNode_def Let_def triggerReplicateToNewSuccessors_def split: if_splits)

lemma node_wf_evictNode [wf_intros]: "node_wf n \<Longrightarrow> node_wf (fst (evictNode dead n))"
  by (cases "evictNode dead n") (simp add: node_wf_def evictNode_frame)

text \<open>Whatever eviction keeps, the whole lookup keeps.\<close>

lemma lookup_loop_keeps:
  assumes evict: "\<And>m d. P m \<Longrightarrow> P (fst (evictNode d m))"
  shows "P n \<Longrightarrow> P (fst (snd (lookup_loop h ctx rpc i c n)))"
proof (induction h arbitrary: c n)
  case (Suc h)
  obtain n' ts where e: "evictNode (ID c) n = (n', ts)" by fastforce
  then have "P n'" using evict [OF Suc.prems, of "ID c"] by simp
  then have "P (fst (snd (lookup_loop h ctx rpc i c' n')))" for c' by (rule Suc.IH)
  moreover have "P (fst (snd (lookup_loop h ctx rpc i c' n)))" for c'
    using Suc.prems by (rule Suc.IH)
  ultimately show ?case
    using Suc.prems \<open>P n'\<close> e
    by (simp add: Let_def case_prod_beta split: option.split sum.split)
qed simp

lemma FindSuccessor_keeps:
  assumes "\<And>m d. P m \<Longrightarrow> P (fst (evictNode d m))" and "P n"
  shows "P (fst (snd (FindSuccessor ctx rpc i n)))"
  using lookup_loop_keeps [of P, OF assms] assms(2) by (simp add: FindSuccessor_def Let_def)

lemma node_wf_FindSuccessor [wf_intros]:
  "node_wf n \<Longrightarrow> node_wf (fst (snd (FindSuccessor ctx rpc i n)))"
  by (rule FindSuccessor_keeps) (auto intro: node_wf_evictNode)

lemma evictNode_id [simp]: "node_id (fst (evictNode d n)) = node_id n"
  by (cases "evictNode d n") (simp add: evictNode_frame)

lemma FindSuccessor_id [simp]:
  "node_id (fst (snd (FindSuccessor ctx rpc i n))) = node_id n"
  by (rule FindSuccessor_keeps [where P = "\<lambda>m. node_id m = node_id n"]) simp_all

end
