(* ===== verification/Chord_Lookup.thy ===== *)
theory Chord_Lookup
  imports Chord_Node
begin

text \<open>
  Correctness of the iterative lookup of \<open>dht/node.go\<close>. The key space is measured by
  the clockwise distance of \<open>Chord_Id\<close>. In a ring whose nodes know their immediate
  successors, \<open>FindSuccessor\<close> returns the node responsible for the key; when the
  finger tables are right as well, 160 hops are enough for a ring of any size.

  The transport enters through the locale \<open>cpn_transport\<close>, which states what a
  \<open>ClosestPrecedingNode\<close> call answers; the network theory interprets it.
\<close>

section \<open>Distances and responsibility\<close>

definition dist :: "NodeID \<Rightarrow> NodeID \<Rightarrow> nat" where
  "dist a b = (if a = b then 0 else cw a b)"

definition owner :: "NodeID set \<Rightarrow> NodeID \<Rightarrow> NodeID \<Rightarrow> bool" where
  "owner S i m \<longleftrightarrow> m \<in> S \<and> (\<forall>x \<in> S. dist i m \<le> dist i x)"

definition next_member :: "NodeID set \<Rightarrow> NodeID \<Rightarrow> NodeID \<Rightarrow> bool" where
  "next_member S p s \<longleftrightarrow> s \<in> S \<and> (\<forall>x \<in> S. cw p s \<le> cw p x)"

lemma cw_neq_0 [simp]: "cw a b \<noteq> 0"
  using cw_pos [of a b] by simp

lemma dist_self [simp]: "dist a a = 0"
  by (simp add: dist_def)

lemma dist_eq_0 [simp]: "dist a b = 0 \<longleftrightarrow> a = b"
  by (simp add: dist_def)

lemma dist_less [simp]: "dist a b < ringSize"
  by (simp add: dist_def)

lemma dist_inj [simp]: "dist a b = dist a c \<longleftrightarrow> b = c"
  by (auto simp: dist_def)

lemma dist_le_cw: "dist a b \<le> cw a b"
  by (simp add: dist_def)

lemma cw_le_split: "cw a b \<le> cw a c \<Longrightarrow> cw a c = cw a b + dist b c"
  using cw_split [of a b c] by (auto simp: dist_def le_less)

lemma dist_split: "dist a b \<le> dist a c \<Longrightarrow> dist a c = dist a b + dist b c"
  using cw_le_split [of a b c] by (auto simp: dist_def split: if_splits)

lemma cw_dist_split: "dist a b < cw a c \<Longrightarrow> cw a c = dist a b + cw b c"
  using cw_split [of a b c] by (auto simp: dist_def split: if_splits)

lemma dist_add: "dist a b + dist b c < ringSize \<Longrightarrow> dist a c = dist a b + dist b c"
proof (cases "a = b \<or> b = c \<or> a = c")
  case True
  assume "dist a b + dist b c < ringSize"
  with True cw_swap [of a b] show ?thesis by (auto simp: dist_def split: if_splits)
next
  case False
  assume "dist a b + dist b c < ringSize"
  with False show ?thesis
    using id_val_less [of a] id_val_less [of b] id_val_less [of c]
    by (auto simp: dist_def cw_alt split: if_splits)
qed

lemma owner_unique: "owner S i m \<Longrightarrow> owner S i m' \<Longrightarrow> m = m'"
  by (metis dist_inj le_antisym owner_def)

lemma owner_next_member:
  assumes "next_member S p s" "cw p i \<le> cw p s"
  shows "owner S i s"
  unfolding owner_def
proof (intro conjI ballI)
  show "s \<in> S" using assms(1) by (simp add: next_member_def)
  fix x assume "x \<in> S"
  then have x: "cw p s \<le> cw p x" using assms(1) by (simp add: next_member_def)
  have "cw p s = cw p i + dist i s" using assms(2) by (rule cw_le_split)
  moreover have "cw p x = cw p i + dist i x" using assms(2) x by (intro cw_le_split) simp
  ultimately show "dist i s \<le> dist i x" using x by simp
qed

text \<open>The member just before a key, seen from any member.\<close>

lemma home_ahead:
  assumes "next_member S p s" "cw p i \<le> cw p s" "c \<in> S"
  shows "dist c p < cw c i"
proof (cases "c = p")
  case False
  have "cw p s \<le> cw p c" using assms(1,3) by (simp add: next_member_def)
  with assms(2) have *: "cw p i \<le> cw p c" by simp
  then have **: "cw p c = cw p i + dist i c" by (rule cw_le_split)
  have sw: "cw p c + cw c p = ringSize" using False by (intro cw_swap) auto
  show ?thesis
  proof (cases "i = c")
    case True
    then show ?thesis using False by (simp add: dist_def)
  next
    case ic: False
    then have "cw i c + cw c i = ringSize" by (rule cw_swap)
    then have "cw c i = cw c p + cw p i" using ** sw ic by (simp add: dist_def)
    then show ?thesis using False by (simp add: dist_def)
  qed
qed simp

lemma home_farthest:
  assumes "next_member S p s" "cw p i \<le> cw p s" "x \<in> S" "cw c x < cw c i"
  shows "dist c x \<le> dist c p" "dist c p = dist c x + dist x p"
proof -
  have "dist x p < cw x i" using assms(1-3) by (rule home_ahead)
  moreover have "cw c i = cw c x + cw x i" using assms(4) by (rule cw_split)
  ultimately have "dist c x + dist x p < ringSize"
    using cw_le [of c i] dist_le_cw [of c x] by linarith
  then show "dist c p = dist c x + dist x p" by (rule dist_add)
  then show "dist c x \<le> dist c p" by simp
qed

section \<open>The local routing decision\<close>

lemma better_successor_dist:
  assumes "dist (node_id n) (ID b) < cw (node_id n) i"
  shows "dist (node_id n) (ID (better_successor n i b s)) =
    (if cw (node_id n) (ID s) < cw (node_id n) i
     then max (dist (node_id n) (ID b)) (dist (node_id n) (ID s))
     else dist (node_id n) (ID b))"
proof -
  let ?n = "node_id n" and ?b = "ID b" and ?s = "ID s"
  have *: "BetweenExclusive ?s ?b i \<longleftrightarrow> dist ?n ?b < dist ?n ?s"
    if s: "cw ?n ?s < cw ?n i" and nb: "?b \<noteq> ?n"
  proof -
    have sn: "?s \<noteq> ?n" using s by (metis cw_le cw_self leD)
    have i: "cw ?n i = dist ?n ?b + cw ?b i" using assms by (rule cw_dist_split)
    show ?thesis
    proof (cases "dist ?n ?b < dist ?n ?s")
      case True
      then have "cw ?n ?s = cw ?n ?b + cw ?b ?s"
        using nb sn by (intro cw_split) (simp add: dist_def)
      with True s i nb sn show ?thesis by (simp add: between_cw dist_def)
    next
      case False
      have "cw ?b i \<le> cw ?b ?s"
      proof (cases "?s = ?b")
        case ne: False
        then have "cw ?n ?b = cw ?n ?s + cw ?s ?b"
          using False nb sn cw_inj [of ?n ?s ?b]
          by (intro cw_split) (simp add: dist_def not_less le_less del: cw_inj)
        moreover have "cw ?s ?b + cw ?b ?s = ringSize" using ne by (rule cw_swap)
        ultimately show ?thesis using i nb cw_le [of ?n i] by (simp add: dist_def)
      qed simp
      with False show ?thesis by (simp add: between_cw)
    qed
  qed
  show ?thesis
  proof (cases "cw ?n ?s < cw ?n i \<and> ?b \<noteq> ?n")
    case True
    then show ?thesis using * by (simp add: better_successor_def between_cw max_def)
  next
    case False
    then show ?thesis by (auto simp: better_successor_def between_cw)
  qed
qed

lemma better_successor_fold:
  assumes "dist (node_id n) (ID b) < cw (node_id n) i"
  shows "dist (node_id n) (ID (foldl (better_successor n i) b ss)) < cw (node_id n) i
    \<and> dist (node_id n) (ID b) \<le> dist (node_id n) (ID (foldl (better_successor n i) b ss))
    \<and> (\<forall>s \<in> set ss. cw (node_id n) (ID s) < cw (node_id n) i \<longrightarrow>
          dist (node_id n) (ID s) \<le> dist (node_id n) (ID (foldl (better_successor n i) b ss)))
    \<and> foldl (better_successor n i) b ss \<in> insert b (set ss)"
  using assms
proof (induction ss arbitrary: b)
  case (Cons s ss)
  let ?b = "better_successor n i b s"
  note d = better_successor_dist [OF Cons.prems, of s]
  have lt: "dist (node_id n) (ID ?b) < cw (node_id n) i"
    using d Cons.prems dist_le_cw [of "node_id n" "ID s"] by auto
  have "?b = b \<or> ?b = s" by (auto simp: better_successor_def)
  then show ?case using Cons.IH [OF lt] d by (auto split: if_splits)
qed simp

lemma find_rev_last:
  assumes "i < length xs" "P (xs ! i)"
  obtains j where "i \<le> j" "j < length xs" "find P (rev xs) = Some (xs ! j)" "P (xs ! j)"
proof -
  have "find P (rev xs) \<noteq> None"
    using assms by (auto simp: find_None_iff intro: nth_mem)
  then obtain x where x: "find P (rev xs) = Some x" by blast
  then obtain k where k: "k < length xs" "P (rev xs ! k)" "x = rev xs ! k"
      "\<forall>j<k. \<not> P (rev xs ! j)"
    by (auto simp: find_Some_iff)
  let ?j = "length xs - Suc k"
  have "i \<le> ?j"
  proof (rule ccontr)
    assume "\<not> i \<le> ?j"
    then have "length xs - Suc i < k" using assms(1) k(1) by linarith
    moreover have "rev xs ! (length xs - Suc i) = xs ! i"
      using assms(1) by (simp add: rev_nth)
    ultimately show False using k(4) assms(2) by metis
  qed
  then show thesis using that [of ?j] k x by (simp add: rev_nth)
qed

text \<open>
  What a member of a ring knows: its successor is the next member, it is on the
  successor list, and routing entries name members. The second predicate adds that
  each finger is the node responsible for its start point.
\<close>

definition routes_ok :: "NodeID set \<Rightarrow> 'a node_scheme \<Rightarrow> bool" where
  "routes_ok S t \<longleftrightarrow>
     next_member S (node_id t) (ID (successor t)) \<and>
     ID (successor t) \<in> ID ` set (successorList t) \<and>
     (\<forall>f \<in> set (fingers t) \<union> set (successorList t). ID f \<in> S)"

definition fingers_ok :: "NodeID set \<Rightarrow> 'a node_scheme \<Rightarrow> bool" where
  "fingers_ok S t \<longleftrightarrow>
     length (fingers t) = fingerCount \<and>
     (\<forall>k < fingerCount. owner S (fingerStart (node_id t) k) (ID (fingers t ! k)))"

lemma best_finger_cases:
  "best_finger n i = LocalNode n \<or>
   best_finger n i \<in> set (fingers n) \<and> cw (node_id n) (ID (best_finger n i)) < cw (node_id n) i"
proof (cases "find (\<lambda>f. BetweenExclusive (ID f) (node_id n) i) (rev (fingers n))")
  case (Some f)
  then have "f \<in> set (rev (fingers n)) \<and> BetweenExclusive (ID f) (node_id n) i"
    unfolding find_Some_iff by (metis length_rev nth_mem)
  with Some show ?thesis by (simp add: best_finger_def between_cw)
qed (simp add: best_finger_def)

lemma best_finger_dist: "dist (node_id n) (ID (best_finger n i)) < cw (node_id n) i"
  using best_finger_cases [of n i] dist_le_cw [of "node_id n" "ID (best_finger n i)"]
  by (metis ID_LocalNode cw_pos dist_self le_less_trans)

lemmas cpn_fold =
  better_successor_fold [OF best_finger_dist, of n i "successorList n" for n i,
    folded closestPrecedingNode_def]

lemma cpn_step:
  assumes t: "routes_ok S t" "node_id t \<in> S"
    and past: "cw (node_id t) (ID (successor t)) < cw (node_id t) i"
    and home: "next_member S p s" "cw p i \<le> cw p s"
  defines "r \<equiv> ID (closestPrecedingNode t i)"
  shows "r \<in> S" "r \<noteq> node_id t" "dist (node_id t) p = dist (node_id t) r + dist r p"
    "dist r p < dist (node_id t) p" "dist (node_id t) (ID (best_finger t i)) \<le> dist (node_id t) r"
proof -
  let ?n = "node_id t"
  note f = cpn_fold [of t i]
  obtain s0 where s0: "s0 \<in> set (successorList t)" "ID s0 = ID (successor t)"
    using t(1) by (auto simp: routes_ok_def)
  have ne: "ID (successor t) \<noteq> ?n" using past by (metis cw_le cw_self leD)
  have "dist ?n (ID s0) \<le> dist ?n r" using f s0 past unfolding r_def by auto
  then show rn: "r \<noteq> ?n" using ne s0 by auto
  show r: "r \<in> S"
    using f t best_finger_cases [of t i] unfolding r_def routes_ok_def by auto
  have "cw ?n r < cw ?n i" using f rn unfolding r_def by (auto simp: dist_def split: if_splits)
  then show d: "dist ?n p = dist ?n r + dist r p" using home r home_farthest(2) by blast
  then show "dist r p < dist ?n p" using rn by (metis add_cancel_right_left add_lessD1 dist_eq_0 le_add2 le_neq_implies_less)
  show "dist ?n (ID (best_finger t i)) \<le> dist ?n r" using f unfolding r_def by blast
qed

lemma dist_fingerStart: "k < fingerCount \<Longrightarrow> dist n (fingerStart n k) = 2 ^ k"
proof -
  assume k: "k < fingerCount"
  have "(2::nat) ^ k < ringSize"
    unfolding ringSize_def by (rule power_strict_increasing) (use k in auto)
  then show ?thesis using cw_fingerStart [OF k, of n] by (metis cw_self dist_def less_irrefl)
qed

lemma finger_far:
  assumes "owner S (fingerStart n k) f" "n \<in> S" "k < fingerCount"
  shows "f = n \<or> 2 ^ k \<le> dist n f"
proof (rule ccontr)
  let ?a = "fingerStart n k"
  assume *: "\<not> (f = n \<or> 2 ^ k \<le> dist n f)"
  have a: "dist n ?a = 2 ^ k" using assms(3) by (rule dist_fingerStart)
  then have ne: "n \<noteq> ?a" by (metis dist_self power_not_zero zero_neq_numeral)
  then have "dist n ?a + dist ?a n = ringSize" using cw_swap [of n ?a] by (simp add: dist_def)
  then have "dist ?a f = dist ?a n + dist n f" using * a by (intro dist_add) linarith
  moreover have "dist ?a f \<le> dist ?a n" using assms(1,2) by (simp add: owner_def)
  ultimately show False using * by simp
qed

lemma finger_near:
  assumes own: "owner S (fingerStart n k) f" and "p \<in> S" "k < fingerCount" "2 ^ k \<le> dist n p"
  shows "f \<noteq> n" "dist n f \<le> dist n p"
proof -
  let ?a = "fingerStart n k"
  have a: "dist n ?a = 2 ^ k" using assms(3) by (rule dist_fingerStart)
  have p: "dist n p = dist n ?a + dist ?a p" using a assms(4) by (intro dist_split) simp
  moreover have "dist ?a f \<le> dist ?a p" using own assms(2) by (simp add: owner_def)
  ultimately have "dist n ?a + dist ?a f < ringSize" using dist_less [of n p] by linarith
  then have f: "dist n f = dist n ?a + dist ?a f" by (rule dist_add)
  then show "f \<noteq> n" using a by (metis add_is_0 dist_self power_not_zero zero_neq_numeral)
  show "dist n f \<le> dist n p" using f p \<open>dist ?a f \<le> dist ?a p\<close> by simp
qed

lemma finger_halves:
  assumes t: "fingers_ok S t"
    and home: "next_member S p s" "cw p i \<le> cw p s" and p: "p \<in> S"
    and c: "node_id t \<in> S" and k: "k < fingerCount" "2 ^ k \<le> dist (node_id t) p"
  shows "2 ^ k \<le> dist (node_id t) (ID (best_finger t i))"
proof -
  let ?n = "node_id t" and ?P = "\<lambda>f. BetweenExclusive (ID f) (node_id t) i"
  have len: "length (fingers t) = fingerCount"
    and own: "\<And>j. j < fingerCount \<Longrightarrow> owner S (fingerStart ?n j) (ID (fingers t ! j))"
    using t by (simp_all add: fingers_ok_def)
  have "?P (fingers t ! k)"
    using finger_near [OF own [OF k(1)] p k] home_ahead [OF home c]
    by (simp add: between_cw dist_def split: if_splits)
  then obtain j where j: "k \<le> j" "j < fingerCount" "best_finger t i = fingers t ! j" "?P (fingers t ! j)"
    using find_rev_last [of k "fingers t" ?P] k(1) len unfolding best_finger_def by force
  have "ID (fingers t ! j) \<noteq> ?n" using j(4) by (metis between_cw(1) cw_le cw_self leD)
  then have "2 ^ j \<le> dist ?n (ID (best_finger t i))"
    using finger_far [OF own [OF j(2)] c j(2)] j(3) by simp
  moreover have "(2::nat) ^ k \<le> 2 ^ j" using j(1) by simp
  ultimately show ?thesis by linarith
qed

text \<open>Every key has a member just before it.\<close>

lemma home_exists:
  assumes "S \<noteq> {}" and "\<And>p. p \<in> S \<Longrightarrow> \<exists>s. next_member S p s"
  obtains p s where "p \<in> S" "next_member S p s" "cw p i \<le> cw p s"
proof -
  obtain p where p: "p \<in> S" "\<forall>x \<in> S. cw p i \<le> cw x i"
    using assms(1) ex_has_least_nat [of "\<lambda>p. p \<in> S" _ "\<lambda>p. cw p i"] by blast
  obtain s where s: "next_member S p s" using assms(2) p(1) by blast
  have "cw p i \<le> cw p s"
  proof (rule ccontr)
    assume "\<not> cw p i \<le> cw p s"
    then have "cw p i = cw p s + cw s i" by (intro cw_split) simp
    moreover have "cw p i \<le> cw s i" using p(2) s by (simp add: next_member_def)
    ultimately show False using cw_pos [of p s] by linarith
  qed
  with p s that show thesis by blast
qed

section \<open>The lookup over a transport\<close>

text \<open>
  \<open>resolve n a\<close> is the node that answers at address \<open>a\<close> when the caller's own state is
  \<open>n\<close>, and \<open>None\<close> when nobody can be reached there. The laws are the contract of
  \<open>Transport.ClosestPrecedingNode\<close>.
\<close>

locale cpn_transport =
  fixes rpc :: "'a cpn_rpc"
    and resolve :: "'a node_scheme \<Rightarrow> NodeAddr \<Rightarrow> 'a node_scheme option"
  assumes rpc_ok: "resolve n a = Some t \<Longrightarrow> rpc n a i = Inr (closestPrecedingNode t i, successor t)"
    and rpc_fail: "resolve n a = None \<Longrightarrow> \<exists>e. rpc n a i = Inl e"
begin

definition members_ok :: "NodeID set \<Rightarrow> 'a node_scheme \<Rightarrow> bool" where
  "members_ok S n \<longleftrightarrow>
     (\<forall>a. ID a \<in> S \<longrightarrow> (\<exists>t. resolve n a = Some t \<and> node_id t = ID a \<and> routes_ok S t))"

lemma members_okD:
  assumes "members_ok S n" "ID a \<in> S"
  obtains t where "resolve n a = Some t" "node_id t = ID a" "routes_ok S t"
  using assms unfolding members_ok_def by blast

text \<open>
  The loop ends at the owner as long as some measure \<open>Q\<close> of the hops still needed
  goes down with each hop.
\<close>

lemma lookup_loop_owner:
  assumes m: "members_ok S n" and ctx: "\<And>h. ctx h = None"
    and home: "next_member S p s" "cw p i \<le> cw p s"
    and Q0: "\<And>x. x \<in> S \<Longrightarrow> Q 0 x \<Longrightarrow> x = p"
    and QS: "\<And>h t a. resolve n a = Some t \<Longrightarrow> node_id t = ID a \<Longrightarrow> routes_ok S t \<Longrightarrow> ID a \<in> S \<Longrightarrow>
      Q (Suc h) (node_id t) \<Longrightarrow> cw (node_id t) (ID (successor t)) < cw (node_id t) i \<Longrightarrow>
      Q h (ID (closestPrecedingNode t i))"
  shows "ID c \<in> S \<Longrightarrow> Q h (ID c) \<Longrightarrow>
    \<exists>a. lookup_loop (Suc h) ctx rpc i c n = (Inr a, n, []) \<and> owner S i (ID a)"
proof (induction h arbitrary: c)
  case (0 c)
  obtain t where t: "resolve n c = Some t" "node_id t = ID c" "routes_ok S t"
    using members_okD [OF m 0(1)] .
  have "ID c = p" using 0 by (rule Q0)
  then have "next_member S p (ID (successor t))" using t by (simp add: routes_ok_def)
  then have "ID (successor t) = s" using home(1) by (auto simp: next_member_def) (metis cw_inj le_antisym)
  then show ?case
    using rpc_ok [OF t(1), of i] home \<open>ID c = p\<close> owner_next_member [OF home] ctx
    by (simp add: between_cw)
next
  case (Suc h c)
  obtain t where t: "resolve n c = Some t" "node_id t = ID c" "routes_ok S t"
    using members_okD [OF m Suc.prems(1)] .
  show ?case
  proof (cases "cw (ID c) i \<le> cw (ID c) (ID (successor t))")
    case True
    moreover have "owner S i (ID (successor t))"
      using True t by (intro owner_next_member [of S "ID c"]) (auto simp: routes_ok_def)
    ultimately show ?thesis using rpc_ok [OF t(1), of i] ctx by (simp add: between_cw)
  next
    case False
    let ?r = "closestPrecedingNode t i"
    have past: "cw (node_id t) (ID (successor t)) < cw (node_id t) i" using False t(2) by simp
    have r: "ID ?r \<in> S" "ID ?r \<noteq> ID c"
      using cpn_step(1,2) [OF t(3) _ past home] t(2) Suc.prems(1) by auto
    have "Q h (ID ?r)"
      using Suc.prems t past by (intro QS [of c]) auto
    with r(1) have "\<exists>a. lookup_loop (Suc h) ctx rpc i ?r n = (Inr a, n, []) \<and> owner S i (ID a)"
      by (rule Suc.IH)
    moreover have "lookup_loop (Suc (Suc h)) ctx rpc i c n = lookup_loop (Suc h) ctx rpc i ?r n"
      using rpc_ok [OF t(1), of i] r(2) False ctx
      by (subst lookup_loop.simps(2)) (simp add: between_cw)
    ultimately show ?thesis by simp
  qed
qed

lemma FindSuccessor_via_loop:
  assumes n: "routes_ok S n" "node_id n \<in> S"
    and home: "next_member S p s" "cw p i \<le> cw p s"
    and loop: "cw (node_id n) (ID (successor n)) < cw (node_id n) i \<Longrightarrow>
      \<exists>a. lookup_loop maxLookupHops ctx rpc i (closestPrecedingNode n i) n = (Inr a, n, [])
        \<and> owner S i (ID a)"
  shows "\<exists>a. FindSuccessor ctx rpc i n = (Inr a, n, []) \<and> owner S i (ID a)"
proof (cases "cw (node_id n) i \<le> cw (node_id n) (ID (successor n))")
  case True
  moreover have "owner S i (ID (successor n))"
    using True n by (intro owner_next_member [of S "node_id n"]) (auto simp: routes_ok_def)
  ultimately show ?thesis by (simp add: FindSuccessor_def between_cw)
next
  case False
  then have past: "cw (node_id n) (ID (successor n)) < cw (node_id n) i" by simp
  then show ?thesis
    using loop [OF past] cpn_step(2) [OF n past home] by (simp add: FindSuccessor_def between_cw)
qed

text \<open>With correct finger tables 160 hops reach the owner in any ring.\<close>

lemma FindSuccessor_fingers:
  assumes n: "routes_ok S n" "fingers_ok S n" "node_id n \<in> S" and m: "members_ok S n"
    and f: "\<And>a t. ID a \<in> S \<Longrightarrow> resolve n a = Some t \<Longrightarrow> fingers_ok S t"
    and ctx: "\<And>h. ctx h = None"
  shows "\<exists>a. FindSuccessor ctx rpc i n = (Inr a, n, []) \<and> owner S i (ID a)"
proof -
  have "\<exists>s. next_member S p s" if "p \<in> S" for p
    using members_okD [OF m, of "\<lparr>ID = p, Addr = []\<rparr>"] that by (metis NodeAddr.select_convs(1) routes_ok_def)
  then obtain p s where p: "p \<in> S" and home: "next_member S p s" "cw p i \<le> cw p s"
    using home_exists [of S i] n(3) by blast
  have hop: "dist (ID (closestPrecedingNode t i)) p < 2 ^ h"
    if t: "routes_ok S t" "fingers_ok S t" "node_id t \<in> S"
      and d: "dist (node_id t) p < 2 ^ Suc h" "h < fingerCount"
      and past: "cw (node_id t) (ID (successor t)) < cw (node_id t) i" for t h
  proof (cases "dist (node_id t) p < 2 ^ h")
    case True
    with cpn_step(4) [OF t(1,3) past home] show ?thesis by simp
  next
    case False
    then have "2 ^ h \<le> dist (node_id t) (ID (best_finger t i))"
      using d(2) by (intro finger_halves [OF t(2) home p t(3)]) auto
    with cpn_step(3,5) [OF t(1,3) past home] d(1) show ?thesis by simp
  qed
  show ?thesis
  proof (rule FindSuccessor_via_loop [OF n(1,3) home])
    assume past: "cw (node_id n) (ID (successor n)) < cw (node_id n) i"
    have "dist (node_id n) p < 2 ^ Suc 159"
      using dist_less [of "node_id n" p] unfolding ringSize_def by simp
    then have start: "dist (ID (closestPrecedingNode n i)) p < 2 ^ 159"
      by (rule hop [OF n(1,2,3) _ _ past]) simp
    have cS: "ID (closestPrecedingNode n i) \<in> S" using cpn_step(1) [OF n(1,3) past home] .
    have "\<exists>a. lookup_loop (Suc 159) ctx rpc i (closestPrecedingNode n i) n = (Inr a, n, [])
        \<and> owner S i (ID a)"
    proof (rule lookup_loop_owner [OF m ctx home, where Q = "\<lambda>h c. dist c p < 2 ^ h \<and> h < fingerCount"])
      show "ID (closestPrecedingNode n i) \<in> S" by (rule cS)
    next
      fix h t a
      assume a: "resolve n a = Some t" "node_id t = ID a" "routes_ok S t" "ID a \<in> S"
        and Q: "dist (node_id t) p < 2 ^ Suc h \<and> Suc h < fingerCount"
        and past: "cw (node_id t) (ID (successor t)) < cw (node_id t) i"
      have "dist (ID (closestPrecedingNode t i)) p < 2 ^ h"
        using Q a by (intro hop [OF a(3) f [OF a(4,1)] _ _ _ past]) auto
      then show "dist (ID (closestPrecedingNode t i)) p < 2 ^ h \<and> h < fingerCount" using Q by simp
    qed (use start in auto)
    then show "\<exists>a. lookup_loop maxLookupHops ctx rpc i (closestPrecedingNode n i) n = (Inr a, n, [])
        \<and> owner S i (ID a)" by simp
  qed
qed

text \<open>Without any assumption on the fingers the hop limit bounds the ring size instead.\<close>

lemma FindSuccessor_small_ring:
  assumes n: "routes_ok S n" "node_id n \<in> S" and m: "members_ok S n"
    and fin: "finite S" "card S \<le> Suc maxLookupHops" and ctx: "\<And>h. ctx h = None"
  shows "\<exists>a. FindSuccessor ctx rpc i n = (Inr a, n, []) \<and> owner S i (ID a)"
proof -
  have "\<exists>s. next_member S p s" if "p \<in> S" for p
    using members_okD [OF m, of "\<lparr>ID = p, Addr = []\<rparr>"] that by (metis NodeAddr.select_convs(1) routes_ok_def)
  then obtain p s where p: "p \<in> S" and home: "next_member S p s" "cw p i \<le> cw p s"
    using home_exists [of S i] n(2) by blast
  let ?B = "\<lambda>c. {x \<in> S. dist x p < dist c p}"
  have hop: "card (?B (ID (closestPrecedingNode t i))) \<le> h"
    if t: "routes_ok S t" "node_id t \<in> S" and d: "card (?B (node_id t)) \<le> Suc h"
      and past: "cw (node_id t) (ID (successor t)) < cw (node_id t) i" for t h
  proof -
    let ?r = "ID (closestPrecedingNode t i)"
    have "?B ?r \<subset> ?B (node_id t)" using cpn_step(1,4) [OF t past home] by auto
    then have "card (?B ?r) < card (?B (node_id t))" using fin(1) by (intro psubset_card_mono) auto
    with d show ?thesis by simp
  qed
  show ?thesis
  proof (rule FindSuccessor_via_loop [OF n home])
    assume past: "cw (node_id n) (ID (successor n)) < cw (node_id n) i"
    have "?B (node_id n) \<subset> S" using n(2) by auto
    then have "card (?B (node_id n)) < card S" using fin(1) by (rule psubset_card_mono [rotated])
    then have "card (?B (node_id n)) \<le> Suc 159" using fin(2) by simp
    then have start: "card (?B (ID (closestPrecedingNode n i))) \<le> 159" by (rule hop [OF n _ past])
    have "\<exists>a. lookup_loop (Suc 159) ctx rpc i (closestPrecedingNode n i) n = (Inr a, n, [])
        \<and> owner S i (ID a)"
    proof (rule lookup_loop_owner [OF m ctx home, where Q = "\<lambda>h c. card (?B c) \<le> h"])
      show "ID (closestPrecedingNode n i) \<in> S" by (rule cpn_step(1) [OF n past home])
      show "card (?B (ID (closestPrecedingNode n i))) \<le> 159" by (rule start)
    next
      fix x assume x: "x \<in> S" "card (?B x) \<le> 0"
      then have "?B x = {}" using fin(1) by simp
      then have "p \<notin> ?B x" by (rule ssubst) simp
      then show "x = p" using p by simp
    next
      fix h t a
      assume a: "routes_ok S t" "node_id t = ID a" "ID a \<in> S" "card (?B (node_id t)) \<le> Suc h"
        and past: "cw (node_id t) (ID (successor t)) < cw (node_id t) i"
      show "card (?B (ID (closestPrecedingNode t i))) \<le> h"
        using a by (intro hop [OF _ _ _ past]) auto
    qed
    then show "\<exists>a. lookup_loop maxLookupHops ctx rpc i (closestPrecedingNode n i) n = (Inr a, n, [])
        \<and> owner S i (ID a)" by simp
  qed
qed

end

end
