(* ===== verification/Chord_Net.thy ===== *)
theory Chord_Net
  imports Chord_Lookup
begin

text \<open>
  Nodes in a network, from \<open>dht/local.go\<close> (the in-process transport and its ring of
  nodes), \<open>dht/stabilize.go\<close> and the routing half of \<open>dht/node.go\<close>. A ring holds the state
  of every node; an operation of one node reads and changes the others only through
  the transport. Operations run one after the other; the goroutines they start wait in
  \<open>pending\<close> until some later step runs them.

  The definitions are polymorphic in the part of a node that holds its blocks and
  records, so they and their lemmas apply to the full node.
\<close>

section \<open>The ring of nodes\<close>

record 'a ring =
  nodeMap :: "(NodeID \<times> 'a node_scheme) list"
  Nodes :: "NodeID list"
  blocked :: "(NodeID \<times> NodeID) list"
  pending :: "(NodeID \<times> task) list"
  ring_Replication :: int

definition NewTestRing :: "'a ring" where
  "NewTestRing = \<lparr>nodeMap = [], Nodes = [], blocked = [], pending = [], ring_Replication = 1\<rparr>"

definition w_node :: "'a ring \<Rightarrow> NodeID \<Rightarrow> 'a node_scheme option" where
  "w_node w i = map_of (nodeMap w) i"

definition put_node :: "NodeID \<Rightarrow> 'a node_scheme \<Rightarrow> 'a ring \<Rightarrow> 'a ring" where
  "put_node i n w = w\<lparr>nodeMap := aupd i n (nodeMap w)\<rparr>"

definition spawn :: "NodeID \<Rightarrow> task list \<Rightarrow> 'a ring \<Rightarrow> 'a ring" where
  "spawn i ts w = w\<lparr>pending := pending w @ map (Pair i) ts\<rparr>"

text \<open>One step of node \<open>i\<close>, which may start tasks.\<close>

definition on_node ::
  "NodeID \<Rightarrow> ('a node_scheme \<Rightarrow> 'a node_scheme \<times> task list) \<Rightarrow> 'a ring \<Rightarrow> 'a ring" where
  "on_node i f w =
     (case w_node w i of
        None \<Rightarrow> w
      | Some n \<Rightarrow> let (n', ts) = f n in spawn i ts (put_node i n' w))"

definition canReach :: "'a ring \<Rightarrow> NodeID \<Rightarrow> NodeID \<Rightarrow> bool" where
  "canReach w src dst \<longleftrightarrow> w_node w dst \<noteq> None \<and> (src, dst) \<notin> set (blocked w)"

definition getNode :: "'a ring \<Rightarrow> NodeID \<Rightarrow> NodeID \<Rightarrow> 'a node_scheme option" where
  "getNode w src dst = (if (src, dst) \<in> set (blocked w) then None else w_node w dst)"

definition RemoveNode :: "NodeID \<Rightarrow> 'a ring \<Rightarrow> 'a ring" where
  "RemoveNode i w = w\<lparr>nodeMap := adel i (nodeMap w), Nodes := remove1 i (Nodes w)\<rparr>"

definition Partition :: "NodeID \<Rightarrow> NodeID \<Rightarrow> 'a ring \<Rightarrow> 'a ring" where
  "Partition a b w = w\<lparr>blocked := List.insert (b, a) (List.insert (a, b) (blocked w))\<rparr>"

definition Heal :: "NodeID \<Rightarrow> NodeID \<Rightarrow> 'a ring \<Rightarrow> 'a ring" where
  "Heal a b w = w\<lparr>blocked := removeAll (b, a) (removeAll (a, b) (blocked w))\<rparr>"

section \<open>Routing calls of the local transport\<close>

definition lt_resolve :: "'a ring \<Rightarrow> NodeID \<Rightarrow> NodeAddr \<Rightarrow> 'a node_scheme res" where
  "lt_resolve w me target =
     (case getNode w me (ID target) of
        None \<Rightarrow> Inl (Errorf ''node unreachable'')
      | Some n \<Rightarrow> Inr n)"

definition lt_Ping :: "'a ring \<Rightarrow> NodeID \<Rightarrow> NodeAddr \<Rightarrow> bool" where
  "lt_Ping w me target = canReach w me (ID target)"

text \<open>
  The caller's own state is the argument \<open>self\<close>: a lookup evicts dead peers from it
  while it runs, and a node can be asked about itself.
\<close>

definition lt_ClosestPrecedingNode :: "'a ring \<Rightarrow> NodeID \<Rightarrow> 'a cpn_rpc" where
  "lt_ClosestPrecedingNode w me self target i =
     (case lt_resolve (put_node me self w) me target of
        Inl e \<Rightarrow> Inl e
      | Inr n \<Rightarrow> Inr (closestPrecedingNode n i, successor n))"

definition lt_GetPredecessor :: "'a ring \<Rightarrow> NodeID \<Rightarrow> NodeAddr \<Rightarrow> NodeAddr option res" where
  "lt_GetPredecessor w me target =
     (case lt_resolve w me target of Inl e \<Rightarrow> Inl e | Inr n \<Rightarrow> Inr (predecessor n))"

definition lt_GetSuccessorList :: "'a ring \<Rightarrow> NodeID \<Rightarrow> NodeAddr \<Rightarrow> NodeAddr list res" where
  "lt_GetSuccessorList w me target =
     (case lt_resolve w me target of Inl e \<Rightarrow> Inl e | Inr n \<Rightarrow> Inr (successorList n))"

text \<open>\<open>FindSuccessor\<close> of node \<open>i\<close>, with the background context, and as a remote call.\<close>

definition w_FindSuccessor :: "NodeID \<Rightarrow> NodeID \<Rightarrow> 'a ring \<Rightarrow> NodeAddr res \<times> 'a ring" where
  "w_FindSuccessor i key w =
     (case w_node w i of
        None \<Rightarrow> (Inl (Errorf ''no such node''), w)
      | Some n \<Rightarrow>
          (let (r, n', ts) = FindSuccessor (\<lambda>_. None) (lt_ClosestPrecedingNode w i) key n
           in (r, spawn i ts (put_node i n' w))))"

definition lt_FindSuccessor :: "NodeID \<Rightarrow> NodeAddr \<Rightarrow> NodeID \<Rightarrow> 'a ring \<Rightarrow> NodeAddr res \<times> 'a ring" where
  "lt_FindSuccessor me target key w =
     (case lt_resolve w me target of
        Inl e \<Rightarrow> (Inl e, w)
      | Inr _ \<Rightarrow> w_FindSuccessor (ID target) key w)"

section \<open>Predecessors\<close>

definition acceptPredecessor :: "NodeAddr \<Rightarrow> 'a node_scheme \<Rightarrow> 'a node_scheme \<times> task list" where
  "acceptPredecessor caller n =
     (let oldPred = predecessor n;
          n' = n\<lparr>predecessor := Some caller\<rparr>;
          transfer = (\<lambda>from. [TransferKeysRange caller from (ID caller), TransferRecordsRange caller from (ID caller)])
      in if ID caller = node_id n then (n', [])
         else (case oldPred of
                 Some old \<Rightarrow> if ID caller = ID old then (n', []) else (n', transfer (ID old))
               | None \<Rightarrow> (n', transfer (node_id n))))"

definition accepts :: "NodeAddr \<Rightarrow> 'a node_scheme \<Rightarrow> bool" where
  "accepts caller n =
     (case predecessor n of
        None \<Rightarrow> True
      | Some p \<Rightarrow> BetweenExclusive (ID caller) (ID p) (node_id n))"

definition notify :: "(NodeAddr \<Rightarrow> bool) \<Rightarrow> NodeAddr \<Rightarrow> 'a node_scheme \<Rightarrow> 'a node_scheme \<times> task list" where
  "notify ping caller n =
     (if accepts caller n then acceptPredecessor caller n
      else (case predecessor n of
              None \<Rightarrow> (n, [])
            | Some stalePred \<Rightarrow>
                if ping stalePred then (n, [])
                else let n1 = n\<lparr>predecessor := None\<rparr> in
                  if accepts caller n1 then acceptPredecessor caller n1 else (n1, [])))"

definition lt_Notify :: "NodeID \<Rightarrow> NodeAddr \<Rightarrow> NodeAddr \<Rightarrow> 'a ring \<Rightarrow> 'a ring" where
  "lt_Notify me target caller w =
     (case lt_resolve w me target of
        Inl _ \<Rightarrow> w
      | Inr _ \<Rightarrow> on_node (ID target) (notify (lt_Ping w (ID target)) caller) w)"

definition checkPredecessor :: "NodeID \<Rightarrow> 'a ring \<Rightarrow> 'a ring" where
  "checkPredecessor i w =
     on_node i (\<lambda>n. case predecessor n of
        None \<Rightarrow> (n, [])
      | Some p \<Rightarrow> if lt_Ping w i p then (n, []) else (n\<lparr>predecessor := None\<rparr>, [])) w"

text \<open>
  The loop of \<open>refreshPredecessorList\<close>; the first argument is the number of rounds left.
\<close>

fun pred_loop ::
  "nat \<Rightarrow> (NodeAddr \<Rightarrow> NodeAddr option res) \<Rightarrow> NodeID \<Rightarrow> NodeAddr \<Rightarrow> NodeAddr list \<Rightarrow> NodeAddr list" where
  "pred_loop 0 getPred self cur list = list"
| "pred_loop (Suc k) getPred self cur list =
     (if ID cur = self then list
      else (case getPred cur of
              Inl _ \<Rightarrow> list
            | Inr None \<Rightarrow> list
            | Inr (Some nextPred) \<Rightarrow>
                if ID nextPred = self then list
                else if list_ex (\<lambda>e. ID e = ID nextPred) list then list
                else pred_loop k getPred self nextPred (list @ [nextPred])))"

definition refreshPredecessorList :: "NodeID \<Rightarrow> 'a ring \<Rightarrow> 'a ring" where
  "refreshPredecessorList i w =
     on_node i (\<lambda>n. case predecessor n of
        None \<Rightarrow> (n\<lparr>predecessorList := []\<rparr>, [])
      | Some p \<Rightarrow>
          (n\<lparr>predecessorList :=
              pred_loop (nat (successorListSize n - 1)) (lt_GetPredecessor w i) i p [p]\<rparr>, [])) w"

section \<open>Stabilisation\<close>

fun append_upto :: "int \<Rightarrow> 'b list \<Rightarrow> 'b list \<Rightarrow> 'b list" where
  "append_upto m list [] = list"
| "append_upto m list (s # ss) =
     (if int (length list) \<ge> m then list else append_upto m (list @ [s]) ss)"

definition refreshSuccessorListAndReplicate :: "NodeID \<Rightarrow> NodeAddr \<Rightarrow> NodeAddr list \<Rightarrow> 'a ring \<Rightarrow> 'a ring" where
  "refreshSuccessorListAndReplicate i succ oldList w =
     (case lt_GetSuccessorList w i succ of
        Inl _ \<Rightarrow> w
      | Inr succList \<Rightarrow>
          refreshPredecessorList i
            (on_node i (\<lambda>n.
               let list = append_upto (successorListSize n) [succ] succList
               in triggerReplicateToNewSuccessors oldList list (n\<lparr>successorList := list\<rparr>)) w))"

definition handleSuccessorFailure :: "(NodeAddr \<Rightarrow> bool) \<Rightarrow> 'a node_scheme \<Rightarrow> 'a node_scheme" where
  "handleSuccessorFailure ping n =
     (case dropWhile (\<lambda>s. ID s = node_id n \<or> \<not> ping s) (successorList n) of
        s # rest \<Rightarrow> n\<lparr>successor := s, successorList := s # rest\<rparr>
      | [] \<Rightarrow>
          (let self = LocalNode n in
           n\<lparr>successor := self,
             successorList := self # filter (\<lambda>s. ID s \<noteq> node_id n) (successorList n)\<rparr>))"

fun reconnect_loop ::
  "(NodeAddr \<Rightarrow> bool) \<Rightarrow> (NodeID \<Rightarrow> string) option \<Rightarrow> NodeID \<Rightarrow> NodeAddr list \<Rightarrow> NodeAddr option" where
  "reconnect_loop ping refresh self [] = None"
| "reconnect_loop ping refresh self (s # ss) =
     (if ID s = self then reconnect_loop ping refresh self ss
      else if ping s then Some s
      else (case refresh of
              None \<Rightarrow> reconnect_loop ping refresh self ss
            | Some f \<Rightarrow>
                (let newAddr = f (ID s); updated = \<lparr>ID = ID s, Addr = newAddr\<rparr> in
                 if newAddr = [] \<or> newAddr = Addr s then reconnect_loop ping refresh self ss
                 else if ping updated then Some updated
                 else reconnect_loop ping refresh self ss)))"

definition tryReconnect :: "(NodeAddr \<Rightarrow> bool) \<Rightarrow> 'a node_scheme \<Rightarrow> bool \<times> 'a node_scheme" where
  "tryReconnect ping n =
     (case reconnect_loop ping (addrRefresher n) (node_id n) (successorList n) of
        None \<Rightarrow> (False, n)
      | Some s \<Rightarrow> (True, n\<lparr>successor := s, successorList := [s]\<rparr>))"

definition stabilize :: "NodeID \<Rightarrow> 'a ring \<Rightarrow> 'a ring" where
  "stabilize i w =
     (case w_node w i of
        None \<Rightarrow> w
      | Some n \<Rightarrow>
          (let succ = successor n; savedOldList = successorList n in
           case lt_GetPredecessor w i succ of
             Inl _ \<Rightarrow>
               (let n1 = handleSuccessorFailure (lt_Ping w i) n;
                    w1 = put_node i n1 w;
                    succ1 = successor n1
                in if ID succ1 = i then w1
                   else refreshSuccessorListAndReplicate i succ1 savedOldList w1)
           | Inr pred \<Rightarrow>
               (let (succ1, w1) =
                      (case pred of
                         Some p \<Rightarrow>
                           if BetweenExclusive (ID p) i (ID succ) \<and> lt_Ping w i p
                           then (p, put_node i (n\<lparr>successor := p\<rparr>) w) else (succ, w)
                       | None \<Rightarrow> (succ, w));
                    w2 = lt_Notify i succ1 (LocalNode n) w1
                in if ID succ1 = i
                   then on_node i (\<lambda>n. (snd (tryReconnect (lt_Ping w2 i) n), [])) w2
                   else refreshSuccessorListAndReplicate i succ1 savedOldList w2)))"

definition fixFinger :: "NodeID \<Rightarrow> 'a ring \<Rightarrow> 'a ring" where
  "fixFinger i w =
     (case w_node w i of
        None \<Rightarrow> w
      | Some n \<Rightarrow>
          (let k = nextFinger n;
               w1 = put_node i (n\<lparr>nextFinger := (nextFinger n + 1) mod fingerCount\<rparr>) w
           in case w_FindSuccessor i (fingerStart (node_id n) k) w1 of
                (Inl _, w2) \<Rightarrow> w2
              | (Inr succ, w2) \<Rightarrow> on_node i (\<lambda>n. (n\<lparr>fingers := (fingers n)[k := succ]\<rparr>, [])) w2))"

definition FixAllFingers :: "NodeID \<Rightarrow> 'a ring \<Rightarrow> 'a ring" where
  "FixAllFingers i w = (fixFinger i ^^ fingerCount) w"

definition StabilizeFull :: "NodeID \<Rightarrow> 'a ring \<Rightarrow> 'a ring" where
  "StabilizeFull i w = FixAllFingers i (stabilize i (checkPredecessor i w))"

definition StabilizeAll :: "'a ring \<Rightarrow> 'a ring" where
  "StabilizeAll w =
     (let nodes = Nodes w in
      fold checkPredecessor nodes (fold fixFinger nodes (fold stabilize nodes w)))"

definition StabilizeRounds :: "nat \<Rightarrow> 'a ring \<Rightarrow> 'a ring" where
  "StabilizeRounds rounds w = (StabilizeAll ^^ rounds) w"

section \<open>Joining and leaving\<close>

text \<open>The routing part of \<open>Join\<close>: it finds the successor and adopts it.\<close>

definition join_route :: "NodeID \<Rightarrow> NodeAddr \<Rightarrow> 'a ring \<Rightarrow> NodeAddr res \<times> 'a ring" where
  "join_route i bootstrap w =
     (case lt_FindSuccessor i bootstrap i w of
        (Inl e, w1) \<Rightarrow> (Inl (Wrap ''find successor'' e), w1)
      | (Inr succ, w1) \<Rightarrow>
          (Inr succ, on_node i (\<lambda>n. (n\<lparr>successor := succ, successorList := [succ]\<rparr>, [])) w1))"

definition handleNotifyLeave :: "NodeAddr \<Rightarrow> NodeAddr \<Rightarrow> NodeAddr \<Rightarrow> 'a node_scheme \<Rightarrow> 'a node_scheme" where
  "handleNotifyLeave leaver succ pred n =
     (let n1 = (if ID (successor n) = ID leaver
                then n\<lparr>successor := succ,
                       successorList :=
                         foldl (\<lambda>newList s.
                            if ID s \<noteq> ID leaver \<and> ID s \<noteq> ID succ \<and> int (length newList) < successorListSize n
                            then newList @ [s] else newList) [succ] (successorList n)\<rparr>
                else n)
      in case predecessor n1 of
           Some p \<Rightarrow>
             if ID p = ID leaver
             then n1\<lparr>predecessor := (if ID pred = ID leaver then None else Some pred)\<rparr> else n1
         | None \<Rightarrow> n1)"

definition lt_NotifyLeave :: "NodeID \<Rightarrow> NodeAddr \<Rightarrow> NodeAddr \<Rightarrow> NodeAddr \<Rightarrow> NodeAddr \<Rightarrow> 'a ring \<Rightarrow> 'a ring" where
  "lt_NotifyLeave me target self succ pred w =
     (case lt_resolve w me target of
        Inl _ \<Rightarrow> w
      | Inr _ \<Rightarrow> on_node (ID target) (\<lambda>n. (handleNotifyLeave self succ pred n, [])) w)"

text \<open>The last part of \<open>Leave\<close>: the two neighbours are told.\<close>

definition leave_route :: "NodeAddr \<Rightarrow> NodeAddr \<Rightarrow> NodeAddr option \<Rightarrow> 'a ring \<Rightarrow> 'a ring" where
  "leave_route self succ pred w =
     (let predAddr = (case pred of Some p \<Rightarrow> p | None \<Rightarrow> self);
          w1 = lt_NotifyLeave (ID self) succ self succ predAddr w
      in case pred of
           Some p \<Rightarrow>
             if ID p \<noteq> ID self then lt_NotifyLeave (ID self) p self succ predAddr w1 else w1
         | None \<Rightarrow> w1)"

end
