(* ===== verification/Chord_Ring.thy ===== *)
theory Chord_Ring
  imports Chord_Net
begin

text \<open>
  Correctness of the ring maintenance: an ideal ring is one in which every member
  points to the next member and knows only members. Lookups in it return the owner of a
  key, maintenance keeps it ideal, and it becomes ideal again after a join.
\<close>

section \<open>Reading the ring after a step\<close>

lemma ring_frame [simp]:
  "blocked (put_node i n w) = blocked w" "blocked (spawn i ts w) = blocked w"
  "w_node (spawn i ts w) j = w_node w j"
  "w_node (put_node i n w) j = (if j = i then Some n else w_node w j)"
  by (simp_all add: put_node_def spawn_def w_node_def)

lemma blocked_on_node [simp]: "blocked (on_node i f w) = blocked w"
  by (simp add: on_node_def case_prod_beta Let_def split: option.split)

lemma w_node_on_node [simp]:
  "w_node (on_node i f w) j = (if j = i then map_option (\<lambda>n. fst (f n)) (w_node w i) else w_node w j)"
  by (simp add: on_node_def case_prod_beta Let_def split: option.split)

lemma put_node_same: "w_node w i = Some n \<Longrightarrow> put_node i n w = w"
  by (simp add: put_node_def w_node_def AList.update_triv)

lemma spawn_Nil [simp]: "spawn i [] w = w"
  by (simp add: spawn_def)

lemma on_node_Some: "w_node w i = Some n \<Longrightarrow> on_node i f w = spawn i (snd (f n)) (put_node i (fst (f n)) w)"
  by (simp add: on_node_def case_prod_beta Let_def)

section \<open>The local transport is a transport\<close>

interpretation lt: cpn_transport "lt_ClosestPrecedingNode w me"
    "\<lambda>self a. getNode (put_node me self w) me (ID a)" for w me
  by unfold_locales (simp_all add: lt_ClosestPrecedingNode_def lt_resolve_def)

section \<open>Neighbours on the circle\<close>

lemma not_between_self: "\<not> BetweenExclusive i i j"
  using cw_le [of i j] by (simp add: between_cw not_less)

lemma next_member_unique: "next_member S p s \<Longrightarrow> next_member S p t \<Longrightarrow> s = t"
  by (metis cw_inj le_antisym next_member_def)

lemma prev_member_unique:
  assumes "next_member S p s" "next_member S q s" "p \<in> S" "q \<in> S"
  shows "p = q"
proof (rule ccontr)
  assume ne: "p \<noteq> q"
  have pq: "cw p s \<le> cw p q" and qp: "cw q s \<le> cw q p" using assms by (simp_all add: next_member_def)
  have "cw p q = cw p s + dist s q" "cw q p = cw q s + dist s p"
    using cw_le_split [OF pq] cw_le_split [OF qp] by simp_all
  moreover have "cw p q + cw q p = ringSize" using ne by (rule cw_swap)
  moreover have "cw p s + dist s p \<ge> ringSize"
    using cw_swap [of p s] by (cases "p = s") (auto simp: dist_def)
  moreover have "0 < cw q s" by simp
  ultimately show False by simp
qed

lemma next_self: "next_member S i i \<Longrightarrow> i \<in> S \<Longrightarrow> S = {i}"
  unfolding next_member_def by (metis cw_le cw_less_iff cw_self insertI1 le_antisym less_irrefl singletonD subsetI subset_antisym empty_iff insert_iff subset_singleton_iff)

text \<open>A newcomer \<open>x\<close> whose owner is \<open>s\<close> sits between \<open>s\<close> and its predecessor \<open>p\<close>.\<close>

lemma owner_cw:
  assumes "owner S x s" "x \<notin> S" "y \<in> S"
  shows "cw x s \<le> cw x y"
  using assms by (metis dist_def owner_def)

lemma newcomer_between:
  assumes own: "owner S x s" "x \<notin> S" and p: "p \<in> S"
  shows "cw p x < cw p s"
proof (rule ccontr)
  assume "\<not> cw p x < cw p s"
  then have "cw p x = cw p s + dist s x" by (intro cw_le_split) simp
  moreover have "cw x s \<le> cw x p" using own p by (rule owner_cw)
  moreover have "p \<noteq> x" "s \<noteq> x" using own p by (auto simp: owner_def)
  moreover have "cw p x + cw x p = ringSize" using \<open>p \<noteq> x\<close> by (rule cw_swap)
  moreover have "dist s x + cw x s = ringSize" using \<open>s \<noteq> x\<close> cw_swap [of s x] by (simp add: dist_def)
  moreover have "0 < cw p s" by simp
  ultimately show False by simp
qed

section \<open>Ideal rings\<close>

definition pred_sound :: "NodeID set \<Rightarrow> 'a node_scheme \<Rightarrow> bool" where
  "pred_sound S n \<longleftrightarrow>
     (\<forall>p. predecessor n = Some p \<longrightarrow> ID p \<in> S \<and> next_member S (ID p) (node_id n))"

definition member_ok :: "NodeID set \<Rightarrow> NodeID \<Rightarrow> 'a node_scheme \<Rightarrow> bool" where
  "member_ok S i n \<longleftrightarrow> node_id n = i \<and> node_wf n \<and> routes_ok S n \<and> pred_sound S n"

definition open_among :: "NodeID set \<Rightarrow> 'a ring \<Rightarrow> bool" where
  "open_among S w \<longleftrightarrow> (\<forall>a \<in> S. \<forall>b \<in> S. (a, b) \<notin> set (blocked w))"

definition ideal :: "NodeID set \<Rightarrow> 'a ring \<Rightarrow> bool" where
  "ideal S w \<longleftrightarrow> finite S \<and> open_among S w \<and>
     (\<forall>i \<in> S. \<exists>n. w_node w i = Some n \<and> member_ok S i n)"

lemma idealD:
  assumes "ideal S w" "i \<in> S"
  obtains n where "w_node w i = Some n" "member_ok S i n" "node_id n = i" "node_wf n" "routes_ok S n" "pred_sound S n"
  using assms unfolding ideal_def member_ok_def by blast

lemma ideal_finite: "ideal S w \<Longrightarrow> finite S"
  by (simp add: ideal_def)

lemma ideal_open: "ideal S w \<Longrightarrow> a \<in> S \<Longrightarrow> b \<in> S \<Longrightarrow> (a, b) \<notin> set (blocked w)"
  by (simp add: ideal_def open_among_def)

lemma ideal_canReach: "ideal S w \<Longrightarrow> a \<in> S \<Longrightarrow> b \<in> S \<Longrightarrow> canReach w a b"
  by (metis canReach_def idealD ideal_open option.distinct(1))

lemma lt_resolve_ok: "w_node w (ID a) = Some n \<Longrightarrow> (me, ID a) \<notin> set (blocked w) \<Longrightarrow> lt_resolve w me a = Inr n"
  by (simp add: lt_resolve_def getNode_def)

lemma ideal_spawn [simp]: "ideal S (spawn i ts w) = ideal S w"
  by (simp add: ideal_def open_among_def)

lemma ideal_put:
  assumes "ideal S w" "i \<in> S \<Longrightarrow> member_ok S i n"
  shows "ideal S (put_node i n w)"
  using assms by (auto simp: ideal_def open_among_def)

lemma ideal_on_node:
  assumes "ideal S w" "\<And>n. i \<in> S \<Longrightarrow> w_node w i = Some n \<Longrightarrow> member_ok S i n \<Longrightarrow> member_ok S i (fst (f n))"
  shows "ideal S (on_node i f w)"
proof (cases "w_node w i")
  case None
  then show ?thesis using assms(1) by (simp add: on_node_def)
next
  case (Some n)
  have "i \<in> S \<Longrightarrow> member_ok S i n" using assms(1) Some unfolding ideal_def by auto
  then show ?thesis using assms Some by (simp add: on_node_Some ideal_put)
qed

text \<open>
  Lookups in an ideal ring return the owner and change nothing. The hop limit of 160 is
  enough in a ring of at most 161 nodes, and in any ring once the fingers are right.
\<close>

definition navigable :: "NodeID set \<Rightarrow> 'a ring \<Rightarrow> bool" where
  "navigable S w \<longleftrightarrow> card S \<le> Suc maxLookupHops \<or> (\<forall>i \<in> S. \<exists>n. w_node w i = Some n \<and> fingers_ok S n)"

lemma ideal_members:
  assumes "ideal S w" "i \<in> S" "w_node w i = Some n"
  shows "lt.members_ok i w S n"
  unfolding lt.members_ok_def put_node_same [OF assms(3)]
proof (intro allI impI)
  fix a :: NodeAddr assume a: "ID a \<in> S"
  from assms(1) a obtain t where "w_node w (ID a) = Some t" "node_id t = ID a" "routes_ok S t" by (rule idealD)
  then show "\<exists>t. getNode w i (ID a) = Some t \<and> node_id t = ID a \<and> routes_ok S t"
    using ideal_open [OF assms(1,2) a] by (simp add: getNode_def)
qed

lemma ideal_lookup:
  assumes w: "ideal S w" "navigable S w" and i: "i \<in> S"
  shows "\<exists>a. w_FindSuccessor i key w = (Inr a, w) \<and> owner S key (ID a)"
proof -
  obtain n where n: "w_node w i = Some n" "node_id n = i" "routes_ok S n"
    using w(1) i by (rule idealD)
  note m = ideal_members [OF w(1) i n(1)]
  have "\<exists>a. FindSuccessor (\<lambda>_. None) (lt_ClosestPrecedingNode w i) key n = (Inr a, n, []) \<and> owner S key (ID a)"
  proof (cases "card S \<le> Suc maxLookupHops")
    case True
    then show ?thesis using lt.FindSuccessor_small_ring [OF n(3) _ m ideal_finite [OF w(1)]] n(2) i by simp
  next
    case False
    then have f: "\<forall>i \<in> S. \<exists>n. w_node w i = Some n \<and> fingers_ok S n" using w(2) by (simp add: navigable_def)
    then have "fingers_ok S n" using i n(1) by fastforce
    moreover have "fingers_ok S t" if "ID a \<in> S" "getNode (put_node i n w) i (ID a) = Some t" for a t
      using that f put_node_same [OF n(1)] by (auto simp: getNode_def split: if_splits)
    ultimately show ?thesis using n(2) i by (intro lt.FindSuccessor_fingers [OF n(3) _ _ m]) simp_all
  qed
  then obtain a where "FindSuccessor (\<lambda>_. None) (lt_ClosestPrecedingNode w i) key n = (Inr a, n, [])" "owner S key (ID a)"
    by blast
  then show ?thesis using n(1) put_node_same [OF n(1)] by (simp add: w_FindSuccessor_def)
qed

section \<open>Maintenance keeps the ring ideal\<close>

lemma pred_loop_ok:
  assumes "distinct (map ID list)" "list \<noteq> []"
  shows "distinct (map ID (pred_loop k g self cur list)) \<and>
    length (pred_loop k g self cur list) \<le> length list + k"
  using assms
proof (induction k arbitrary: cur list)
  case (Suc k)
  show ?case
  proof (cases "\<exists>p. g cur = Inr (Some p) \<and> \<not> list_ex (\<lambda>e. ID e = ID p) list \<and> ID cur \<noteq> self \<and> ID p \<noteq> self")
    case True
    then obtain p where p: "g cur = Inr (Some p)" "\<not> list_ex (\<lambda>e. ID e = ID p) list" "ID cur \<noteq> self" "ID p \<noteq> self"
      by blast
    then have "distinct (map ID (list @ [p]))" using Suc.prems(1) by (auto simp: list_ex_iff)
    from Suc.IH [OF this, of p] show ?thesis using p by simp
  next
    case False
    then show ?thesis using Suc.prems by (auto split: sum.split option.split)
  qed
qed simp

lemma member_ok_simps:
  "member_ok S i (n\<lparr>predecessorList := l\<rparr>) \<longleftrightarrow>
     node_id n = i \<and> node_wf (n\<lparr>predecessorList := l\<rparr>) \<and> routes_ok S n \<and> pred_sound S n"
  by (simp add: member_ok_def routes_ok_def pred_sound_def)

lemma member_ok_refreshPred:
  assumes "member_ok S i n"
  shows "member_ok S i (n\<lparr>predecessorList := pred_loop (nat (successorListSize n - 1)) g i p [p]\<rparr>)"
proof -
  let ?l = "pred_loop (nat (successorListSize n - 1)) g i p [p]"
  have "distinct (map ID ?l)" "length ?l \<le> 1 + nat (successorListSize n - 1)"
    using pred_loop_ok [of "[p]"] by simp_all
  moreover have "0 < successorListSize n" using assms by (simp add: member_ok_def node_wf_def)
  ultimately have "distinct (map ID ?l)" "int (length ?l) \<le> successorListSize n" by linarith+
  then show ?thesis using assms by (simp add: member_ok_simps) (simp add: member_ok_def node_wf_def)
qed

lemma ideal_refreshPredecessorList: "ideal S w \<Longrightarrow> ideal S (refreshPredecessorList i w)"
  unfolding refreshPredecessorList_def
  by (rule ideal_on_node)
    (auto simp: member_ok_refreshPred split: option.split, simp add: member_ok_simps, simp add: member_ok_def node_wf_def)

lemma member_ok_trigger:
  assumes "member_ok S i n" shows "member_ok S i (fst (triggerReplicateToNewSuccessors old new n))"
  using assms
  by (auto simp: triggerReplicateToNewSuccessors_def member_ok_def node_wf_def routes_ok_def pred_sound_def)

lemma append_upto_sub: "set l \<subseteq> set (append_upto m l xs) \<and> set (append_upto m l xs) \<subseteq> set l \<union> set xs"
  by (induction m l xs rule: append_upto.induct) auto

lemma ideal_refreshSuccessorList:
  assumes w: "ideal S w" and i: "i \<in> S" and n: "w_node w i = Some n" and s: "ID succ = ID (successor n)"
  shows "ideal S (refreshSuccessorListAndReplicate i succ old w)"
proof -
  have rn: "routes_ok S n" using w i n unfolding ideal_def member_ok_def by auto
  then have sS: "ID succ \<in> S" using s by (simp add: routes_ok_def next_member_def)
  obtain m where m: "w_node w (ID succ) = Some m" "routes_ok S m" using w sS by (rule idealD)
  have gl: "lt_GetSuccessorList w i succ = Inr (successorList m)"
    using lt_resolve_ok [OF m(1) ideal_open [OF w i sS]] by (simp add: lt_GetSuccessorList_def)
  have lS: "\<forall>f \<in> set (successorList m). ID f \<in> S" using m(2) by (simp add: routes_ok_def)
  have "member_ok S i (n'\<lparr>successorList := append_upto k [succ] (successorList m)\<rparr>)"
    if "member_ok S i n'" "w_node w i = Some n'" for n' k
  proof -
    let ?l = "append_upto k [succ] (successorList m)"
    have "succ \<in> set ?l" "set ?l \<subseteq> insert succ (set (successorList m))"
      using append_upto_sub [of "[succ]" k "successorList m"] by auto
    then have "ID (successor n') \<in> ID ` set ?l" "\<forall>f \<in> set ?l. ID f \<in> S"
      using that n s lS sS by (auto intro: rev_image_eqI)
    then show ?thesis using that(1) by (auto simp: member_ok_def node_wf_def routes_ok_def pred_sound_def)
  qed
  then have "ideal S (on_node i (\<lambda>n. let list = append_upto (successorListSize n) [succ] (successorList m)
               in triggerReplicateToNewSuccessors old list (n\<lparr>successorList := list\<rparr>)) w)"
    using w by (intro ideal_on_node) (auto simp: Let_def intro!: member_ok_trigger)
  then show ?thesis
    by (simp add: refreshSuccessorListAndReplicate_def gl ideal_refreshPredecessorList)
qed

lemma fst_acceptPredecessor [simp]: "fst (acceptPredecessor c n) = n\<lparr>predecessor := Some c\<rparr>"
  by (simp add: acceptPredecessor_def Let_def split: option.split)

lemma member_ok_predecessor:
  "member_ok S i n \<Longrightarrow> ID c \<in> S \<Longrightarrow> next_member S (ID c) i \<Longrightarrow> member_ok S i (n\<lparr>predecessor := Some c\<rparr>)"
  by (auto simp: member_ok_def node_wf_def routes_ok_def pred_sound_def)

lemma member_ok_notify:
  assumes "member_ok S i m" "ID c \<in> S" "next_member S (ID c) i"
  shows "member_ok S i (fst (notify ping c m))"
proof -
  have "member_ok S i (m\<lparr>predecessor := None\<rparr>)"
    using assms(1) by (auto simp: member_ok_def node_wf_def routes_ok_def pred_sound_def)
  then show ?thesis
    using assms member_ok_predecessor [OF assms] member_ok_predecessor [of S i "m\<lparr>predecessor := None\<rparr>" c]
    by (auto simp: notify_def Let_def split: option.split)
qed

lemma ideal_notify:
  assumes "ideal S w" "ID c \<in> S" "next_member S (ID c) (ID t)"
  shows "ideal S (lt_Notify i t c w)"
  using assms ideal_on_node [OF assms(1), of "ID t" "notify (lt_Ping w (ID t)) c"]
  by (simp add: lt_Notify_def member_ok_notify split: sum.split)

text \<open>The two ways a \<open>stabilize\<close> with a live successor goes.\<close>

lemma stabilize_live:
  assumes n: "w_node w i = Some n" and m: "lt_resolve w i (successor n) = Inr m"
  defines "succ1 \<equiv> (case predecessor m of
      Some p \<Rightarrow> if BetweenExclusive (ID p) i (ID (successor n)) \<and> lt_Ping w i p then p else successor n
    | None \<Rightarrow> successor n)"
  shows "stabilize i w =
    (let w2 = lt_Notify i succ1 (LocalNode n) (put_node i (n\<lparr>successor := succ1\<rparr>) w)
     in if ID succ1 = i then on_node i (\<lambda>n. (snd (tryReconnect (lt_Ping w2 i) n), [])) w2
        else refreshSuccessorListAndReplicate i succ1 (successorList n) w2)"
proof -
  have "n\<lparr>successor := successor n\<rparr> = n" by simp
  moreover have "lt_GetPredecessor w i (successor n) = Inr (predecessor m)" using m by (simp add: lt_GetPredecessor_def)
  ultimately show ?thesis
    using n put_node_same [OF n] unfolding succ1_def
    by (cases "\<exists>p. predecessor m = Some p \<and> BetweenExclusive (ID p) i (ID (successor n)) \<and> lt_Ping w i p"; cases "predecessor m")
      (auto simp: stabilize_def Let_def)
qed

lemma reconnect_self: "(\<And>s. s \<in> set l \<Longrightarrow> ID s = i) \<Longrightarrow> reconnect_loop ping f i l = None"
  by (induction l) simp_all

lemma notify_routes [simp]:
  "successor (fst (notify ping c n)) = successor n" "successorList (fst (notify ping c n)) = successorList n"
  "node_id (fst (notify ping c n)) = node_id n" "fingers (fst (notify ping c n)) = fingers n"
  "addr (fst (notify ping c n)) = addr n" "nextFinger (fst (notify ping c n)) = nextFinger n"
  by (simp_all add: notify_def Let_def split: option.split)

lemma w_node_Notify:
  "w_node (lt_Notify i t c w) j =
    (if j = ID t \<and> lt_resolve w i t \<in> range Inr
     then map_option (\<lambda>n. fst (notify (lt_Ping w j) c n)) (w_node w j) else w_node w j)"
  by (auto simp: lt_Notify_def split: sum.split)

lemma Notify_keeps:
  assumes "w_node w j = Some n"
  shows "\<exists>n'. w_node (lt_Notify i t c w) j = Some n' \<and> successor n' = successor n \<and>
    successorList n' = successorList n \<and> node_id n' = node_id n \<and> fingers n' = fingers n"
proof -
  have "w_node (lt_Notify i t c w) j = Some (fst (notify (lt_Ping w j) c n)) \<or> w_node (lt_Notify i t c w) j = Some n"
    using assms by (auto simp: w_node_Notify)
  then show ?thesis by auto
qed

lemma ideal_pred:
  assumes w: "ideal S w" and i: "i \<in> S" "w_node w i = Some n"
    and m: "w_node w (ID (successor n)) = Some m" and p: "predecessor m = Some p"
  shows "ID p = i"
proof -
  have n: "next_member S i (ID (successor n))" using w i unfolding ideal_def member_ok_def routes_ok_def by auto
  then have sS: "ID (successor n) \<in> S" by (simp add: next_member_def)
  have "member_ok S (ID (successor n)) m" using w sS m unfolding ideal_def by auto
  then have "ID p \<in> S" "next_member S (ID p) (ID (successor n))"
    using p by (auto simp: member_ok_def pred_sound_def)
  then show ?thesis using prev_member_unique n i(1) by blast
qed

lemma ideal_stabilize:
  assumes w: "ideal S w" and i: "i \<in> S"
  shows "ideal S (stabilize i w)"
proof -
  obtain n where n: "w_node w i = Some n" "node_id n = i" "routes_ok S n" using w i by (rule idealD)
  let ?s = "successor n"
  have s: "next_member S i (ID ?s)" "ID ?s \<in> S" using n by (auto simp: routes_ok_def next_member_def)
  obtain m where m: "w_node w (ID ?s) = Some m" using w s(2) by (rule idealD)
  have r: "lt_resolve w i ?s = Inr m" by (rule lt_resolve_ok [OF m ideal_open [OF w i s(2)]])
  have succ1: "(case predecessor m of
      Some p \<Rightarrow> if BetweenExclusive (ID p) i (ID ?s) \<and> lt_Ping w i p then p else ?s
    | None \<Rightarrow> ?s) = ?s"
    using ideal_pred [OF w i n(1) m] by (auto simp: not_between_self split: option.split)
  let ?w2 = "lt_Notify i ?s (LocalNode n) w"
  have w2: "ideal S ?w2" using w s n(2) i by (intro ideal_notify) simp_all
  have eq: "stabilize i w = (if ID ?s = i then on_node i (\<lambda>n. (snd (tryReconnect (lt_Ping ?w2 i) n), [])) ?w2
      else refreshSuccessorListAndReplicate i ?s (successorList n) ?w2)"
    using stabilize_live [OF n(1) r] put_node_same [OF n(1)] unfolding succ1 by (simp add: Let_def)
  obtain n' where n': "w_node ?w2 i = Some n'" "successor n' = ?s"
    using Notify_keeps [OF n(1)] by blast
  show ?thesis
  proof (cases "ID ?s = i")
    case True
    then have S: "S = {i}" using s i by (metis next_self)
    have "snd (tryReconnect ping q) = q" if "member_ok S i q" for q :: "'a node_scheme" and ping
    proof -
      have "reconnect_loop ping (addrRefresher q) i (successorList q) = None"
        using that S by (intro reconnect_self) (auto simp: member_ok_def routes_ok_def)
      then show ?thesis using that by (simp add: tryReconnect_def member_ok_def)
    qed
    then show ?thesis using eq True w2 by (simp add: ideal_on_node)
  next
    case False
    then show ?thesis using eq ideal_refreshSuccessorList [OF w2 i n'(1)] n'(2) by simp
  qed
qed

lemma ideal_checkPredecessor: "ideal S w \<Longrightarrow> ideal S (checkPredecessor i w)"
  unfolding checkPredecessor_def
  by (rule ideal_on_node) (auto simp: member_ok_def node_wf_def routes_ok_def pred_sound_def split: option.split)

section \<open>Finger tables\<close>

lemma member_ok_finger:
  assumes "member_ok S i n" "ID a \<in> S"
  shows "member_ok S i (n\<lparr>fingers := (fingers n)[k := a]\<rparr>)"
  using assms set_update_subset_insert [of "fingers n" k a]
  by (auto simp: member_ok_def node_wf_def routes_ok_def pred_sound_def)

lemma routes_nextFinger: "routes_ok S (n\<lparr>nextFinger := k\<rparr>) = routes_ok S n"
  by (simp add: routes_ok_def)

text \<open>
  One \<open>fixFinger\<close> in an ideal ring: the finger under the cursor becomes the owner of its
  start point, the cursor moves on, and nothing else changes.
\<close>

lemma fixFinger_ideal:
  assumes w: "ideal S w" "navigable S w" and i: "i \<in> S" and n: "w_node w i = Some n"
  obtains a where "owner S (fingerStart i (nextFinger n)) (ID a)"
    "fixFinger i w = put_node i (n\<lparr>nextFinger := (nextFinger n + 1) mod fingerCount,
        fingers := (fingers n)[nextFinger n := a]\<rparr>) w"
proof -
  have m: "member_ok S i n" using w(1) i n unfolding ideal_def by auto
  let ?n1 = "n\<lparr>nextFinger := (nextFinger n + 1) mod fingerCount\<rparr>"
  let ?w1 = "put_node i ?n1 w"
  have "member_ok S i ?n1"
    using m by (auto simp: member_ok_def node_wf_def routes_nextFinger pred_sound_def)
  then have w1: "ideal S ?w1" by (intro ideal_put [OF w(1)])
  have nav: "navigable S ?w1" using w(2) n by (auto simp: navigable_def fingers_ok_def)
  obtain a where a: "w_FindSuccessor i (fingerStart i (nextFinger n)) ?w1 = (Inr a, ?w1)"
      "owner S (fingerStart i (nextFinger n)) (ID a)"
    using ideal_lookup [OF w1 nav i] by blast
  have "node_id n = i" using m by (simp add: member_ok_def)
  then have "fixFinger i w = on_node i (\<lambda>q. (q\<lparr>fingers := (fingers q)[nextFinger n := a]\<rparr>, [])) ?w1"
    using n a(1) by (simp add: fixFinger_def Let_def)
  also have "\<dots> = put_node i (?n1\<lparr>fingers := (fingers n)[nextFinger n := a]\<rparr>) w"
    by (simp add: on_node_Some) (simp add: put_node_def)
  finally show ?thesis using a(2) that by simp
qed

lemma ideal_fixFinger:
  assumes w: "ideal S w" "navigable S w" and i: "i \<in> S"
  shows "ideal S (fixFinger i w) \<and> navigable S (fixFinger i w)"
proof -
  obtain n where n: "w_node w i = Some n" "member_ok S i n" using w(1) i by (rule idealD)
  obtain a where a: "owner S (fingerStart i (nextFinger n)) (ID a)"
    "fixFinger i w = put_node i (n\<lparr>nextFinger := (nextFinger n + 1) mod fingerCount,
        fingers := (fingers n)[nextFinger n := a]\<rparr>) w"
    using w i n(1) by (rule fixFinger_ideal)
  have aS: "ID a \<in> S" using a(1) by (simp add: owner_def)
  have "member_ok S i (n\<lparr>nextFinger := (nextFinger n + 1) mod fingerCount\<rparr>)"
    using n(2) by (auto simp: member_ok_def node_wf_def routes_nextFinger pred_sound_def)
  from member_ok_finger [OF this aS, of "nextFinger n"]
  have "ideal S (fixFinger i w)" unfolding a(2) by (intro ideal_put [OF w(1)]) simp
  moreover have "fingers_ok S n \<Longrightarrow> fingers_ok S (n\<lparr>nextFinger := (nextFinger n + 1) mod fingerCount,
        fingers := (fingers n)[nextFinger n := a]\<rparr>)"
    using a(1) n(2) by (auto simp: fingers_ok_def nth_list_update member_ok_def node_wf_def)
  then have "navigable S (fixFinger i w)" using w(2) n(1) by (auto simp: navigable_def a(2))
  ultimately show ?thesis ..
qed

text \<open>A full round of \<open>fixFinger\<close> leaves every finger right.\<close>

definition fixed_upto :: "NodeID set \<Rightarrow> nat \<Rightarrow> nat \<Rightarrow> 'a node_scheme \<Rightarrow> bool" where
  "fixed_upto S c k n \<longleftrightarrow> nextFinger n = (c + k) mod fingerCount \<and> length (fingers n) = fingerCount \<and>
     (\<forall>j < k. owner S (fingerStart (node_id n) ((c + j) mod fingerCount)) (ID (fingers n ! ((c + j) mod fingerCount))))"

lemma fixFinger_rounds:
  assumes w: "ideal S w" "navigable S w" and i: "i \<in> S" and n: "w_node w i = Some n"
  shows "ideal S ((fixFinger i ^^ k) w) \<and> navigable S ((fixFinger i ^^ k) w) \<and>
    (\<exists>n'. w_node ((fixFinger i ^^ k) w) i = Some n' \<and> node_id n' = i \<and> fixed_upto S (nextFinger n) k n' \<and>
      successor n' = successor n \<and> predecessor n' = predecessor n \<and> successorList n' = successorList n)"
proof (induction k)
  case 0
  have "member_ok S i n" using w(1) i n unfolding ideal_def by auto
  then show ?case using w n by (simp add: fixed_upto_def member_ok_def node_wf_def)
next
  case (Suc k)
  let ?w = "(fixFinger i ^^ k) w" and ?c = "nextFinger n"
  obtain q where q: "w_node ?w i = Some q" "node_id q = i" "fixed_upto S ?c k q" "successor q = successor n"
      "predecessor q = predecessor n" "successorList q = successorList n"
    and wk: "ideal S ?w" "navigable S ?w" using Suc.IH by blast
  obtain a where a: "owner S (fingerStart i (nextFinger q)) (ID a)"
    "fixFinger i ?w = put_node i (q\<lparr>nextFinger := (nextFinger q + 1) mod fingerCount,
        fingers := (fingers q)[nextFinger q := a]\<rparr>) ?w"
    using wk i q(1) by (rule fixFinger_ideal)
  let ?q = "q\<lparr>nextFinger := (nextFinger q + 1) mod fingerCount, fingers := (fingers q)[nextFinger q := a]\<rparr>"
  have c: "nextFinger q = (?c + k) mod fingerCount" "length (fingers q) = fingerCount"
    using q(3) by (simp_all add: fixed_upto_def)
  have "owner S (fingerStart i ((?c + j) mod fingerCount)) (ID (fingers ?q ! ((?c + j) mod fingerCount)))"
    if "j < Suc k" for j
  proof (cases "(?c + j) mod fingerCount = nextFinger q")
    case True
    then show ?thesis using a(1) c by simp
  next
    case False
    then have "j < k" using that c by (auto simp: less_Suc_eq)
    then show ?thesis using False q(2,3) by (auto simp: fixed_upto_def)
  qed
  then have "fixed_upto S ?c (Suc k) ?q" using c q(2) by (simp add: fixed_upto_def mod_Suc_eq)
  moreover have "w_node ((fixFinger i ^^ Suc k) w) i = Some ?q" using a(2) by simp
  ultimately show ?case using ideal_fixFinger [OF wk i] q by auto
qed

lemma fixed_all:
  assumes "fixed_upto S c fingerCount n"
  shows "fingers_ok S n"
  unfolding fingers_ok_def
proof (intro conjI allI impI)
  show "length (fingers n) = fingerCount" using assms by (simp add: fixed_upto_def)
  fix k assume k: "k < fingerCount"
  have "(c + (k + (fingerCount - c mod fingerCount)) mod fingerCount) mod fingerCount = k"
  proof -
    have "c mod fingerCount \<le> fingerCount" by simp
    then obtain r where r: "fingerCount = c mod fingerCount + r" using le_iff_add by blast
    then have "c + (k + r) = k + (c div fingerCount * fingerCount + fingerCount)"
      using div_mult_mod_eq [of c fingerCount] by linarith
    moreover have "fingerCount - c mod fingerCount = r" using r by linarith
    ultimately have "c + (k + (fingerCount - c mod fingerCount)) = k + (c div fingerCount + 1) * fingerCount" by simp
    then have "(c + (k + (fingerCount - c mod fingerCount))) mod fingerCount = k"
      using k by (metis mod_less mod_mult_self1)
    then show ?thesis by (metis mod_add_right_eq)
  qed
  moreover have "(k + (fingerCount - c mod fingerCount)) mod fingerCount < fingerCount" by simp
  ultimately show "owner S (fingerStart (node_id n) k) (ID (fingers n ! k))"
    using assms unfolding fixed_upto_def by metis
qed

end
