(* ===== verification/Chord_Frame.thy ===== *)
theory Chord_Frame
  imports Chord_Ring
begin

text \<open>
  What the ring maintenance leaves alone. A field of the node that does not depend on the
  links between nodes is the same, on every node, after any maintenance step; and
  maintenance never starts a push of a single block. The fingers are such a field for
  stabilisation, the blocks and the records of a node for all of maintenance.
\<close>

fun is_push :: "task \<Rightarrow> bool" where
  "is_push (PushTask t k d rs) = True"
| "is_push _ = False"

definition keep :: "('a node_scheme \<Rightarrow> 'x) \<Rightarrow> 'a ring \<Rightarrow> 'a ring \<Rightarrow> bool" where
  "keep g w w' \<longleftrightarrow>
     (\<forall>j. map_option g (w_node w' j) = map_option g (w_node w j)) \<and>
     (\<forall>it \<in> set (pending w'). it \<in> set (pending w) \<or> \<not> is_push (snd it))"

named_theorems keep_intros \<open>steps that keep a field of every node\<close>

lemma keep_refl [keep_intros]: "keep g w w"
  by (simp add: keep_def)

lemma keep_trans: "keep g u v \<Longrightarrow> keep g v w \<Longrightarrow> keep g u w"
  unfolding keep_def by metis

lemma pending_frame [simp]:
  "pending (put_node i n w) = pending w" "pending (spawn i ts w) = pending w @ map (Pair i) ts"
  by (simp_all add: put_node_def spawn_def)

lemma keep_put: "w_node w i = Some n \<Longrightarrow> g m = g n \<Longrightarrow> keep g w (put_node i m w)"
  by (simp add: keep_def)

lemma keep_on_node:
  assumes "\<And>n. w_node w i = Some n \<Longrightarrow> g (fst (f n)) = g n \<and> list_all (\<lambda>t. \<not> is_push t) (snd (f n))"
  shows "keep g w (on_node i f w)"
proof (cases "w_node w i")
  case None
  then show ?thesis by (simp add: on_node_def keep_refl)
next
  case (Some n)
  then show ?thesis using assms [OF Some] by (auto simp: on_node_Some keep_def list_all_iff)
qed

lemma keepD: "keep g w w' \<Longrightarrow> w_node w j = Some n \<Longrightarrow> \<exists>n'. w_node w' j = Some n' \<and> g n' = g n"
  unfolding keep_def by (metis map_option_eq_Some)

locale link_free =
  fixes g :: "'a node_scheme \<Rightarrow> 'x"
  assumes free_succ [simp]: "g (n\<lparr>successor := s\<rparr>) = g n"
    and free_list [simp]: "g (n\<lparr>successorList := ss\<rparr>) = g n"
    and free_pred [simp]: "g (n\<lparr>predecessor := p\<rparr>) = g n"
    and free_preds [simp]: "g (n\<lparr>predecessorList := ps\<rparr>) = g n"
    and free_slot [simp]: "g (n\<lparr>replicateSlot := b\<rparr>) = g n"
    and free_dropped [simp]: "g (n\<lparr>replicateDropped := k\<rparr>) = g n"
begin

lemma notify_free: "g (fst (notify ping c n)) = g n \<and> list_all (\<lambda>t. \<not> is_push t) (snd (notify ping c n))"
  by (simp add: notify_def acceptPredecessor_def Let_def split: option.split)

lemma keep_Notify [keep_intros]: "keep g w (lt_Notify i t c w)"
  unfolding lt_Notify_def by (auto intro!: keep_refl keep_on_node notify_free split: sum.split)

lemma keep_refreshPred [keep_intros]: "keep g w (refreshPredecessorList i w)"
  unfolding refreshPredecessorList_def by (rule keep_on_node) (simp split: option.split)

lemma keep_refresh [keep_intros]: "keep g w (refreshSuccessorListAndReplicate i s old w)"
proof -
  have "keep g w (on_node i (\<lambda>n. let list = append_upto (successorListSize n) [s] l
               in triggerReplicateToNewSuccessors old list (n\<lparr>successorList := list\<rparr>)) w)" for l
    by (rule keep_on_node) (simp add: triggerReplicateToNewSuccessors_def Let_def)
  from keep_trans [OF this keep_refreshPred] show ?thesis
    by (simp add: refreshSuccessorListAndReplicate_def keep_refl split: sum.split)
qed

lemma keep_checkPredecessor [keep_intros]: "keep g w (checkPredecessor i w)"
  unfolding checkPredecessor_def by (rule keep_on_node) (simp split: option.split)

lemma failover_free: "g (handleSuccessorFailure ping n) = g n"
  by (simp add: handleSuccessorFailure_def Let_def split: list.split)

lemma reconnect_free: "g (snd (tryReconnect ping n)) = g n"
  by (simp add: tryReconnect_def split: option.split)

lemma keep_stabilize [keep_intros]: "keep g w (stabilize i w)"
proof (cases "w_node w i")
  case None
  then show ?thesis by (simp add: stabilize_def keep_refl)
next
  case (Some n)
  note put = keep_put [OF Some, of g]
  have dead: "keep g w (put_node i (handleSuccessorFailure p n) w)" for p
    by (rule put) (rule failover_free)
  have live: "keep g w (lt_Notify i b c (put_node i (n\<lparr>successor := a\<rparr>) w))" for a b c
    by (rule keep_trans [OF put keep_Notify]) simp
  have tr: "keep g v (on_node i (\<lambda>n. (snd (tryReconnect p n), [])) v)" for p v
    by (rule keep_on_node) (simp add: reconnect_free)
  show ?thesis
    unfolding stabilize_def Some Let_def
    using dead keep_trans [OF dead keep_refresh] keep_trans [OF live tr] keep_trans [OF live keep_refresh]
      keep_trans [OF keep_Notify tr] keep_trans [OF keep_Notify keep_refresh]
    by (simp split: sum.split option.split)
qed

lemma keep_NotifyLeave [keep_intros]: "keep g w (lt_NotifyLeave me t self s p w)"
  unfolding lt_NotifyLeave_def handleNotifyLeave_def
  by (auto intro!: keep_refl keep_on_node simp: Let_def split: sum.split option.split)

end

locale finger_free = link_free g for g :: "'a node_scheme \<Rightarrow> 'x" +
  assumes free_fingers [simp]: "g (n\<lparr>fingers := fs\<rparr>) = g n"
    and free_next [simp]: "g (n\<lparr>nextFinger := k\<rparr>) = g n"
begin

lemma evict_free: "g (fst (evictNode d n)) = g n \<and> list_all (\<lambda>t. \<not> is_push t) (snd (evictNode d n))"
  by (simp add: evictNode_def triggerReplicateToNewSuccessors_def Let_def)

lemma lookup_free:
  "g (fst (snd (lookup_loop h ctx rpc i c n))) = g n \<and>
     list_all (\<lambda>t. \<not> is_push t) (snd (snd (lookup_loop h ctx rpc i c n)))"
proof (induction h arbitrary: c n)
  case (Suc h)
  show ?case
    using Suc evict_free by (simp add: Let_def case_prod_beta split: option.split sum.split)
qed simp

lemma keep_FindSuccessor [keep_intros]: "keep g w (snd (w_FindSuccessor i k w))"
proof (cases "w_node w i")
  case None
  then show ?thesis by (simp add: w_FindSuccessor_def keep_refl)
next
  case (Some n)
  let ?r = "FindSuccessor (\<lambda>_. None) (lt_ClosestPrecedingNode w i) k n"
  have "g (fst (snd ?r)) = g n \<and> list_all (\<lambda>t. \<not> is_push t) (snd (snd ?r))"
    using lookup_free by (simp add: FindSuccessor_def Let_def)
  then show ?thesis
    using Some by (auto simp: w_FindSuccessor_def case_prod_beta keep_def list_all_iff Let_def)
qed

lemma keep_fixFinger [keep_intros]: "keep g w (fixFinger i w)"
proof (cases "w_node w i")
  case None
  then show ?thesis by (simp add: fixFinger_def keep_refl)
next
  case (Some n)
  have 1: "keep g w (snd (w_FindSuccessor i k (put_node i (n\<lparr>nextFinger := j\<rparr>) w)))" for k j
    by (rule keep_trans [OF keep_put [OF Some] keep_FindSuccessor]) simp
  have 2: "keep g v (on_node i (\<lambda>n. (n\<lparr>fingers := fs n\<rparr>, [])) v)" for fs v
    by (rule keep_on_node) simp
  show ?thesis
    unfolding fixFinger_def Some Let_def
    using 1 keep_trans [OF 1 2] by (simp add: case_prod_beta split: sum.split)
qed

end

interpretation fing: link_free "\<lambda>n. (fingers n, node_id n)"
  by unfold_locales simp_all

interpretation extra: finger_free node.more
  by unfold_locales simp_all

end
