(* ===== verification/Chord_Repair.thy ===== *)
theory Chord_Repair
  imports Chord_Frame
begin

text \<open>
  How the ring heals: a newcomer is linked in by one \<open>stabilize\<close> of its own and one of its
  predecessor, a node that leaves hands its place to its neighbours, and a node that
  dies is bypassed through the successor list of its predecessor.
\<close>

section \<open>What one stabilisation does\<close>

lemma lt_Ping_put: "w_node w i \<noteq> None \<Longrightarrow> lt_Ping (put_node i n w) = lt_Ping w"
  by (intro ext) (simp add: lt_Ping_def canReach_def)

lemma lt_Ping_Notify [simp]: "lt_Ping (lt_Notify i t c w) = lt_Ping w"
  by (intro ext) (simp add: lt_Ping_def canReach_def w_node_Notify, simp add: lt_Notify_def split: sum.split)

lemma blocked_Notify [simp]: "blocked (lt_Notify i t c w) = blocked w"
  by (simp add: lt_Notify_def split: sum.split)

lemma blocked_refresh [simp]: "blocked (refreshSuccessorListAndReplicate i t old w) = blocked w"
  by (simp add: refreshSuccessorListAndReplicate_def refreshPredecessorList_def split: sum.split)

text \<open>Two nodes that differ at most in their lists of predecessors and their replication slot.\<close>

definition same_links :: "'a node_scheme \<Rightarrow> 'a node_scheme \<Rightarrow> bool" where
  "same_links n n' \<longleftrightarrow> node_id n' = node_id n \<and> addr n' = addr n \<and> successor n' = successor n \<and>
     predecessor n' = predecessor n \<and> fingers n' = fingers n \<and> successorList n' = successorList n \<and>
     successorListSize n' = successorListSize n \<and> (node_wf n \<longrightarrow> node_wf n')"

lemma same_links_trigger: "same_links n (fst (triggerReplicateToNewSuccessors old new n))"
  by (simp add: same_links_def triggerReplicateToNewSuccessors_def node_wf_def)

lemma same_links_trans: "same_links a b \<Longrightarrow> same_links b c \<Longrightarrow> same_links a c"
  by (simp add: same_links_def)

lemma same_links_predList:
  "same_links n (n\<lparr>predecessorList := pred_loop (nat (successorListSize n - 1)) g i p [p]\<rparr>)"
proof -
  let ?l = "pred_loop (nat (successorListSize n - 1)) g i p [p]"
  have "distinct (map ID ?l)" "length ?l \<le> 1 + nat (successorListSize n - 1)"
    using pred_loop_ok [of "[p]"] by simp_all
  then have "node_wf n \<Longrightarrow> node_wf (n\<lparr>predecessorList := ?l\<rparr>)" unfolding node_wf_def by auto
  then show ?thesis by (simp add: same_links_def)
qed

lemma refreshPredecessorList_links:
  assumes "w_node w i = Some n"
  shows "\<exists>n'. w_node (refreshPredecessorList i w) i = Some n' \<and> same_links n n'"
proof (cases "predecessor n")
  case None
  then show ?thesis using assms by (simp add: refreshPredecessorList_def same_links_def node_wf_def)
next
  case (Some p)
  then show ?thesis using assms same_links_predList by (simp add: refreshPredecessorList_def)
qed

lemma refresh_other: "j \<noteq> i \<Longrightarrow> w_node (refreshSuccessorListAndReplicate i t old w) j = w_node w j"
  by (simp add: refreshSuccessorListAndReplicate_def refreshPredecessorList_def split: sum.split)

lemma refresh_links:
  assumes n: "w_node w i = Some n" and t: "lt_resolve w i s = Inr t"
  shows "\<exists>n'. w_node (refreshSuccessorListAndReplicate i s old w) i = Some n' \<and>
    same_links (n\<lparr>successorList := append_upto (successorListSize n) [s] (successorList t)\<rparr>) n'"
proof -
  let ?n1 = "n\<lparr>successorList := append_upto (successorListSize n) [s] (successorList t)\<rparr>"
  let ?n2 = "fst (triggerReplicateToNewSuccessors old (successorList ?n1) ?n1)"
  let ?w = "on_node i (\<lambda>n. let list = append_upto (successorListSize n) [s] (successorList t)
               in triggerReplicateToNewSuccessors old list (n\<lparr>successorList := list\<rparr>)) w"
  have "w_node ?w i = Some ?n2" using n by (simp add: Let_def)
  from refreshPredecessorList_links [OF this] obtain n' where
    "w_node (refreshPredecessorList i ?w) i = Some n'" "same_links ?n2 n'" by blast
  then show ?thesis
    using t same_links_trans [OF same_links_trigger]
    by (auto simp: refreshSuccessorListAndReplicate_def lt_GetSuccessorList_def)
qed

definition next_successor :: "'a ring \<Rightarrow> NodeID \<Rightarrow> 'a node_scheme \<Rightarrow> 'a node_scheme \<Rightarrow> NodeAddr" where
  "next_successor w i n m = (case predecessor m of
      Some p \<Rightarrow> if BetweenExclusive (ID p) i (ID (successor n)) \<and> lt_Ping w i p then p else successor n
    | None \<Rightarrow> successor n)"

lemma stabilize_effect:
  assumes n: "w_node w i = Some n" and m: "lt_resolve w i (successor n) = Inr m"
    and s: "next_successor w i n m = s" "ID s \<noteq> i"
    and t: "w_node w (ID s) = Some t" "(i, ID s) \<notin> set (blocked w)"
  shows "\<exists>n'. w_node (stabilize i w) i = Some n' \<and>
      same_links (n\<lparr>successor := s, successorList := append_upto (successorListSize n) [s] (successorList t)\<rparr>) n'"
    "w_node (stabilize i w) (ID s) = Some (fst (notify (lt_Ping w (ID s)) (LocalNode n) t))"
    "\<And>j. j \<noteq> i \<Longrightarrow> j \<noteq> ID s \<Longrightarrow> w_node (stabilize i w) j = w_node w j"
    "blocked (stabilize i w) = blocked w"
proof -
  let ?w1 = "put_node i (n\<lparr>successor := s\<rparr>) w"
  let ?w2 = "lt_Notify i s (LocalNode n) ?w1"
  have eq: "stabilize i w = refreshSuccessorListAndReplicate i s (successorList n) ?w2"
    using stabilize_live [OF n m] s by (simp add: next_successor_def Let_def)
  have r: "lt_resolve ?w1 i s = Inr t" using t s(2) by (intro lt_resolve_ok) simp_all
  have ping: "lt_Ping ?w1 = lt_Ping w" using n by (intro lt_Ping_put) simp
  have w2: "w_node ?w2 j = (if j = ID s then Some (fst (notify (lt_Ping w (ID s)) (LocalNode n) t)) else w_node ?w1 j)" for j
    using r t(1) s(2) by (simp add: w_node_Notify ping)
  have r2: "lt_resolve ?w2 i s = Inr (fst (notify (lt_Ping w (ID s)) (LocalNode n) t))"
    using w2 t(2) by (intro lt_resolve_ok) simp_all
  have n2: "w_node ?w2 i = Some (n\<lparr>successor := s\<rparr>)" using s(2) w2 by simp
  show "\<exists>n'. w_node (stabilize i w) i = Some n' \<and>
      same_links (n\<lparr>successor := s, successorList := append_upto (successorListSize n) [s] (successorList t)\<rparr>) n'"
    unfolding eq using refresh_links [OF n2 r2, of "successorList n"] by simp
  show "w_node (stabilize i w) (ID s) = Some (fst (notify (lt_Ping w (ID s)) (LocalNode n) t))"
    unfolding eq refresh_other [OF s(2)] w2 by simp
  show "w_node (stabilize i w) j = w_node w j" if "j \<noteq> i" "j \<noteq> ID s" for j
    unfolding eq refresh_other [OF that(1)] w2 using that by simp
  show "blocked (stabilize i w) = blocked w" unfolding eq by simp
qed

section \<open>Joining\<close>

text \<open>A newcomer: a node outside the ring that has just been created.\<close>

definition newcomer :: "NodeID set \<Rightarrow> NodeID \<Rightarrow> 'a ring \<Rightarrow> bool" where
  "newcomer S x w \<longleftrightarrow> x \<notin> S \<and> open_among (insert x S) w \<and>
     (\<exists>n. w_node w x = Some n \<and> node_id n = x \<and> node_wf n \<and> predecessor n = None \<and>
        (\<forall>f \<in> set (fingers n). ID f = x))"

text \<open>The members of the enlarged ring keep or get the right successor.\<close>

lemma next_member_insert:
  assumes own: "owner S x s" "x \<notin> S" and p: "next_member S p s" "p \<in> S"
  shows "next_member (insert x S) p x" "next_member (insert x S) x s"
    "\<And>q t. next_member S q t \<Longrightarrow> q \<in> S \<Longrightarrow> q \<noteq> p \<Longrightarrow> next_member (insert x S) q t"
proof -
  have px: "cw p x < cw p s" using own p(2) by (rule newcomer_between)
  then show "next_member (insert x S) p x" using p by (auto simp: next_member_def intro: le_trans less_imp_le)
  show "next_member (insert x S) x s"
    using owner_cw [OF own] own(1) by (auto simp: next_member_def owner_def)
  fix q t assume q: "next_member S q t" "q \<in> S" "q \<noteq> p"
  have "cw q t \<le> cw q x"
  proof (rule ccontr)
    assume "\<not> cw q t \<le> cw q x"
    then have "owner S x t" using owner_next_member [OF q(1), of x] by simp
    then have "t = s" using owner_unique own(1) by blast
    then show False using prev_member_unique [OF _ p(1)] q p(2) by blast
  qed
  then show "next_member (insert x S) q t" using q(1) by (auto simp: next_member_def)
qed

lemma member_ok_insert:
  assumes "owner S x s" "x \<notin> S" "next_member S p s" "p \<in> S"
    and n: "member_ok S q n" "q \<in> S" "q \<noteq> p" "q \<noteq> s"
  shows "member_ok (insert x S) q n"
proof -
  note ins = next_member_insert(3) [OF assms(1-4)]
  have "next_member (insert x S) (ID r) q" if "predecessor n = Some r" for r
  proof -
    have r: "ID r \<in> S" "next_member S (ID r) q" using n(1) that by (auto simp: member_ok_def pred_sound_def)
    moreover have "ID r \<noteq> p" using r(2) assms(3) n(4) next_member_unique by blast
    ultimately show ?thesis using ins by blast
  qed
  moreover have "next_member (insert x S) q (ID (successor n))"
    using n ins by (auto simp: member_ok_def routes_ok_def)
  ultimately show ?thesis using n(1) by (auto simp: member_ok_def routes_ok_def pred_sound_def)
qed

lemma join_route_ok:
  assumes w: "ideal S w" "navigable S w" and x: "newcomer S x w" and b: "ID b \<in> S"
  obtains a where "join_route x b w = (Inr a, on_node x (\<lambda>n. (n\<lparr>successor := a, successorList := [a]\<rparr>, [])) w)"
    "owner S x (ID a)"
proof -
  have "(x, ID b) \<notin> set (blocked w)" using x b by (auto simp: newcomer_def open_among_def)
  moreover obtain n where "w_node w (ID b) = Some n" using w(1) b by (rule idealD)
  ultimately have "lt_resolve w x b = Inr n" by (intro lt_resolve_ok)
  moreover obtain a where "w_FindSuccessor (ID b) x w = (Inr a, w)" "owner S x (ID a)"
    using ideal_lookup [OF w b] by blast
  ultimately show ?thesis using that by (simp add: join_route_def lt_FindSuccessor_def)
qed

lemma stabilize_newcomer:
  assumes w: "ideal S w" "navigable S w" and x: "newcomer S x w" and b: "ID b \<in> S"
    and p: "p \<in> S" "next_member S p s" "owner S x s"
  defines "w2 \<equiv> stabilize x (snd (join_route x b w))"
  obtains n t where "w_node w2 x = Some n" "node_id n = x" "node_wf n" "predecessor n = None"
    "\<forall>f \<in> set (fingers n). ID f = x" "ID (successor n) = s"
    "s \<in> ID ` set (successorList n)" "\<forall>f \<in> set (successorList n). ID f \<in> S"
    "w_node w2 s = Some t" "member_ok S s (t\<lparr>predecessor := None\<rparr>)" "map_option ID (predecessor t) = Some x"
    "\<forall>j. j \<noteq> x \<longrightarrow> j \<noteq> s \<longrightarrow> w_node w2 j = w_node w j" "blocked w2 = blocked w"
proof -
  obtain n where n: "w_node w x = Some n" "node_id n = x" "node_wf n" "predecessor n = None"
      "\<forall>f \<in> set (fingers n). ID f = x" and xS: "x \<notin> S" and op: "open_among (insert x S) w"
    using x unfolding newcomer_def by blast
  obtain a where a: "join_route x b w = (Inr a, on_node x (\<lambda>n. (n\<lparr>successor := a, successorList := [a]\<rparr>, [])) w)"
      "owner S x (ID a)"
    using w x b by (rule join_route_ok)
  have as: "ID a = s" using a(2) p(3) by (rule owner_unique)
  have sS: "s \<in> S" using p(2) by (simp add: next_member_def)
  obtain m where m: "w_node w s = Some m" "member_ok S s m" using w(1) sS by (rule idealD)
  let ?w1 = "snd (join_route x b w)" and ?n1 = "n\<lparr>successor := a, successorList := [a]\<rparr>"
  have w1: "w_node ?w1 x = Some ?n1" "blocked ?w1 = blocked w" "\<And>j. j \<noteq> x \<Longrightarrow> w_node ?w1 j = w_node w j"
    using n(1) by (simp_all add: a(1))
  have sx: "s \<noteq> x" using sS xS by blast
  have ob: "(x, s) \<notin> set (blocked ?w1)" using op sS by (auto simp: open_among_def w1(2))
  have m1: "w_node ?w1 (ID a) = Some m" using w1(3) [OF sx] m(1) as by simp
  have r: "lt_resolve ?w1 x (successor ?n1) = Inr m" using m1 ob as by (intro lt_resolve_ok) simp_all
  have pm: "ID q \<in> S" if "predecessor m = Some q" for q
    using m(2) that by (auto simp: member_ok_def pred_sound_def)
  have nxt: "next_successor ?w1 x ?n1 m = a"
  proof (cases "predecessor m")
    case (Some q)
    then have "cw x s \<le> cw x (ID q)" using pm owner_cw [OF p(3) xS] by blast
    then show ?thesis using Some as by (simp add: next_successor_def between_cw)
  qed (simp add: next_successor_def)
  have ax: "ID a \<noteq> x" using as sx by simp
  have ob': "(x, ID a) \<notin> set (blocked ?w1)" using ob as by simp
  note eff = stabilize_effect [OF w1(1) r nxt ax m1 ob']
  obtain n' where n': "w_node w2 x = Some n'"
    "same_links (?n1\<lparr>successor := a, successorList := append_upto (successorListSize ?n1) [a] (successorList m)\<rparr>) n'"
    using eff(1) unfolding w2_def by blast
  have l: "set (successorList n') \<subseteq> insert a (set (successorList m))" "a \<in> set (successorList n')"
    using n'(2) append_upto_sub [of "[a]" "successorListSize n" "successorList m"] by (auto simp: same_links_def)
  have lS: "ID f \<in> S" if "f \<in> set (successorList n')" for f
    using that l(1) m(2) sS as by (auto simp: member_ok_def routes_ok_def)
  let ?t = "fst (notify (lt_Ping ?w1 (ID a)) (LocalNode ?n1) m)"
  have acc: "accepts (LocalNode ?n1) m"
  proof (cases "predecessor m")
    case (Some q)
    then have "cw (ID q) x < cw (ID q) s" using pm newcomer_between [OF p(3) xS] by blast
    then show ?thesis using Some n(2) m(2) by (simp add: accepts_def between_cw member_ok_def LocalNode_def)
  qed (simp add: accepts_def)
  then have t: "?t = m\<lparr>predecessor := Some (LocalNode ?n1)\<rparr>" by (simp add: notify_def)
  show ?thesis
  proof (rule that [of n' ?t])
    show "w_node w2 s = Some ?t" using eff(2) as unfolding w2_def by simp
    show "member_ok S s (?t\<lparr>predecessor := None\<rparr>)"
      unfolding t using m(2) by (auto simp: member_ok_def node_wf_def routes_ok_def pred_sound_def)
    show "map_option ID (predecessor ?t) = Some x" unfolding t using n(2) by (simp add: LocalNode_def)
    show "\<forall>j. j \<noteq> x \<longrightarrow> j \<noteq> s \<longrightarrow> w_node w2 j = w_node w j"
      unfolding w2_def using eff(3) as w1(3) by simp
    show "blocked w2 = blocked w" unfolding w2_def using eff(4) w1(2) by simp
    show "s \<in> ID ` set (successorList n')" using l(2) as by blast
    show "\<forall>f \<in> set (successorList n'). ID f \<in> S" using lS by blast
    have "node_wf ?n1" using n(3) by (simp add: node_wf_def)
    then show "node_wf n'" using n'(2) by (simp add: same_links_def node_wf_def)
    show "w_node w2 x = Some n'" "node_id n' = x" "predecessor n' = None" "ID (successor n') = s"
      using n' n as by (simp_all add: same_links_def)
    show "\<forall>f \<in> set (fingers n'). ID f = x" using n'(2) n(5) by (simp add: same_links_def)
  qed
qed

lemma join_ideal:
  assumes w: "ideal S w" "navigable S w" and x: "newcomer S x w" and b: "ID b \<in> S"
    and p: "p \<in> S" "next_member S p s" "owner S x s"
  shows "ideal (insert x S) (stabilize p (stabilize x (snd (join_route x b w))))"
proof -
  let ?w2 = "stabilize x (snd (join_route x b w))"
  let ?w3 = "stabilize p ?w2" and ?S = "insert x S"
  obtain n t where n: "w_node ?w2 x = Some n" "node_id n = x" "node_wf n" "predecessor n = None"
      "\<forall>f \<in> set (fingers n). ID f = x" "ID (successor n) = s"
      "s \<in> ID ` set (successorList n)" "\<forall>f \<in> set (successorList n). ID f \<in> S"
    and t: "w_node ?w2 s = Some t" "member_ok S s (t\<lparr>predecessor := None\<rparr>)" "map_option ID (predecessor t) = Some x"
    and other: "\<forall>j. j \<noteq> x \<longrightarrow> j \<noteq> s \<longrightarrow> w_node ?w2 j = w_node w j" and bl: "blocked ?w2 = blocked w"
    by (rule stabilize_newcomer [OF w x b p])
  have xS: "x \<notin> S" and op: "open_among ?S w" using x by (auto simp: newcomer_def)
  have sS: "s \<in> S" using p(2) by (simp add: next_member_def)
  note ins = next_member_insert [OF p(3) xS p(2,1)]
  have px: "p \<noteq> x" "s \<noteq> x" using p(1) sS xS by auto
  obtain q where q: "predecessor t = Some q" "ID q = x" using t(3) by auto
  have tr: "routes_ok S t" "node_id t = s" "node_wf t" using t(2) by (auto simp: member_ok_def routes_ok_def node_wf_def)
  obtain np where np: "w_node ?w2 p = Some np" "routes_ok S np" "node_id np = p" "node_wf np"
    and np_pred: "p \<noteq> s \<Longrightarrow> member_ok S p np" "p = s \<Longrightarrow> np = t"
  proof (cases "p = s")
    case True
    then show thesis using that t(1) tr by simp
  next
    case False
    obtain m where m: "w_node w p = Some m" "member_ok S p m" using w(1) p(1) by (rule idealD)
    then show thesis using that [of m] other px(1) False by (simp add: member_ok_def)
  qed
  have ns: "ID (successor np) = s" using np(2,3) p(2) next_member_unique by (auto simp: routes_ok_def)
  have blp: "(p, s) \<notin> set (blocked ?w2)" "(p, x) \<notin> set (blocked ?w2)"
    using op p(1) sS by (auto simp: bl open_among_def)
  have r: "lt_resolve ?w2 p (successor np) = Inr t" using t(1) ns blp by (intro lt_resolve_ok) simp_all
  have "lt_Ping ?w2 p q" using n(1) q(2) blp(2) by (simp add: lt_Ping_def canReach_def)
  then have nxt: "next_successor ?w2 p np t = q"
    using q ns newcomer_between [OF p(3) xS p(1)] by (simp add: next_successor_def between_cw)
  have qn: "ID q \<noteq> p" "w_node ?w2 (ID q) = Some n" "(p, ID q) \<notin> set (blocked ?w2)" using q(2) px n(1) blp by auto
  note eff = stabilize_effect [OF np(1) r nxt qn]
  obtain n' where n': "w_node ?w3 p = Some n'"
    "same_links (np\<lparr>successor := q, successorList := append_upto (successorListSize np) [q] (successorList n)\<rparr>) n'"
    using eff(1) by blast
  have x3: "w_node ?w3 x = Some (n\<lparr>predecessor := Some (LocalNode np)\<rparr>)"
    using eff(2) n(4) q(2) by (simp add: notify_def accepts_def)
  have "member_ok ?S x (n\<lparr>predecessor := Some (LocalNode np)\<rparr>)"
    using n ins(1,2) np(3) p(1) by (auto simp: member_ok_def node_wf_def routes_ok_def pred_sound_def)
  moreover have "member_ok ?S p n'"
  proof -
    have l: "set (successorList n') \<subseteq> insert q (set (successorList n))" "q \<in> set (successorList n')"
      using n'(2) append_upto_sub [of "[q]" "successorListSize np" "successorList n"] by (auto simp: same_links_def)
    then have "\<forall>f \<in> set (fingers n') \<union> set (successorList n'). ID f \<in> ?S"
      using n(8) q(2) np(2) n'(2) by (auto simp: same_links_def routes_ok_def)
    moreover have "x \<in> ID ` set (successorList n')" using l(2) q(2) by blast
    moreover have "next_member ?S (ID v) p \<and> ID v \<in> ?S" if v: "predecessor n' = Some v" for v
    proof (cases "p = s")
      case True
      then show ?thesis using v n'(2) np_pred(2) q ins(2) by (auto simp: same_links_def)
    next
      case False
      then have v: "ID v \<in> S" "next_member S (ID v) p"
        using v n'(2) np_pred(1) by (auto simp: same_links_def member_ok_def pred_sound_def)
      have "ID v \<noteq> p" using v False p next_member_unique by blast
      then show ?thesis using ins(3) v by blast
    qed
    moreover have "node_wf n'" using np(4) n'(2) by (simp add: same_links_def node_wf_def)
    ultimately show ?thesis
      using n'(2) ins(1) q(2) np(3) by (auto simp: same_links_def member_ok_def routes_ok_def pred_sound_def)
  qed
  moreover have "member_ok ?S s t" if "s \<noteq> p"
  proof -
    have "next_member ?S s (ID (successor t))"
      using tr that sS ins(3) by (auto simp: routes_ok_def)
    then show ?thesis using tr ins(2) q by (auto simp: member_ok_def routes_ok_def pred_sound_def)
  qed
  moreover have "\<exists>m. w_node ?w3 j = Some m \<and> member_ok ?S j m" if j: "j \<in> S" "j \<noteq> p" "j \<noteq> s" for j
  proof -
    obtain m where m: "w_node w j = Some m" "member_ok S j m" using w(1) j(1) by (rule idealD)
    have "j \<noteq> x" using j(1) xS by blast
    then have "w_node ?w3 j = Some m" using eff(3) [OF j(2)] other j(3) m(1) q(2) by simp
    then show ?thesis using member_ok_insert [OF p(3) xS p(2,1) m(2)] j by blast
  qed
  moreover have "w_node ?w3 s = Some t" if "s \<noteq> p" using eff(3) [OF that] q(2) px(2) t(1) by simp
  ultimately have "\<forall>j \<in> ?S. \<exists>m. w_node ?w3 j = Some m \<and> member_ok ?S j m"
    using x3 n'(1) by (metis insert_iff)
  moreover have "open_among ?S ?w3" using op eff(4) bl by (simp add: open_among_def)
  ultimately show ?thesis using ideal_finite [OF w(1)] by (simp add: ideal_def)
qed

section \<open>Leaving\<close>

text \<open>
  The links of a ring: every member's successor is the next member, and a known
  predecessor is the previous one. Fingers and successor lists may still name nodes that
  are gone.
\<close>

definition ring_links :: "NodeID set \<Rightarrow> 'a ring \<Rightarrow> bool" where
  "ring_links S w \<longleftrightarrow> (\<forall>i \<in> S. \<exists>n. w_node w i = Some n \<and> node_id n = i \<and>
     next_member S i (ID (successor n)) \<and> pred_sound S n)"

lemma next_member_remove: "next_member S q t \<Longrightarrow> t \<noteq> x \<Longrightarrow> next_member (S - {x}) q t"
  by (simp add: next_member_def)

lemma next_member_bypass:
  assumes px: "next_member S p x" and xs: "next_member S x s" and "s \<noteq> x"
  shows "next_member (S - {x}) p s"
  unfolding next_member_def
proof (intro conjI ballI)
  show s: "s \<in> S - {x}" using xs assms(3) by (simp add: next_member_def)
  fix y assume y: "y \<in> S - {x}"
  have "cw p z = cw p x + cw x z" if "z \<in> S - {x}" for z
    using px that cw_le_split [of p x z] by (auto simp: next_member_def dist_def)
  then show "cw p s \<le> cw p y" using s y xs by (auto simp: next_member_def)
qed

text \<open>Links that are right once the references to \<open>x\<close> are replaced.\<close>

definition links_but :: "NodeID set \<Rightarrow> NodeID \<Rightarrow> 'a node_scheme \<Rightarrow> bool" where
  "links_but S x n \<longleftrightarrow>
     (if ID (successor n) = x then next_member S (node_id n) x
      else next_member (S - {x}) (node_id n) (ID (successor n))) \<and>
     (\<forall>v. predecessor n = Some v \<longrightarrow>
        (if ID v = x then next_member S x (node_id n)
         else ID v \<in> S - {x} \<and> next_member (S - {x}) (ID v) (node_id n)))"

lemma member_links_but:
  assumes "member_ok S j n" "j \<in> S - {x}"
  shows "links_but S x n"
  using assms next_member_remove [of S _ _ x]
  by (auto simp: links_but_def member_ok_def routes_ok_def pred_sound_def)

lemma links_but_done:
  assumes "links_but S x n" "ID (successor n) \<noteq> x" "\<And>v. predecessor n = Some v \<Longrightarrow> ID v \<noteq> x"
  shows "next_member (S - {x}) (node_id n) (ID (successor n)) \<and> pred_sound (S - {x}) n"
  using assms by (auto simp: links_but_def pred_sound_def)

lemma handleNotifyLeave_links:
  assumes n: "links_but S x n" "node_id n \<in> S - {x}" and x: "x \<in> S" "ID leaver = x"
    and s: "next_member S x (ID s)" "ID s \<noteq> x" and p: "next_member S (ID p) x" "ID p \<in> S - {x}"
  defines "n' \<equiv> handleNotifyLeave leaver s p n"
  shows "links_but S x n' \<and> node_id n' = node_id n \<and> ID (successor n') \<noteq> x \<and>
    (\<forall>v. predecessor n' = Some v \<longrightarrow> ID v \<noteq> x)"
proof -
  have ps: "next_member (S - {x}) (ID p) (ID s)" using p(1) s by (rule next_member_bypass)
  have succ: "successor n' = (if ID (successor n) = x then s else successor n)" "node_id n' = node_id n"
    "predecessor n' = (case predecessor n of
       Some v \<Rightarrow> if ID v = x then (if ID p = x then None else Some p) else Some v | None \<Rightarrow> None)"
    using x(2) by (auto simp: n'_def handleNotifyLeave_def Let_def split: option.split)
  have "node_id n = ID p" if "ID (successor n) = x"
    using that n p prev_member_unique by (fastforce simp: links_but_def)
  moreover have "node_id n = ID s" if "predecessor n = Some v" "ID v = x" for v
    using that n(1) s(1) next_member_unique by (fastforce simp: links_but_def)
  ultimately show ?thesis
    using n(1) ps s(2) p(2) by (auto simp: links_but_def succ split: option.splits if_splits)
qed

lemma w_node_NotifyLeave:
  assumes "w_node w (ID t) = Some m" "(me, ID t) \<notin> set (blocked w)"
  shows "w_node (lt_NotifyLeave me t l s p w) j =
      (if j = ID t then Some (handleNotifyLeave l s p m) else w_node w j)"
    "blocked (lt_NotifyLeave me t l s p w) = blocked w"
  using assms lt_resolve_ok [OF assms] by (simp_all add: lt_NotifyLeave_def)

lemma w_node_Remove: "w_node (RemoveNode x w) j = (if j = x then None else w_node w j)"
  by (simp add: RemoveNode_def w_node_def)

lemma leave_links:
  assumes w: "ideal S w" and x: "x \<in> S" "w_node w x = Some n" and alone: "ID (successor n) \<noteq> x"
    and pred: "predecessor n = Some p"
  shows "ring_links (S - {x}) (RemoveNode x (leave_route (LocalNode n) (successor n) (predecessor n) w))"
proof -
  let ?s = "successor n" and ?h = "handleNotifyLeave (LocalNode n) (successor n) p"
  have mo: "member_ok S x n" using w x unfolding ideal_def by auto
  then have s: "next_member S x (ID ?s)" "ID ?s \<in> S" and p: "next_member S (ID p) x" "ID p \<in> S" and nid: "node_id n = x"
    using pred by (auto simp: member_ok_def routes_ok_def pred_sound_def next_member_def)
  have px: "ID p \<noteq> x"
  proof
    assume "ID p = x"
    then have "next_member S x x" using p(1) by simp
    then show False using next_member_unique [OF s(1)] alone by blast
  qed
  obtain m where m: "w_node w (ID ?s) = Some m" "member_ok S (ID ?s) m" using w s(2) by (rule idealD)
  have b1: "(x, ID ?s) \<notin> set (blocked w)" "(x, ID p) \<notin> set (blocked w)"
    using ideal_open [OF w x(1)] s(2) p(2) by blast+
  let ?w1 = "lt_NotifyLeave x ?s (LocalNode n) ?s p w"
  note w1 = w_node_NotifyLeave [OF m(1) b1(1), of "LocalNode n" ?s p]
  have good: "links_but S x (?h q) \<and> node_id (?h q) = node_id q \<and> ID (successor (?h q)) \<noteq> x \<and>
      (\<forall>v. predecessor (?h q) = Some v \<longrightarrow> ID v \<noteq> x)" if "links_but S x q" "node_id q \<in> S - {x}" for q
    using that x(1) s alone p px nid by (intro handleNotifyLeave_links) simp_all
  obtain mp where mp: "w_node w (ID p) = Some mp" "member_ok S (ID p) mp" using w p(2) by (rule idealD)
  let ?mp = "if ID p = ID ?s then ?h m else mp"
  have "w_node ?w1 (ID p) = Some ?mp" "(x, ID p) \<notin> set (blocked ?w1)" using w1 mp(1) b1(2) by simp_all
  note w2 = w_node_NotifyLeave [OF this, of "LocalNode n" ?s p]
  have eq: "leave_route (LocalNode n) ?s (predecessor n) w = lt_NotifyLeave x p (LocalNode n) ?s p ?w1"
    using pred px nid by (simp add: leave_route_def Let_def)
  have lm: "links_but S x m" "node_id m = ID ?s" using m(2) member_links_but [OF m(2), of x] s(2) alone by (auto simp: member_ok_def)
  have lmp: "links_but S x ?mp" "node_id ?mp = ID p"
    using good [OF lm(1)] lm(2) s(2) alone mp(2) member_links_but [OF mp(2), of x] p(2) px by (auto simp: member_ok_def)
  have "\<exists>q. w_node (lt_NotifyLeave x p (LocalNode n) ?s p ?w1) j = Some q \<and> node_id q = j \<and> links_but S x q \<and>
      ID (successor q) \<noteq> x \<and> (\<forall>v. predecessor q = Some v \<longrightarrow> ID v \<noteq> x)" if j: "j \<in> S - {x}" for j
  proof (cases "j = ID p \<or> j = ID ?s")
    case True
    then show ?thesis using w2(1) [of j] w1(1) [of j] good [OF lm(1)] good [OF lmp(1)] lm(2) lmp(2) s(2) p(2) px alone by auto
  next
    case False
    obtain q where q: "w_node w j = Some q" "member_ok S j q" using w j by (auto elim: idealD)
    have lq: "links_but S x q" using member_links_but [OF q(2)] j by blast
    have "ID (successor q) \<noteq> x"
      using False q(2) p prev_member_unique [of S j x "ID p"] j by (auto simp: member_ok_def routes_ok_def)
    moreover have "ID v \<noteq> x" if "predecessor q = Some v" for v
      using that False q(2) next_member_unique [OF s(1)] by (auto simp: member_ok_def pred_sound_def)
    ultimately show ?thesis using False w2(1) [of j] w1(1) [of j] q lq by (simp add: member_ok_def)
  qed
  then show ?thesis
    unfolding ring_links_def eq w_node_Remove using links_but_done by (metis DiffE insertCI)
qed

section \<open>Failing over\<close>

text \<open>
  \<open>handleSuccessorFailure\<close> takes the first entry of the successor list that answers; when
  none does, the node stands alone but keeps the others for a later reconnection.
\<close>

lemma failover_first:
  assumes "successorList n = dead @ a # rest" "\<And>d. d \<in> set dead \<Longrightarrow> ID d = node_id n \<or> \<not> ping d"
    and "ID a \<noteq> node_id n" "ping a"
  shows "handleSuccessorFailure ping n = n\<lparr>successor := a, successorList := a # rest\<rparr>"
proof -
  have "dropWhile (\<lambda>s. ID s = node_id n \<or> \<not> ping s) (successorList n) = a # rest"
    unfolding assms(1) using assms(2-4) by (subst dropWhile_append2) auto
  then show ?thesis by (simp add: handleSuccessorFailure_def)
qed

lemma failover_alone:
  assumes "\<And>d. d \<in> set (successorList n) \<Longrightarrow> ID d = node_id n \<or> \<not> ping d"
  shows "handleSuccessorFailure ping n =
    n\<lparr>successor := LocalNode n, successorList := LocalNode n # filter (\<lambda>s. ID s \<noteq> node_id n) (successorList n)\<rparr>"
proof -
  have "dropWhile (\<lambda>s. ID s = node_id n \<or> \<not> ping s) (successorList n) = []"
    using assms by (simp add: dropWhile_eq_Nil_conv)
  then show ?thesis unfolding handleSuccessorFailure_def Let_def by (simp only: list.case)
qed

text \<open>
  A node \<open>x\<close> dies without a word. When its predecessor has the next living member in its
  successor list, two rounds of its \<open>stabilize\<close> restore the links of the ring.
\<close>

lemma stabilize_dead:
  assumes n: "w_node w i = Some n" "node_id n = i" and dead: "lt_resolve w i (successor n) \<in> range Inl"
    and l: "successorList n = dead @ a # rest" "\<And>d. d \<in> set dead \<Longrightarrow> ID d = i \<or> \<not> lt_Ping w i d"
    and a: "ID a \<noteq> i" "lt_Ping w i a"
  shows "\<exists>n'. w_node (stabilize i w) i = Some n' \<and> node_id n' = i \<and> successor n' = a \<and> predecessor n' = predecessor n"
    "\<And>j. j \<noteq> i \<Longrightarrow> w_node (stabilize i w) j = w_node w j" "blocked (stabilize i w) = blocked w"
proof -
  let ?n1 = "n\<lparr>successor := a, successorList := a # rest\<rparr>" and ?w1 = "put_node i (n\<lparr>successor := a, successorList := a # rest\<rparr>) w"
  have f: "handleSuccessorFailure (lt_Ping w i) n = ?n1" using l a n(2) by (intro failover_first) auto
  then have eq: "stabilize i w = refreshSuccessorListAndReplicate i a (successorList n) ?w1"
    using n dead a(1) by (auto simp: stabilize_def lt_GetPredecessor_def Let_def)
  obtain t where "w_node ?w1 (ID a) = Some t" "(i, ID a) \<notin> set (blocked ?w1)"
    using a by (auto simp: lt_Ping_def canReach_def)
  then have "lt_resolve ?w1 i a = Inr t" by (rule lt_resolve_ok)
  from refresh_links [OF _ this, of ?n1]
  show "\<exists>n'. w_node (stabilize i w) i = Some n' \<and> node_id n' = i \<and> successor n' = a \<and> predecessor n' = predecessor n"
    unfolding eq using n(2) by (fastforce simp: same_links_def)
  show "w_node (stabilize i w) j = w_node w j" if "j \<noteq> i" for j unfolding eq refresh_other [OF that] using that by simp
  show "blocked (stabilize i w) = blocked w" unfolding eq by simp
qed

lemma crash_links:
  assumes w: "ideal S w" and p: "p \<in> S" "w_node w p = Some n" "ID (successor n) = x"
    and s: "next_member S x s" "s \<noteq> p"
    and l: "successorList n = dead @ a # rest" "\<And>d. d \<in> set dead \<Longrightarrow> ID d \<in> {p, x}" "ID a = s"
  shows "ring_links (S - {x}) (stabilize p (stabilize p (RemoveNode x w)))"
proof -
  let ?w0 = "RemoveNode x w" and ?w1 = "stabilize p (RemoveNode x w)"
  have np: "member_ok S p n" using w p unfolding ideal_def by auto
  then have nid: "node_id n = p" and px: "next_member S p x" using p(3) by (auto simp: member_ok_def routes_ok_def)
  have sS: "s \<in> S" "x \<in> S" using s px by (auto simp: next_member_def)
  have pnx: "p \<noteq> x" using px s next_member_unique by blast
  have sx: "s \<noteq> x" using s px prev_member_unique [of S x x p] sS p(1) pnx by blast
  have b0: "blocked ?w0 = blocked w" by (simp add: RemoveNode_def)
  have op: "(u, v) \<notin> set (blocked w)" if "u \<in> S" "v \<in> S" for u v using ideal_open [OF w that] .
  obtain m where m: "w_node w s = Some m" "member_ok S s m" using w sS(1) by (rule idealD)
  have ping: "lt_Ping ?w0 p a" "\<not> lt_Ping ?w0 p d" if "ID d = x" for d
    using m(1) sx l(3) op p(1) sS that by (auto simp: lt_Ping_def canReach_def w_node_Remove b0)
  have dead: "lt_resolve ?w0 p (successor n) \<in> range Inl"
    using p(3) by (auto simp: lt_resolve_def getNode_def w_node_Remove)
  have n0: "w_node ?w0 p = Some n" using p(2) pnx by (simp add: w_node_Remove)
  note st = stabilize_dead [OF n0 nid dead l(1)]
  have ld: "ID d = p \<or> \<not> lt_Ping ?w0 p d" if "d \<in> set dead" for d using l(2) [OF that] ping(2) by blast
  have ap: "ID a \<noteq> p" "lt_Ping ?w0 p a" using l(3) s(2) ping(1) p(3) by auto
  obtain n1 where n1: "w_node ?w1 p = Some n1" "node_id n1 = p" "successor n1 = a" "predecessor n1 = predecessor n"
    using st(1) [OF ld ap] by blast
  have o1: "w_node ?w1 j = w_node ?w0 j" if "j \<noteq> p" for j using st(2) [OF ld ap that] .
  have b1: "blocked ?w1 = blocked w" using st(3) [OF ld ap] b0 by simp
  have m1: "w_node ?w1 (ID a) = Some m" using o1 [of s] s(2) sx m(1) l(3) by (simp add: w_node_Remove)
  have x1: "w_node ?w1 x = None" using o1 [of x] pnx by (simp add: w_node_Remove)
  have nb: "(p, ID a) \<notin> set (blocked ?w1)" using op p(1) sS(1) l(3) by (simp add: b1)
  have r1: "lt_resolve ?w1 p (successor n1) = Inr m" using m1 nb n1(3) by (intro lt_resolve_ok) simp_all
  have pm: "ID v = x" if "predecessor m = Some v" for v
    using m(2) that prev_member_unique [OF _ s(1)] sS(2) by (auto simp: member_ok_def pred_sound_def)
  have "next_successor ?w1 p n1 m = a"
    using pm x1 n1(3) by (auto simp: next_successor_def lt_Ping_def canReach_def split: option.split)
  note eff = stabilize_effect [OF n1(1) r1 this ap(1) m1 nb]
  have acc: "fst (notify (lt_Ping ?w1 (ID a)) (LocalNode n1) m) = m\<lparr>predecessor := Some (LocalNode n1)\<rparr>"
  proof (cases "predecessor m")
    case None
    then show ?thesis by (simp add: notify_def accepts_def)
  next
    case (Some v)
    have "cw x s \<le> cw x p" using s(1) p(1) by (simp add: next_member_def)
    then have "\<not> accepts (LocalNode n1) m"
      using Some pm n1(2) m(2) by (auto simp: accepts_def between_cw member_ok_def)
    then show ?thesis
      using Some pm x1 by (simp add: notify_def lt_Ping_def canReach_def) (simp add: accepts_def)
  qed
  have ps: "next_member (S - {x}) p s" using px s(1) sx by (rule next_member_bypass)
  have links: "next_member (S - {x}) j (ID (successor q)) \<and> pred_sound (S - {x}) q"
    if q: "w_node w j = Some q" "j \<in> S - {x}" "j \<noteq> p" "j \<noteq> s" for j q
  proof -
    have q': "member_ok S j q" using w q(1,2) unfolding ideal_def by auto
    then have nq: "node_id q = j" by (simp add: member_ok_def)
    have "ID (successor q) \<noteq> x"
      using q' q(2,3) px p(1) prev_member_unique [of S j x p] by (auto simp: member_ok_def routes_ok_def)
    moreover have "ID v \<noteq> x" if "predecessor q = Some v" for v
      using that q' q(4) next_member_unique [OF s(1)] by (auto simp: member_ok_def pred_sound_def)
    ultimately show ?thesis
      using links_but_done [OF member_links_but [OF q' q(2)]] nq by simp
  qed
  let ?w2 = "stabilize p ?w1"
  obtain n2 where n2: "w_node ?w2 p = Some n2" "successor n2 = a" "predecessor n2 = predecessor n" "node_id n2 = p"
    using eff(1) n1 by (auto simp: same_links_def)
  have "ID v \<noteq> x" if "predecessor n = Some v" for v
  proof
    assume "ID v = x"
    then have "next_member S x p" using that np by (auto simp: member_ok_def pred_sound_def)
    then show False using next_member_unique [OF s(1)] s(2) by blast
  qed
  then have "pred_sound (S - {x}) n"
    using member_links_but [OF np, of x] p(1) pnx by (auto simp: links_but_def pred_sound_def)
  then have P: "next_member (S - {x}) p (ID (successor n2)) \<and> pred_sound (S - {x}) n2"
    using n2 ps l(3) nid by (simp add: pred_sound_def)
  have "ID (successor m) \<noteq> x"
    using m(2) s(2) px p(1) sS(1) prev_member_unique [of S s x p] by (auto simp: member_ok_def routes_ok_def)
  then have M: "next_member (S - {x}) s (ID (successor m)) \<and> pred_sound (S - {x}) (m\<lparr>predecessor := Some (LocalNode n1)\<rparr>)"
    using m(2) next_member_remove ps p(1) pnx n1(2) by (auto simp: member_ok_def routes_ok_def pred_sound_def)
  have "\<exists>q. w_node ?w2 j = Some q \<and> node_id q = j \<and> next_member (S - {x}) j (ID (successor q)) \<and> pred_sound (S - {x}) q"
    if j: "j \<in> S - {x}" for j
  proof (cases "j = p \<or> j = s")
    case True
    then show ?thesis using n2 P M eff(2) acc l(3) m(2) by (auto simp: member_ok_def)
  next
    case False
    obtain q where q: "w_node w j = Some q" "member_ok S j q" using w j by (auto elim: idealD)
    then have "w_node ?w2 j = Some q" using eff(3) [of j] o1 [of j] False j l(3) by (simp add: w_node_Remove)
    then show ?thesis using links [OF q(1) j] False q(2) by (simp add: member_ok_def)
  qed
  then show ?thesis by (simp add: ring_links_def)
qed

end
