(* ===== verification/Chord_Props.thy ===== *)
theory Chord_Props
  imports Chord_Repair
begin

text \<open>
  What the Chord layer promises, with a small ring on which the statements are tried out.
\<close>

section \<open>A ring of three nodes\<close>

definition demo_id :: "nat \<Rightarrow> NodeID" where
  "demo_id k = testNodeID (of_nat k)"

lemma demo_id_eq [simp]: "j < 256 \<Longrightarrow> k < 256 \<Longrightarrow> demo_id j = demo_id k \<longleftrightarrow> j = k"
  by (simp add: demo_id_def word_of_nat_eq_iff take_bit_nat_eq_self)

definition demo_addr :: "nat \<Rightarrow> NodeAddr" where
  "demo_addr k = \<lparr>ID = demo_id k, Addr = ''test''\<rparr>"

definition demo_cfg :: Config where
  "demo_cfg = \<lparr>cfg_Replication = 2, cfg_SuccessorListSize = 0, cfg_StabilizeInterval = 0,
     cfg_FixFingersInterval = 0, cfg_CheckPredInterval = 0, cfg_PeerRecordTTL = 0,
     cfg_GroupRecordTTL = 0, cfg_ProviderRecordTTL = 0, cfg_RecordPurgePeriod = 0,
     cfg_PeerRepublishInterval = 0, cfg_ProviderRepublishInterval = 0\<rparr>"

definition demo_member :: "nat \<Rightarrow> nat list \<Rightarrow> nat \<Rightarrow> node" where
  "demo_member k succs p = (NewNode (demo_id k) ''test'' demo_cfg)
     \<lparr>successor := demo_addr (hd succs), successorList := map demo_addr succs, predecessor := Some (demo_addr p)\<rparr>"

definition demo_new :: "nat \<Rightarrow> node" where
  "demo_new k = NewNode (demo_id k) ''test'' demo_cfg"

definition demo_ring :: "unit ring" where
  "demo_ring = \<lparr>nodeMap = [(demo_id 10, demo_member 10 [20, 30] 30), (demo_id 20, demo_member 20 [30, 10] 10),
       (demo_id 30, demo_member 30 [10, 20] 20), (demo_id 25, demo_new 25)],
     Nodes = [demo_id 10, demo_id 20, demo_id 30, demo_id 25], blocked = [], pending = [], ring_Replication = 2\<rparr>"

abbreviation demo_ids :: "NodeID set" where
  "demo_ids \<equiv> {demo_id 10, demo_id 20, demo_id 30}"

lemma cw_demo: "j < 256 \<Longrightarrow> k < 256 \<Longrightarrow>
    cw (demo_id j) (demo_id k) = (if j < k then (k - j) * 256 ^ 19 else (k + 256 - j) * 256 ^ 19)"
  by (simp add: demo_id_def cw_alt id_val_testNodeID unat_of_nat ringSize_def diff_mult_distrib add_mult_distrib)

lemma demo_next:
  "next_member demo_ids (demo_id 10) (demo_id 20)" "next_member demo_ids (demo_id 20) (demo_id 30)"
  "next_member demo_ids (demo_id 30) (demo_id 10)"
  by (simp_all add: next_member_def cw_demo ringSize_def)

lemma demo_nodes:
  "w_node demo_ring (demo_id 10) = Some (demo_member 10 [20, 30] 30)"
  "w_node demo_ring (demo_id 20) = Some (demo_member 20 [30, 10] 10)"
  "w_node demo_ring (demo_id 30) = Some (demo_member 30 [10, 20] 20)"
  "w_node demo_ring (demo_id 25) = Some (demo_new 25)" "blocked demo_ring = []"
  by (simp_all add: w_node_def demo_ring_def)

lemma demo_node_wf: "node_wf (demo_member k l p)"
  by (simp add: node_wf_def demo_member_def NewNode_def Let_def demo_cfg_def cfg_replication_def cfg_successorListSize_def)

lemma demo_member_ok:
  assumes "next_member S (demo_id k) (demo_id (hd l))" "l \<noteq> []" "\<forall>j \<in> set l. demo_id j \<in> S" "demo_id k \<in> S"
    and "demo_id p \<in> S" "next_member S (demo_id p) (demo_id k)"
  shows "member_ok S (demo_id k) (demo_member k l p)"
  using assms demo_node_wf [of k l p] imageI [OF hd_in_set [OF assms(2)], of demo_id]
  by (auto simp: image_image member_ok_def routes_ok_def pred_sound_def demo_member_def NewNode_def Let_def demo_addr_def)

lemma demo_ideal: "ideal demo_ids demo_ring"
  using demo_member_ok [of demo_ids 10 "[20, 30]" 30] demo_member_ok [of demo_ids 20 "[30, 10]" 10]
    demo_member_ok [of demo_ids 30 "[10, 20]" 20] demo_next
  by (auto simp: ideal_def open_among_def demo_nodes)

lemma demo_navigable: "navigable demo_ids demo_ring"
  by (simp add: navigable_def card_insert_if)

section \<open>Lookups\<close>

text \<open>
  C1. A lookup in an ideal ring returns the owner of the key, from any member and for any
  key, and leaves the ring as it was. The limit of 160 hops is enough when the ring has
  at most 161 members, or when the fingers are right.
\<close>

theorem lookup_finds_owner:
  assumes "ideal S w" "navigable S w" "i \<in> S"
  shows "\<exists>a. w_FindSuccessor i key w = (Inr a, w) \<and> owner S key (ID a)"
  using assms by (rule ideal_lookup)

lemma demo_owner: "owner demo_ids (demo_id 25) (demo_id 30)"
  by (simp add: owner_def dist_def cw_demo)

theorem lookup_finds_owner_witness:
  "\<exists>a. w_FindSuccessor (demo_id 10) (demo_id 25) demo_ring = (Inr a, demo_ring) \<and> ID a = demo_id 30"
proof -
  obtain a where "w_FindSuccessor (demo_id 10) (demo_id 25) demo_ring = (Inr a, demo_ring)" "owner demo_ids (demo_id 25) (ID a)"
    using lookup_finds_owner [OF demo_ideal demo_navigable, of "demo_id 10"] by blast
  then show ?thesis using owner_unique [OF demo_owner] by metis
qed

section \<open>Maintenance\<close>

inductive maint_step :: "NodeID set \<Rightarrow> 'a ring \<Rightarrow> 'a ring \<Rightarrow> bool" for S where
  m_stabilize: "i \<in> S \<Longrightarrow> maint_step S w (stabilize i w)"
| m_fixFinger: "i \<in> S \<Longrightarrow> maint_step S w (fixFinger i w)"
| m_checkPredecessor: "maint_step S w (checkPredecessor i w)"

text \<open>Stabilisation does not touch the fingers.\<close>

lemma navigable_keep:
  assumes k: "keep (\<lambda>n. (fingers n, node_id n)) w w'" and "navigable S w"
  shows "navigable S w'"
proof (cases "card S \<le> Suc maxLookupHops")
  case False
  have "\<exists>n'. w_node w' i = Some n' \<and> fingers_ok S n'" if i: "i \<in> S" for i
  proof -
    obtain n where n: "w_node w i = Some n" "fingers_ok S n" using assms(2) False i unfolding navigable_def by blast
    then obtain n' where "w_node w' i = Some n'" "fingers n' = fingers n" "node_id n' = node_id n"
      using keepD [OF k n(1)] by blast
    then show ?thesis using n(2) by (simp add: fingers_ok_def)
  qed
  then show ?thesis by (simp add: navigable_def)
qed (simp add: navigable_def)

lemma maint_step_ideal:
  "maint_step S w w' \<Longrightarrow> ideal S w \<and> navigable S w \<Longrightarrow> ideal S w' \<and> navigable S w'"
proof (induction rule: maint_step.induct)
  case (m_stabilize i w)
  then show ?case using ideal_stabilize navigable_keep [OF fing.keep_stabilize] by blast
next
  case (m_fixFinger i w)
  then show ?case using ideal_fixFinger by blast
next
  case (m_checkPredecessor w i)
  then show ?case using ideal_checkPredecessor navigable_keep [OF fing.keep_checkPredecessor] by blast
qed

text \<open>
  C3. An ideal ring stays ideal: however the members interleave \<open>stabilize\<close>, \<open>fixFinger\<close>
  and \<open>checkPredecessor\<close>, every successor stays the next member, and lookups keep
  returning the owner.
\<close>

theorem maintenance_keeps_ideal:
  assumes "(maint_step S)\<^sup>*\<^sup>* w w'" "ideal S w" "navigable S w"
  shows "ideal S w' \<and> (\<forall>i \<in> S. \<forall>key. \<exists>a. w_FindSuccessor i key w' = (Inr a, w') \<and> owner S key (ID a))"
proof -
  have "ideal S w' \<and> navigable S w'"
    using assms(1) by (induction rule: rtranclp_induct) (use assms(2,3) maint_step_ideal in blast)+
  then show ?thesis using ideal_lookup by blast
qed

theorem maintenance_keeps_ideal_witness:
  "ideal demo_ids (fixFinger (demo_id 10) (stabilize (demo_id 20) demo_ring))"
proof -
  have "(maint_step demo_ids)\<^sup>*\<^sup>* demo_ring (fixFinger (demo_id 10) (stabilize (demo_id 20) demo_ring))"
    by (rule rtranclp.rtrancl_into_rtrancl [OF r_into_rtranclp]; rule m_stabilize m_fixFinger) simp_all
  from maintenance_keeps_ideal [OF this demo_ideal demo_navigable] show ?thesis ..
qed

text \<open>
  C6. One round of \<open>FixAllFingers\<close> in an ideal ring makes every finger of the node the owner
  of its start point, and keeps the ring ideal.
\<close>

theorem fix_all_fingers:
  assumes w: "ideal S w" "navigable S w" and i: "i \<in> S"
  shows "ideal S (FixAllFingers i w) \<and> (\<exists>n. w_node (FixAllFingers i w) i = Some n \<and> fingers_ok S n)"
proof -
  obtain n where n: "w_node w i = Some n" using w(1) i by (rule idealD)
  show ?thesis unfolding FixAllFingers_def using fixFinger_rounds [OF w i n] fixed_all by blast
qed

theorem fix_all_fingers_witness:
  "\<exists>n. w_node (FixAllFingers (demo_id 20) demo_ring) (demo_id 20) = Some n \<and> fingers_ok demo_ids n"
  using fix_all_fingers [OF demo_ideal demo_navigable, of "demo_id 20"] by simp

section \<open>Joining, leaving and failing\<close>

text \<open>
  C2. A join is complete after two stabilisations: when a new node \<open>x\<close> joins an ideal ring
  through any member, then runs \<open>stabilize\<close> once, and its predecessor does so too, the
  ring is ideal with \<open>x\<close> as a member.
\<close>

theorem join_completes:
  assumes "ideal S w" "navigable S w" "newcomer S x w" "ID b \<in> S"
    and "p \<in> S" "next_member S p s" "owner S x s"
  shows "ideal (insert x S) (stabilize p (stabilize x (snd (join_route x b w))))"
  using assms by (rule join_ideal)

lemma demo_newcomer: "newcomer demo_ids (demo_id 25) demo_ring"
  by (auto simp: newcomer_def open_among_def demo_nodes demo_new_def NewNode_def Let_def node_wf_def
      demo_cfg_def cfg_replication_def cfg_successorListSize_def)

theorem join_completes_witness:
  "ideal (insert (demo_id 25) demo_ids)
    (stabilize (demo_id 20) (stabilize (demo_id 25) (snd (join_route (demo_id 25) (demo_addr 10) demo_ring))))"
  using join_completes [OF demo_ideal demo_navigable demo_newcomer _ _ demo_next(2) demo_owner, of "demo_addr 10"]
  by (simp add: demo_addr_def)

text \<open>
  C5. A node that leaves an ideal ring and knows its predecessor hands its place over: after
  it has told its neighbours and gone, every other node's successor is the next
  remaining member and every known predecessor the previous one.
\<close>

theorem leave_hands_over:
  assumes "ideal S w" "x \<in> S" "w_node w x = Some n" "ID (successor n) \<noteq> x" "predecessor n = Some p"
  shows "ring_links (S - {x}) (RemoveNode x (leave_route (LocalNode n) (successor n) (predecessor n) w))"
  using assms by (rule leave_links)

lemma demo_member_links:
  "ID (successor (demo_member k (s # l) p)) = demo_id s" "predecessor (demo_member k l p) = Some (demo_addr p)"
  "successorList (demo_member k l p) = map demo_addr l" "node_id (demo_member k l p) = demo_id k"
  by (simp_all add: demo_member_def demo_addr_def NewNode_def Let_def)

theorem leave_hands_over_witness:
  "\<exists>n. w_node demo_ring (demo_id 20) = Some n \<and>
    ring_links (demo_ids - {demo_id 20})
      (RemoveNode (demo_id 20) (leave_route (LocalNode n) (successor n) (predecessor n) demo_ring))"
  using leave_hands_over [OF demo_ideal _ demo_nodes(2), of "demo_addr 10"]
  by (simp add: demo_nodes demo_member_links)

text \<open>
  C4. A node that dies in an ideal ring is bypassed: if the successor list of its
  predecessor names the next living member, two \<open>stabilize\<close> rounds of that predecessor
  restore every link of the ring without the dead node.
\<close>

theorem crash_bypassed:
  assumes "ideal S w" "p \<in> S" "w_node w p = Some n" "ID (successor n) = x" "next_member S x s" "s \<noteq> p"
    and "successorList n = dead @ a # rest" "\<forall>d \<in> set dead. ID d \<in> {p, x}" "ID a = s"
  shows "ring_links (S - {x}) (stabilize p (stabilize p (RemoveNode x w)))"
  using assms(1-7) _ assms(9) by (rule crash_links) (use assms(8) in blast)

theorem crash_bypassed_witness:
  "ring_links (demo_ids - {demo_id 20})
    (stabilize (demo_id 10) (stabilize (demo_id 10) (RemoveNode (demo_id 20) demo_ring)))"
  by (rule crash_bypassed [OF demo_ideal _ demo_nodes(1) _ demo_next(2), of "[demo_addr 20]" "demo_addr 30" "[]"])
    (simp_all add: demo_member_links demo_addr_def)

text \<open>The addresses under which \<open>tryReconnect\<close> tries a peer: the stored one, then a refreshed one that differs.\<close>

definition peer_addrs :: "(NodeID \<Rightarrow> string) option \<Rightarrow> NodeAddr \<Rightarrow> NodeAddr list" where
  "peer_addrs refresh s =
     s # (case refresh of None \<Rightarrow> [] | Some f \<Rightarrow> if f (ID s) \<in> {[], Addr s} then [] else [\<lparr>ID = ID s, Addr = f (ID s)\<rparr>])"

lemma reconnect_find:
  "reconnect_loop ping refresh i l = find ping (concat (map (peer_addrs refresh) (filter (\<lambda>s. ID s \<noteq> i) l)))"
  by (induction l) (auto simp: peer_addrs_def Let_def split: option.splits)

text \<open>
  C7. A node cut off from every peer stands alone and forgets none of them: when all entries of its
  successor list are unreachable it becomes its own successor. Later, with any address refresher
  or none, \<open>tryReconnect\<close> goes through the old list in order, and through the addresses of each peer,
  the stored one and then the refreshed one when it is another; the first peer that answers becomes
  successor, under the address at which it answered, and when none answers nothing changes.
\<close>

theorem partition_reconnects:
  assumes cut: "\<forall>d \<in> set (successorList n). ID d = node_id n \<or> \<not> ping d"
  defines "n1 \<equiv> handleSuccessorFailure ping n"
  shows "successor n1 = LocalNode n \<and>
    tryReconnect ping' n1 =
      (case find ping' (concat (map (peer_addrs (addrRefresher n)) (filter (\<lambda>s. ID s \<noteq> node_id n) (successorList n)))) of
         None \<Rightarrow> (False, n1)
       | Some s \<Rightarrow> (True, n1\<lparr>successor := s, successorList := [s]\<rparr>))"
proof -
  have n1: "n1 = n\<lparr>successor := LocalNode n,
      successorList := LocalNode n # filter (\<lambda>s. ID s \<noteq> node_id n) (successorList n)\<rparr>"
    unfolding n1_def using cut by (intro failover_alone) blast
  then show ?thesis by (simp add: tryReconnect_def reconnect_find split: option.split)
qed

definition moved_member :: node where
  "moved_member = (demo_member 10 [20, 30] 30)\<lparr>addrRefresher := Some (\<lambda>i. if i = demo_id 30 then ''moved'' else [])\<rparr>"

theorem partition_reconnects_witness:
  "snd (tryReconnect (\<lambda>a. Addr a = ''moved'') (handleSuccessorFailure (\<lambda>_. False) moved_member)) =
     (handleSuccessorFailure (\<lambda>_. False) moved_member)
       \<lparr>successor := \<lparr>ID = demo_id 30, Addr = ''moved''\<rparr>, successorList := [\<lparr>ID = demo_id 30, Addr = ''moved''\<rparr>]\<rparr>"
proof -
  have l: "successorList moved_member = [demo_addr 20, demo_addr 30]" "node_id moved_member = demo_id 10"
      "addrRefresher moved_member = Some (\<lambda>i. if i = demo_id 30 then ''moved'' else [])"
    by (simp_all add: moved_member_def demo_member_links)
  have "find (\<lambda>a. Addr a = ''moved'') (concat (map (peer_addrs (addrRefresher moved_member))
      (filter (\<lambda>s. ID s \<noteq> node_id moved_member) (successorList moved_member)))) = Some \<lparr>ID = demo_id 30, Addr = ''moved''\<rparr>"
    unfolding l by code_simp
  then show ?thesis using partition_reconnects [of moved_member "\<lambda>_. False" "\<lambda>a. Addr a = ''moved''"] by simp
qed

end
