(* ===== verification/Wire_Records.thy ===== *)
theory Wire_Records
  imports Chord_Node
begin

text \<open>
  The signed and provider records of \<open>dht/records.go\<close> and the keys of
  \<open>dht/identity.go\<close>. Code from outside the repository is an argument: the record
  \<open>ext\<close> holds the protobuf and CBOR codecs of the message types, and the hash, MAC
  and signature primitives. What the code relies on of them is the predicate
  \<open>ext_ok\<close>.
\<close>

section \<open>Messages\<close>

text \<open>The protobuf messages of \<open>dht/dhtpb/records.proto\<close>.\<close>

record pb_SignedRecord =
  pb_Data :: bytes
  pb_Pubkey :: bytes
  pb_Signature :: bytes

record pb_ProviderRecord =
  pb_ContentHash :: bytes
  pb_Provider :: bytes

record pb_ProviderRecordList =
  pb_Providers :: "pb_ProviderRecord list"
  pb_Timestamps :: "int list"

record PeerIdentityData =
  PeerID :: NodeID
  pd_Version :: "64 word"
  Address :: string
  GroupAddrs :: "string \<rightharpoonup> string"

record PeerIdentityRecord =
  pr_Data :: PeerIdentityData
  pr_PubKey :: bytes
  pr_Signature :: bytes

record GroupMember =
  gm_ID :: NodeID

record GroupIdentityData =
  GroupID :: NodeID
  gd_Version :: "64 word"
  Peers :: "GroupMember list"

record GroupIdentityRecord =
  gr_Data :: GroupIdentityData
  gr_PubKey :: bytes
  gr_Signature :: bytes

record ProviderRecord =
  ContentHash :: NodeID
  Provider :: NodeID

section \<open>External operations\<close>

record ext =
  marshal_signed :: "pb_SignedRecord \<Rightarrow> bytes res"
  unmarshal_signed :: "bytes \<Rightarrow> pb_SignedRecord res"
  marshal_provider :: "pb_ProviderRecord \<Rightarrow> bytes res"
  unmarshal_provider :: "bytes \<Rightarrow> pb_ProviderRecord res"
  marshal_providers :: "pb_ProviderRecordList \<Rightarrow> bytes res"
  unmarshal_providers :: "bytes \<Rightarrow> pb_ProviderRecordList res"
  cbor_marshal_peer :: "PeerIdentityData \<Rightarrow> bytes res"
  cbor_unmarshal_peer :: "bytes \<Rightarrow> PeerIdentityData res"
  cbor_marshal_group :: "GroupIdentityData \<Rightarrow> bytes res"
  cbor_unmarshal_group :: "bytes \<Rightarrow> GroupIdentityData res"
  sha1_Sum :: "bytes \<Rightarrow> NodeID"
  hmac_sha256 :: "bytes \<Rightarrow> bytes \<Rightarrow> bytes"
  ed25519_Public :: "bytes \<Rightarrow> bytes"
  ed25519_Sign :: "bytes \<Rightarrow> bytes \<Rightarrow> bytes"
  ed25519_Verify :: "bytes \<Rightarrow> bytes \<Rightarrow> bytes \<Rightarrow> bool"

abbreviation PublicKeySize :: nat where "PublicKeySize \<equiv> 32"
abbreviation PrivateKeySize :: nat where "PrivateKeySize \<equiv> 64"
abbreviation SignatureSize :: nat where "SignatureSize \<equiv> 64"

text \<open>Documented behaviour: decoding inverts encoding, and a signature verifies.\<close>

definition codec_ok :: "('m \<Rightarrow> bytes res) \<Rightarrow> (bytes \<Rightarrow> 'm res) \<Rightarrow> bool" where
  "codec_ok enc dec \<longleftrightarrow> (\<forall>m b. enc m = Inr b \<longrightarrow> dec b = Inr m)"

definition ext_ok :: "ext \<Rightarrow> bool" where
  "ext_ok X \<longleftrightarrow>
     codec_ok (marshal_signed X) (unmarshal_signed X) \<and>
     codec_ok (marshal_provider X) (unmarshal_provider X) \<and>
     codec_ok (marshal_providers X) (unmarshal_providers X) \<and>
     codec_ok (cbor_marshal_peer X) (cbor_unmarshal_peer X) \<and>
     codec_ok (cbor_marshal_group X) (cbor_unmarshal_group X) \<and>
     (\<forall>k m. length k = PrivateKeySize \<longrightarrow>
        length (ed25519_Public X k) = PublicKeySize \<and>
        length (ed25519_Sign X k m) = SignatureSize \<and>
        ed25519_Verify X (ed25519_Public X k) m (ed25519_Sign X k m))"

lemma codec_okD: "codec_ok enc dec \<Longrightarrow> enc m = Inr b \<Longrightarrow> dec b = Inr m"
  by (simp add: codec_ok_def)

section \<open>Error plumbing\<close>

text \<open>\<open>if err != nil { return fmt.Errorf(msg + ": %w", err) }\<close>\<close>

fun wrap_err :: "string \<Rightarrow> 'a res \<Rightarrow> 'a res" where
  "wrap_err m (Inl e) = Inl (Wrap m e)"
| "wrap_err m (Inr v) = Inr v"

fun bind_res :: "'a res \<Rightarrow> ('a \<Rightarrow> 'b res) \<Rightarrow> 'b res" where
  "bind_res (Inl e) f = Inl e"
| "bind_res (Inr v) f = f v"

lemma bind_res_Inr: "bind_res r f = Inr v \<longleftrightarrow> (\<exists>x. r = Inr x \<and> f x = Inr v)"
  by (cases r) auto

lemma wrap_err_Inr [simp]: "wrap_err m r = Inr v \<longleftrightarrow> r = Inr v"
  by (cases r) auto

section \<open>Identities\<close>

record Identity =
  i_PrivKey :: bytes
  i_PubKey :: bytes
  i_ID :: NodeID

definition PubKeyToNodeID :: "ext \<Rightarrow> bytes \<Rightarrow> NodeID" where
  "PubKeyToNodeID X pub = sha1_Sum X pub"

definition IdentityFromKey :: "ext \<Rightarrow> bytes \<Rightarrow> Identity" where
  "IdentityFromKey X priv = (let pub = ed25519_Public X priv in
     \<lparr>i_PrivKey = priv, i_PubKey = pub, i_ID = PubKeyToNodeID X pub\<rparr>)"

text \<open>
  \<open>GenerateIdentity\<close> draws the private key from \<open>rand.Reader\<close>; the draw is the
  argument.
\<close>

definition GenerateIdentity :: "ext \<Rightarrow> bytes res \<Rightarrow> Identity res" where
  "GenerateIdentity X draw =
     bind_res (wrap_err ''generate ed25519 key'' draw) (\<lambda>priv. Inr (IdentityFromKey X priv))"

fun drop_newlines :: "string \<Rightarrow> string" where
  "drop_newlines (c # s) =
     (if c = CHR 0x0A \<or> c = CHR 0x0D then drop_newlines s else c # s)"
| "drop_newlines [] = []"

definition trimNewlines :: "string \<Rightarrow> string" where
  "trimNewlines s = rev (drop_newlines (rev s))"

text \<open>
  \<open>LoadOrCreateIdentity\<close> on the content of the identity file: \<open>Inr (Some s)\<close> when it
  was read, \<open>Inr None\<close> when it does not exist, \<open>Inl e\<close> on another read error. The
  second component of the result is what the file holds afterwards, and \<open>wr\<close> is the
  error of \<open>os.WriteFile\<close>, if any, with what the failed write left behind.
\<close>

definition LoadOrCreateIdentity ::
  "ext \<Rightarrow> bytes res \<Rightarrow> (err \<times> string option res) option \<Rightarrow> string option res \<Rightarrow> Identity res \<times> string option res" where
  "LoadOrCreateIdentity X draw wr file =
     (case file of
        Inr (Some raw) \<Rightarrow>
          (case hex_DecodeString (trimNewlines raw) of
             Some b \<Rightarrow> if length b \<noteq> PrivateKeySize
                       then (Inl (Errorf ''identity file is malformed''), file)
                       else (Inr (IdentityFromKey X b), file)
           | None \<Rightarrow> (Inl (Errorf ''identity file is malformed''), file))
      | Inl e \<Rightarrow> (Inl (Wrap ''read identity file'' e), file)
      | Inr None \<Rightarrow>
          (case GenerateIdentity X draw of
             Inl e \<Rightarrow> (Inl e, file)
           | Inr ident \<Rightarrow>
               (case wr of
                  Some (e, left) \<Rightarrow> (Inl (Wrap ''write identity file'' e), left)
                | None \<Rightarrow> (Inr ident,
                    Inr (Some (hex_EncodeToString (i_PrivKey ident) @ [CHR 0x0A]))))))"

record GroupIdentity =
  g_PrivKey :: bytes
  g_PubKey :: bytes
  g_GroupID :: NodeID
  g_PSK :: bytes

definition bytes_of_string :: "string \<Rightarrow> bytes" where
  "bytes_of_string s = map of_char s"

definition DerivePSK :: "ext \<Rightarrow> bytes \<Rightarrow> bytes" where
  "DerivePSK X priv = hmac_sha256 X priv (bytes_of_string ''psk'')"

definition NewGroupIdentity :: "ext \<Rightarrow> bytes \<Rightarrow> GroupIdentity" where
  "NewGroupIdentity X priv = (let pub = ed25519_Public X priv in
     \<lparr>g_PrivKey = priv, g_PubKey = pub, g_GroupID = PubKeyToNodeID X pub,
      g_PSK = DerivePSK X priv\<rparr>)"

definition GenerateGroupIdentity :: "ext \<Rightarrow> bytes res \<Rightarrow> GroupIdentity res" where
  "GenerateGroupIdentity X draw =
     bind_res (wrap_err ''generate group key'' draw) (\<lambda>priv. Inr (NewGroupIdentity X priv))"

definition GroupIdentityFromHex :: "ext \<Rightarrow> string \<Rightarrow> GroupIdentity res" where
  "GroupIdentityFromHex X hexKey =
     (case hex_DecodeString hexKey of
        None \<Rightarrow> Inl (Wrap ''decode hex key'' (Errorf ''encoding/hex''))
      | Some b \<Rightarrow> if length b \<noteq> PrivateKeySize then Inl (Errorf ''invalid key length'')
                  else Inr (NewGroupIdentity X b))"

definition PrivKeyHex :: "GroupIdentity \<Rightarrow> string" where
  "PrivKeyHex g = hex_EncodeToString (g_PrivKey g)"

section \<open>Signed records\<close>

definition peerRecordPrefix :: string where "peerRecordPrefix = ''drings-peer:''"
definition groupRecordPrefix :: string where "groupRecordPrefix = ''drings-group:''"

definition cborSignPayload :: "string \<Rightarrow> bytes res \<Rightarrow> bytes res" where
  "cborSignPayload prefix enc = bind_res enc (\<lambda>inner. Inr (bytes_of_string prefix @ inner))"

definition peer_sign :: "ext \<Rightarrow> bytes \<Rightarrow> PeerIdentityRecord \<Rightarrow> PeerIdentityRecord res" where
  "peer_sign X priv r =
     bind_res (wrap_err ''encode peer identity data''
                (cborSignPayload peerRecordPrefix (cbor_marshal_peer X (pr_Data r))))
       (\<lambda>payload. Inr (r\<lparr>pr_Signature := ed25519_Sign X priv payload\<rparr>))"

definition NewPeerIdentityRecord ::
  "ext \<Rightarrow> Identity \<Rightarrow> 64 word \<Rightarrow> string \<Rightarrow> (string \<rightharpoonup> string) \<Rightarrow> PeerIdentityRecord res" where
  "NewPeerIdentityRecord X ident version address groupAddrs =
     peer_sign X (i_PrivKey ident)
       \<lparr>pr_Data = \<lparr>PeerID = i_ID ident, pd_Version = version, Address = address,
                   GroupAddrs = groupAddrs\<rparr>,
        pr_PubKey = i_PubKey ident, pr_Signature = []\<rparr>"

definition peer_Verify :: "ext \<Rightarrow> PeerIdentityRecord \<Rightarrow> unit res" where
  "peer_Verify X r =
     (let pub = pr_PubKey r in
      if length pub \<noteq> PublicKeySize then Inl (Errorf ''invalid public key length'')
      else if PubKeyToNodeID X pub \<noteq> PeerID (pr_Data r)
      then Inl (Errorf ''peer_id does not match hash of public key'')
      else bind_res (wrap_err ''encode peer identity data''
                      (cborSignPayload peerRecordPrefix (cbor_marshal_peer X (pr_Data r))))
        (\<lambda>payload. if \<not> ed25519_Verify X pub payload (pr_Signature r)
                   then Inl (Errorf ''signature verification failed'') else Inr ()))"

definition peer_Encode :: "ext \<Rightarrow> PeerIdentityRecord \<Rightarrow> bytes res" where
  "peer_Encode X r =
     bind_res (wrap_err ''cbor encode peer identity data'' (cbor_marshal_peer X (pr_Data r)))
       (\<lambda>inner. marshal_signed X
          \<lparr>pb_Data = inner, pb_Pubkey = pr_PubKey r, pb_Signature = pr_Signature r\<rparr>)"

definition DecodePeerIdentityRecord :: "ext \<Rightarrow> bytes \<Rightarrow> PeerIdentityRecord res" where
  "DecodePeerIdentityRecord X data =
     bind_res (wrap_err ''decode peer identity record (proto)'' (unmarshal_signed X data))
       (\<lambda>pb. bind_res (wrap_err ''decode peer identity record (cbor)''
                        (cbor_unmarshal_peer X (pb_Data pb)))
          (\<lambda>d. Inr \<lparr>pr_Data = d, pr_PubKey = pb_Pubkey pb, pr_Signature = pb_Signature pb\<rparr>))"

definition group_sign :: "ext \<Rightarrow> bytes \<Rightarrow> GroupIdentityRecord \<Rightarrow> GroupIdentityRecord res" where
  "group_sign X priv r =
     bind_res (wrap_err ''encode group identity data''
                (cborSignPayload groupRecordPrefix (cbor_marshal_group X (gr_Data r))))
       (\<lambda>payload. Inr (r\<lparr>gr_Signature := ed25519_Sign X priv payload\<rparr>))"

definition NewGroupIdentityRecord ::
  "ext \<Rightarrow> GroupIdentity \<Rightarrow> 64 word \<Rightarrow> GroupMember list \<Rightarrow> GroupIdentityRecord res" where
  "NewGroupIdentityRecord X grp version peers =
     group_sign X (g_PrivKey grp)
       \<lparr>gr_Data = \<lparr>GroupID = g_GroupID grp, gd_Version = version, Peers = peers\<rparr>,
        gr_PubKey = g_PubKey grp, gr_Signature = []\<rparr>"

definition group_Verify :: "ext \<Rightarrow> GroupIdentityRecord \<Rightarrow> unit res" where
  "group_Verify X r =
     (let pub = gr_PubKey r in
      if length pub \<noteq> PublicKeySize then Inl (Errorf ''invalid public key length'')
      else if PubKeyToNodeID X pub \<noteq> GroupID (gr_Data r)
      then Inl (Errorf ''group_id does not match hash of public key'')
      else bind_res (wrap_err ''encode group identity data''
                      (cborSignPayload groupRecordPrefix (cbor_marshal_group X (gr_Data r))))
        (\<lambda>payload. if \<not> ed25519_Verify X pub payload (gr_Signature r)
                   then Inl (Errorf ''signature verification failed'') else Inr ()))"

definition group_Encode :: "ext \<Rightarrow> GroupIdentityRecord \<Rightarrow> bytes res" where
  "group_Encode X r =
     bind_res (wrap_err ''cbor encode group identity data'' (cbor_marshal_group X (gr_Data r)))
       (\<lambda>inner. marshal_signed X
          \<lparr>pb_Data = inner, pb_Pubkey = gr_PubKey r, pb_Signature = gr_Signature r\<rparr>)"

definition DecodeGroupIdentityRecord :: "ext \<Rightarrow> bytes \<Rightarrow> GroupIdentityRecord res" where
  "DecodeGroupIdentityRecord X data =
     bind_res (wrap_err ''decode group identity record (proto)'' (unmarshal_signed X data))
       (\<lambda>pb. bind_res (wrap_err ''decode group identity record (cbor)''
                        (cbor_unmarshal_group X (pb_Data pb)))
          (\<lambda>d. Inr \<lparr>gr_Data = d, gr_PubKey = pb_Pubkey pb, gr_Signature = pb_Signature pb\<rparr>))"

section \<open>Provider records\<close>

text \<open>\<open>copy(id[:], b)\<close> into a zeroed \<open>NodeID\<close>: short input leaves zeroes, long input is cut.\<close>

definition copy20 :: "bytes \<Rightarrow> NodeID" where
  "copy20 b = mk_id (take 20 (b @ replicate 20 0))"

lemma id_bytes_copy20 [code abstract]: "id_bytes (copy20 b) = take 20 (b @ replicate 20 0)"
  by (simp add: copy20_def mk_id_inverse)

definition to_pb :: "ProviderRecord \<Rightarrow> pb_ProviderRecord" where
  "to_pb r = \<lparr>pb_ContentHash = id_bytes (ContentHash r), pb_Provider = id_bytes (Provider r)\<rparr>"

definition of_pb :: "pb_ProviderRecord \<Rightarrow> ProviderRecord" where
  "of_pb p = \<lparr>ContentHash = copy20 (pb_ContentHash p), Provider = copy20 (pb_Provider p)\<rparr>"

definition provider_Encode :: "ext \<Rightarrow> ProviderRecord \<Rightarrow> bytes res" where
  "provider_Encode X r = marshal_provider X (to_pb r)"

fun check_providers :: "pb_ProviderRecord list \<Rightarrow> ProviderRecord list res" where
  "check_providers [] = Inr []"
| "check_providers (p # ps) =
     (if length (pb_ContentHash p) \<noteq> 20 \<or> length (pb_Provider p) \<noteq> 20
      then Inl (Errorf ''provider record has invalid field lengths'')
      else bind_res (check_providers ps) (\<lambda>rs. Inr (of_pb p # rs)))"

definition DecodeProviderRecords :: "ext \<Rightarrow> bytes \<Rightarrow> ProviderRecord list res" where
  "DecodeProviderRecords X data =
     bind_res (wrap_err ''decode provider record list'' (unmarshal_providers X data))
       (\<lambda>l. check_providers (pb_Providers l))"

definition encodeProviderRecordList :: "ext \<Rightarrow> ProviderRecord list \<Rightarrow> bytes res" where
  "encodeProviderRecordList X rs =
     marshal_providers X \<lparr>pb_Providers = map to_pb rs, pb_Timestamps = []\<rparr>"

text \<open>\<open>wall\<close> is \<open>time.Now()\<close>, used for a provider without a recorded time.\<close>

definition encodeProviderRecordListWithTimestamps ::
  "ext \<Rightarrow> int \<Rightarrow> ProviderRecord list \<Rightarrow> (NodeID \<times> int) list \<Rightarrow> bytes res" where
  "encodeProviderRecordListWithTimestamps X wall rs ets =
     marshal_providers X
       \<lparr>pb_Providers = map to_pb rs,
        pb_Timestamps =
          map (\<lambda>r. case map_of ets (Provider r) of Some t \<Rightarrow> t | None \<Rightarrow> wall) rs\<rparr>"

section \<open>Lemmas\<close>

lemma bytes_of_string_append [simp]:
  "bytes_of_string (s @ t) = bytes_of_string s @ bytes_of_string t"
  by (simp add: bytes_of_string_def)

lemma copy20_id_bytes [simp]: "copy20 (id_bytes i) = i"
  by (simp add: copy20_def id_bytes_inverse)

lemma of_pb_to_pb [simp]: "of_pb (to_pb r) = r"
  by (simp add: of_pb_def to_pb_def)

lemma check_providers_to_pb [simp]: "check_providers (map to_pb rs) = Inr rs"
  by (induction rs) (simp_all add: to_pb_def of_pb_def)

lemma ext_okD:
  assumes "ext_ok X"
  shows "marshal_signed X s = Inr b \<Longrightarrow> unmarshal_signed X b = Inr s"
    "marshal_provider X p = Inr b \<Longrightarrow> unmarshal_provider X b = Inr p"
    "marshal_providers X l = Inr b \<Longrightarrow> unmarshal_providers X b = Inr l"
    "cbor_marshal_peer X d = Inr b \<Longrightarrow> cbor_unmarshal_peer X b = Inr d"
    "cbor_marshal_group X g = Inr b \<Longrightarrow> cbor_unmarshal_group X b = Inr g"
    "length k = PrivateKeySize \<Longrightarrow> length (ed25519_Public X k) = PublicKeySize"
    "length k = PrivateKeySize \<Longrightarrow> length (ed25519_Sign X k m) = SignatureSize"
    "length k = PrivateKeySize \<Longrightarrow> ed25519_Verify X (ed25519_Public X k) m (ed25519_Sign X k m)"
  using assms by (simp_all add: ext_ok_def codec_ok_def)

lemma Decode_encodeProviderRecordList:
  "ext_ok X \<Longrightarrow> encodeProviderRecordList X rs = Inr b \<Longrightarrow> DecodeProviderRecords X b = Inr rs"
  by (simp add: encodeProviderRecordList_def DecodeProviderRecords_def ext_okD(3))

lemma Decode_encodeProviderRecordListWithTimestamps:
  "ext_ok X \<Longrightarrow> encodeProviderRecordListWithTimestamps X w rs ts = Inr b \<Longrightarrow>
   DecodeProviderRecords X b = Inr rs"
  by (simp add: encodeProviderRecordListWithTimestamps_def DecodeProviderRecords_def ext_okD(3))

lemma peer_Verify_iff:
  "peer_Verify X r = Inr () \<longleftrightarrow>
     length (pr_PubKey r) = PublicKeySize \<and> PubKeyToNodeID X (pr_PubKey r) = PeerID (pr_Data r) \<and>
     (\<exists>b. cbor_marshal_peer X (pr_Data r) = Inr b \<and>
        ed25519_Verify X (pr_PubKey r) (bytes_of_string peerRecordPrefix @ b) (pr_Signature r))"
  by (auto simp: peer_Verify_def Let_def bind_res_Inr cborSignPayload_def)

lemma group_Verify_iff:
  "group_Verify X r = Inr () \<longleftrightarrow>
     length (gr_PubKey r) = PublicKeySize \<and> PubKeyToNodeID X (gr_PubKey r) = GroupID (gr_Data r) \<and>
     (\<exists>b. cbor_marshal_group X (gr_Data r) = Inr b \<and>
        ed25519_Verify X (gr_PubKey r) (bytes_of_string groupRecordPrefix @ b) (gr_Signature r))"
  by (auto simp: group_Verify_def Let_def bind_res_Inr cborSignPayload_def)

lemma peer_record_verifies:
  assumes "ext_ok X" "length priv = PrivateKeySize"
    "NewPeerIdentityRecord X (IdentityFromKey X priv) v a g = Inr r"
  shows "peer_Verify X r = Inr ()"
  using assms
  by (auto simp: peer_Verify_iff NewPeerIdentityRecord_def peer_sign_def bind_res_Inr
      cborSignPayload_def IdentityFromKey_def Let_def ext_okD)

lemma peer_Decode_Encode:
  "ext_ok X \<Longrightarrow> peer_Encode X r = Inr b \<Longrightarrow> DecodePeerIdentityRecord X b = Inr r"
  by (auto simp: peer_Encode_def DecodePeerIdentityRecord_def bind_res_Inr ext_okD(1,4))

lemma group_record_verifies:
  assumes "ext_ok X" "length priv = PrivateKeySize"
    "NewGroupIdentityRecord X (NewGroupIdentity X priv) v ps = Inr r"
  shows "group_Verify X r = Inr ()"
  using assms
  by (auto simp: group_Verify_iff NewGroupIdentityRecord_def group_sign_def bind_res_Inr
      cborSignPayload_def NewGroupIdentity_def Let_def ext_okD)

lemma group_Decode_Encode:
  "ext_ok X \<Longrightarrow> group_Encode X r = Inr b \<Longrightarrow> DecodeGroupIdentityRecord X b = Inr r"
  by (auto simp: group_Encode_def DecodeGroupIdentityRecord_def bind_res_Inr ext_okD(1,5))

lemma GroupIdentityFromHex_PrivKeyHex_iff:
  "GroupIdentityFromHex X (PrivKeyHex (NewGroupIdentity X priv)) =
     (if length priv = PrivateKeySize then Inr (NewGroupIdentity X priv)
      else Inl (Errorf ''invalid key length''))"
  by (simp add: GroupIdentityFromHex_def PrivKeyHex_def NewGroupIdentity_def Let_def)

text \<open>The two kinds of signed payload start differently.\<close>

lemma payloads_disjoint:
  "bytes_of_string peerRecordPrefix @ a \<noteq> bytes_of_string groupRecordPrefix @ b"
  by (simp add: peerRecordPrefix_def groupRecordPrefix_def bytes_of_string_def of_char_def
      del: word_not_simps)

lemma hex_digit_no_newline:
  assumes "d < 16"
  shows "hex_digit d \<noteq> CHR 0x0A" "hex_digit d \<noteq> CHR 0x0D"
  using digit_val_hex_digit [OF assms] by (auto simp: digit_val_def Let_def)

lemma trimNewlines_hex [simp]:
  "trimNewlines (hex_EncodeToString b @ [CHR 0x0A]) = hex_EncodeToString b"
proof (cases b rule: rev_cases)
  case (snoc bs x)
  have "unat x mod 16 < 16" by simp
  then show ?thesis
    using snoc by (simp add: trimNewlines_def hex_EncodeToString_def hex_byte_def hex_digit_no_newline)
qed (simp add: trimNewlines_def hex_EncodeToString_def)

text \<open>A codec given by a table, for concrete instances.\<close>

definition table_enc :: "('m \<times> bytes) list \<Rightarrow> 'm \<Rightarrow> bytes res" where
  "table_enc tbl m = (case map_of tbl m of Some b \<Rightarrow> Inr b | None \<Rightarrow> Inl (Errorf ''marshal''))"

definition table_dec :: "('m \<times> bytes) list \<Rightarrow> bytes \<Rightarrow> 'm res" where
  "table_dec tbl b =
     (case map_of (map prod.swap tbl) b of Some m \<Rightarrow> Inr m | None \<Rightarrow> Inl (Errorf ''unmarshal''))"

lemma codec_ok_table:
  assumes "distinct (map snd tbl)"
  shows "codec_ok (table_enc tbl) (table_dec tbl)"
  unfolding codec_ok_def
proof (intro allI impI)
  fix m b assume "table_enc tbl m = Inr b"
  then have "(m, b) \<in> set tbl"
    by (auto simp: table_enc_def split: option.splits dest: map_of_SomeD)
  then have "(b, m) \<in> set (map prod.swap tbl)" by force
  moreover have "distinct (map fst (map prod.swap tbl))" using assms by (simp add: comp_def)
  ultimately show "table_dec tbl b = Inr m" by (simp add: table_dec_def map_of_is_SomeI)
qed

definition demo_ext ::
  "(pb_SignedRecord \<times> bytes) list \<Rightarrow> (pb_ProviderRecord \<times> bytes) list \<Rightarrow>
   (pb_ProviderRecordList \<times> bytes) list \<Rightarrow> (PeerIdentityData \<times> bytes) list \<Rightarrow>
   (GroupIdentityData \<times> bytes) list \<Rightarrow> ext" where
  "demo_ext ts tp tr td tg =
     \<lparr>marshal_signed = table_enc ts, unmarshal_signed = table_dec ts,
      marshal_provider = table_enc tp, unmarshal_provider = table_dec tp,
      marshal_providers = table_enc tr, unmarshal_providers = table_dec tr,
      cbor_marshal_peer = table_enc td, cbor_unmarshal_peer = table_dec td,
      cbor_marshal_group = table_enc tg, cbor_unmarshal_group = table_dec tg,
      sha1_Sum = copy20,
      hmac_sha256 = (\<lambda>k m. take 32 (k @ m @ replicate 32 0)),
      ed25519_Public = take 32,
      ed25519_Sign = (\<lambda>k m. replicate 64 0),
      ed25519_Verify = (\<lambda>pub m s. length s = 64)\<rparr>"

lemma ext_ok_demo:
  assumes "distinct (map snd ts)" "distinct (map snd tp)" "distinct (map snd tr)"
    "distinct (map snd td)" "distinct (map snd tg)"
  shows "ext_ok (demo_ext ts tp tr td tg)"
  using assms by (simp add: ext_ok_def demo_ext_def codec_ok_table)

section \<open>Properties\<close>

text \<open>
  C12. A peer identity record made by \<open>NewPeerIdentityRecord\<close> with a full private key
  passes \<open>Verify\<close>, and when \<open>Encode\<close> produced its bytes, \<open>DecodePeerIdentityRecord\<close>
  returns the same record.
\<close>

theorem peer_record_roundtrip:
  assumes "ext_ok X" "length priv = PrivateKeySize"
    and "NewPeerIdentityRecord X (IdentityFromKey X priv) v a g = Inr r"
    and "peer_Encode X r = Inr b"
  shows "DecodePeerIdentityRecord X b = Inr r \<and> peer_Verify X r = Inr ()
    \<and> PeerID (pr_Data r) = PubKeyToNodeID X (pr_PubKey r) \<and> pd_Version (pr_Data r) = v"
proof -
  have "peer_Verify X r = Inr ()" using assms(1-3) by (rule peer_record_verifies)
  moreover have "pd_Version (pr_Data r) = v"
    using assms(3) by (auto simp: NewPeerIdentityRecord_def peer_sign_def bind_res_Inr)
  ultimately show ?thesis
    using peer_Decode_Encode [OF assms(1,4)] by (auto simp: peer_Verify_iff)
qed

definition wit_peer_data :: PeerIdentityData where
  "wit_peer_data = \<lparr>PeerID = zeroID, pd_Version = 3, Address = ''a'', GroupAddrs = Map.empty\<rparr>"

definition wit_peer_ext :: ext where
  "wit_peer_ext = demo_ext
     [(\<lparr>pb_Data = [7], pb_Pubkey = replicate 32 0, pb_Signature = replicate 64 0\<rparr>, [9])] [] []
     [(wit_peer_data, [7])] []"

lemma copy20_zeroes: "copy20 (replicate 32 0) = zeroID"
  by (simp add: copy20_def zeroID_def take_append flip: replicate_add)

theorem peer_record_roundtrip_witness:
  "\<exists>r. DecodePeerIdentityRecord wit_peer_ext [9] = Inr r \<and> pd_Version (pr_Data r) = 3"
proof -
  have "ext_ok wit_peer_ext" unfolding wit_peer_ext_def by (rule ext_ok_demo) simp_all
  moreover have new: "NewPeerIdentityRecord wit_peer_ext (IdentityFromKey wit_peer_ext (replicate 64 0))
      3 ''a'' Map.empty =
      Inr \<lparr>pr_Data = wit_peer_data, pr_PubKey = replicate 32 0, pr_Signature = replicate 64 0\<rparr>"
    using copy20_zeroes
    by (simp add: NewPeerIdentityRecord_def peer_sign_def cborSignPayload_def IdentityFromKey_def
        PubKeyToNodeID_def wit_peer_ext_def demo_ext_def table_enc_def wit_peer_data_def)
  ultimately show ?thesis
    using peer_record_roundtrip [OF _ _ new, of "[9]"]
    by (simp add: peer_Encode_def wit_peer_ext_def demo_ext_def table_enc_def)
qed

text \<open>
  C13. Loading an identity is stable: once \<open>LoadOrCreateIdentity\<close> has created and written
  the identity file, every later call returns the same identity and leaves the file
  alone.
\<close>

theorem identity_file_roundtrip:
  assumes "length priv = PrivateKeySize"
    and "LoadOrCreateIdentity X (Inr priv) None (Inr None) = (r, file)"
  shows "r = Inr (IdentityFromKey X priv) \<and> LoadOrCreateIdentity X draw wr file = (r, file)"
  using assms
  by (auto simp: LoadOrCreateIdentity_def GenerateIdentity_def IdentityFromKey_def Let_def)

theorem identity_file_roundtrip_witness:
  "LoadOrCreateIdentity wit_peer_ext (Inr []) None
     (Inr (Some (hex_EncodeToString (replicate 64 0) @ [CHR 0x0A])))
   = (Inr (IdentityFromKey wit_peer_ext (replicate 64 0)),
      Inr (Some (hex_EncodeToString (replicate 64 0) @ [CHR 0x0A])))"
proof -
  have "LoadOrCreateIdentity wit_peer_ext (Inr (replicate 64 0)) None (Inr None) =
    (Inr (IdentityFromKey wit_peer_ext (replicate 64 0)),
     Inr (Some (hex_EncodeToString (replicate 64 0) @ [CHR 0x0A])))"
    by (simp add: LoadOrCreateIdentity_def GenerateIdentity_def IdentityFromKey_def Let_def)
  from identity_file_roundtrip [OF _ this] show ?thesis by simp
qed

end
