(* ===== verification/Record_Store.thy ===== *)
theory Record_Store
  imports Wire_Records
begin

text \<open>
  The record table of a node, from \<open>dht/node.go\<close>: signed peer and group records with a
  version and a lifetime, provider lists with a lifetime per entry, the two write paths
  (\<open>storeRecord\<close> for the responsible node, \<open>localRecordPut\<close> for replicas), the read
  path and the purge. Times are nanoseconds since the Unix epoch; the clock reading
  \<open>n.now()\<close> is the argument \<open>now\<close>. Go maps that the code iterates over are association
  lists.
\<close>

section \<open>State\<close>

datatype recType = recUnknown | recPeer | recGroup | recProvider

text \<open>\<open>time.Time.Sub\<close> saturates at the ends of the 64-bit range.\<close>

definition time_Sub :: "int \<Rightarrow> int \<Rightarrow> int" where
  "time_Sub a b = max (- (2 ^ 63)) (min (2 ^ 63 - 1) (a - b))"

text \<open>The zero \<open>time.Time\<close>, January 1 of year 1.\<close>

definition zero_Time :: int where "zero_Time = - 62135596800 * second"

record recordMeta =
  storedAt :: int
  ttl :: int
  rtyp :: recType

definition zero_meta :: recordMeta where
  "zero_meta = \<lparr>storedAt = zero_Time, ttl = 0, rtyp = recUnknown\<rparr>"

record rec_state =
  records :: "(NodeID \<times> bytes) list"
  recordsMeta :: "(NodeID \<times> recordMeta) list"
  providerEntryTimes :: "(NodeID \<times> (NodeID \<times> int) list) list"
  peerRecordTTL :: int
  groupRecordTTL :: int
  providerRecordTTL :: int

definition new_records :: "Config \<Rightarrow> rec_state" where
  "new_records cfg =
     \<lparr>records = [], recordsMeta = [], providerEntryTimes = [],
      peerRecordTTL = cfg_peerRecordTTL cfg, groupRecordTTL = cfg_groupRecordTTL cfg,
      providerRecordTTL = cfg_providerRecordTTL cfg\<rparr>"

definition isExpiredAt :: "recordMeta \<Rightarrow> int \<Rightarrow> bool" where
  "isExpiredAt m now \<longleftrightarrow> ttl m > 0 \<and> time_Sub now (storedAt m) > ttl m"

text \<open>\<open>m[key]\<close> with Go's zero value for a missing key.\<close>

definition meta_at :: "rec_state \<Rightarrow> NodeID \<Rightarrow> recordMeta" where
  "meta_at st key = (case map_of (recordsMeta st) key of Some m \<Rightarrow> m | None \<Rightarrow> zero_meta)"

definition times_at :: "rec_state \<Rightarrow> NodeID \<Rightarrow> (NodeID \<times> int) list" where
  "times_at st key = (case map_of (providerEntryTimes st) key of Some ts \<Rightarrow> ts | None \<Rightarrow> [])"

definition versionConflictPrefix :: string where
  "versionConflictPrefix = ''record version conflict''"

definition isVersionConflict :: "err option \<Rightarrow> bool" where
  "isVersionConflict e =
     (case e of None \<Rightarrow> False
      | Some x \<Rightarrow> errors_is x ErrVersionConflict \<or> str_contains (err_text x) versionConflictPrefix)"

text \<open>The test the provider code applies to an entry: it has a time, and the time is recent.\<close>

definition entry_live :: "int \<Rightarrow> int \<Rightarrow> (NodeID \<times> int) list \<Rightarrow> ProviderRecord \<Rightarrow> bool" where
  "entry_live now pttl ets e =
     (case map_of ets (Provider e) of Some t \<Rightarrow> time_Sub now t \<le> pttl | None \<Rightarrow> False)"

section \<open>Classification and versions\<close>

definition classifyRecord :: "ext \<Rightarrow> bytes \<Rightarrow> recType" where
  "classifyRecord X data =
     (if (case unmarshal_provider X data of
            Inr p \<Rightarrow> length (pb_ContentHash p) = 20 \<and> length (pb_Provider p) = 20
          | Inl _ \<Rightarrow> False) then recProvider
      else if (case unmarshal_providers X data of
            Inr l \<Rightarrow> (case pb_Providers l of
                        p # _ \<Rightarrow> length (pb_ContentHash p) = 20 \<and> length (pb_Provider p) = 20
                      | [] \<Rightarrow> False)
          | Inl _ \<Rightarrow> False) then recProvider
      else (case unmarshal_signed X data of
            Inr s \<Rightarrow>
              if length (pb_Pubkey s) = 32 \<and> length (pb_Signature s) = 64 \<and> pb_Data s \<noteq> []
              then (case cbor_unmarshal_peer X (pb_Data s) of
                      Inr d \<Rightarrow> if PeerID d \<noteq> zeroID then recPeer else recGroup
                    | Inl _ \<Rightarrow> recGroup)
              else recUnknown
          | Inl _ \<Rightarrow> recUnknown))"

definition ttlForType :: "rec_state \<Rightarrow> recType \<Rightarrow> int" where
  "ttlForType st t =
     (case t of recPeer \<Rightarrow> peerRecordTTL st | recGroup \<Rightarrow> groupRecordTTL st
      | recProvider \<Rightarrow> 0 | recUnknown \<Rightarrow> 0)"

definition extractRecordVersion :: "ext \<Rightarrow> bytes \<Rightarrow> 64 word" where
  "extractRecordVersion X data =
     (let group = (case DecodeGroupIdentityRecord X data of
                     Inr gir \<Rightarrow> if GroupID (gr_Data gir) \<noteq> zeroID then gd_Version (gr_Data gir) else 0
                   | Inl _ \<Rightarrow> 0)
      in case DecodePeerIdentityRecord X data of
           Inr pir \<Rightarrow> if PeerID (pr_Data pir) \<noteq> zeroID then pd_Version (pr_Data pir) else group
         | Inl _ \<Rightarrow> group)"

section \<open>The replica write path\<close>

definition put_record :: "NodeID \<Rightarrow> bytes \<Rightarrow> recordMeta \<Rightarrow> rec_state \<Rightarrow> rec_state" where
  "put_record key data m st =
     st\<lparr>records := aupd key data (records st), recordsMeta := aupd key m (recordsMeta st)\<rparr>"

text \<open>The loop over \<open>rawPRL.Providers\<close>, with the timestamps still to be read.\<close>

fun entry_times :: "int \<Rightarrow> int \<Rightarrow> bool \<Rightarrow> pb_ProviderRecord list \<Rightarrow> int list
    \<Rightarrow> (NodeID \<times> int) list \<Rightarrow> (NodeID \<times> int) list" where
  "entry_times now pttl has [] ts acc = acc"
| "entry_times now pttl has (p # ps) ts acc =
     entry_times now pttl has ps (drop 1 ts)
       (if length (pb_Provider p) \<noteq> 20 then acc
        else let provID = copy20 (pb_Provider p);
                 entryTime = (if has \<and> ts \<noteq> [] \<and> hd ts > 0 then hd ts else now)
             in if pttl > 0 \<and> time_Sub now entryTime > pttl then acc
                else aupd provID entryTime acc)"

definition localRecordPut :: "ext \<Rightarrow> int \<Rightarrow> NodeID \<Rightarrow> bytes \<Rightarrow> rec_state \<Rightarrow> rec_state" where
  "localRecordPut X now key data st =
     (let incomingVer = extractRecordVersion X data in
      if incomingVer > 0 \<and>
         (case map_of (records st) key of
            Some existing \<Rightarrow> \<not> isExpiredAt (meta_at st key) now \<and>
                             extractRecordVersion X existing \<ge> incomingVer
          | None \<Rightarrow> False)
      then st
      else
        let t = classifyRecord X data;
            st1 = put_record key data \<lparr>storedAt = now, ttl = ttlForType st t, rtyp = t\<rparr> st
        in case unmarshal_providers X data of
             Inr l \<Rightarrow>
               if pb_Providers l \<noteq> []
               then st1\<lparr>providerEntryTimes :=
                      aupd key
                        (entry_times now (providerRecordTTL st)
                           (length (pb_Timestamps l) = length (pb_Providers l))
                           (pb_Providers l) (pb_Timestamps l) (times_at st key))
                        (providerEntryTimes st)\<rparr>
               else st1
           | Inl _ \<Rightarrow> st1)"

section \<open>The write path of the responsible node\<close>

definition stored_providers :: "ext \<Rightarrow> rec_state \<Rightarrow> NodeID \<Rightarrow> ProviderRecord list" where
  "stored_providers X st key =
     (case map_of (records st) key of
        None \<Rightarrow> []
      | Some d \<Rightarrow> (case DecodeProviderRecords X d of Inl _ \<Rightarrow> [] | Inr all \<Rightarrow> all))"

definition storeProviderRecord ::
  "ext \<Rightarrow> int \<Rightarrow> int \<Rightarrow> NodeID \<Rightarrow> bytes \<Rightarrow> NodeID \<Rightarrow> rec_state \<Rightarrow> unit res \<times> rec_state" where
  "storeProviderRecord X now wall key data callerID st =
     (case unmarshal_provider X data of
        Inl e \<Rightarrow> (Inl (Wrap ''decode provider record'' e), st)
      | Inr raw \<Rightarrow>
          (let pr = of_pb raw in
           if callerID \<noteq> Provider pr
           then (Inl (Errorf ''provider record rejected: caller does not match advertised provider''), st)
           else
             let existing = filter (entry_live now (providerRecordTTL st) (times_at st key))
                              (stored_providers X st key);
                 out = filter (\<lambda>e. Provider e \<noteq> Provider pr) existing @ [pr];
                 ets = aupd (Provider pr) now (times_at st key);
                 st1 = st\<lparr>providerEntryTimes := aupd key ets (providerEntryTimes st)\<rparr>
             in case encodeProviderRecordListWithTimestamps X wall out ets of
                  Inl e \<Rightarrow> (Inl (Wrap ''encode provider record list'' e), st1)
                | Inr merged \<Rightarrow>
                    (Inr (), put_record key merged \<lparr>storedAt = now, ttl = 0, rtyp = recProvider\<rparr> st1)))"

definition incoming_version :: "ext \<Rightarrow> bytes \<Rightarrow> recType \<Rightarrow> 64 word res" where
  "incoming_version X data t =
     (if t = recPeer
      then bind_res (wrap_err ''decode peer identity record'' (DecodePeerIdentityRecord X data))
        (\<lambda>pir. bind_res (wrap_err ''peer identity record rejected'' (peer_Verify X pir))
          (\<lambda>_. Inr (pd_Version (pr_Data pir))))
      else bind_res (wrap_err ''decode group identity record'' (DecodeGroupIdentityRecord X data))
        (\<lambda>gir. bind_res (wrap_err ''group identity record rejected'' (group_Verify X gir))
          (\<lambda>_. Inr (gd_Version (gr_Data gir)))))"

definition storeSignedRecord ::
  "ext \<Rightarrow> int \<Rightarrow> NodeID \<Rightarrow> bytes \<Rightarrow> recType \<Rightarrow> rec_state \<Rightarrow> unit res \<times> rec_state" where
  "storeSignedRecord X now key data t st =
     (case incoming_version X data t of
        Inl e \<Rightarrow> (Inl e, st)
      | Inr incomingVersion \<Rightarrow>
          if (case map_of (records st) key of
                Some raw \<Rightarrow> \<not> isExpiredAt (meta_at st key) now \<and>
                            extractRecordVersion X raw \<ge> incomingVersion
              | None \<Rightarrow> False)
          then (Inl (Wrap ''stored version, incoming version'' ErrVersionConflict), st)
          else (Inr (), put_record key data \<lparr>storedAt = now, ttl = ttlForType st t, rtyp = t\<rparr> st))"

definition storeRecord ::
  "ext \<Rightarrow> int \<Rightarrow> int \<Rightarrow> NodeID \<Rightarrow> bytes \<Rightarrow> NodeID \<Rightarrow> rec_state \<Rightarrow> unit res \<times> rec_state" where
  "storeRecord X now wall key data callerID st =
     (case classifyRecord X data of
        recProvider \<Rightarrow> storeProviderRecord X now wall key data callerID st
      | recPeer \<Rightarrow> storeSignedRecord X now key data recPeer st
      | recGroup \<Rightarrow> storeSignedRecord X now key data recGroup st
      | recUnknown \<Rightarrow> (Inr (), localRecordPut X now key data st))"

section \<open>Reading, purging, inspecting\<close>

definition localRecordGet :: "ext \<Rightarrow> int \<Rightarrow> NodeID \<Rightarrow> rec_state \<Rightarrow> bytes res" where
  "localRecordGet X now key st =
     (case map_of (records st) key of
        None \<Rightarrow> Inl (Errorf ''record not found'')
      | Some data \<Rightarrow>
          (case map_of (providerEntryTimes st) key of
             None \<Rightarrow>
               if isExpiredAt (meta_at st key) now then Inl (Errorf ''record has expired'')
               else Inr data
           | Some ets \<Rightarrow>
               bind_res (wrap_err ''decode provider records'' (DecodeProviderRecords X data))
                 (\<lambda>all. let live = filter (entry_live now (providerRecordTTL st) ets) all
                         in if live = [] then Inl (Errorf ''record not found'')
                            else encodeProviderRecordList X live)))"

definition purge_meta :: "int \<Rightarrow> rec_state \<Rightarrow> NodeID \<times> recordMeta \<Rightarrow> rec_state" where
  "purge_meta now st e =
     (case e of (key, m) \<Rightarrow>
        if rtyp m = recProvider then st
        else if isExpiredAt m now
        then st\<lparr>records := adel key (records st), recordsMeta := adel key (recordsMeta st)\<rparr>
        else st)"

definition purge_providers :: "ext \<Rightarrow> int \<Rightarrow> rec_state \<Rightarrow> NodeID \<times> (NodeID \<times> int) list \<Rightarrow> rec_state" where
  "purge_providers X now st e =
     (case e of (key, ets) \<Rightarrow>
        let ets' = filter (\<lambda>(_, t). \<not> time_Sub now t > providerRecordTTL st) ets in
        if ets' = []
        then st\<lparr>records := adel key (records st), recordsMeta := adel key (recordsMeta st),
                providerEntryTimes := adel key (providerEntryTimes st)\<rparr>
        else
          let st1 = st\<lparr>providerEntryTimes := aupd key ets' (providerEntryTimes st)\<rparr>;
              raw = (case map_of (records st) key of Some d \<Rightarrow> d | None \<Rightarrow> [])
          in case DecodeProviderRecords X raw of
               Inl _ \<Rightarrow> st1
             | Inr existing \<Rightarrow>
                 (case encodeProviderRecordList X
                         (filter (\<lambda>r. map_of ets' (Provider r) \<noteq> None) existing) of
                    Inr merged \<Rightarrow> st1\<lparr>records := aupd key merged (records st)\<rparr>
                  | Inl _ \<Rightarrow> st1))"

definition purgeExpiredRecords :: "ext \<Rightarrow> int \<Rightarrow> rec_state \<Rightarrow> rec_state" where
  "purgeExpiredRecords X now st =
     (let st1 = foldl (purge_meta now) st (recordsMeta st)
      in foldl (purge_providers X now) st1 (providerEntryTimes st1))"

definition getRecordsInRange :: "NodeID \<Rightarrow> NodeID \<Rightarrow> rec_state \<Rightarrow> (NodeID \<times> bytes) list" where
  "getRecordsInRange lo hi st = filter (\<lambda>(k, _). BetweenRightInclusive k lo hi) (records st)"

definition RecordKeys :: "rec_state \<Rightarrow> string list" where
  "RecordKeys st = map (\<lambda>(k, _). id_String k) (records st)"

definition HasRecord :: "string \<Rightarrow> rec_state \<Rightarrow> bool" where
  "HasRecord keyHex st =
     (case hex_DecodeString keyHex of
        Some b \<Rightarrow> length b = 20 \<and> map_of (records st) (copy20 b) \<noteq> None
      | None \<Rightarrow> False)"

definition DeleteRecord :: "string \<Rightarrow> rec_state \<Rightarrow> bool \<times> rec_state" where
  "DeleteRecord keyHex st =
     (case hex_DecodeString keyHex of
        Some b \<Rightarrow>
          if length b \<noteq> 20 then (False, st)
          else let key = copy20 b in
            if map_of (records st) key = None then (False, st)
            else (True, st\<lparr>records := adel key (records st), recordsMeta := adel key (recordsMeta st)\<rparr>)
      | None \<Rightarrow> (False, st))"

section \<open>Invariant\<close>

text \<open>The association lists stand for Go maps, so no key occurs twice; only records have metadata.\<close>

definition rec_inv :: "rec_state \<Rightarrow> bool" where
  "rec_inv st \<longleftrightarrow>
     distinct (map fst (records st)) \<and> distinct (map fst (recordsMeta st)) \<and>
     distinct (map fst (providerEntryTimes st)) \<and>
     (\<forall>(k, ets) \<in> set (providerEntryTimes st). distinct (map fst ets)) \<and>
     dom (map_of (recordsMeta st)) \<subseteq> dom (map_of (records st))"

lemma rec_inv_new [wf_intros]: "rec_inv (new_records cfg)"
  by (simp add: rec_inv_def new_records_def)

lemma rec_inv_times: "rec_inv st \<Longrightarrow> distinct (map fst (times_at st key))"
  by (auto simp: rec_inv_def times_at_def split: option.split dest: map_of_SomeD)

lemma rec_inv_put [wf_intros]: "rec_inv st \<Longrightarrow> rec_inv (put_record key data m st)"
  by (auto simp: rec_inv_def put_record_def)

lemma rec_inv_set_times [wf_intros]:
  "rec_inv st \<Longrightarrow> distinct (map fst ets) \<Longrightarrow>
   rec_inv (st\<lparr>providerEntryTimes := aupd key ets (providerEntryTimes st)\<rparr>)"
  by (auto simp: rec_inv_def dest!: set_aupdD)

lemma distinct_entry_times:
  "distinct (map fst acc) \<Longrightarrow> distinct (map fst (entry_times now p has ps ts acc))"
  by (induction now p has ps ts acc rule: entry_times.induct) (simp_all add: Let_def)

lemma put_record_simps [simp]:
  "records (put_record key data m st) = aupd key data (records st)"
  "recordsMeta (put_record key data m st) = aupd key m (recordsMeta st)"
  "providerEntryTimes (put_record key data m st) = providerEntryTimes st"
  "providerRecordTTL (put_record key data m st) = providerRecordTTL st"
  "times_at (put_record key data m st) k = times_at st k"
  by (simp_all add: put_record_def times_at_def)

lemma rec_inv_localRecordPut [wf_intros]: "rec_inv st \<Longrightarrow> rec_inv (localRecordPut X now key data st)"
proof -
  assume st: "rec_inv st"
  have *: "rec_inv ((put_record key data m st)\<lparr>providerEntryTimes := aupd key ets (providerEntryTimes st)\<rparr>)"
    if "distinct (map fst ets)" for m ets
    using rec_inv_set_times [OF rec_inv_put [OF st, of key data m] that, of key] by simp
  show ?thesis
    using st * distinct_entry_times [OF rec_inv_times [OF st]] rec_inv_put [OF st]
    by (simp add: localRecordPut_def Let_def split: sum.split)
qed

lemma rec_inv_storeProviderRecord [wf_intros]:
  "rec_inv st \<Longrightarrow> rec_inv (snd (storeProviderRecord X now wall key data c st))"
proof -
  assume st: "rec_inv st"
  have "rec_inv (st\<lparr>providerEntryTimes := aupd key (aupd p now (times_at st key)) (providerEntryTimes st)\<rparr>)" for p
    using rec_inv_times [OF st, of key] by (intro rec_inv_set_times st) simp
  then show ?thesis
    using st by (auto simp: storeProviderRecord_def Let_def split: sum.split intro!: rec_inv_put)
qed

lemma rec_inv_storeSignedRecord [wf_intros]:
  "rec_inv st \<Longrightarrow> rec_inv (snd (storeSignedRecord X now key data t st))"
  by (simp add: storeSignedRecord_def rec_inv_put split: sum.split)

lemma rec_inv_storeRecord [wf_intros]:
  "rec_inv st \<Longrightarrow> rec_inv (snd (storeRecord X now wall key data c st))"
  by (simp add: storeRecord_def rec_inv_localRecordPut rec_inv_storeProviderRecord
      rec_inv_storeSignedRecord split: recType.split)

lemma rec_inv_del [wf_intros]:
  "rec_inv st \<Longrightarrow> rec_inv (st\<lparr>records := adel k (records st), recordsMeta := adel k (recordsMeta st)\<rparr>)"
  by (auto simp: rec_inv_def)

lemma rec_inv_purge_meta: "rec_inv st \<Longrightarrow> rec_inv (purge_meta now st e)"
  by (cases e) (simp add: purge_meta_def rec_inv_del)

lemma distinct_map_fst_filter: "distinct (map fst xs) \<Longrightarrow> distinct (map fst (filter P xs))"
  by (induction xs) auto

lemma rec_inv_purge_providers:
  assumes st: "rec_inv st" and "distinct (map fst ets)"
  shows "rec_inv (purge_providers X now st (key, ets))"
proof -
  let ?f = "filter (\<lambda>(_, t). \<not> time_Sub now t > providerRecordTTL st) ets"
  let ?st = "st\<lparr>providerEntryTimes := aupd key ?f (providerEntryTimes st)\<rparr>"
  have 1: "rec_inv ?st" using assms by (intro rec_inv_set_times distinct_map_fst_filter)
  have 2: "rec_inv (?st\<lparr>records := aupd key m (records st)\<rparr>)" for m
    using 1 by (auto simp: rec_inv_def)
  have 3: "rec_inv (st\<lparr>records := adel key (records st), recordsMeta := adel key (recordsMeta st),
      providerEntryTimes := adel key (providerEntryTimes st)\<rparr>)"
    using st by (auto simp: rec_inv_def dest: set_adelD)
  show ?thesis using 1 2 3 by (simp add: purge_providers_def Let_def split: sum.split)
qed

lemma rec_inv_purge [wf_intros]:
  assumes st: "rec_inv st"
  shows "rec_inv (purgeExpiredRecords X now st)"
proof -
  let ?st1 = "foldl (purge_meta now) st (recordsMeta st)"
  have 1: "rec_inv (foldl (purge_meta now) st xs)" for xs
    using st by (induction xs arbitrary: st) (simp_all add: rec_inv_purge_meta)
  have "rec_inv (foldl (purge_providers X now) st' xs)"
    if "rec_inv st'" "\<forall>(k, ets) \<in> set xs. distinct (map fst ets)" for st' xs
    using that by (induction xs arbitrary: st') (auto simp: rec_inv_purge_providers)
  moreover have "\<forall>(k, ets) \<in> set (providerEntryTimes ?st1). distinct (map fst ets)"
    using 1 [of "recordsMeta st"] by (simp add: rec_inv_def)
  ultimately show ?thesis using 1 [of "recordsMeta st"] by (simp add: purgeExpiredRecords_def Let_def)
qed

lemma rec_inv_DeleteRecord [wf_intros]: "rec_inv st \<Longrightarrow> rec_inv (snd (DeleteRecord h st))"
  by (simp add: DeleteRecord_def Let_def rec_inv_del split: option.split)

section \<open>Versions\<close>

text \<open>The version of the record a key currently answers with, 0 when there is none.\<close>

definition live_version :: "ext \<Rightarrow> int \<Rightarrow> rec_state \<Rightarrow> NodeID \<Rightarrow> 64 word" where
  "live_version X now st k =
     (case map_of (records st) k of
        Some raw \<Rightarrow> if isExpiredAt (meta_at st k) now then 0 else extractRecordVersion X raw
      | None \<Rightarrow> 0)"

lemma fresh_not_expired [simp]: "\<not> isExpiredAt \<lparr>storedAt = now, ttl = t, rtyp = y\<rparr> now"
  by (simp add: isExpiredAt_def time_Sub_def)

lemma meta_at_put [simp]:
  "meta_at (put_record key data m st) k = (if k = key then m else meta_at st k)"
  by (simp add: meta_at_def)

lemma live_version_put:
  "live_version X now (put_record key data \<lparr>storedAt = now, ttl = t, rtyp = y\<rparr> st) k =
     (if k = key then extractRecordVersion X data else live_version X now st k)"
  by (simp add: live_version_def split: option.split)

lemma live_version_set_times [simp]:
  "live_version X now (st\<lparr>providerEntryTimes := ts\<rparr>) k = live_version X now st k"
  by (simp add: live_version_def meta_at_def split: option.split)

text \<open>
  On data of the class the dispatch found, the version the write path checks is the
  version the read path extracts.
\<close>

lemma incoming_version_extract:
  assumes "incoming_version X data (classifyRecord X data) = Inr v"
    and "classifyRecord X data = recPeer \<or> classifyRecord X data = recGroup"
    and "\<And>gir. classifyRecord X data = recGroup \<Longrightarrow> DecodeGroupIdentityRecord X data = Inr gir \<Longrightarrow> GroupID (gr_Data gir) \<noteq> zeroID"
  shows "extractRecordVersion X data = v"
proof (cases "classifyRecord X data = recPeer")
  case True
  then obtain s d where "unmarshal_signed X data = Inr s" "cbor_unmarshal_peer X (pb_Data s) = Inr d"
      "PeerID d \<noteq> zeroID"
    by (auto simp: classifyRecord_def split: if_splits sum.splits list.splits)
  then show ?thesis
    using assms(1) True
    by (auto simp: incoming_version_def extractRecordVersion_def DecodePeerIdentityRecord_def bind_res_Inr)
next
  case False
  then have g: "classifyRecord X data = recGroup" using assms(2) by simp
  then obtain gir where gir: "DecodeGroupIdentityRecord X data = Inr gir" "v = gd_Version (gr_Data gir)"
    using assms(1) by (auto simp: incoming_version_def bind_res_Inr)
  have "PeerID (pr_Data pir) = zeroID" if "DecodePeerIdentityRecord X data = Inr pir" for pir
    using g that
    by (auto simp: classifyRecord_def DecodePeerIdentityRecord_def bind_res_Inr
        split: if_splits sum.splits list.splits)
  then show ?thesis
    using gir g assms(3) by (auto simp: extractRecordVersion_def Let_def split: sum.split)
qed

lemma live_version_storeSigned:
  assumes "storeSignedRecord X now key data t st = (r, st')"
    and "\<And>v. incoming_version X data t = Inr v \<Longrightarrow> extractRecordVersion X data = v"
  shows "live_version X now st k \<le> live_version X now st' k"
proof (cases "st' = st")
  case False
  with assms have st': "st' = put_record key data \<lparr>storedAt = now, ttl = ttlForType st t, rtyp = t\<rparr> st"
    and "live_version X now st key \<le> extractRecordVersion X data"
    by (auto simp: storeSignedRecord_def live_version_def split: sum.splits option.splits if_splits)
  then show ?thesis by (simp add: live_version_put)
qed simp

lemma localRecordPut_cases:
  obtains "localRecordPut X now key data st = st"
      "extractRecordVersion X data \<le> live_version X now st key"
  | ts where "localRecordPut X now key data st =
        (put_record key data \<lparr>storedAt = now, ttl = ttlForType st (classifyRecord X data),
           rtyp = classifyRecord X data\<rparr> st)\<lparr>providerEntryTimes := ts\<rparr>"
      "extractRecordVersion X data > 0 \<Longrightarrow> live_version X now st key < extractRecordVersion X data"
proof (cases "extractRecordVersion X data > 0 \<and>
    (case map_of (records st) key of
       Some existing \<Rightarrow> \<not> isExpiredAt (meta_at st key) now \<and>
         extractRecordVersion X existing \<ge> extractRecordVersion X data
     | None \<Rightarrow> False)")
  case True
  then show thesis
    by (intro that(1)) (auto simp: localRecordPut_def Let_def live_version_def split: option.splits)
next
  case False
  have id: "put_record key data m st =
      (put_record key data m st)\<lparr>providerEntryTimes := providerEntryTimes st\<rparr>" for m
    by (simp add: put_record_def)
  have v: "extractRecordVersion X data > 0 \<Longrightarrow> live_version X now st key < extractRecordVersion X data"
    using False by (auto simp: live_version_def not_le split: option.splits if_splits)
  show thesis
  proof (cases "\<exists>l. unmarshal_providers X data = Inr l \<and> pb_Providers l \<noteq> []")
    case True
    then obtain l where "unmarshal_providers X data = Inr l" "pb_Providers l \<noteq> []" by blast
    with False v show thesis by (intro that(2)) (auto simp: localRecordPut_def Let_def)
  next
    case noprov: False
    have "localRecordPut X now key data st =
        put_record key data \<lparr>storedAt = now, ttl = ttlForType st (classifyRecord X data),
           rtyp = classifyRecord X data\<rparr> st"
      using False noprov by (auto simp: localRecordPut_def Let_def split: sum.split)
    with v show thesis by (intro that(2) [of "providerEntryTimes st"]) (simp_all add: put_record_def)
  qed
qed

lemma live_version_localRecordPut:
  assumes "extractRecordVersion X data > 0"
  shows "live_version X now st k \<le> live_version X now (localRecordPut X now key data st) k"
proof (rule localRecordPut_cases [of X now key data st])
  fix ts
  assume "localRecordPut X now key data st =
        (put_record key data \<lparr>storedAt = now, ttl = ttlForType st (classifyRecord X data),
           rtyp = classifyRecord X data\<rparr> st)\<lparr>providerEntryTimes := ts\<rparr>"
    and v: "extractRecordVersion X data > 0 \<Longrightarrow> live_version X now st key < extractRecordVersion X data"
  then show ?thesis using v [OF assms] by (simp add: live_version_put order.strict_implies_order)
qed simp

section \<open>The purge seen from one key\<close>

definition rec_view ::
  "rec_state \<Rightarrow> NodeID \<Rightarrow> bytes option \<times> recordMeta option \<times> (NodeID \<times> int) list option \<times> int" where
  "rec_view st k =
     (map_of (records st) k, map_of (recordsMeta st) k, map_of (providerEntryTimes st) k,
      providerRecordTTL st)"

lemma purge_meta_view:
  assumes "rec_inv st"
  shows "rec_view (foldl (purge_meta now) st (recordsMeta st)) k =
    (if \<exists>m. map_of (recordsMeta st) k = Some m \<and> rtyp m \<noteq> recProvider \<and> isExpiredAt m now
     then (None, None, map_of (providerEntryTimes st) k, providerRecordTTL st)
     else rec_view st k)"
proof -
  have "rec_view (foldl (purge_meta now) st (recordsMeta st)) k =
    (case map_of (recordsMeta st) k of None \<Rightarrow> rec_view st k
     | Some e \<Rightarrow> rec_view (purge_meta now st (k, e)) k)"
    by (rule foldl_keyed) (use assms in \<open>auto simp: purge_meta_def rec_view_def rec_inv_def\<close>)
  then show ?thesis by (auto simp: purge_meta_def rec_view_def split: option.split)
qed

lemma purge_meta_times:
  "providerEntryTimes (foldl (purge_meta now) st xs) = providerEntryTimes st"
  by (induction xs arbitrary: st) (auto simp: purge_meta_def split: prod.split)

lemma purge_view:
  assumes "rec_inv st"
  shows "rec_view (purgeExpiredRecords X now st) k =
    (let st1 = foldl (purge_meta now) st (recordsMeta st)
     in case map_of (providerEntryTimes st) k of
          None \<Rightarrow> rec_view st1 k
        | Some ets \<Rightarrow> rec_view (purge_providers X now st1 (k, ets)) k)"
proof -
  let ?st1 = "foldl (purge_meta now) st (recordsMeta st)"
  have "rec_view (foldl (purge_providers X now) ?st1 (providerEntryTimes st)) k =
    (case map_of (providerEntryTimes st) k of None \<Rightarrow> rec_view ?st1 k
     | Some ets \<Rightarrow> rec_view (purge_providers X now ?st1 (k, ets)) k)"
  proof (rule foldl_keyed)
    fix s j e assume "j \<noteq> k"
    then show "rec_view (purge_providers X now s (j, e)) k = rec_view s k"
      by (simp add: purge_providers_def rec_view_def Let_def split: sum.split)
  next
    fix s s' e assume "rec_view s k = rec_view s' k"
    then show "rec_view (purge_providers X now s (k, e)) k = rec_view (purge_providers X now s' (k, e)) k"
      by (simp add: purge_providers_def rec_view_def Let_def split: sum.split)
  qed (use assms in \<open>simp add: rec_inv_def\<close>)
  then show ?thesis by (simp add: purgeExpiredRecords_def Let_def purge_meta_times)
qed

text \<open>What a read returns is a function of the view.\<close>

definition get_view ::
  "ext \<Rightarrow> int \<Rightarrow> bytes option \<times> recordMeta option \<times> (NodeID \<times> int) list option \<times> int \<Rightarrow> bytes option" where
  "get_view X now v =
     (case v of
        (Some data, m, None, _) \<Rightarrow>
          (if isExpiredAt (case m of Some m \<Rightarrow> m | None \<Rightarrow> zero_meta) now then None else Some data)
      | (Some data, m, Some ets, pttl) \<Rightarrow>
          (case DecodeProviderRecords X data of
             Inl _ \<Rightarrow> None
           | Inr all \<Rightarrow>
               let live = filter (entry_live now pttl ets) all
               in if live = [] then None
                  else (case encodeProviderRecordList X live of Inr b \<Rightarrow> Some b | Inl _ \<Rightarrow> None))
      | _ \<Rightarrow> None)"

definition res_value :: "'a res \<Rightarrow> 'a option" where
  "res_value r = (case r of Inr v \<Rightarrow> Some v | Inl _ \<Rightarrow> None)"

lemma get_by_view: "res_value (localRecordGet X now k st) = get_view X now (rec_view st k)"
  unfolding localRecordGet_def get_view_def rec_view_def meta_at_def res_value_def
  by (cases "map_of (records st) k"; cases "map_of (providerEntryTimes st) k";
      cases "DecodeProviderRecords X (the (map_of (records st) k))")
    (simp_all add: Let_def)

lemma time_Sub_mono: "now \<le> now' \<Longrightarrow> time_Sub now t \<le> time_Sub now' t"
  by (simp add: time_Sub_def)

lemma map_of_filter_times:
  "distinct (map fst ets) \<Longrightarrow>
   map_of (filter (\<lambda>(_, t). P t) ets) p = (case map_of ets p of Some t \<Rightarrow> if P t then Some t else None | None \<Rightarrow> None)"
  by (induction ets) (auto split: option.splits simp: map_of_eq_None_iff image_iff)

lemma get_view_purge_providers:
  assumes X: "ext_ok X" and "now \<le> now'" "distinct (map fst ets)"
    and v: "rec_view st k = (Some data, m, Some ets, pttl)"
  shows "get_view X now' (rec_view (purge_providers X now st (k, ets)) k) =
    get_view X now' (rec_view st k)"
proof -
  let ?P = "\<lambda>t. \<not> time_Sub now t > pttl"
  let ?ets = "filter (\<lambda>(_, t). ?P t) ets"
  have st: "providerRecordTTL st = pttl" "map_of (records st) k = Some data"
    using v by (simp_all add: rec_view_def)
  have mo: "map_of ?ets p = (case map_of ets p of Some t \<Rightarrow> if ?P t then Some t else None | None \<Rightarrow> None)" for p
    using assms(3) by (rule map_of_filter_times)
  have "entry_live now' pttl ?ets e = entry_live now' pttl ets e" for e
  proof (cases "map_of ets (Provider e)")
    case (Some t)
    then show ?thesis using time_Sub_mono [OF assms(2), of t] by (simp add: entry_live_def mo)
  qed (simp add: entry_live_def mo)
  then have live: "entry_live now' pttl ?ets = entry_live now' pttl ets" by blast
  have sub: "filter (entry_live now' pttl ets) (filter (\<lambda>r. map_of ?ets (Provider r) \<noteq> None) all)
    = filter (entry_live now' pttl ets) all" for all
    unfolding live [symmetric] filter_filter
    by (rule filter_cong) (auto simp: entry_live_def split: option.splits)
  show ?thesis
  proof (cases "?ets = []")
    case True
    then have "entry_live now' pttl ets = (\<lambda>_. False)"
      unfolding live [symmetric] by (simp add: entry_live_def fun_eq_iff)
    with True v st show ?thesis
      by (simp add: purge_providers_def rec_view_def get_view_def split: sum.split)
  next
    case False
    show ?thesis
    proof (cases "DecodeProviderRecords X data")
      case (Inl e)
      with False v st show ?thesis
        by (simp add: purge_providers_def rec_view_def get_view_def)
    next
      case (Inr all)
      with False v st live sub Decode_encodeProviderRecordList [OF X] show ?thesis
        by (simp add: purge_providers_def rec_view_def get_view_def Let_def split: sum.split)
    qed
  qed
qed

text \<open>
  C10. The purge is invisible to readers: at any later time a key answers with the same
  bytes whether or not \<open>purgeExpiredRecords\<close> ran, for every key whose provider entries,
  if it has any, belong to a provider record.
\<close>

theorem purge_transparent:
  assumes X: "ext_ok X" and inv: "rec_inv st" and now: "now \<le> now'"
    and k: "map_of (providerEntryTimes st) k = None \<or> rtyp (meta_at st k) = recProvider"
  shows "res_value (localRecordGet X now' k (purgeExpiredRecords X now st)) =
    res_value (localRecordGet X now' k st)"
proof -
  let ?st1 = "foldl (purge_meta now) st (recordsMeta st)"
  note v1 = purge_meta_view [OF inv, of now k]
  show ?thesis
  proof (cases "map_of (providerEntryTimes st) k")
    case None
    have "get_view X now' (rec_view ?st1 k) = get_view X now' (rec_view st k)"
    proof (cases "\<exists>m. map_of (recordsMeta st) k = Some m \<and> rtyp m \<noteq> recProvider \<and> isExpiredAt m now")
      case True
      then obtain m where "map_of (recordsMeta st) k = Some m" "isExpiredAt m now" by blast
      moreover from this have "isExpiredAt m now'"
        using time_Sub_mono [OF now, of "storedAt m"] by (auto simp: isExpiredAt_def)
      ultimately show ?thesis
        using v1 True None by (simp add: get_view_def rec_view_def split: option.split)
    qed (use v1 in auto)
    then show ?thesis using None by (simp add: get_by_view purge_view [OF inv] Let_def)
  next
    case (Some ets)
    then have p: "rtyp (meta_at st k) = recProvider" using k by simp
    then obtain m where m: "map_of (recordsMeta st) k = Some m" "rtyp m = recProvider"
      by (auto simp: meta_at_def zero_meta_def split: option.splits)
    then obtain data where "map_of (records st) k = Some data"
      using inv by (force simp: rec_inv_def dom_def)
    then have v: "rec_view ?st1 k = (Some data, Some m, Some ets, providerRecordTTL st)"
      using v1 m Some by (simp add: rec_view_def)
    have "distinct (map fst ets)"
      using inv Some by (auto simp: rec_inv_def dest: map_of_SomeD)
    from get_view_purge_providers [OF X now this v] show ?thesis
      using v1 m Some by (simp add: get_by_view purge_view [OF inv] Let_def)
  qed
qed

definition verified_record :: "ext \<Rightarrow> bytes \<Rightarrow> bool" where
  "verified_record X data \<longleftrightarrow>
     (case DecodePeerIdentityRecord X data of Inr pir \<Rightarrow> peer_Verify X pir = Inr () | Inl _ \<Rightarrow> False) \<or>
     (case DecodeGroupIdentityRecord X data of Inr gir \<Rightarrow> group_Verify X gir = Inr () | Inl _ \<Rightarrow> False)"

lemma incoming_version_verified: "incoming_version X data t = Inr v \<Longrightarrow> verified_record X data"
  by (auto simp: incoming_version_def verified_record_def bind_res_Inr split: if_splits)

text \<open>
  C8. A signed write through \<open>storeRecord\<close>, of a peer record or of a group record with a non-zero group
  identifier, never lowers the version of the unexpired record stored at any key. It is refused
  without any effect, or the record verifies, replaces the old one, and either carries a larger
  version or found no unexpired version at the key. The key then answers with exactly this
  record, unless it has provider entries.
\<close>

theorem signed_store_monotone:
  assumes sig: "classifyRecord X data = recPeer \<or>
      classifyRecord X data = recGroup \<and> (\<forall>gir. DecodeGroupIdentityRecord X data = Inr gir \<longrightarrow> GroupID (gr_Data gir) \<noteq> zeroID)"
    and st': "storeRecord X now wall key data c st = (r, st')"
  shows "live_version X now st k \<le> live_version X now st' k \<and> (r \<noteq> Inr () \<longrightarrow> st' = st) \<and>
    (r = Inr () \<longrightarrow> verified_record X data \<and> map_of (records st') key = Some data
      \<and> live_version X now st' key = extractRecordVersion X data
      \<and> (live_version X now st key < extractRecordVersion X data \<or> live_version X now st key = 0)
      \<and> (map_of (providerEntryTimes st) key = None \<longrightarrow> localRecordGet X now key st' = Inr data))"
proof (intro conjI [of "live_version X now st k \<le> live_version X now st' k"])
  have sg: "classifyRecord X data = recPeer \<or> classifyRecord X data = recGroup" using sig by blast
  have s: "storeSignedRecord X now key data (classifyRecord X data) st = (r, st')"
    using sg st' by (auto simp: storeRecord_def)
  have v: "extractRecordVersion X data = v" if "incoming_version X data (classifyRecord X data) = Inr v" for v
    using that sg by (rule incoming_version_extract) (use sig in auto)
  show "live_version X now st k \<le> live_version X now st' k"
    using s v by (rule live_version_storeSigned)
  show "(r \<noteq> Inr () \<longrightarrow> st' = st) \<and>
    (r = Inr () \<longrightarrow> verified_record X data \<and> map_of (records st') key = Some data
      \<and> live_version X now st' key = extractRecordVersion X data
      \<and> (live_version X now st key < extractRecordVersion X data \<or> live_version X now st key = 0)
      \<and> (map_of (providerEntryTimes st) key = None \<longrightarrow> localRecordGet X now key st' = Inr data))"
  proof (cases "r = Inr ()")
    case True
    with s obtain w where w: "incoming_version X data (classifyRecord X data) = Inr w"
      and st'': "st' = put_record key data \<lparr>storedAt = now, ttl = ttlForType st (classifyRecord X data),
        rtyp = classifyRecord X data\<rparr> st"
      and "live_version X now st key < w \<or> live_version X now st key = 0"
      by (auto simp: storeSignedRecord_def live_version_def not_le split: sum.splits if_splits option.splits)
    with True show ?thesis
      using incoming_version_verified [OF w] v [OF w] by (simp add: live_version_put localRecordGet_def)
  next
    case False
    with s show ?thesis by (auto simp: storeSignedRecord_def split: sum.splits if_splits)
  qed
qed

definition wit_priv :: bytes where "wit_priv = replicate 64 1"

definition wit_id :: NodeID where "wit_id = copy20 (replicate 32 1)"

definition wit_signed_ext :: ext where
  "wit_signed_ext = demo_ext
     [(\<lparr>pb_Data = [7], pb_Pubkey = replicate 32 1, pb_Signature = replicate 64 0\<rparr>, [9])] [] []
     [(\<lparr>PeerID = wit_id, pd_Version = 3, Address = ''a'', GroupAddrs = Map.empty\<rparr>, [7])] []"

definition wit_cfg :: Config where
  "wit_cfg = \<lparr>cfg_Replication = 0, cfg_SuccessorListSize = 0, cfg_StabilizeInterval = 0,
     cfg_FixFingersInterval = 0, cfg_CheckPredInterval = 0, cfg_PeerRecordTTL = 50,
     cfg_GroupRecordTTL = 0, cfg_ProviderRecordTTL = 100, cfg_RecordPurgePeriod = 0,
     cfg_PeerRepublishInterval = 0, cfg_ProviderRepublishInterval = 0\<rparr>"

lemma wit_id_nonzero: "wit_id \<noteq> zeroID"
proof
  assume "wit_id = zeroID"
  then have "id_bytes wit_id = id_bytes zeroID" by simp
  then show False by (simp add: wit_id_def copy20_def zeroID_def mk_id_inverse)
qed

lemmas wit_signed_simps = wit_signed_ext_def demo_ext_def table_enc_def table_dec_def

lemma wit_signed_class: "classifyRecord wit_signed_ext [9] = recPeer"
  using wit_id_nonzero by (simp add: classifyRecord_def wit_signed_simps)

text \<open>
  An instance in which, as with CBOR, a peer map also decodes as a group, with a zero identifier, and
  a group map as a peer.
\<close>

definition cbor_like :: "ext \<Rightarrow> ext" where
  "cbor_like X = X\<lparr>
     cbor_unmarshal_group := (\<lambda>b. case cbor_unmarshal_group X b of
        Inr g \<Rightarrow> Inr g
      | Inl e \<Rightarrow> (case cbor_unmarshal_peer X b of Inr d \<Rightarrow> Inr \<lparr>GroupID = zeroID, gd_Version = pd_Version d, Peers = []\<rparr> | Inl _ \<Rightarrow> Inl e)),
     cbor_unmarshal_peer := (\<lambda>b. case cbor_unmarshal_peer X b of
        Inr d \<Rightarrow> Inr d
      | Inl e \<Rightarrow> (case cbor_unmarshal_group X b of
           Inr g \<Rightarrow> Inr \<lparr>PeerID = zeroID, pd_Version = gd_Version g, Address = [], GroupAddrs = Map.empty\<rparr> | Inl _ \<Rightarrow> Inl e))\<rparr>"

theorem signed_store_monotone_witness:
  "DecodeGroupIdentityRecord (cbor_like wit_signed_ext) [9] \<in> range Inr \<and>
   (\<exists>st'. storeRecord (cbor_like wit_signed_ext) 5 5 wit_id [9] wit_id (new_records wit_cfg) = (Inr (), st')
     \<and> live_version (cbor_like wit_signed_ext) 5 st' wit_id = 3 \<and> localRecordGet (cbor_like wit_signed_ext) 5 wit_id st' = Inr [9])"
proof -
  let ?X = "cbor_like wit_signed_ext"
  note ws = cbor_like_def wit_signed_simps
  have c: "classifyRecord ?X [9] = recPeer" using wit_id_nonzero by (simp add: classifyRecord_def ws)
  have inc: "incoming_version ?X [9] recPeer = Inr 3"
    by (simp add: incoming_version_def DecodePeerIdentityRecord_def peer_Verify_def PubKeyToNodeID_def
        cborSignPayload_def ws wit_id_def)
  obtain st' where st': "storeRecord ?X 5 5 wit_id [9] wit_id (new_records wit_cfg) = (Inr (), st')"
    by (simp add: storeRecord_def c storeSignedRecord_def inc new_records_def)
  have "extractRecordVersion ?X [9] = 3"
    using wit_id_nonzero by (simp add: extractRecordVersion_def Let_def DecodePeerIdentityRecord_def ws)
  then have "live_version ?X 5 st' wit_id = 3 \<and> localRecordGet ?X 5 wit_id st' = Inr [9]"
    using signed_store_monotone [OF _ st'] c by (simp add: new_records_def)
  moreover have "DecodeGroupIdentityRecord ?X [9] \<in> range Inr" by (simp add: DecodeGroupIdentityRecord_def ws)
  ultimately show ?thesis using st' by blast
qed

text \<open>
  C11. A replica push of a versioned record never lowers the version of the unexpired record stored at
  a key, and afterwards the key holds an unexpired record of at least the pushed version.
\<close>

theorem replica_push_monotone:
  assumes "extractRecordVersion X data > 0"
  shows "live_version X now st k \<le> live_version X now (localRecordPut X now key data st) k
    \<and> extractRecordVersion X data \<le> live_version X now (localRecordPut X now key data st) key"
proof -
  have "extractRecordVersion X data \<le> live_version X now (localRecordPut X now key data st) key"
    by (rule localRecordPut_cases [of X now key data st]) (simp_all add: live_version_put)
  then show ?thesis using live_version_localRecordPut [OF assms] by simp
qed

theorem replica_push_monotone_witness:
  "3 \<le> live_version wit_signed_ext 5 (localRecordPut wit_signed_ext 5 wit_id [9] (new_records wit_cfg)) wit_id"
proof -
  have "extractRecordVersion wit_signed_ext [9] = 3"
    using wit_id_nonzero
    by (simp add: extractRecordVersion_def Let_def DecodePeerIdentityRecord_def wit_signed_simps)
  with replica_push_monotone [of wit_signed_ext "[9]" 5 "new_records wit_cfg" wit_id wit_id]
  show ?thesis by simp
qed

text \<open>
  C9. A provider that announced itself is found: after an accepted announcement the key
  answers, until the lifetime has passed, and the answer decodes to the announcing provider and
  exactly those earlier providers, other than itself, whose own entries are still alive, provided
  that this list can be encoded.
\<close>

theorem provider_announce_found:
  assumes X: "ext_ok X"
    and raw: "unmarshal_provider X data = Inr raw"
    and st': "storeProviderRecord X now wall key data c st = (Inr (), st')"
    and live: "now \<le> now'" "time_Sub now' now \<le> providerRecordTTL st"
    and found: "found = filter (\<lambda>e. Provider e \<noteq> c \<and> entry_live now' (providerRecordTTL st) (times_at st key) e)
             (stored_providers X st key) @ [of_pb raw]"
    and enc: "encodeProviderRecordList X found = Inr b"
  shows "localRecordGet X now' key st' = Inr b \<and> DecodeProviderRecords X b = Inr found \<and> c = Provider (of_pb raw)"
proof -
  let ?pr = "of_pb raw" and ?P = "providerRecordTTL st"
  let ?ets = "aupd (Provider ?pr) now (times_at st key)"
  let ?existing = "filter (entry_live now ?P (times_at st key)) (stored_providers X st key)"
  let ?out = "filter (\<lambda>e. Provider e \<noteq> Provider ?pr) ?existing @ [?pr]"
  let ?live = "filter (entry_live now' ?P ?ets) ?out"
  obtain merged where c: "c = Provider ?pr"
    and mrg: "encodeProviderRecordListWithTimestamps X wall ?out ?ets = Inr merged"
    and st'': "st' = put_record key merged \<lparr>storedAt = now, ttl = 0, rtyp = recProvider\<rparr>
        (st\<lparr>providerEntryTimes := aupd key ?ets (providerEntryTimes st)\<rparr>)"
    using st' raw by (auto simp: storeProviderRecord_def Let_def split: if_splits sum.splits)
  have pr: "entry_live now' ?P ?ets ?pr" using live by (simp add: entry_live_def)
  have "entry_live now' ?P ?ets e \<and> entry_live now ?P (times_at st key) e \<longleftrightarrow>
      entry_live now' ?P (times_at st key) e" if "Provider e \<noteq> Provider ?pr" for e
    using that order_trans [OF time_Sub_mono [OF live(1)]]
    by (auto simp: entry_live_def split: option.split)
  then have fl: "?live = found"
    unfolding found using pr c by (auto simp: filter_filter intro!: filter_cong)
  have "localRecordGet X now' key st' = encodeProviderRecordList X ?live"
  proof -
    have "DecodeProviderRecords X merged = Inr ?out"
      using X mrg by (rule Decode_encodeProviderRecordListWithTimestamps)
    then have "localRecordGet X now' key st' =
        (if ?live = [] then Inl (Errorf ''record not found'') else encodeProviderRecordList X ?live)"
      unfolding st'' localRecordGet_def by (simp add: Let_def del: filter_append filter_filter)
    moreover have "?live \<noteq> []" using pr by (simp add: filter_empty_conv)
    ultimately show ?thesis by (simp del: filter_append filter_filter)
  qed
  then show ?thesis using Decode_encodeProviderRecordList [OF X enc] enc c unfolding fl by simp
qed

definition wit_pr :: ProviderRecord where
  "wit_pr = \<lparr>ContentHash = testNodeID 1, Provider = testNodeID 5\<rparr>"

definition wit_provider_ext :: ext where
  "wit_provider_ext = demo_ext [] [(to_pb wit_pr, [1])]
     [(\<lparr>pb_Providers = [to_pb wit_pr], pb_Timestamps = [10]\<rparr>, [2]),
      (\<lparr>pb_Providers = [to_pb wit_pr], pb_Timestamps = []\<rparr>, [3])] [] []"

theorem provider_announce_found_witness:
  "\<exists>st'. storeProviderRecord wit_provider_ext 10 10 (testNodeID 1) [1] (testNodeID 5) (new_records wit_cfg) = (Inr (), st') \<and>
     localRecordGet wit_provider_ext 20 (testNodeID 1) st' = Inr [3] \<and> DecodeProviderRecords wit_provider_ext [3] = Inr [wit_pr]"
proof -
  let ?st = "new_records wit_cfg" and ?k = "testNodeID 1" and ?p = "testNodeID 5"
  have X: "ext_ok wit_provider_ext" unfolding wit_provider_ext_def by (rule ext_ok_demo) simp_all
  have raw: "unmarshal_provider wit_provider_ext [1] = Inr (to_pb wit_pr)"
    by (simp add: wit_provider_ext_def demo_ext_def table_dec_def)
  have prov: "Provider wit_pr = ?p" by (simp add: wit_pr_def)
  obtain st' where st': "storeProviderRecord wit_provider_ext 10 10 ?k [1] ?p ?st = (Inr (), st')"
    using raw prov
    by (simp add: storeProviderRecord_def Let_def times_at_def stored_providers_def new_records_def
        encodeProviderRecordListWithTimestamps_def wit_provider_ext_def demo_ext_def table_enc_def)
  have enc: "encodeProviderRecordList wit_provider_ext [wit_pr] = Inr [3]"
    by (simp add: encodeProviderRecordList_def wit_provider_ext_def demo_ext_def table_enc_def)
  have t: "time_Sub 20 10 \<le> providerRecordTTL ?st"
    by (simp add: time_Sub_def new_records_def wit_cfg_def cfg_providerRecordTTL_def)
  have "[wit_pr] = filter (\<lambda>e. Provider e \<noteq> ?p \<and> entry_live 20 (providerRecordTTL ?st) (times_at ?st ?k) e)
      (stored_providers wit_provider_ext ?st ?k) @ [of_pb (to_pb wit_pr)]"
    by (simp add: stored_providers_def new_records_def)
  from provider_announce_found [OF X raw st' _ t this enc] st' show ?thesis by auto
qed

text \<open>A provider announcement for somebody else is refused and changes nothing.\<close>

lemma provider_announce_foreign:
  assumes "unmarshal_provider X data = Inr raw" "c \<noteq> Provider (of_pb raw)"
  shows "\<exists>e. storeProviderRecord X now wall key data c st = (Inl e, st)"
  using assms by (simp add: storeProviderRecord_def)

text \<open>
  A version conflict is still recognised after an RPC boundary has reduced it, together
  with everything wrapped around it, to the text of its message.
\<close>

lemma version_conflict_survives_rpc:
  assumes "errors_is e ErrVersionConflict"
  shows "isVersionConflict (Some (Errorf (err_text e)))"
proof -
  have "str_contains (err_text e) (err_text ErrVersionConflict)"
    using assms by (rule err_text_errors_is)
  moreover have "str_contains (err_text ErrVersionConflict) versionConflictPrefix"
    by (simp add: str_contains_iff versionConflictPrefix_def)
      (rule exI [of _ "[]"], rule exI, simp)
  ultimately have "str_contains (err_text e) versionConflictPrefix" by (rule str_contains_trans)
  then show ?thesis by (simp add: isVersionConflict_def)
qed

definition wit_purge_state :: rec_state where
  "wit_purge_state = put_record (testNodeID 1) [4] \<lparr>storedAt = 0, ttl = 5, rtyp = recPeer\<rparr>
     (put_record (testNodeID 2) [6] \<lparr>storedAt = 8, ttl = 50, rtyp = recPeer\<rparr> (new_records wit_cfg))"

theorem purge_transparent_witness:
  "res_value (localRecordGet wit_provider_ext 20 (testNodeID 1)
     (purgeExpiredRecords wit_provider_ext 10 wit_purge_state)) = None
   \<and> res_value (localRecordGet wit_provider_ext 20 (testNodeID 2)
     (purgeExpiredRecords wit_provider_ext 10 wit_purge_state)) = Some [6]"
proof -
  have X: "ext_ok wit_provider_ext" unfolding wit_provider_ext_def by (rule ext_ok_demo) simp_all
  have inv: "rec_inv wit_purge_state"
    unfolding wit_purge_state_def by (intro rec_inv_put rec_inv_new)
  have pt: "map_of (providerEntryTimes wit_purge_state) k = None" for k
    by (simp add: wit_purge_state_def new_records_def)
  have "res_value (localRecordGet wit_provider_ext 20 k
      (purgeExpiredRecords wit_provider_ext 10 wit_purge_state)) =
    res_value (localRecordGet wit_provider_ext 20 k wit_purge_state)" for k
    by (rule purge_transparent [OF X inv]) (simp_all add: pt)
  moreover have "res_value (localRecordGet wit_provider_ext 20 (testNodeID 1) wit_purge_state) = None"
    "res_value (localRecordGet wit_provider_ext 20 (testNodeID 2) wit_purge_state) = Some [6]"
    by (simp_all add: localRecordGet_def pt res_value_def)
      (simp_all add: wit_purge_state_def new_records_def isExpiredAt_def time_Sub_def)
  ultimately show ?thesis by simp
qed

text \<open>
  The empty message of protobuf: the list without providers is encoded as no bytes, and no bytes
  decode to it.
\<close>

definition empty_list_ok :: "ext \<Rightarrow> bool" where
  "empty_list_ok X \<longleftrightarrow>
     marshal_providers X \<lparr>pb_Providers = [], pb_Timestamps = []\<rparr> = Inr [] \<and>
     unmarshal_providers X [] = Inr \<lparr>pb_Providers = [], pb_Timestamps = []\<rparr>"

lemma purge_providers_view_key:
  assumes inv: "rec_inv st" and e: "map_of (providerEntryTimes st) k = Some ets" "\<exists>(p, t) \<in> set ets. time_Sub now t \<le> providerRecordTTL st"
    and r: "map_of (records st) k = None" "map_of (recordsMeta st) k = None" and X: "empty_list_ok X"
  shows "map_of (records (purgeExpiredRecords X now st)) k = Some []"
proof -
  let ?st1 = "foldl (purge_meta now) st (recordsMeta st)"
  have v1: "rec_view ?st1 k = rec_view st k" using purge_meta_view [OF inv, of now k] r(2) by simp
  have ne: "filter (\<lambda>(_, t). \<not> providerRecordTTL st < time_Sub now t) ets \<noteq> []"
    using e(2) by (auto simp: filter_empty_conv not_less)
  have v: "map_of (records ?st1) k = None" "providerRecordTTL ?st1 = providerRecordTTL st"
    using v1 r(1) by (simp_all add: rec_view_def)
  have "map_of (records (purge_providers X now ?st1 (k, ets))) k = Some []"
    using X v ne by (simp add: purge_providers_def Let_def empty_list_ok_def DecodeProviderRecords_def encodeProviderRecordList_def)
  then have "fst (rec_view (purge_providers X now ?st1 (k, ets)) k) = Some []" by (simp add: rec_view_def)
  moreover have "rec_view (purgeExpiredRecords X now st) k = rec_view (purge_providers X now ?st1 (k, ets)) k"
    using purge_view [OF inv, of X now k] e(1) by (simp add: Let_def)
  ultimately show ?thesis by (simp add: rec_view_def)
qed

text \<open>
  C14. A deleted provider record comes back. \<open>DeleteRecord\<close> leaves the provider entry times of the key behind:
  when a key holds a record and an unexpired provider entry, the deletion succeeds and the record is
  gone, and the next purge writes the key back with an empty record.
\<close>

theorem purge_restores_deleted_record:
  assumes X: "ext_ok X" "empty_list_ok X" and inv: "rec_inv st"
    and k: "map_of (records st) key \<noteq> None"
    and e: "map_of (providerEntryTimes st) key = Some ets" "\<exists>(p, t) \<in> set ets. time_Sub now t \<le> providerRecordTTL st"
  shows "\<exists>st'. DeleteRecord (id_String key) st = (True, st') \<and> \<not> HasRecord (id_String key) st' \<and>
    HasRecord (id_String key) (purgeExpiredRecords X now st') \<and> map_of (records (purgeExpiredRecords X now st')) key = Some []"
proof -
  have h: "hex_DecodeString (id_String key) = Some (id_bytes key)" by (simp add: id_String_def)
  define st' where "st' = st\<lparr>records := adel key (records st), recordsMeta := adel key (recordsMeta st)\<rparr>"
  have d: "DeleteRecord (id_String key) st = (True, st')" using k by (auto simp: DeleteRecord_def h Let_def st'_def)
  have "rec_inv st'" using rec_inv_DeleteRecord [OF inv, of "id_String key"] d by simp
  then have "map_of (records (purgeExpiredRecords X now st')) key = Some []"
    by (rule purge_providers_view_key [OF _ _ _ _ _ X(2)]) (use e in \<open>simp_all add: st'_def\<close>)
  with d show ?thesis by (auto simp: HasRecord_def h st'_def)
qed

definition wit_restore_ext :: ext where
  "wit_restore_ext = demo_ext [] [(to_pb wit_pr, [1])]
     [(\<lparr>pb_Providers = [], pb_Timestamps = []\<rparr>, []), (\<lparr>pb_Providers = [to_pb wit_pr], pb_Timestamps = [10]\<rparr>, [2])] [] []"

theorem purge_restores_deleted_record_witness:
  "\<exists>st st'. storeProviderRecord wit_restore_ext 10 10 (testNodeID 1) [1] (testNodeID 5) (new_records wit_cfg) = (Inr (), st) \<and>
     DeleteRecord (id_String (testNodeID 1)) st = (True, st') \<and>
     map_of (records (purgeExpiredRecords wit_restore_ext 20 st')) (testNodeID 1) = Some []"
proof -
  have X: "ext_ok wit_restore_ext" "empty_list_ok wit_restore_ext"
    unfolding wit_restore_ext_def
    by (rule ext_ok_demo) (simp_all add: empty_list_ok_def demo_ext_def table_enc_def table_dec_def)
  have prov: "Provider wit_pr = testNodeID 5" by (simp add: wit_pr_def)
  obtain st where s: "storeProviderRecord wit_restore_ext 10 10 (testNodeID 1) [1] (testNodeID 5) (new_records wit_cfg) = (Inr (), st)"
    and st: "map_of (records st) (testNodeID 1) = Some [2]" "map_of (providerEntryTimes st) (testNodeID 1) = Some [(testNodeID 5, 10)]"
      "providerRecordTTL st = 100"
    using prov by (simp add: storeProviderRecord_def Let_def times_at_def stored_providers_def new_records_def
        encodeProviderRecordListWithTimestamps_def wit_restore_ext_def demo_ext_def table_enc_def table_dec_def wit_cfg_def cfg_providerRecordTTL_def)
  have "rec_inv st" using rec_inv_storeProviderRecord [OF rec_inv_new, of wit_restore_ext 10 10 "testNodeID 1" "[1]" "testNodeID 5" wit_cfg] s by simp
  from purge_restores_deleted_record [OF X this _ st(2), of 20] show ?thesis
    using s st by (auto simp: time_Sub_def)
qed

end
