(* ===== verification/Net_Pool.thy ===== *)
theory Net_Pool
  imports Net_Store
begin

text \<open>
  The block pool of the network store: which operations touch it, that the aggregate
  quota is never exceeded whatever the storage below answers, and that over a reliable
  block store the pool keeps the \<open>BlockStore\<close> contract with exact counters.
\<close>

section \<open>Operations that leave the pool alone\<close>

definition pool :: "('d, 'b) nbs \<Rightarrow> 'b \<times> int \<times> int \<times> int" where
  "pool s = (blks s, maxBytes s, usedBytesAtomic s, blockCountAtomic s)"

named_theorems pool_simps \<open>operations that do not touch the block pool\<close>

lemma foldl_pool: "(\<And>s x. pool (f s x) = pool s) \<Longrightarrow> pool (foldl f s xs) = pool s"
  by (induction xs arbitrary: s) simp_all

lemma pool_upd [pool_simps]:
  "pool (s\<lparr>ds := d\<rparr>) = pool s" "pool (s\<lparr>ringCtrs := rc\<rparr>) = pool s" "pool (s\<lparr>knownRings := k\<rparr>) = pool s"
  by (simp_all add: pool_def)

lemma pool_ds [pool_simps]: "pool (ds_put E k v s) = pool s" "pool (ds_delete E k s) = pool s"
  by (simp_all add: ds_put_def ds_delete_def pool_simps)

lemma pool_getRingCounters [pool_simps]: "pool (snd (getRingCounters E r s)) = pool s"
  by (simp add: getRingCounters_def Let_def pool_simps split: option.split)

lemma pool_upd_ring [pool_simps]: "pool (upd_ring E r f s) = pool s"
  by (simp add: upd_ring_def Let_def case_prod_beta pool_simps)

lemma pool_markRingKnown [pool_simps]: "pool (markRingKnown E r s) = pool s"
  by (simp add: markRingKnown_def pool_simps)

lemma pool_MarkRingKnown [pool_simps]: "pool (MarkRingKnown E r s) = pool s"
  by (simp add: MarkRingKnown_def pool_simps)

lemma pool_AddRoot [pool_simps]: "pool (AddRootWithExpiry E r c e s) = pool s"
  by (simp add: AddRootWithExpiry_def pool_simps split: sum.split prod.split option.split)

lemma pool_AddAllRootEntries [pool_simps]: "pool (AddAllRootEntries E r es s) = pool s"
  unfolding AddAllRootEntries_def by (rule foldl_pool) (simp add: pool_simps)

lemma pool_addCIDUsage [pool_simps]: "pool (addCIDUsageLocked E r c d s) = pool s"
  by (simp add: addCIDUsageLocked_def Let_def pool_simps)

lemma pool_index_root [pool_simps]: "pool (index_root E now r key sz a c e s) = pool s"
  by (simp add: index_root_def Let_def pool_simps split: sum.split bool.split)

lemma pool_AddBlockRootIndex [pool_simps]: "pool (AddBlockRootIndex E r key c s) = pool s"
  by (simp add: AddBlockRootIndex_def Let_def pool_simps split: sum.split bool.split)

lemma pool_drop_entry [pool_simps]: "pool (drop_entry E r key p s x) = pool s"
  by (simp add: drop_entry_def Let_def pool_simps split: sum.split)

lemma pool_DropBlock [pool_simps]: "pool (snd (DropBlock E r key s)) = pool s"
  by (simp add: DropBlock_def Let_def foldl_pool pool_simps split: sum.split)

lemma pool_remove_entry [pool_simps]: "pool (remove_entry E r c s x) = pool s"
  by (simp add: remove_entry_def Let_def pool_simps split: sum.split option.split)

lemma pool_removeBlockRootEntries [pool_simps]: "pool (removeBlockRootEntries E r c s) = pool s"
  by (simp add: removeBlockRootEntries_def case_prod_beta Let_def foldl_pool pool_simps split: sum.split)

lemma pool_RemoveRootStr [pool_simps]: "pool (RemoveRootStr E r c s) = pool s"
  by (simp add: RemoveRootStr_def pool_simps)

lemma pool_rv_Prune [pool_simps]: "pool (snd (rv_PruneExpiredRoots E now r s)) = pool s"
  by (simp add: rv_PruneExpiredRoots_def Let_def foldl_pool case_prod_beta pool_simps)

lemma pool_Prune [pool_simps]: "pool (snd (PruneExpiredRoots E now s)) = pool s"
proof -
  have "pool (snd (foldl (\<lambda>(n, s) r. let (m, s') = rv_PruneExpiredRoots E now r s in (n + m, s')) ns rs))
      = pool (snd ns)" for ns rs
    by (induction rs arbitrary: ns) (simp_all add: case_prod_beta Let_def pool_simps)
  then show ?thesis by (simp add: PruneExpiredRoots_def)
qed

lemma pool_SetQuota [pool_simps]: "pool (snd (SetQuota E r m s)) = pool s"
  using pool_getRingCounters [of E "rv_ringID r" s]
  by (simp add: SetQuota_def Let_def case_prod_beta pool_simps split: option.split prod.split)

lemma pool_ForgetRing [pool_simps]: "pool (ForgetRing E r s) = pool s"
  by (simp add: ForgetRing_def Let_def foldl_pool case_prod_beta pool_simps)

lemma pool_cleanup [pool_simps]: "pool (cleanupRingBlockIndex E r m sz s) = pool s"
  by (simp add: cleanupRingBlockIndex_def Let_def foldl_pool pool_simps)

lemma poolD:
  "pool s = pool s' \<Longrightarrow> blks s = blks s' \<and> maxBytes s = maxBytes s' \<and>
     usedBytesAtomic s = usedBytesAtomic s' \<and> blockCountAtomic s = blockCountAtomic s'"
  by (simp add: pool_def)

section \<open>The aggregate quota\<close>

definition agg_ok :: "('d, 'b) nbs \<Rightarrow> bool" where
  "agg_ok s \<longleftrightarrow> 0 \<le> usedBytesAtomic s \<and> (0 < maxBytes s \<longrightarrow> usedBytesAtomic s \<le> maxBytes s)"

lemma agg_ok_pool: "pool s = pool s' \<Longrightarrow> agg_ok s = agg_ok s'"
  by (simp add: pool_def agg_ok_def)

lemma applySignedDelta_bounds:
  "0 \<le> applySignedDelta c d" "d \<le> 0 \<Longrightarrow> 0 \<le> c \<Longrightarrow> applySignedDelta c d \<le> c"
  by (simp_all add: applySignedDelta_def Let_def)

lemma agg_ok_addAggDelta: "agg_ok s \<Longrightarrow> d \<le> 0 \<Longrightarrow> agg_ok (addAggDelta d n s)"
  by (auto simp: agg_ok_def addAggDelta_def applySignedDelta_def Let_def)

lemma agg_ok_reserve: "agg_ok s \<Longrightarrow> 0 \<le> sz \<Longrightarrow> agg_ok (snd (reserveAggBytes sz s))"
  by (auto simp: agg_ok_def reserveAggBytes_def)

lemma agg_ok_blks [simp]:
  "agg_ok (s\<lparr>blks := b\<rparr>) = agg_ok s" "agg_ok (s\<lparr>blockCountAtomic := n\<rparr>) = agg_ok s"
  by (simp_all add: agg_ok_def)

lemma agg_ok_nbs_Put: "agg_ok s \<Longrightarrow> agg_ok (snd (nbs_Put E key data s))"
  using agg_ok_reserve [of s "int (length data)"]
  by (auto simp: nbs_Put_def Let_def agg_ok_addAggDelta
      split: sum.split bool.split prod.split option.split)

lemma agg_ok_nbs_Delete: "agg_ok s \<Longrightarrow> agg_ok (snd (nbs_Delete E key s))"
  by (auto simp: nbs_Delete_def deleteLocked_def agg_ok_addAggDelta
      split: sum.split prod.split option.split)

lemma agg_ok_put_block_data: "agg_ok s \<Longrightarrow> agg_ok (snd (put_block_data E key data s))"
  by (auto simp: put_block_data_def split: prod.split option.split)

lemma agg_ok_ctrs [simp]: "agg_ok (s\<lparr>ringCtrs := c\<rparr>) = agg_ok s"
  by (simp add: agg_ok_def)

lemma pool_ring_reserve [pool_simps]: "pool (snd (ring_reserve E r sz s)) = pool s"
  by (simp add: ring_reserve_def Let_def case_prod_beta pool_simps)

text \<open>
  The outcomes of \<open>PutWithRoot\<close>: up to its last step it only moves the pool through
  \<open>reserve_agg\<close>, \<open>undo_agg\<close> and \<open>put_block_data\<close>.
\<close>

lemma PutWithRoot_pool:
  fixes s :: "('d, 'b) nbs"
  obtains (fail) "pool (snd (PutWithRoot E now r key data root ex s)) = pool s"
      "fst (PutWithRoot E now r key data root ex s) \<noteq> Inr ()"
  | (full) has and s1 :: "('d, 'b) nbs" where "blk_Has E key (blks s) = Inr has" "reserve_agg has (int (length data)) s = (False, s1)"
      "snd (PutWithRoot E now r key data root ex s) = s1"
      "fst (PutWithRoot E now r key data root ex s) \<noteq> Inr ()"
  | (undone) has and s1 s2 :: "('d, 'b) nbs" where "blk_Has E key (blks s) = Inr has"
      "reserve_agg has (int (length data)) s = (True, s1)"
      "pool s2 = pool s1 \<or> (\<not> has \<and> (\<exists>s3 :: ('d, 'b) nbs. pool s3 = pool s1 \<and> fst (put_block_data E key data s3) \<noteq> None
         \<and> pool s2 = pool (snd (put_block_data E key data s3))))"
      "pool (snd (PutWithRoot E now r key data root ex s)) = pool (undo_agg has (int (length data)) s2)"
      "fst (PutWithRoot E now r key data root ex s) \<noteq> Inr ()"
  | (stored) has and s1 s3 :: "('d, 'b) nbs" where "blk_Has E key (blks s) = Inr has"
      "reserve_agg has (int (length data)) s = (True, s1)" "pool s3 = pool s1"
      "pool (snd (PutWithRoot E now r key data root ex s)) =
         pool (if has then s3 else snd (put_block_data E key data s3))"
      "\<not> has \<Longrightarrow> fst (put_block_data E key data s3) = None"
      "fst (PutWithRoot E now r key data root ex s) = Inr ()"
proof (cases "blk_Has E key (blks s)")
  case (Inl e)
  then show thesis by (intro fail) (simp_all add: PutWithRoot_def)
next
  case has: (Inr has)
  let ?sz = "int (length data)"
  obtain ok s1 where r1: "reserve_agg has ?sz s = (ok, s1)" by fastforce
  show thesis
  proof (cases ok)
    case False
    then show thesis using has r1 by (intro full [of has s1]) (simp_all add: PutWithRoot_def)
  next
    case True
    define s2 where "s2 = snd (getRingCounters E (rv_ringID r) s1)"
    define adding where "adding = (Defined root \<and> \<not> ringHasBlock E r (HexString key) s2)"
    obtain okr s3 where r2: "(if adding then ring_reserve E (rv_ringID r) ?sz s2 else (True, s2)) = (okr, s3)"
      by fastforce
    have p3: "pool s3 = pool s1"
      using r2 pool_ring_reserve [of E "rv_ringID r" ?sz s2] pool_getRingCounters [of E "rv_ringID r" s1]
      by (auto simp: s2_def split: if_splits)
    note eq = PutWithRoot_def [of E now r key data root ex s, unfolded has Let_def r1 True
        sum.case prod.case bool.case s2_def [symmetric] adding_def [symmetric] r2]
    have und: "pool (upd_ring E (rv_ringID r) f x) = pool x" for f x by (simp add: pool_simps)
    show thesis
    proof (cases okr)
      case False
      then show thesis
        using eq p3 has r1 True by (intro undone [of has s1 s3]) simp_all
    next
      case okr: True
      obtain e s4 where r3: "(if has then (None, s3) else put_block_data E key data s3) = (e, s4)" by fastforce
      show thesis
      proof (cases e)
        case None
        then show thesis
          using eq okr r3 p3 has r1 True
          by (intro stored [of has s1 s3]) (auto simp: pool_simps split: if_splits)
      next
        case (Some err)
        then have "\<not> has" "put_block_data E key data s3 = (Some err, s4)"
          using r3 by (auto split: if_splits)
        then show thesis
          using eq okr p3 has r1 True
          by (intro undone [of has s1 s4]) (auto simp: und intro!: exI [of _ s3])
      qed
    qed
  qed
qed

lemma agg_ok_undo: "agg_ok s \<Longrightarrow> agg_ok (undo_agg h (int n) s)"
  by (simp add: undo_agg_def agg_ok_addAggDelta)

lemma agg_ok_PutWithRoot: "agg_ok s \<Longrightarrow> agg_ok (snd (PutWithRoot E now r key data root ex s))"
proof -
  assume s: "agg_ok s"
  have res: "agg_ok s1" if "reserve_agg h (int (length data)) s = (b, s1)" for h b s1
    using agg_ok_reserve [OF s, of "int (length data)"] that s by (auto simp: reserve_agg_def split: if_splits)
  show ?thesis
  proof (cases rule: PutWithRoot_pool [of E now r key data root ex s])
    case fail
    then show ?thesis using s agg_ok_pool by blast
  next
    case (full has s1)
    then show ?thesis using res by simp
  next
    case (undone has s1 s2)
    then have "agg_ok s2" using res agg_ok_put_block_data agg_ok_pool by metis
    then show ?thesis using undone(4) agg_ok_undo agg_ok_pool by metis
  next
    case (stored has s1 s3)
    then have "agg_ok s3" using res agg_ok_pool by blast
    then show ?thesis using stored(4) agg_ok_put_block_data agg_ok_pool by (metis (full_types))
  qed
qed

lemma gc_sweep_agg:
  "agg_ok s \<Longrightarrow> 0 \<le> freed \<Longrightarrow> agg_ok (snd (gc_sweep E rings live ks g freed n s))"
proof (induction ks arbitrary: g freed n s)
  case (Cons c ks)
  let ?sz = "case blockSize E c s of Inr k \<Rightarrow> int k | Inl _ \<Rightarrow> 0"
  have sz: "0 \<le> ?sz" by (simp split: sum.split)
  have "pool (foldl (\<lambda>s r. cleanupRingBlockIndex E r (HexString c) z s) s rings) = pool s" for z
    by (rule foldl_pool) (simp add: pool_simps)
  then have "agg_ok (foldl (\<lambda>s r. cleanupRingBlockIndex E r (HexString c) z s) s rings)" for z
    using Cons.prems(1) agg_ok_pool by metis
  then show ?case using Cons.IH Cons.prems sz
    by (simp add: Let_def split: prod.split option.split)
qed (simp add: agg_ok_addAggDelta)

lemma agg_ok_GC: "agg_ok s \<Longrightarrow> agg_ok (snd (nbs_GC E now s))"
  using agg_ok_pool [OF pool_Prune [of E now s]]
  by (auto simp: nbs_GC_def Let_def case_prod_beta gc_sweep_agg split: sum.split)

text \<open>One call of the store, whatever its arguments and whatever the storage answers.\<close>

inductive nbs_step :: "('d, 'b) nenv \<Rightarrow> ('d, 'b) nbs \<Rightarrow> ('d, 'b) nbs \<Rightarrow> bool" for E where
  step_Put: "nbs_step E s (snd (nbs_Put E key data s))"
| step_Delete: "nbs_step E s (snd (nbs_Delete E key s))"
| step_PutWithRoot: "nbs_step E s (snd (PutWithRoot E now r key data root ex s))"
| step_DropBlock: "nbs_step E s (snd (DropBlock E r key s))"
| step_AddBlockRootIndex: "nbs_step E s (AddBlockRootIndex E r key c s)"
| step_AddRoot: "nbs_step E s (AddRootWithExpiry E r c ex s)"
| step_RemoveRoot: "nbs_step E s (RemoveRootStr E r c s)"
| step_Prune: "nbs_step E s (snd (PruneExpiredRoots E now s))"
| step_SetQuota: "nbs_step E s (snd (SetQuota E r m s))"
| step_MarkRingKnown: "nbs_step E s (MarkRingKnown E ringID s)"
| step_ForgetRing: "nbs_step E s (ForgetRing E ringID s)"
| step_GC: "nbs_step E s (snd (nbs_GC E now s))"

lemma nbs_step_agg_ok: "nbs_step E s s' \<Longrightarrow> agg_ok s \<Longrightarrow> agg_ok s'"
  by (induction rule: nbs_step.induct)
    (simp_all add: agg_ok_nbs_Put agg_ok_nbs_Delete agg_ok_PutWithRoot agg_ok_GC
      agg_ok_pool [OF pool_DropBlock] agg_ok_pool [OF pool_AddBlockRootIndex]
      agg_ok_pool [OF pool_AddRoot] agg_ok_pool [OF pool_RemoveRootStr] agg_ok_pool [OF pool_Prune]
      agg_ok_pool [OF pool_SetQuota] agg_ok_pool [OF pool_MarkRingKnown] agg_ok_pool [OF pool_ForgetRing])

section \<open>Exact counters over a reliable block store\<close>

text \<open>
  \<open>B b\<close> is the content of the block store below, by multihash. A reliable store
  answers from its content and does not fail; these are the documented operations of
  \<open>blockstore.Blockstore\<close>.
\<close>

definition blk_laws :: "('d, 'b) nenv \<Rightarrow> ('b \<Rightarrow> bytes \<rightharpoonup> bytes) \<Rightarrow> bool" where
  "blk_laws E B \<longleftrightarrow>
     (\<forall>b. finite (dom (B b))) \<and>
     (\<forall>k b. blk_Has E k b = Inr (B b (Hash k) \<noteq> None)) \<and>
     (\<forall>k b. case B b (Hash k) of Some d \<Rightarrow> blk_Get E k b = Inr d \<and> blk_GetSize E k b = Inr (length d)
            | None \<Rightarrow> blk_Get E k b \<in> range Inl \<and> blk_GetSize E k b \<in> range Inl) \<and>
     (\<forall>k d b. fst (blk_Put E k d b) = None \<and>
        (B b (Hash k) = None \<longrightarrow> B (snd (blk_Put E k d b)) = (B b)(Hash k \<mapsto> d))) \<and>
     (\<forall>k b. fst (blk_DeleteBlock E k b) = None \<and> B (snd (blk_DeleteBlock E k b)) = (B b)(Hash k := None)) \<and>
     (\<forall>b. \<exists>ks. blk_AllKeys E b = Inr ks \<and> distinct (map Hash ks) \<and> Hash ` set ks = dom (B b)) \<and>
     (\<forall>d k. NewBlockWithCid E d k = None)"

lemma blk_lawsD:
  assumes "blk_laws E B"
  shows "finite (dom (B b))" "blk_Has E k b = Inr (B b (Hash k) \<noteq> None)"
    "B b (Hash k) = Some d \<Longrightarrow> blk_Get E k b = Inr d" "B b (Hash k) = Some d \<Longrightarrow> blk_GetSize E k b = Inr (length d)"
    "B b (Hash k) = None \<Longrightarrow> blk_Get E k b \<in> range Inl" "B b (Hash k) = None \<Longrightarrow> blk_GetSize E k b \<in> range Inl"
    "fst (blk_Put E k d b) = None" "B b (Hash k) = None \<Longrightarrow> B (snd (blk_Put E k d b)) = (B b)(Hash k \<mapsto> d)"
    "fst (blk_DeleteBlock E k b) = None" "B (snd (blk_DeleteBlock E k b)) = (B b)(Hash k := None)"
    "\<exists>ks. blk_AllKeys E b = Inr ks \<and> distinct (map Hash ks) \<and> Hash ` set ks = dom (B b)"
    "NewBlockWithCid E d k = None"
proof -
  note L1 = assms [unfolded blk_laws_def]
  note L2 = L1 [THEN conjunct2] note L3 = L2 [THEN conjunct2] note L4 = L3 [THEN conjunct2]
  note L5 = L4 [THEN conjunct2] note L6 = L5 [THEN conjunct2] note L7 = L6 [THEN conjunct2]
  show "finite (dom (B b))" using L1 [THEN conjunct1, THEN spec] .
  show "blk_Has E k b = Inr (B b (Hash k) \<noteq> None)" using L2 [THEN conjunct1, THEN spec, THEN spec] .
  note sz = L3 [THEN conjunct1, THEN spec, THEN spec, of k b]
  show "B b (Hash k) = Some d \<Longrightarrow> blk_Get E k b = Inr d"
    "B b (Hash k) = Some d \<Longrightarrow> blk_GetSize E k b = Inr (length d)"
    "B b (Hash k) = None \<Longrightarrow> blk_Get E k b \<in> range Inl"
    "B b (Hash k) = None \<Longrightarrow> blk_GetSize E k b \<in> range Inl"
    using sz by simp_all
  note P = L4 [THEN conjunct1, THEN spec, THEN spec, THEN spec, of k d b]
  show "fst (blk_Put E k d b) = None" "B b (Hash k) = None \<Longrightarrow> B (snd (blk_Put E k d b)) = (B b)(Hash k \<mapsto> d)"
    using P [THEN conjunct1] P [THEN conjunct2, THEN mp] .
  note D = L5 [THEN conjunct1, THEN spec, THEN spec, of k b]
  show "fst (blk_DeleteBlock E k b) = None" "B (snd (blk_DeleteBlock E k b)) = (B b)(Hash k := None)"
    using D [THEN conjunct1] D [THEN conjunct2] .
  show "\<exists>ks. blk_AllKeys E b = Inr ks \<and> distinct (map Hash ks) \<and> Hash ` set ks = dom (B b)"
    using L6 [THEN conjunct1, THEN spec] .
  show "NewBlockWithCid E d k = None" using L7 [THEN spec, THEN spec] .
qed

definition exact :: "('b \<Rightarrow> bytes \<rightharpoonup> bytes) \<Rightarrow> ('d, 'b) nbs \<Rightarrow> bool" where
  "exact B s \<longleftrightarrow> usedBytesAtomic s = usage (B (blks s)) \<and>
     blockCountAtomic s = int (card (dom (B (blks s))))"

lemma exact_pool: "pool s = pool s' \<Longrightarrow> exact B s = exact B s'"
  by (simp add: pool_def exact_def)

lemma card_dom_upd: "finite (dom m) \<Longrightarrow> m k = None \<Longrightarrow> card (dom (m(k \<mapsto> d))) = Suc (card (dom m))"
  by (simp add: domIff)

lemma card_dom_del: "finite (dom m) \<Longrightarrow> m k = Some d \<Longrightarrow> int (card (dom (m(k := None)))) = int (card (dom m)) - 1"
  using card_Suc_Diff1 [of "dom m" k] by (simp add: domI)

text \<open>Storing a new block after reserving its bytes, and deleting a block, keep the counters exact.\<close>

lemma exact_put_block:
  assumes E: "blk_laws E B" and s: "exact B s" and new: "B (blks s) (Hash k) = None"
    and r: "reserveAggBytes (int (length d)) s = (True, s1)" and p: "pool s3 = pool s1"
  shows "exact B (snd (put_block_data E k d s3)) \<and> fst (put_block_data E k d s3) = None \<and>
    B (blks (snd (put_block_data E k d s3))) = (B (blks s))(Hash k \<mapsto> d)"
proof -
  note fin = blk_lawsD(1) [OF E, of "blks s"]
  have s1: "blks s1 = blks s" "usedBytesAtomic s1 = usedBytesAtomic s + int (length d)"
      "blockCountAtomic s1 = blockCountAtomic s"
    using r by (auto simp: reserveAggBytes_def split: if_splits)
  show ?thesis
    using poolD [OF p] s1 s usage_upd [OF fin new] card_dom_upd [OF fin new] blk_lawsD(7,12) [OF E] blk_lawsD(8) [OF E new]
    by (simp add: put_block_data_def exact_def case_prod_beta del: dom_fun_upd fun_upd_apply)
qed

lemma exact_undo:
  assumes s: "exact B s" and r: "reserve_agg has (int n) s = (True, s1)" and p: "pool s2 = pool s1"
  shows "exact B (undo_agg has (int n) s2) \<and> blks (undo_agg has (int n) s2) = blks s"
  using s r poolD [OF p]
  by (auto simp: exact_def undo_agg_def reserve_agg_def reserveAggBytes_def addAggDelta_def
      applySignedDelta_def Let_def split: if_splits)

lemma exact_delete:
  assumes E: "blk_laws E B" and s: "exact B s"
  shows "exact B (snd (deleteLocked E k s)) \<and> fst (deleteLocked E k s) = Inr () \<and>
    B (blks (snd (deleteLocked E k s))) = (B (blks s))(Hash k := None)"
proof (cases "B (blks s) (Hash k)")
  case None
  then have "blk_GetSize E k (blks s) \<in> range Inl" by (rule blk_lawsD(6) [OF E])
  moreover have "(B (blks s))(Hash k := None) = B (blks s)" using None by auto
  ultimately show ?thesis
    using s blk_lawsD(10) [OF E] by (auto simp: deleteLocked_def case_prod_beta blk_lawsD(9) [OF E] exact_def)
next
  case (Some d)
  note fin = blk_lawsD(1) [OF E, of "blks s"]
  have card: "1 \<le> card (dom (B (blks s)))" using fin Some by (auto simp: card_gt_0_iff Suc_le_eq)
  let ?b = "snd (blk_DeleteBlock E k (blks s))"
  have "deleteLocked E k s = (Inr (), addAggDelta (- int (length d)) (- 1) (s\<lparr>blks := ?b\<rparr>))"
    using blk_lawsD(4) [OF E Some] by (simp add: deleteLocked_def case_prod_beta blk_lawsD(9) [OF E])
  moreover have "usedBytesAtomic (addAggDelta (- int (length d)) (- 1) (s\<lparr>blks := ?b\<rparr>)) =
      usage (B (blks s)) - int (length d)"
    "blockCountAtomic (addAggDelta (- int (length d)) (- 1) (s\<lparr>blks := ?b\<rparr>)) =
      int (card (dom (B (blks s)))) - 1"
    "blks (addAggDelta (- int (length d)) (- 1) (s\<lparr>blks := ?b\<rparr>)) = ?b"
    using s usage_ge [OF fin Some] card
    by (simp_all add: exact_def addAggDelta_def applySignedDelta_def Let_def)
  ultimately show ?thesis
    using usage_del [OF fin Some] card_dom_del [OF fin Some] blk_lawsD(10) [OF E, of k "blks s"]
    unfolding exact_def by simp
qed

definition nbs_ops :: "('d, 'b) nenv \<Rightarrow> ('d, 'b) nbs bs_ops" where
  "nbs_ops E = \<lparr>bs_Put = nbs_Put E, bs_Get = (\<lambda>k s. (nbs_Get E k s, s)), bs_Delete = nbs_Delete E,
     bs_Has = nbs_Has E, bs_AllKeys = nbs_AllKeysChan E\<rparr>"

lemma nbs_Put_exact:
  assumes E: "blk_laws E B" and s: "exact B s" and c: "B (blks s) (Hash k) \<in> {None, Some d}"
  shows "exact B (snd (nbs_Put E k d s)) \<and> B (blks (snd (nbs_Put E k d s))) =
    (if fst (nbs_Put E k d s) = Inr () then (B (blks s))(Hash k \<mapsto> d) else B (blks s))"
proof (cases "B (blks s) (Hash k)")
  case (Some b)
  then show ?thesis
    using c s blk_lawsD(2) [OF E, of k "blks s"] by (auto simp: nbs_Put_def fun_upd_idem)
next
  case None
  obtain ok s1 where r: "reserveAggBytes (int (length d)) s = (ok, s1)" by fastforce
  have has: "blk_Has E k (blks s) = Inr False" using blk_lawsD(2) [OF E, of k "blks s"] None by simp
  show ?thesis
  proof (cases ok)
    case False
    then have "s1 = s" using r by (auto simp: reserveAggBytes_def split: if_splits)
    then show ?thesis using has r False s by (simp add: nbs_Put_def)
  next
    case True
    have "nbs_Put E k d s = (Inr (), snd (put_block_data E k d s1))"
      using has r True blk_lawsD(12) [OF E]
      by (simp add: nbs_Put_def put_block_data_def case_prod_beta blk_lawsD(7) [OF E])
    with exact_put_block [OF E s None, of d s1 s1] r True show ?thesis by simp
  qed
qed

end
