(* ===== verification/Net_GC.thy ===== *)
theory Net_GC
  imports Net_Pool
begin

text \<open>
  Garbage collection of the network store over a reliable key-value and block store: the
  sweep removes exactly the blocks that no live root keeps, it keeps every block with a
  live root, and the aggregate counters stay exact.

  Keys are paths. A segment is usable when it is not empty, has no slash and is not a
  dot segment; CID strings, hexadecimal hashes and ring ids are usable segments.
\<close>

section \<open>Keys\<close>

definition seg_ok :: "string \<Rightarrow> bool" where
  "seg_ok x \<longleftrightarrow> x \<noteq> [] \<and> CHR ''/'' \<notin> set x \<and> x \<noteq> ''.'' \<and> x \<noteq> ''..''"

definition join :: "string list \<Rightarrow> string" where
  "join xs = concat (map (\<lambda>x. CHR ''/'' # x) xs)"

lemma join_simps [simp]: "join [] = []" "join (x # xs) = CHR ''/'' # x @ join xs"
  by (simp_all add: join_def)

lemma seg_prefix:
  assumes "c \<notin> set a" "c \<notin> set b"
  shows "has_prefix (a @ c # x) (b @ c # y) \<longleftrightarrow> a = b \<and> has_prefix x y"
  using assms
proof (induction a arbitrary: b)
  case Nil
  then show ?case by (cases b) (auto simp: has_prefix_iff)
next
  case (Cons z a)
  then show ?case by (cases b) (auto simp: has_prefix_iff)
qed

lemma seg_eq:
  assumes "c \<notin> set a" "c \<notin> set b"
  shows "a @ c # x = b @ c # y \<longleftrightarrow> a = b \<and> x = y"
  using assms
proof (induction a arbitrary: b)
  case Nil
  then show ?case by (cases b) auto
next
  case (Cons z a)
  then show ?case by (cases b) auto
qed

lemma seg_suffix:
  assumes "c \<notin> set a" "c \<notin> set b"
  shows "has_suffix (x @ c # a) (c # b) \<longleftrightarrow> a = b"
proof
  assume "has_suffix (x @ c # a) (c # b)"
  then obtain u where "x @ c # a = u @ c # b" by (auto simp: has_suffix_iff)
  then have "rev a @ c # rev x = rev b @ c # rev u" by (metis append.assoc append_Cons append_Nil rev.simps(2) rev_append)
  then have "rev a = rev b" using assms by (simp add: seg_eq)
  then show "a = b" by simp
qed (auto simp: has_suffix_iff)

section \<open>A reliable key-value store\<close>

text \<open>
  Keys are made by \<open>NewKey\<close>, which keeps a clean path; stored keys are clean. A query for
  a clean directory prefix returns the entries below it, at most \<open>n\<close> of them when
  \<open>n > 0\<close>, and some if there are any.
\<close>

definition clean_prefix :: "string \<Rightarrow> bool" where
  "clean_prefix p \<longleftrightarrow> (\<exists>xs. xs \<noteq> [] \<and> (\<forall>x \<in> set xs. seg_ok x) \<and> p = join xs @ ''/'')"

definition ds_laws :: "('d, 'b) nenv \<Rightarrow> ('d \<Rightarrow> string \<rightharpoonup> bytes) \<Rightarrow> bool" where
  "ds_laws E A \<longleftrightarrow>
     (\<forall>xs. xs \<noteq> [] \<and> (\<forall>x \<in> set xs. seg_ok x) \<longrightarrow> NewKey E (join xs) = join xs) \<and>
     (\<forall>d k. A d k \<noteq> None \<longrightarrow> NewKey E k = k) \<and>
     (\<forall>d k. case A d k of Some v \<Rightarrow> ds_Get E k d = Inr v | None \<Rightarrow> ds_Get E k d \<in> range Inl) \<and>
     (\<forall>d k. ds_Has E k d = Inr (A d k \<noteq> None)) \<and>
     (\<forall>d k v. fst (ds_Put E (NewKey E k) v d) = None \<and>
        A (snd (ds_Put E (NewKey E k) v d)) = (A d)(NewKey E k \<mapsto> v)) \<and>
     (\<forall>d k. A (snd (ds_Delete E k d)) = (A d)(k := None)) \<and>
     (\<forall>d p n. clean_prefix p \<longrightarrow> (\<exists>xs. ds_Query E p n d = Inr (map Inr xs) \<and> distinct (map fst xs) \<and>
        set xs \<subseteq> {(k, v). A d k = Some v \<and> has_prefix k p} \<and>
        (n = 0 \<or> xs = [] \<longrightarrow> {(k, v). A d k = Some v \<and> has_prefix k p} \<subseteq> set xs)))"

lemma ds_lawsD:
  assumes "ds_laws E A"
  shows "xs \<noteq> [] \<Longrightarrow> (\<And>x. x \<in> set xs \<Longrightarrow> seg_ok x) \<Longrightarrow> NewKey E (join xs) = join xs"
    "A d k = Some v \<Longrightarrow> NewKey E k = k"
    "A d k = Some v \<Longrightarrow> ds_Get E k d = Inr v"
    "A d k = None \<Longrightarrow> ds_Get E k d \<in> range Inl"
    "ds_Has E k d = Inr (A d k \<noteq> None)"
    "fst (ds_Put E (NewKey E k) v d) = None"
    "A (snd (ds_Put E (NewKey E k) v d)) = (A d)(NewKey E k \<mapsto> v)"
    "A (snd (ds_Delete E k d)) = (A d)(k := None)"
    "clean_prefix p \<Longrightarrow> \<exists>ys. ds_Query E p n d = Inr (map Inr ys) \<and> distinct (map fst ys) \<and>
        set ys \<subseteq> {(k, v). A d k = Some v \<and> has_prefix k p} \<and>
        (n = 0 \<or> ys = [] \<longrightarrow> {(k, v). A d k = Some v \<and> has_prefix k p} \<subseteq> set ys)"
proof -
  note L1 = assms [unfolded ds_laws_def]
  note L2 = L1 [THEN conjunct2] note L3 = L2 [THEN conjunct2] note L4 = L3 [THEN conjunct2]
  note L5 = L4 [THEN conjunct2] note L6 = L5 [THEN conjunct2] note L7 = L6 [THEN conjunct2]
  show "xs \<noteq> [] \<Longrightarrow> (\<And>x. x \<in> set xs \<Longrightarrow> seg_ok x) \<Longrightarrow> NewKey E (join xs) = join xs"
    using L1 [THEN conjunct1, THEN spec, of xs] by blast
  show "A d k = Some v \<Longrightarrow> NewKey E k = k"
    using L2 [THEN conjunct1, THEN spec [of _ d], THEN spec [of _ k]] by simp
  show "A d k = Some v \<Longrightarrow> ds_Get E k d = Inr v" "A d k = None \<Longrightarrow> ds_Get E k d \<in> range Inl"
    using L3 [THEN conjunct1, THEN spec [of _ d], THEN spec [of _ k]] by simp_all
  show "ds_Has E k d = Inr (A d k \<noteq> None)" using L4 [THEN conjunct1, THEN spec, THEN spec] .
  show "fst (ds_Put E (NewKey E k) v d) = None"
    "A (snd (ds_Put E (NewKey E k) v d)) = (A d)(NewKey E k \<mapsto> v)"
    using L5 [THEN conjunct1, THEN spec [of _ d], THEN spec [of _ k], THEN spec [of _ v]] by blast+
  show "A (snd (ds_Delete E k d)) = (A d)(k := None)" using L6 [THEN conjunct1, THEN spec, THEN spec] .
  show "clean_prefix p \<Longrightarrow> \<exists>ys. ds_Query E p n d = Inr (map Inr ys) \<and> distinct (map fst ys) \<and>
        set ys \<subseteq> {(k, v). A d k = Some v \<and> has_prefix k p} \<and>
        (n = 0 \<or> ys = [] \<longrightarrow> {(k, v). A d k = Some v \<and> has_prefix k p} \<subseteq> set ys)"
    using L7 [THEN spec, THEN spec, THEN spec, THEN mp] .
qed

lemma ok_results_Inr [simp]: "ok_results (map Inr xs) = xs"
  by (induction xs) simp_all

lemma query_all_set:
  assumes "ds_laws E A" "clean_prefix p"
  shows "set (query_all E p s) = {(k, v). A (ds s) k = Some v \<and> has_prefix k p}"
    "distinct (map fst (query_all E p s))"
  using ds_lawsD(9) [OF assms, of 0 "ds s"] by (auto simp: query_all_def)

section \<open>What the operations do to the keys\<close>

definition is_ring :: "RingView \<Rightarrow> bool" where
  "is_ring r \<longleftrightarrow> Ring (rv_ringID r) = Some r \<and> seg_ok (rv_ringID r)"

lemma is_ringD:
  assumes "is_ring r"
  shows "prefixBlockRoots r = ''/ring/'' @ rv_ringID r @ ''/blockroots/''"
    "prefixRoots r = ''/ring/'' @ rv_ringID r @ ''/netroots/''"
    "prefixCIDUsage r = ''/ring/'' @ rv_ringID r @ ''/cidusage/''"
    "seg_ok (rv_ringID r)" "CHR ''/'' \<notin> set (rv_ringID r)"
  using assms by (auto simp: is_ring_def Ring_def Let_def seg_ok_def split: if_splits) (metis RingView.select_convs)+

lemma Ring_is_ring: "Ring i = Some r \<Longrightarrow> seg_ok i \<Longrightarrow> is_ring r \<and> rv_ringID r = i"
  by (auto simp: is_ring_def Ring_def Let_def split: if_splits)

lemma clean_prefix_ring:
  assumes "is_ring r"
  shows "clean_prefix (prefixRoots r)" "clean_prefix (prefixBlockRoots r)"
    "seg_ok h \<Longrightarrow> clean_prefix (prefixBlockRoots r @ h @ ''/'')"
proof -
  have lit: "seg_ok ''ring''" "seg_ok ''netroots''" "seg_ok ''blockroots''" "seg_ok ''rings''"
    by (simp_all add: seg_ok_def)
  note R = is_ringD [OF assms]
  show "clean_prefix (prefixRoots r)"
    unfolding clean_prefix_def by (rule exI [of _ "[''ring'', rv_ringID r, ''netroots'']"]) (use R lit in simp)
  show "clean_prefix (prefixBlockRoots r)"
    unfolding clean_prefix_def by (rule exI [of _ "[''ring'', rv_ringID r, ''blockroots'']"]) (use R lit in simp)
  show "seg_ok h \<Longrightarrow> clean_prefix (prefixBlockRoots r @ h @ ''/'')"
    unfolding clean_prefix_def by (rule exI [of _ "[''ring'', rv_ringID r, ''blockroots'', h]"]) (use R lit in simp)
qed

lemma hex_seg: "b \<noteq> [] \<Longrightarrow> seg_ok (hex_EncodeToString b)"
proof -
  assume b: "b \<noteq> []"
  have "hex_digit d \<noteq> CHR ''/'' \<and> hex_digit d \<noteq> CHR ''.''" if "d < 16" for d
    using digit_val_hex_digit [OF that] by (auto simp: digit_val_def Let_def)
  moreover have "unat x div 16 < 16" for x :: byte
    using unsigned_less [of x, where ?'a = nat] by (simp add: less_mult_imp_div_less)
  ultimately have "CHR ''/'' \<notin> set (hex_byte x) \<and> CHR ''.'' \<notin> set (hex_byte x) \<and> hex_byte x \<noteq> []" for x
    unfolding hex_byte_def by (metis empty_iff empty_set list.distinct(1) mod_less_divisor set_ConsD zero_less_numeral)
  then have "CHR ''/'' \<notin> set (hex_EncodeToString b) \<and> CHR ''.'' \<notin> set (hex_EncodeToString b) \<and> hex_EncodeToString b \<noteq> []"
    using b by (simp add: hex_EncodeToString_def)
  then show ?thesis unfolding seg_ok_def by auto
qed

lemma HexString_seg: "Hash k \<noteq> [] \<Longrightarrow> seg_ok (HexString k)"
  by (simp add: HexString_def hex_seg)

lemma seg_okD [dest]: "seg_ok h \<Longrightarrow> CHR ''/'' \<notin> set h"
  by (simp add: seg_ok_def)

lemma RootsForBlock_set:
  assumes "ds_laws E A" "is_ring r" "Hash k \<noteq> []"
  shows "set (RootsForBlock E r k s) =
    {c. A (ds s) (prefixBlockRoots r @ HexString k @ ''/'' @ c) \<noteq> None}"
  unfolding RootsForBlock_def Let_def set_map
    query_all_set [OF assms(1) clean_prefix_ring(3) [OF assms(2) HexString_seg [OF assms(3)]]]
  by (force simp: has_prefix_iff image_iff)

text \<open>Paths of different rings, or in different tables of a ring, never collide.\<close>

lemma ring_path_prefix:
  assumes "CHR ''/'' \<notin> set i" "CHR ''/'' \<notin> set j"
  shows "has_prefix (''/ring/'' @ i @ CHR ''/'' # x) (''/ring/'' @ j @ CHR ''/'' # y) \<longleftrightarrow> i = j \<and> has_prefix x y"
  using seg_prefix [OF assms, of x y] by (simp add: has_prefix_def)

lemma blockRoots_prefix:
  assumes "is_ring r" "is_ring q" "CHR ''/'' \<notin> set h" "CHR ''/'' \<notin> set g"
  shows "has_prefix (prefixBlockRoots r @ h @ ''/'' @ c) (prefixBlockRoots q @ g @ ''/'') \<longleftrightarrow>
    rv_ringID r = rv_ringID q \<and> h = g"
proof -
  have "has_prefix (prefixBlockRoots r @ h @ ''/'' @ c) (prefixBlockRoots q @ g @ ''/'') \<longleftrightarrow>
    rv_ringID r = rv_ringID q \<and> has_prefix (''blockroots/'' @ h @ CHR ''/'' # c) (''blockroots/'' @ g @ CHR ''/'' # [])"
    using ring_path_prefix [OF is_ringD(5) [OF assms(1)] is_ringD(5) [OF assms(2)]] assms(1,2)
    by (simp add: is_ringD)
  also have "has_prefix (''blockroots/'' @ h @ CHR ''/'' # c) (''blockroots/'' @ g @ CHR ''/'' # []) \<longleftrightarrow> h = g"
    using seg_prefix [OF assms(3,4), of c "[]"] by (simp add: has_prefix_def)
  finally show ?thesis .
qed

lemma blockRoots_not_cidusage:
  assumes "is_ring r" "is_ring q"
  shows "\<not> has_prefix (prefixBlockRoots r @ x) (prefixCIDUsage q @ y)"
    "\<not> has_prefix (prefixRoots r @ x) (prefixCIDUsage q @ y)"
    "\<not> has_prefix (prefixRoots r @ x) (prefixBlockRoots q @ y)"
  using ring_path_prefix [OF is_ringD(5) [OF assms(1)] is_ringD(5) [OF assms(2)]] assms
  by (simp_all add: is_ringD) (simp_all add: has_prefix_def)

lemma A_ds_put: "ds_laws E A \<Longrightarrow> A (ds (ds_put E k v s)) = (A (ds s))(NewKey E k \<mapsto> v)"
  by (simp add: ds_put_def ds_lawsD(7) del: fun_upd_apply)

lemma A_ds_delete: "ds_laws E A \<Longrightarrow> A (ds (ds_delete E k s)) = (A (ds s))(NewKey E k := None)"
  by (simp add: ds_delete_def ds_lawsD(8) del: fun_upd_apply)

lemma ds_getRingCounters [simp]: "ds (snd (getRingCounters E r s)) = ds s"
  by (simp add: getRingCounters_def Let_def split: option.split)

lemma ds_upd_ring [simp]: "ds (upd_ring E r f s) = ds s"
  by (simp add: upd_ring_def Let_def case_prod_beta)

section \<open>The sweep\<close>

text \<open>The index tables hold entries of the expected shape.\<close>

definition idx_wf :: "('d \<Rightarrow> string \<rightharpoonup> bytes) \<Rightarrow> 'd \<Rightarrow> bool" where
  "idx_wf A d \<longleftrightarrow>
     (\<forall>r k v. is_ring r \<and> A d k = Some v \<and> has_prefix k (prefixBlockRoots r) \<longrightarrow>
        (\<exists>h c. k = prefixBlockRoots r @ h @ ''/'' @ c \<and> seg_ok h \<and> seg_ok c))"

lemma cidUsage_NewKey:
  assumes E: "ds_laws E A" and r: "is_ring r" and c: "seg_ok c"
  shows "NewKey E (cidUsageKey r c) = cidUsageKey r c"
proof -
  have k: "cidUsageKey r c = join [''ring'', rv_ringID r, ''cidusage'', c]"
    using r by (simp add: cidUsageKey_def is_ringD)
  have "NewKey E (join [''ring'', rv_ringID r, ''cidusage'', c]) = join [''ring'', rv_ringID r, ''cidusage'', c]"
    using is_ringD(4) [OF r] c by (intro ds_lawsD(1) [OF E]) (auto simp: seg_ok_def)
  then show ?thesis using k by simp
qed

lemma A_addCIDUsage:
  assumes E: "ds_laws E A" and r: "is_ring r" and c: "seg_ok c"
    and q: "\<not> has_prefix q (prefixCIDUsage r)"
  shows "A (ds (addCIDUsageLocked E r c d s)) q = A (ds s) q"
proof -
  have "q \<noteq> cidUsageKey r c" using q by (auto simp: cidUsageKey_def)
  then show ?thesis
    using cidUsage_NewKey [OF E r c] by (simp add: addCIDUsageLocked_def Let_def A_ds_put [OF E])
qed

text \<open>Cleaning up one block in one ring: its entries go, everything else in the index stays.\<close>

lemma A_cleanup:
  assumes E: "ds_laws E A" and wf: "idx_wf A (ds s)" and r: "is_ring r" and h: "seg_ok h"
    and q: "\<not> has_prefix q (prefixCIDUsage r)"
  shows "A (ds (cleanupRingBlockIndex E r h sz s)) q =
    (if has_prefix q (prefixBlockRoots r @ h @ ''/'') then None else A (ds s) q)"
proof -
  let ?p = "prefixBlockRoots r @ h @ ''/''"
  let ?f = "\<lambda>s x. addCIDUsageLocked E r (drop (length ?p) (fst x)) (- sz) (ds_delete E (fst x) s)"
  have seg: "seg_ok (drop (length ?p) (fst x)) \<and> NewKey E (fst x) = fst x" if x: "x \<in> set (query_all E ?p s)" for x
  proof -
    have v: "A (ds s) (fst x) = Some (snd x)" "has_prefix (fst x) ?p"
      using x unfolding query_all_set [OF E clean_prefix_ring(3) [OF r h]] by auto
    then have "has_prefix (fst x) (prefixBlockRoots r)" by (auto simp: has_prefix_iff)
    then obtain g c where k: "fst x = prefixBlockRoots r @ g @ ''/'' @ c" "seg_ok g" "seg_ok c"
      using wf r v(1) unfolding idx_wf_def by blast
    then have "g = h" using v(2) blockRoots_prefix [OF r r, of g h c] h by (simp add: seg_okD)
    then show ?thesis using k v(1) ds_lawsD(2) [OF E] by simp
  qed
  have step: "A (ds (foldl ?f t xs)) q = (if q \<in> fst ` set xs then None else A (ds t) q)"
    if "set xs \<subseteq> set (query_all E ?p s)" for xs t
    using that
  proof (induction xs arbitrary: t)
    case (Cons x xs)
    then have x: "seg_ok (drop (length ?p) (fst x))" "NewKey E (fst x) = fst x" using seg by auto
    have "A (ds (?f t x)) q = (if q = fst x then None else A (ds t) q)"
      using A_addCIDUsage [OF E r x(1) q] x(2) by (simp add: A_ds_delete [OF E])
    then show ?case using Cons by auto
  qed simp
  have "q \<in> fst ` set (query_all E ?p s) \<longleftrightarrow> A (ds s) q \<noteq> None \<and> has_prefix q ?p"
    unfolding query_all_set [OF E clean_prefix_ring(3) [OF r h]] by force
  with step [OF order_refl, of s] show ?thesis
    by (auto simp: cleanupRingBlockIndex_def Let_def)
qed

lemma not_cidusage_blockRoots: "is_ring r \<Longrightarrow> is_ring q \<Longrightarrow> has_prefix k (prefixBlockRoots r) \<Longrightarrow>
    \<not> has_prefix k (prefixCIDUsage q)"
  using blockRoots_not_cidusage(1) [of r q _ "[]"] by (auto simp: has_prefix_iff)

lemma idx_wf_cleanup:
  assumes E: "ds_laws E A" and wf: "idx_wf A (ds s)" and r: "is_ring r" and h: "seg_ok h"
  shows "idx_wf A (ds (cleanupRingBlockIndex E r h sz s))"
  unfolding idx_wf_def
proof (intro allI impI)
  fix q k v
  assume *: "is_ring q \<and> A (ds (cleanupRingBlockIndex E r h sz s)) k = Some v \<and> has_prefix k (prefixBlockRoots q)"
  then have "A (ds s) k = Some v"
    using A_cleanup [OF E wf r h not_cidusage_blockRoots] r by (auto split: if_splits)
  then show "\<exists>h c. k = prefixBlockRoots q @ h @ ''/'' @ c \<and> seg_ok h \<and> seg_ok c"
    using * wf unfolding idx_wf_def by blast
qed

abbreviation cleanup_all :: "('d, 'b) nenv \<Rightarrow> RingView list \<Rightarrow> cid \<Rightarrow> int \<Rightarrow> ('d, 'b) nbs \<Rightarrow> ('d, 'b) nbs" where
  "cleanup_all E rings c sz s \<equiv> foldl (\<lambda>s r. cleanupRingBlockIndex E r (HexString c) sz s) s rings"

lemma cleanup_all_other:
  assumes E: "ds_laws E A" and wf: "idx_wf A (ds s)" and rings: "\<forall>r \<in> set rings. is_ring r"
    and c: "Hash c \<noteq> []"
  shows "idx_wf A (ds (cleanup_all E rings c sz s)) \<and>
    (\<forall>r k x. is_ring r \<longrightarrow> Hash k \<noteq> Hash c \<longrightarrow> Hash k \<noteq> [] \<longrightarrow>
      A (ds (cleanup_all E rings c sz s)) (prefixBlockRoots r @ HexString k @ ''/'' @ x) =
      A (ds s) (prefixBlockRoots r @ HexString k @ ''/'' @ x))"
  using wf rings
proof (induction rings arbitrary: s)
  case (Cons q rings)
  let ?s = "cleanupRingBlockIndex E q (HexString c) sz s"
  have q: "is_ring q" using Cons.prems(2) by simp
  note hc = HexString_seg [OF c]
  have "A (ds ?s) (prefixBlockRoots r @ HexString k @ ''/'' @ x) =
      A (ds s) (prefixBlockRoots r @ HexString k @ ''/'' @ x)"
    if "is_ring r" "Hash k \<noteq> Hash c" "Hash k \<noteq> []" for r k x
    using that blockRoots_prefix [OF that(1) q seg_okD [OF HexString_seg [OF that(3)]] seg_okD [OF hc], of x]
    by (subst A_cleanup [OF E Cons.prems(1) q hc not_cidusage_blockRoots [OF that(1) q]]) auto
  moreover have "idx_wf A (ds ?s)" by (rule idx_wf_cleanup [OF E Cons.prems(1) q hc])
  ultimately show ?case using Cons.IH [of ?s] Cons.prems(2) by simp
qed simp

lemma live_cleanup_other:
  assumes E: "ds_laws E A" and wf: "idx_wf A (ds s)" and rings: "\<forall>r \<in> set rings. is_ring r"
    and k: "Hash k \<noteq> Hash c" "Hash k \<noteq> []" "Hash c \<noteq> []"
  shows "blockHasLiveRootInSet E k rings live ((cleanup_all E rings c sz s)\<lparr>blks := b\<rparr>) =
    blockHasLiveRootInSet E k rings live s"
proof -
  have "set (RootsForBlock E r k ((cleanup_all E rings c sz s)\<lparr>blks := b\<rparr>)) = set (RootsForBlock E r k s)"
    if "r \<in> set rings" for r
    using cleanup_all_other [OF E wf rings k(3), of sz] that rings k
    by (simp add: RootsForBlock_set [OF E _ k(2)])
  then show ?thesis by (simp add: blockHasLiveRootInSet_def list_ex_iff)
qed

lemma restrict_upd_insert: "(m(x := None)) |` (- Y) = m |` (- insert x Y)"
  by (auto simp: restrict_map_def fun_eq_iff)

lemma subset_dom_del: "x \<notin> S \<Longrightarrow> S \<subseteq> dom m - N \<Longrightarrow> m' = m(x := None) \<Longrightarrow> S \<subseteq> dom m' - N"
  by auto

lemma gc_sweep_exact:
  assumes E: "ds_laws E A" and BL: "blk_laws E B" and rings: "\<forall>r \<in> set rings. is_ring r"
    and wf: "idx_wf A (ds s)" and ks: "distinct (map Hash ks)" "Hash ` set ks \<subseteq> dom (B (blks s)) - {[]}"
    and used: "usedBytesAtomic s = usage (B (blks s)) + freed"
    and count: "blockCountAtomic s = int (card (dom (B (blks s)))) + n"
    and nn: "0 \<le> freed" "0 \<le> n" "n = 0 \<Longrightarrow> freed = 0"
  shows "\<exists>g' s'. gc_sweep E rings live ks g freed n s = (Inr g', s') \<and> exact B s' \<and>
    B (blks s') = B (blks s) |` (- Hash ` {k \<in> set ks. \<not> blockHasLiveRootInSet E k rings live s})"
  using wf ks used count nn
proof (induction ks arbitrary: g freed n s)
  case Nil
  then have "exact B (if n > 0 then addAggDelta (- freed) (- n) s else s)"
      "blks (if n > 0 then addAggDelta (- freed) (- n) s else s) = blks s"
    by (auto simp: exact_def addAggDelta_def applySignedDelta_def Let_def)
  then show ?case by (simp add: restrict_map_def)
next
  case (Cons c ks)
  let ?live = "\<lambda>k s. blockHasLiveRootInSet E k rings live s"
  show ?case
  proof (cases "?live c s")
    case True
    have "{k \<in> set (c # ks). \<not> ?live k s} = {k \<in> set ks. \<not> ?live k s}" using True by auto
    moreover have "distinct (map Hash ks)" "Hash ` set ks \<subseteq> dom (B (blks s)) - {[]}"
      using Cons.prems(2,3) by simp_all
    ultimately show ?thesis using True Cons.IH [OF Cons.prems(1) _ _ Cons.prems(4-8)] by simp
  next
    case False
    obtain d where d: "B (blks s) (Hash c) = Some d" and c: "Hash c \<noteq> []" using Cons.prems(3) by auto
    note fin = blk_lawsD(1) [OF BL, of "blks s"]
    let ?s1 = "cleanup_all E rings c (int (length d)) s"
    let ?b = "snd (blk_DeleteBlock E c (blks ?s1))"
    let ?s2 = "?s1\<lparr>blks := ?b\<rparr>"
    have "pool ?s1 = pool s" by (rule foldl_pool) (simp add: pool_simps)
    note P = poolD [OF this]
    have b: "B ?b = (B (blks s))(Hash c := None)" using P blk_lawsD(10) [OF BL] by simp
    have size: "blockSize E c s = Inr (length d)" using blk_lawsD(4) [OF BL d] by (simp add: blockSize_def)
    have eq: "gc_sweep E rings live (c # ks) g freed n s =
        gc_sweep E rings live ks (g\<lparr>gc_Removed := Suc (gc_Removed g)\<rparr>) (freed + int (length d)) (n + 1) ?s2"
      using False size blk_lawsD(9) [OF BL] by (simp add: Let_def case_prod_beta)
    have live: "?live k ?s2 = ?live k s" if "k \<in> set ks" for k
    proof (rule live_cleanup_other [OF E Cons.prems(1) rings])
      show "Hash k \<noteq> Hash c" using imageI [OF that, of Hash] Cons.prems(2) by force
      show "Hash k \<noteq> []" "Hash c \<noteq> []" using imageI [OF that, of Hash] Cons.prems(3) by auto
    qed
    have ins: "Hash ` {k \<in> set (c # ks). \<not> ?live k s} = insert (Hash c) (Hash ` {k \<in> set ks. \<not> ?live k ?s2})"
      using False live by auto
    have "\<exists>g' s'. gc_sweep E rings live ks (g\<lparr>gc_Removed := Suc (gc_Removed g)\<rparr>)
        (freed + int (length d)) (n + 1) ?s2 = (Inr g', s') \<and> exact B s' \<and>
        B (blks s') = B (blks ?s2) |` (- Hash ` {k \<in> set ks. \<not> ?live k ?s2})"
    proof (rule Cons.IH)
      show "idx_wf A (ds ?s2)" using cleanup_all_other [OF E Cons.prems(1) rings c] by simp
      have "Hash c \<notin> Hash ` set ks" "Hash ` set ks \<subseteq> dom (B (blks s)) - {[]}"
        using Cons.prems(2,3) by simp_all
      from subset_dom_del [OF this b] show "Hash ` set ks \<subseteq> dom (B (blks ?s2)) - {[]}" by simp
      show "usedBytesAtomic ?s2 = usage (B (blks ?s2)) + (freed + int (length d))"
        using P b usage_del [OF fin d] Cons.prems(4) by simp
      show "blockCountAtomic ?s2 = int (card (dom (B (blks ?s2)))) + (n + 1)"
        using P b card_dom_del [OF fin d] Cons.prems(5) by simp
    qed (use Cons.prems(2,6,7) in simp_all)
    then show ?thesis
      unfolding eq ins restrict_upd_insert [symmetric] b [symmetric] by simp
  qed
qed

section \<open>Pruning expired roots\<close>

text \<open>Well-formed tables: entries, roots and ring markers have the expected shape.\<close>

definition ds_wf :: "('d \<Rightarrow> string \<rightharpoonup> bytes) \<Rightarrow> 'd \<Rightarrow> bool" where
  "ds_wf A d \<longleftrightarrow> idx_wf A d \<and>
     (\<forall>r k v. is_ring r \<and> A d k = Some v \<and> has_prefix k (prefixRoots r) \<longrightarrow>
        seg_ok (drop (length (prefixRoots r)) k)) \<and>
     (\<forall>k v. A d k = Some v \<and> has_prefix k nbPrefixRings \<longrightarrow> seg_ok (drop (length nbPrefixRings) k))"

lemma ds_wf_mono: "ds_wf A d \<Longrightarrow> A d' \<subseteq>\<^sub>m A d \<Longrightarrow> ds_wf A d'"
proof -
  assume wf: "ds_wf A d" and le: "A d' \<subseteq>\<^sub>m A d"
  have le: "A d' k = Some v \<Longrightarrow> A d k = Some v" for k v
    using le by (auto simp: map_le_def dom_def)
  show ?thesis
    unfolding ds_wf_def idx_wf_def
  proof (intro conjI allI impI)
    fix r k v
    assume "is_ring r \<and> A d' k = Some v \<and> has_prefix k (prefixBlockRoots r)"
    then show "\<exists>h c. k = prefixBlockRoots r @ h @ ''/'' @ c \<and> seg_ok h \<and> seg_ok c"
      using wf le unfolding ds_wf_def idx_wf_def by blast
  qed (use wf le in \<open>auto simp: ds_wf_def\<close>)
qed

definition entry_of :: "RingView \<Rightarrow> string \<Rightarrow> string \<Rightarrow> bool" where
  "entry_of r c q \<longleftrightarrow> has_prefix q (prefixBlockRoots r) \<and> length (''/'' @ c) < length q \<and> has_suffix q (''/'' @ c)"

lemma A_remove_entries:
  assumes E: "ds_laws E A"
    and xs: "\<And>x. x \<in> set xs \<Longrightarrow> NewKey E (fst x) = fst x"
  shows "A (ds (foldl (remove_entry E r suf) s xs)) q =
    (if q \<in> fst ` set xs \<and> length suf < length q \<and> has_suffix q suf then None else A (ds s) q)"
  using xs
proof (induction xs arbitrary: s)
  case (Cons x xs)
  have "A (ds (remove_entry E r suf s x)) q =
    (if q = fst x \<and> length suf < length q \<and> has_suffix q suf then None else A (ds s) q)"
    using Cons.prems [of x]
    by (auto simp: remove_entry_def Let_def A_ds_delete [OF E] split: option.split sum.split)
  then show ?case using Cons by auto
qed simp

lemma rootKey_NewKey:
  assumes E: "ds_laws E A" and r: "is_ring r" and c: "seg_ok c"
  shows "NewKey E (rootKey r c) = rootKey r c"
proof -
  have "rootKey r c = join [''ring'', rv_ringID r, ''netroots'', c]"
    using r by (simp add: rootKey_def is_ringD)
  moreover have "NewKey E (join [''ring'', rv_ringID r, ''netroots'', c]) = join [''ring'', rv_ringID r, ''netroots'', c]"
    using is_ringD(4) [OF r] c by (intro ds_lawsD(1) [OF E]) (auto simp: seg_ok_def)
  ultimately show ?thesis by simp
qed

lemma index_seg:
  assumes wf: "ds_wf A d" and r: "is_ring r" and h: "seg_ok h" and e: "A d (prefixBlockRoots r @ h @ ''/'' @ c) \<noteq> None"
  shows "seg_ok c"
proof -
  have "has_prefix (prefixBlockRoots r @ h @ ''/'' @ c) (prefixBlockRoots r)" by (rule has_prefix_self)
  then obtain g c' where "prefixBlockRoots r @ h @ ''/'' @ c = prefixBlockRoots r @ g @ ''/'' @ c'" "seg_ok g" "seg_ok c'"
    using wf r e unfolding ds_wf_def idx_wf_def by blast
  then show ?thesis using seg_eq [of "CHR ''/''" h g c c'] h by (auto simp: seg_okD)
qed

lemma A_RemoveRoot:
  assumes E: "ds_laws E A" and r: "is_ring r" and c: "seg_ok c"
  shows "A (ds (RemoveRootStr E r c s)) q =
    (if q = rootKey r c \<or> q = cidUsageKey r c \<or> entry_of r c q then None else A (ds s) q)"
proof -
  note rk = rootKey_NewKey [OF E r c]
  let ?s = "ds_delete E (cidUsageKey r c) (ds_delete E (rootKey r c) s)"
  have A1: "A (ds ?s) = (A (ds s))(rootKey r c := None, cidUsageKey r c := None)"
    using rk cidUsage_NewKey [OF E r c] by (simp add: A_ds_delete [OF E])
  obtain ys where ys: "ds_Query E (prefixBlockRoots r) 0 (ds ?s) = Inr (map Inr ys)"
      "set ys = {(k, v). A (ds ?s) k = Some v \<and> has_prefix k (prefixBlockRoots r)}"
    using ds_lawsD(9) [OF E clean_prefix_ring(2) [OF r], of 0 "ds ?s"] by blast
  have nk: "NewKey E (fst x) = fst x" if "x \<in> set ys" for x
    using that ys(2) ds_lawsD(2) [OF E, of "ds ?s"] by auto
  have mem: "q \<in> fst ` set ys \<longleftrightarrow> A (ds ?s) q \<noteq> None \<and> has_prefix q (prefixBlockRoots r)"
    unfolding ys(2) by force
  have "A (ds (RemoveRootStr E r c s)) q =
    (if q \<in> fst ` set ys \<and> length (''/'' @ c) < length q \<and> has_suffix q (''/'' @ c) then None else A (ds ?s) q)"
    using A_remove_entries [OF E nk, of ys r "''/'' @ c" "snd (getRingCounters E (rv_ringID r) ?s)" q] ys(1)
    by (simp add: RemoveRootStr_def removeBlockRootEntries_def case_prod_beta)
  then show ?thesis unfolding mem A1 entry_of_def by auto
qed

lemma RemoveRoot_shrinks:
  "ds_laws E A \<Longrightarrow> is_ring r \<Longrightarrow> seg_ok c \<Longrightarrow> A (ds (RemoveRootStr E r c s)) \<subseteq>\<^sub>m A (ds s)"
  by (auto simp: map_le_def A_RemoveRoot dom_def split: if_splits)

text \<open>Removing one root leaves the other roots of all rings, and their entries, alone.\<close>

lemma ring_eq: "is_ring r \<Longrightarrow> is_ring q \<Longrightarrow> rv_ringID r = rv_ringID q \<Longrightarrow> r = q"
  by (simp add: is_ring_def)

lemma RemoveRoot_other:
  assumes E: "ds_laws E A" and r: "is_ring r" and c: "seg_ok c"
    and q: "is_ring q" and d: "seg_ok d" "CHR ''/'' \<notin> set h" and ne: "q \<noteq> r \<or> d \<noteq> c"
  shows "A (ds (RemoveRootStr E r c s)) (rootKey q d) = A (ds s) (rootKey q d)"
    "A (ds (RemoveRootStr E r c s)) (prefixBlockRoots q @ h @ ''/'' @ d) =
     A (ds s) (prefixBlockRoots q @ h @ ''/'' @ d)"
    "A (ds (RemoveRootStr E r c s)) (nbPrefixRings @ i) = A (ds s) (nbPrefixRings @ i)"
proof -
  note rp = ring_path_prefix [OF is_ringD(5) [OF q] is_ringD(5) [OF r]]
  have 1: "rootKey q d \<noteq> rootKey r c"
  proof
    assume "rootKey q d = rootKey r c"
    then have "rv_ringID q @ CHR ''/'' # ''netroots/'' @ d = rv_ringID r @ CHR ''/'' # ''netroots/'' @ c"
      using q r by (simp add: rootKey_def is_ringD)
    then show False
      using seg_eq [OF is_ringD(5) [OF q] is_ringD(5) [OF r]] ne ring_eq [OF q r] by simp
  qed
  have no: "\<not> has_prefix (prefixBlockRoots q @ x) (prefixCIDUsage r)" "\<not> has_prefix (prefixRoots q @ x) (prefixCIDUsage r)"
      "\<not> has_prefix (prefixRoots q @ x) (prefixBlockRoots r)" "\<not> has_prefix (prefixRoots r @ x) (prefixBlockRoots q)" for x
    using blockRoots_not_cidusage [OF q r, of x "[]"] blockRoots_not_cidusage [OF r q, of x "[]"] by simp_all
  have 2: "rootKey q d \<noteq> cidUsageKey r c" "prefixBlockRoots q @ h @ ''/'' @ d \<noteq> cidUsageKey r c"
      "\<not> entry_of r c (rootKey q d)"
    using no(1) [of "h @ ''/'' @ d"] no(2,3) [of d] has_prefix_self [of "prefixCIDUsage r" c]
    unfolding rootKey_def cidUsageKey_def entry_of_def by force+
  have 3: "prefixBlockRoots q @ h @ ''/'' @ d \<noteq> rootKey r c"
    using no(4) [of c] has_prefix_self [of "prefixBlockRoots q" "h @ ''/'' @ d"] unfolding rootKey_def by metis
  have "\<not> entry_of r c (prefixBlockRoots q @ h @ ''/'' @ d)"
  proof
    assume e: "entry_of r c (prefixBlockRoots q @ h @ ''/'' @ d)"
    then have "d = c"
      using seg_suffix [of "CHR ''/''" d c "prefixBlockRoots q @ h"] d c by (auto simp: entry_of_def seg_ok_def)
    moreover have "rv_ringID q = rv_ringID r"
      using e rp [of "''blockroots/'' @ h @ ''/'' @ d" "''blockroots/''"] q r by (simp add: entry_of_def is_ringD)
    ultimately show False using ne ring_eq [OF q r] by blast
  qed
  then show "A (ds (RemoveRootStr E r c s)) (prefixBlockRoots q @ h @ ''/'' @ d) =
     A (ds s) (prefixBlockRoots q @ h @ ''/'' @ d)"
    using 2 3 by (simp add: A_RemoveRoot [OF E r c])
  show "A (ds (RemoveRootStr E r c s)) (rootKey q d) = A (ds s) (rootKey q d)"
    using 1 2 by (simp add: A_RemoveRoot [OF E r c])
  show "A (ds (RemoveRootStr E r c s)) (nbPrefixRings @ i) = A (ds s) (nbPrefixRings @ i)"
    using r by (simp add: A_RemoveRoot [OF E r c] rootKey_def cidUsageKey_def entry_of_def is_ringD has_prefix_def)
qed

text \<open>
  Pruning a ring, and all rings: the tables only shrink, ring markers stay, and a root
  that has not expired keeps its record and its entries.
\<close>

definition protected :: "('d \<Rightarrow> string \<rightharpoonup> bytes) \<Rightarrow> ('d, 'b) nenv \<Rightarrow> int \<Rightarrow> ('d, 'b) nbs \<Rightarrow> ('d, 'b) nbs \<Rightarrow> bool" where
  "protected A E now s s' \<longleftrightarrow>
     A (ds s') \<subseteq>\<^sub>m A (ds s) \<and>
     (\<forall>i. A (ds s') (nbPrefixRings @ i) = A (ds s) (nbPrefixRings @ i)) \<and>
     (\<forall>q d v h. is_ring q \<and> seg_ok d \<and> CHR ''/'' \<notin> set h \<and> A (ds s) (rootKey q d) = Some v \<and>
        \<not> expired_root E now (rootKey q d, v) \<longrightarrow>
        A (ds s') (rootKey q d) = Some v \<and>
        A (ds s') (prefixBlockRoots q @ h @ ''/'' @ d) = A (ds s) (prefixBlockRoots q @ h @ ''/'' @ d))"

lemma protected_refl: "protected A E now s s"
  by (simp add: protected_def)

lemma protected_trans: "protected A E now s s1 \<Longrightarrow> protected A E now s1 s2 \<Longrightarrow> protected A E now s s2"
  unfolding protected_def by (intro conjI allI impI; (elim conjE)?) (auto intro: map_le_trans)

lemma protectedD:
  assumes "protected A E now s s'"
  shows "A (ds s') \<subseteq>\<^sub>m A (ds s)" "A (ds s') (nbPrefixRings @ i) = A (ds s) (nbPrefixRings @ i)"
    "is_ring q \<Longrightarrow> seg_ok d \<Longrightarrow> CHR ''/'' \<notin> set h \<Longrightarrow> A (ds s) (rootKey q d) = Some v \<Longrightarrow>
      \<not> expired_root E now (rootKey q d, v) \<Longrightarrow> A (ds s') (rootKey q d) = Some v"
    "is_ring q \<Longrightarrow> seg_ok d \<Longrightarrow> CHR ''/'' \<notin> set h \<Longrightarrow> A (ds s) (rootKey q d) = Some v \<Longrightarrow>
      \<not> expired_root E now (rootKey q d, v) \<Longrightarrow>
      A (ds s') (prefixBlockRoots q @ h @ ''/'' @ d) = A (ds s) (prefixBlockRoots q @ h @ ''/'' @ d)"
  using assms unfolding protected_def by blast+

lemma protected_RemoveRoot:
  assumes E: "ds_laws E A" and r: "is_ring r" and c: "seg_ok c" and t: "protected A E now s t"
    and ex: "\<And>w. A (ds s) (rootKey r c) = Some w \<Longrightarrow> expired_root E now (rootKey r c, w)"
  shows "protected A E now s (RemoveRootStr E r c t)"
  unfolding protected_def
proof (intro conjI allI impI)
  show "A (ds (RemoveRootStr E r c t)) \<subseteq>\<^sub>m A (ds s)"
    using RemoveRoot_shrinks [OF E r c] protectedD(1) [OF t] by (rule map_le_trans)
  show "A (ds (RemoveRootStr E r c t)) (nbPrefixRings @ i) = A (ds s) (nbPrefixRings @ i)" for i
    using RemoveRoot_other(3) [OF E r c r, of "CHR ''x'' # CHR ''x'' # c" "[]" t i] c protectedD(2) [OF t, of i]
    by (simp add: seg_ok_def)
next
  fix q d v h
  assume *: "is_ring q \<and> seg_ok d \<and> CHR ''/'' \<notin> set h \<and> A (ds s) (rootKey q d) = Some v \<and>
    \<not> expired_root E now (rootKey q d, v)"
  then have ne: "q \<noteq> r \<or> d \<noteq> c" using ex by blast
  show "A (ds (RemoveRootStr E r c t)) (rootKey q d) = Some v"
    using * RemoveRoot_other(1) [OF E r c _ _ _ ne, of h t] protectedD(3) [OF t, of q d h v] by simp
  show "A (ds (RemoveRootStr E r c t)) (prefixBlockRoots q @ h @ ''/'' @ d) =
    A (ds s) (prefixBlockRoots q @ h @ ''/'' @ d)"
    using * RemoveRoot_other(2) [OF E r c _ _ _ ne, of h t] protectedD(4) [OF t, of q d h v] by simp
qed

lemma protected_rv_Prune:
  assumes E: "ds_laws E A" and wf: "ds_wf A (ds s)" and r: "is_ring r"
  shows "protected A E now s (snd (rv_PruneExpiredRoots E now r s))"
proof -
  let ?xs = "filter (expired_root E now) (query_all E (prefixRoots r) s)"
  let ?f = "\<lambda>s (k, _). RemoveRootStr E r (drop (length (prefixRoots r)) k) s"
  have x: "A (ds s) k = Some v \<and> rootKey r (drop (length (prefixRoots r)) k) = k \<and>
      seg_ok (drop (length (prefixRoots r)) k) \<and> expired_root E now (k, v)" if "(k, v) \<in> set ?xs" for k v
  proof -
    have k: "A (ds s) k = Some v" "has_prefix k (prefixRoots r)" "expired_root E now (k, v)"
      using that unfolding set_filter query_all_set [OF E clean_prefix_ring(1) [OF r]] by simp_all
    moreover have "rootKey r (drop (length (prefixRoots r)) k) = k"
      using k(2) unfolding rootKey_def has_prefix_def by (metis append_take_drop_id)
    moreover have "seg_ok (drop (length (prefixRoots r)) k)"
      using wf r k(1,2) unfolding ds_wf_def by blast
    ultimately show ?thesis by simp
  qed
  have "protected A E now s (?f t (k, v))" if t: "protected A E now s t" and kv: "(k, v) \<in> set ?xs" for t k v
  proof -
    note x = x [OF kv]
    have "protected A E now s (RemoveRootStr E r (drop (length (prefixRoots r)) k) t)"
    proof (rule protected_RemoveRoot [OF E r _ t])
      fix w assume "A (ds s) (rootKey r (drop (length (prefixRoots r)) k)) = Some w"
      with x have "w = v" by (elim conjE) (simp only: option.inject)
      then show "expired_root E now (rootKey r (drop (length (prefixRoots r)) k), w)"
        using x by (elim conjE) (simp only:)
    qed (use x in blast)
    then show ?thesis unfolding prod.case .
  qed
  then have "protected A E now s (foldl ?f s ?xs)"
    by (intro foldl_invariant [of "protected A E now s"] protected_refl) (metis surj_pair)
  then show ?thesis by (simp add: rv_PruneExpiredRoots_def Let_def)
qed

lemma clean_rings: "clean_prefix nbPrefixRings"
  unfolding clean_prefix_def by (rule exI [of _ "[''rings'']"]) (simp add: seg_ok_def)

lemma RingsKnown_set:
  assumes "ds_laws E A"
  shows "set (RingsKnown E s) = {i. A (ds s) (nbPrefixRings @ i) \<noteq> None}"
  unfolding RingsKnown_def set_map query_all_set [OF assms clean_rings] by (force simp: has_prefix_iff image_iff)

lemma set_rings_of: "set (rings_of ids) = {r. \<exists>i \<in> set ids. Ring i = Some r}"
  by (induction ids) (auto simp: rings_of_def map_filter_simps split: option.split)

lemma rings_of_is_ring:
  assumes "ds_laws E A" "ds_wf A (ds s)"
  shows "r \<in> set (rings_of (RingsKnown E s)) \<longleftrightarrow> is_ring r \<and> A (ds s) (nbPrefixRings @ rv_ringID r) \<noteq> None"
proof -
  have seg: "seg_ok i" if "A (ds s) (nbPrefixRings @ i) \<noteq> None" for i
  proof -
    have "A (ds s) (nbPrefixRings @ i) = Some (the (A (ds s) (nbPrefixRings @ i)))" using that by (rule option.collapse [symmetric])
    then have "seg_ok (drop (length nbPrefixRings) (nbPrefixRings @ i))"
      using assms(2) has_prefix_self unfolding ds_wf_def by blast
    then show ?thesis unfolding append_eq_conv_conj by simp
  qed
  have "r \<in> set (rings_of (RingsKnown E s)) \<longleftrightarrow> (\<exists>i. A (ds s) (nbPrefixRings @ i) \<noteq> None \<and> Ring i = Some r)"
    unfolding set_rings_of RingsKnown_set [OF assms(1)] by blast
  also have "\<dots> \<longleftrightarrow> is_ring r \<and> A (ds s) (nbPrefixRings @ rv_ringID r) \<noteq> None"
  proof (intro iffI; (elim exE)?)
    fix i assume i: "A (ds s) (nbPrefixRings @ i) \<noteq> None \<and> Ring i = Some r"
    then show "is_ring r \<and> A (ds s) (nbPrefixRings @ rv_ringID r) \<noteq> None"
      using Ring_is_ring [of i r] seg [of i] by blast
  next
    assume "is_ring r \<and> A (ds s) (nbPrefixRings @ rv_ringID r) \<noteq> None"
    then show "\<exists>i. A (ds s) (nbPrefixRings @ i) \<noteq> None \<and> Ring i = Some r"
      unfolding is_ring_def by blast
  qed
  finally show ?thesis .
qed

lemma protected_Prune:
  assumes E: "ds_laws E A" and wf: "ds_wf A (ds s)"
  shows "protected A E now s (snd (PruneExpiredRoots E now s))"
proof -
  let ?f = "\<lambda>(n, s) r. let (m, s') = rv_PruneExpiredRoots E now r s in (n + m, s')"
  have "protected A E now s (snd (foldl ?f ns rs))"
    if "\<forall>r \<in> set rs. is_ring r" "protected A E now s (snd ns)" for rs ns
    using that
  proof (induction rs arbitrary: ns)
    case (Cons r rs)
    let ?s = "snd ns"
    have "ds_wf A (ds ?s)" using ds_wf_mono [OF wf protectedD(1) [OF Cons.prems(2)]] .
    then have "protected A E now ?s (snd (rv_PruneExpiredRoots E now r ?s))"
      using Cons.prems(1) by (intro protected_rv_Prune [OF E]) auto
    from protected_trans [OF Cons.prems(2) this] show ?case
      using Cons.IH Cons.prems(1) by (simp add: case_prod_beta Let_def)
  qed simp
  from this [of "rings_of (RingsKnown E s)" "(0, s)"] show ?thesis
    using rings_of_is_ring [OF E wf] protected_refl unfolding PruneExpiredRoots_def snd_conv by blast
qed

section \<open>Collecting garbage\<close>

lemma case_ok: "(case x of Inl _ \<Rightarrow> False | Inr d \<Rightarrow> P d) \<longleftrightarrow> (\<exists>d. x = Inr d \<and> P d)"
  by (cases x) auto

definition gc_live :: "('d, 'b) nenv \<Rightarrow> int \<Rightarrow> cid \<Rightarrow> ('d, 'b) nbs \<Rightarrow> bool" where
  "gc_live E now k s = list_ex (\<lambda>r. list_ex (\<lambda>c. list_ex (\<lambda>q. c \<in> set (ListRoots E now q s)) (rings_of (RingsKnown E s)))
     (RootsForBlock E r k s)) (rings_of (RingsKnown E s))"

lemma gc_live_set:
  "blockHasLiveRootInSet E k (rings_of (RingsKnown E s)) (concat (map (\<lambda>r. ListRoots E now r s) (rings_of (RingsKnown E s)))) s
    = gc_live E now k s"
  by (simp add: blockHasLiveRootInSet_def gc_live_def list_ex_iff)

lemma gc_live_hash: "Hash k = Hash k' \<Longrightarrow> gc_live E now k s = gc_live E now k' s"
  by (simp add: gc_live_def RootsForBlock_def HexString_def)

lemma restrict_keys:
  assumes "Hash ` set ks = dom m" "\<And>a b. Hash a = Hash b \<Longrightarrow> P a = P b"
  shows "(m |` (- Hash ` {k \<in> set ks. \<not> P k})) (Hash k) = (if P k then m (Hash k) else None)"
proof (cases "Hash k \<in> Hash ` {k \<in> set ks. \<not> P k}")
  case True
  then obtain k' where "Hash k = Hash k'" "\<not> P k'" by blast
  then have "\<not> P k" using assms(2) [of k k'] by simp
  then show ?thesis using True by (simp add: restrict_map_def)
next
  case False
  have "m (Hash k) = None" if "\<not> P k"
  proof (rule ccontr)
    assume "m (Hash k) \<noteq> None"
    then have "Hash k \<in> Hash ` set ks" unfolding assms(1) by (rule domI [OF option.collapse [symmetric]])
    then obtain k' where "k' \<in> set ks" "Hash k = Hash k'" by blast
    then show False using False that assms(2) [of k k'] by blast
  qed
  then show ?thesis using False by (simp add: restrict_map_def)
qed

lemma gc_sweeps:
  assumes E: "ds_laws E A" and BL: "blk_laws E B" and wf: "ds_wf A (ds s)" and ex: "exact B s"
    and ne: "B (blks s) [] = None"
  shows "\<exists>g s'. nbs_GC E now s = (Inr g, s') \<and> exact B s' \<and>
    (\<forall>k. B (blks s') (Hash k) =
       (if gc_live E now k (snd (PruneExpiredRoots E now s)) then B (blks s) (Hash k) else None))"
proof -
  let ?s1 = "snd (PruneExpiredRoots E now s)"
  let ?rings = "rings_of (RingsKnown E ?s1)" and ?live = "concat (map (\<lambda>r. ListRoots E now r ?s1) (rings_of (RingsKnown E ?s1)))"
  note P = poolD [OF pool_Prune [of E now s]]
  have wf1: "ds_wf A (ds ?s1)" using ds_wf_mono [OF wf protectedD(1) [OF protected_Prune [OF E wf]]] .
  have rings: "\<forall>r \<in> set ?rings. is_ring r" using rings_of_is_ring [OF E wf1] by blast
  obtain ks where ks: "blk_AllKeys E (blks ?s1) = Inr ks" "distinct (map Hash ks)" "Hash ` set ks = dom (B (blks ?s1))"
    using blk_lawsD(11) [OF BL] by blast
  have sub: "Hash ` set ks \<subseteq> dom (B (blks ?s1)) - {[]}" unfolding ks(3) using ne P by auto
  have idx: "idx_wf A (ds ?s1)" using wf1 unfolding ds_wf_def by blast
  have "\<exists>g' s'. gc_sweep E ?rings ?live ks \<lparr>gc_Removed = 0, gc_Kept = 0\<rparr> 0 0 ?s1 = (Inr g', s') \<and> exact B s' \<and>
    B (blks s') = B (blks ?s1) |` (- Hash ` {k \<in> set ks. \<not> blockHasLiveRootInSet E k ?rings ?live ?s1})"
    using ex P by (intro gc_sweep_exact [OF E BL rings idx ks(2) sub]) (simp_all add: exact_def)
  then obtain g' s' where sweep: "gc_sweep E ?rings ?live ks \<lparr>gc_Removed = 0, gc_Kept = 0\<rparr> 0 0 ?s1 = (Inr g', s')" "exact B s'"
    "B (blks s') = B (blks ?s1) |` (- Hash ` {k \<in> set ks. \<not> gc_live E now k ?s1})"
    unfolding gc_live_set by blast
  have "nbs_GC E now s = (Inr g', s')"
    unfolding nbs_GC_def Let_def case_prod_beta nbs_AllKeysChan_def ks(1) sum.case by (rule sweep(1))
  moreover have "B (blks s') (Hash k) = (if gc_live E now k ?s1 then B (blks s) (Hash k) else None)" for k
    using restrict_keys [of ks "B (blks ?s1)" "\<lambda>k. gc_live E now k ?s1", OF ks(3) gc_live_hash] P sweep(3) by simp
  ultimately show ?thesis using sweep(2) by blast
qed

text \<open>A block that a live root of a known ring keeps is live for the collector.\<close>

lemma ListRoots_set:
  assumes "ds_laws E A" "is_ring r"
  shows "c \<in> set (ListRoots E now r s) \<longleftrightarrow>
    (\<exists>v e. A (ds s) (rootKey r c) = Some v \<and> root_Unmarshal E v = Inr e \<and> \<not> (e > 0 \<and> now > e))"
  unfolding ListRoots_def listRootsFiltered_def set_map set_filter
    query_all_set [OF assms(1) clean_prefix_ring(1) [OF assms(2)]] case_prod_beta case_ok
  by (force simp: has_prefix_iff rootKey_def image_iff)

lemma live_root_kept:
  assumes E: "ds_laws E A" and wf: "ds_wf A (ds s)" and k: "Hash k \<noteq> []"
    and live: "BlockHasLiveRootAnyRing E now k s"
  shows "gc_live E now k (snd (PruneExpiredRoots E now s))"
proof -
  let ?s1 = "snd (PruneExpiredRoots E now s)"
  note prot = protected_Prune [OF E wf, of now]
  have wf1: "ds_wf A (ds ?s1)" using ds_wf_mono [OF wf protectedD(1) [OF prot]] .
  obtain r c v e where r: "r \<in> set (rings_of (RingsKnown E s))" and c: "c \<in> set (RootsForBlock E r k s)"
    and v: "ds_Get E (NewKey E (rootKey r c)) (ds s) = Inr v" "root_Unmarshal E v = Inr e" "e = 0 \<or> now \<le> e"
    using live unfolding BlockHasLiveRootAnyRing_def BlockHasLiveRoot_def list_ex_iff case_ok by blast
  have ring: "is_ring r" using r rings_of_is_ring [OF E wf] by blast
  have entry: "A (ds s) (prefixBlockRoots r @ HexString k @ ''/'' @ c) \<noteq> None"
    using c RootsForBlock_set [OF E ring k] by blast
  have cseg: "seg_ok c" by (rule index_seg [OF wf ring HexString_seg [OF k] entry])
  have A: "A (ds s) (rootKey r c) = Some v"
    using v(1) ds_lawsD(3,4) [OF E, of "ds s" "rootKey r c"] rootKey_NewKey [OF E ring cseg]
    by (cases "A (ds s) (rootKey r c)") auto
  have ne: "\<not> expired_root E now (rootKey r c, v)" using v(2,3) by (auto simp: expired_root_def)
  have h: "CHR ''/'' \<notin> set (HexString k)" using HexString_seg [OF k] by blast
  have "r \<in> set (rings_of (RingsKnown E ?s1))"
    using r protectedD(2) [OF prot] unfolding rings_of_is_ring [OF E wf] rings_of_is_ring [OF E wf1] by metis
  moreover have "c \<in> set (RootsForBlock E r k ?s1)"
    using entry protectedD(4) [OF prot ring cseg h A ne] unfolding RootsForBlock_set [OF E ring k] by simp
  moreover have "c \<in> set (ListRoots E now r ?s1)"
    using protectedD(3) [OF prot ring cseg h A ne] v(2,3) unfolding ListRoots_set [OF E ring] by fastforce
  ultimately show ?thesis unfolding gc_live_def list_ex_iff by blast
qed

end
