(* ===== verification/Net_Contract.thy ===== *)
theory Net_Contract
  imports Net_GC
begin

text \<open>
  What the network block store promises, over any key-value and block store that behave
  as documented: the aggregate quota, the \<open>BlockStore\<close> contract with exact counters, and
  garbage collection. The in-memory environment \<open>mem_nenv\<close> satisfies the laws assumed of
  the outside stores.
\<close>

section \<open>An in-memory environment\<close>

definition opt_res :: "'a option \<Rightarrow> 'a res" where
  "opt_res x = (case x of Some v \<Rightarrow> Inr v | None \<Rightarrow> Inl ErrNotFound)"

definition mem_nenv :: "((string \<times> bytes) list, (bytes \<times> bytes) list) nenv" where
  "mem_nenv = \<lparr>NewKey = (\<lambda>k. k),
     ds_Get = (\<lambda>k d. opt_res (map_of d k)),
     ds_Has = (\<lambda>k d. Inr (map_of d k \<noteq> None)),
     ds_Put = (\<lambda>k v d. (None, aupd k v d)),
     ds_Delete = (\<lambda>k d. (None, adel k d)),
     ds_Query = (\<lambda>p n d. Inr (map Inr (let xs = filter (\<lambda>(k, _). has_prefix k p) (AList.clearjunk d)
                                     in if n = 0 then xs else take n xs))),
     ds_Batch = (\<lambda>_. None),
     ds_Commit = (\<lambda>kvs d. (None, foldl (\<lambda>d (k, v). aupd k v d) d kvs)),
     blk_Has = (\<lambda>k b. Inr (map_of b (Hash k) \<noteq> None)),
     blk_Get = (\<lambda>k b. opt_res (map_of b (Hash k))),
     blk_GetSize = (\<lambda>k b. opt_res (map_option length (map_of b (Hash k)))),
     blk_Put = (\<lambda>k d b. (None, aupd (Hash k) d b)),
     blk_DeleteBlock = (\<lambda>k b. (None, adel (Hash k) b)),
     blk_AllKeys = (\<lambda>b. Inr (map (\<lambda>(h, _). NewCidV1 codec_Raw h) (AList.clearjunk b))),
     NewBlockWithCid = (\<lambda>_ _. None),
     root_Marshal = (\<lambda>e. Inr (replicate (nat e) 0)),
     root_Unmarshal = (\<lambda>v. Inr (int (length v))),
     cid_String = HexString,
     cid_Parse = (\<lambda>x. case decodeHex x of Inr h \<Rightarrow> Inr (NewCidV1 codec_Raw h) | Inl e \<Rightarrow> Inl e)\<rparr>"

lemma mem_blk_laws: "blk_laws mem_nenv map_of"
proof -
  have "\<exists>ks. blk_AllKeys mem_nenv b = Inr ks \<and> distinct (map Hash ks) \<and> Hash ` set ks = dom (map_of b)" for b
  proof (intro exI conjI)
    let ?ks = "map (\<lambda>(h, _). NewCidV1 codec_Raw h) (AList.clearjunk b)"
    have hs: "map Hash ?ks = map fst (AList.clearjunk b)" by (simp add: case_prod_beta comp_def)
    show "blk_AllKeys mem_nenv b = Inr ?ks" by (simp add: mem_nenv_def)
    show "distinct (map Hash ?ks)" unfolding hs by (rule distinct_clearjunk)
    have "Hash ` set ?ks = set (map fst (AList.clearjunk b))" unfolding set_map [symmetric] hs ..
    then show "Hash ` set ?ks = dom (map_of b)" by (simp add: dom_map_of_conv_image_fst dom_clearjunk)
  qed
  then show ?thesis
    unfolding blk_laws_def
    by (intro conjI allI) (simp_all add: mem_nenv_def opt_res_def finite_dom_map_of split: option.split)
qed

lemma mem_ds_laws: "ds_laws mem_nenv map_of"
proof -
  have "\<exists>xs. ds_Query mem_nenv p n d = Inr (map Inr xs) \<and> distinct (map fst xs) \<and>
      set xs \<subseteq> {(k, v). map_of d k = Some v \<and> has_prefix k p} \<and>
      (n = 0 \<or> xs = [] \<longrightarrow> {(k, v). map_of d k = Some v \<and> has_prefix k p} \<subseteq> set xs)" for d p n
  proof -
    let ?ys = "filter (\<lambda>(k, _). has_prefix k p) (AList.clearjunk d)"
    let ?xs = "if n = 0 then ?ys else take n ?ys"
    have q: "ds_Query mem_nenv p n d = Inr (map Inr ?xs)" by (simp add: mem_nenv_def)
    have dis: "distinct (map fst ?ys)" using distinct_clearjunk distinct_map_filter by blast
    have mem: "set ?ys = {(k, v). map_of d k = Some v \<and> has_prefix k p}"
      using map_of_eq_Some_iff [OF distinct_clearjunk, of d] by (auto simp: map_of_clearjunk)
    have "distinct (map fst ?xs)" using distinct_take [OF dis, of n] dis by (simp add: take_map)
    moreover have "set ?xs \<subseteq> set ?ys" using set_take_subset [of n ?ys] by simp
    moreover have "n = 0 \<or> ?xs = [] \<longrightarrow> set ?ys \<subseteq> set ?xs"
      by (cases "n = 0"; cases ?ys) simp_all
    ultimately show ?thesis using q mem by blast
  qed
  note Q = this
  show ?thesis
    unfolding ds_laws_def
    by (intro conjI allI impI; (rule Q)?) (simp_all add: mem_nenv_def opt_res_def split: option.split)
qed

text \<open>
  A store with two blocks in the ring \<open>public\<close>: one kept by the root \<open>r\<close>, which never
  expires, one by the root \<open>x\<close>, which expires at time 2.
\<close>

definition demo_cid :: "8 word \<Rightarrow> cid" where
  "demo_cid h = NewCidV1 codec_Raw [h]"

definition demo_nbs :: "((string \<times> bytes) list, (bytes \<times> bytes) list) nbs" where
  "demo_nbs = \<lparr>ds = [(''/rings/public'', []),
      (''/ring/public/netroots/r'', []), (''/ring/public/netroots/x'', [0, 0]),
      (''/ring/public/blockroots/0a/r'', []), (''/ring/public/blockroots/0b/x'', [])],
     blks = [([10], [1, 2]), ([11], [3])], maxBytes = 5, usedBytesAtomic = 3, blockCountAtomic = 2,
     ringCtrs = [], knownRings = []\<rparr>"

lemma demo_ds:
  "map_of (ds demo_nbs) k = Some v \<Longrightarrow>
    k \<in> {''/rings/public'', ''/ring/public/netroots/r'', ''/ring/public/netroots/x'',
      ''/ring/public/blockroots/0a/r'', ''/ring/public/blockroots/0b/x''}"
  by (drule map_of_SomeD) (auto simp: demo_nbs_def)

lemma demo_wf: "ds_wf map_of (ds demo_nbs)"
proof -
  have seg: "seg_ok ''r''" "seg_ok ''x''" "seg_ok ''0a''" "seg_ok ''0b''" "seg_ok ''public''" by (simp_all add: seg_ok_def)
  have pub: "CHR ''/'' \<notin> set ''public''" by simp
  have br: "has_prefix (''/ring/'' @ ''public'' @ CHR ''/'' # x) (prefixBlockRoots r) \<longleftrightarrow>
      rv_ringID r = ''public'' \<and> has_prefix x ''blockroots/''"
    "has_prefix (''/ring/'' @ ''public'' @ CHR ''/'' # x) (prefixRoots r) \<longleftrightarrow>
      rv_ringID r = ''public'' \<and> has_prefix x ''netroots/''" if "is_ring r" for r x
    using ring_path_prefix [OF pub is_ringD(5) [OF that], of x] is_ringD(1,2) [OF that] by auto
  have nr: "\<not> has_prefix ''/rings/public'' (prefixBlockRoots r)" "\<not> has_prefix ''/rings/public'' (prefixRoots r)"
    if "is_ring r" for r
    using is_ringD(1,2) [OF that] by (simp_all add: has_prefix_iff)
  have idx: "\<exists>h c. k = prefixBlockRoots r @ h @ ''/'' @ c \<and> seg_ok h \<and> seg_ok c"
    if "is_ring r" "map_of (ds demo_nbs) k = Some v" "has_prefix k (prefixBlockRoots r)" for r k v
  proof -
    have k: "k \<in> {''/ring/public/blockroots/0a/r'', ''/ring/public/blockroots/0b/x''}" "rv_ringID r = ''public''"
      using demo_ds [OF that(2)] that(3) nr [OF that(1)] br(1) [OF that(1), of "''netroots/r''"]
        br(1) [OF that(1), of "''netroots/x''"] br(1) [OF that(1), of "''blockroots/0a/r''"]
        br(1) [OF that(1), of "''blockroots/0b/x''"] by (auto simp: has_prefix_def)
    have "prefixBlockRoots r = ''/ring/public/blockroots/''" using is_ringD(1) [OF that(1)] k(2) by simp
    then have "k = prefixBlockRoots r @ ''0a'' @ ''/'' @ ''r'' \<or> k = prefixBlockRoots r @ ''0b'' @ ''/'' @ ''x''"
      using k(1) by simp
    then show ?thesis using seg by blast
  qed
  have roots: "seg_ok (drop (length (prefixRoots r)) k)"
    if "is_ring r" "map_of (ds demo_nbs) k = Some v" "has_prefix k (prefixRoots r)" for r k v
  proof -
    have k: "k \<in> {''/ring/public/netroots/r'', ''/ring/public/netroots/x''}" "rv_ringID r = ''public''"
      using demo_ds [OF that(2)] that(3) nr [OF that(1)] br(2) [OF that(1), of "''netroots/r''"]
        br(2) [OF that(1), of "''netroots/x''"] br(2) [OF that(1), of "''blockroots/0a/r''"]
        br(2) [OF that(1), of "''blockroots/0b/x''"] by (auto simp: has_prefix_def)
    have "prefixRoots r = ''/ring/public/netroots/''" using is_ringD(2) [OF that(1)] k(2) by simp
    then show ?thesis using k(1) seg by auto
  qed
  have "seg_ok (drop (length nbPrefixRings) k)"
    if "map_of (ds demo_nbs) k = Some v" "has_prefix k nbPrefixRings" for k v
    using demo_ds [OF that(1)] that(2) seg by (auto simp: has_prefix_def)
  then show ?thesis unfolding ds_wf_def idx_wf_def using idx roots by blast
qed

lemma demo_exact: "exact map_of demo_nbs"
proof -
  have "usage (map_of (blks demo_nbs)) = 3"
    by (simp add: demo_nbs_def usage_def dom_fun_upd)
  moreover have "card (dom (map_of (blks demo_nbs))) = 2" by (simp add: demo_nbs_def)
  ultimately show ?thesis by (simp add: exact_def demo_nbs_def)
qed

section \<open>Quota and contract\<close>

text \<open>
  C28. The aggregate quota holds in every reachable state: starting from a store within its
  limit, no sequence of calls takes the used bytes above \<open>maxBytes\<close> or below zero, even
  when the storage below fails at any point.
\<close>

theorem agg_quota_invariant:
  assumes "(nbs_step E)\<^sup>*\<^sup>* s s'" "agg_ok s"
  shows "agg_ok s'"
  using assms by (induction rule: rtranclp_induct) (auto intro: nbs_step_agg_ok)

theorem agg_quota_invariant_witness:
  "agg_ok (snd (nbs_Put mem_nenv (demo_cid 12) [1, 2, 3] demo_nbs))"
proof -
  have "(nbs_step mem_nenv)\<^sup>*\<^sup>* demo_nbs (snd (nbs_Put mem_nenv (demo_cid 12) [1, 2, 3] demo_nbs))"
    by (rule r_into_rtranclp) (rule step_Put)
  moreover have "agg_ok demo_nbs" by (simp add: agg_ok_def demo_nbs_def)
  ultimately show ?thesis by (rule agg_quota_invariant)
qed

lemma nbs_block_store:
  assumes E: "blk_laws E B"
  shows "block_store (nbs_ops E) Hash (exact B) (\<lambda>s. B (blks s))"
proof (unfold_locales, goal_cases)
  case (1 s)
  show ?case by (rule blk_lawsD(1) [OF E])
next
  case (2 s k d r s')
  then show ?case using nbs_Put_exact [OF E 2(1,2)] by (simp add: nbs_ops_def)
next
  case (3 s k b s')
  then show ?case
    using blk_lawsD(3,5) [OF E] by (auto simp: nbs_ops_def nbs_Get_def split: option.split)
next
  case (4 s k r s')
  then show ?case using exact_delete [OF E 4(1), of k] by (simp add: nbs_ops_def nbs_Delete_def)
next
  case (5 s k)
  then show ?case using blk_lawsD(2) [OF E] by (simp add: nbs_ops_def nbs_Has_def)
next
  case (6 s)
  then show ?case using blk_lawsD(11) [OF E, of "blks s"] by (simp add: nbs_ops_def nbs_AllKeysChan_def)
qed

text \<open>
  C29. Over a reliable block store, the network store keeps the \<open>BlockStore\<close> contract, and
  its aggregate counters are exactly the number and the total size of the stored blocks.
\<close>

theorem nbs_keeps_contract:
  assumes "blk_laws E B"
  shows "block_store (nbs_ops E) Hash (exact B) (\<lambda>s. B (blks s))"
  using assms by (rule nbs_block_store)

theorem nbs_keeps_contract_witness:
  "block_store (nbs_ops mem_nenv) Hash (exact map_of) (\<lambda>s. map_of (blks s)) \<and> exact map_of demo_nbs"
  using nbs_keeps_contract [OF mem_blk_laws] demo_exact by blast

text \<open>
  What storing a block asks of the block store below, which may fail: an answer of \<open>Has\<close> is right, a
  \<open>Put\<close> that reports success has added the block and one that fails has changed nothing.
\<close>

definition put_laws :: "('d, 'b) nenv \<Rightarrow> ('b \<Rightarrow> bytes \<rightharpoonup> bytes) \<Rightarrow> bool" where
  "put_laws E B \<longleftrightarrow>
     (\<forall>b. finite (dom (B b))) \<and>
     (\<forall>k b h. blk_Has E k b = Inr h \<longrightarrow> h = (B b (Hash k) \<noteq> None)) \<and>
     (\<forall>k d b. B b (Hash k) = None \<longrightarrow>
        B (snd (blk_Put E k d b)) = (if fst (blk_Put E k d b) = None then (B b)(Hash k \<mapsto> d) else B b))"

lemma put_lawsD:
  assumes "put_laws E B"
  shows "finite (dom (B b))" "blk_Has E k b = Inr h \<Longrightarrow> h = (B b (Hash k) \<noteq> None)"
    "B b (Hash k) = None \<Longrightarrow> B (snd (blk_Put E k d b)) = (if fst (blk_Put E k d b) = None then (B b)(Hash k \<mapsto> d) else B b)"
  using assms unfolding put_laws_def by blast+

lemma put_laws_reliable: "blk_laws E B \<Longrightarrow> put_laws E B"
  by (simp add: put_laws_def blk_lawsD(1,2,7,8) fun_eq_iff)

lemma put_block_outcome:
  assumes E: "put_laws E B" and s: "exact B s" and new: "B (blks s) (Hash k) = None"
    and r: "reserveAggBytes (int (length d)) s = (True, s1)" and p: "pool s3 = pool s1"
  shows "if fst (put_block_data E k d s3) = None
    then exact B (snd (put_block_data E k d s3)) \<and> B (blks (snd (put_block_data E k d s3))) = (B (blks s))(Hash k \<mapsto> d)
    else B (blks (snd (put_block_data E k d s3))) = B (blks s) \<and>
      usedBytesAtomic (snd (put_block_data E k d s3)) = usedBytesAtomic s1 \<and> blockCountAtomic (snd (put_block_data E k d s3)) = blockCountAtomic s1"
proof -
  note fin = put_lawsD(1) [OF E, of "blks s"]
  have s1: "blks s1 = blks s" "usedBytesAtomic s1 = usedBytesAtomic s + int (length d)"
      "blockCountAtomic s1 = blockCountAtomic s"
    using r by (auto simp: reserveAggBytes_def split: if_splits)
  show ?thesis
    using poolD [OF p] s1 s usage_upd [OF fin new] card_dom_upd [OF fin new] put_lawsD(3) [OF E new, of d]
    by (cases "NewBlockWithCid E d k"; cases "blk_Put E k d (blks s)"; cases "fst (blk_Put E k d (blks s))")
      (simp_all add: put_block_data_def exact_def del: dom_fun_upd fun_upd_apply)
qed

lemma exact_undo_content:
  assumes s: "exact B s" and r: "reserve_agg has (int n) s = (True, s1)"
    and p: "B (blks s2) = B (blks s)" "usedBytesAtomic s2 = usedBytesAtomic s1" "blockCountAtomic s2 = blockCountAtomic s1"
  shows "exact B (undo_agg has (int n) s2) \<and> B (blks (undo_agg has (int n) s2)) = B (blks s)"
  using s r p usage_nonneg [of "B (blks s)"]
  by (auto simp: exact_def undo_agg_def reserve_agg_def reserveAggBytes_def addAggDelta_def
      applySignedDelta_def Let_def split: if_splits)

lemma PutWithRoot_adds:
  assumes E: "put_laws E B" and s: "exact B s" and c: "B (blks s) (Hash key) \<in> {None, Some data}"
    and p: "PutWithRoot E now r key data root ex s = (res, s')"
  shows "exact B s' \<and> B (blks s') =
    (if res = Inr () then (B (blks s))(Hash key \<mapsto> data) else B (blks s))"
proof (cases rule: PutWithRoot_pool [of E now r key data root ex s])
  case fail
  then have P: "pool s' = pool s" using p by simp
  then show ?thesis using fail(2) p s poolD [OF P] exact_pool [OF P, of B] by simp
next
  case (full has s1)
  then have "s1 = s" by (auto simp: reserve_agg_def reserveAggBytes_def split: if_splits)
  then show ?thesis using full p s by simp
next
  case (undone has s1 s2)
  have b1: "blks s1 = blks s" using undone(2) by (auto simp: reserve_agg_def reserveAggBytes_def split: if_splits)
  have "B (blks s2) = B (blks s) \<and> usedBytesAtomic s2 = usedBytesAtomic s1 \<and> blockCountAtomic s2 = blockCountAtomic s1"
    using undone(3)
  proof
    assume "pool s2 = pool s1"
    then show ?thesis using poolD b1 by metis
  next
    assume "\<not> has \<and> (\<exists>s3 :: ('a, 'b) nbs. pool s3 = pool s1 \<and> fst (put_block_data E key data s3) \<noteq> None
      \<and> pool s2 = pool (snd (put_block_data E key data s3)))"
    then obtain s3 :: "('a, 'b) nbs" where s3: "\<not> has" "pool s3 = pool s1" "fst (put_block_data E key data s3) \<noteq> None"
      "pool s2 = pool (snd (put_block_data E key data s3))" by blast
    have "B (blks s) (Hash key) = None" "reserveAggBytes (int (length data)) s = (True, s1)"
      using undone(2) s3(1) put_lawsD(2) [OF E undone(1)] by (auto simp: reserve_agg_def)
    from put_block_outcome [OF E s this s3(2)] s3(3) show ?thesis using poolD [OF s3(4)] by simp
  qed
  then have u: "exact B (undo_agg has (int (length data)) s2)" "B (blks (undo_agg has (int (length data)) s2)) = B (blks s)"
    using exact_undo_content [OF s undone(2)] by blast+
  have P: "pool s' = pool (undo_agg has (int (length data)) s2)" using undone(4) p by simp
  show ?thesis using u undone(5) p poolD [OF P] exact_pool [OF P, of B] by simp
next
  case (stored has s1 s3)
  show ?thesis
  proof (cases has)
    case True
    then have "s1 = s" using stored(2) by (simp add: reserve_agg_def)
    then have P: "pool s' = pool s" using stored(3,4) p True by simp
    have "B (blks s) (Hash key) = Some data"
      using True c put_lawsD(2) [OF E stored(1)] by auto
    then have "(B (blks s))(Hash key \<mapsto> data) = B (blks s)" by (rule fun_upd_idem)
    then show ?thesis
      using stored(6) p s poolD [OF P] exact_pool [OF P, of B] by (simp del: fun_upd_apply)
  next
    case False
    then have "B (blks s) (Hash key) = None" "reserveAggBytes (int (length data)) s = (True, s1)"
      using stored(2) False put_lawsD(2) [OF E stored(1)] by (auto simp: reserve_agg_def)
    from put_block_outcome [OF E s this stored(3)] stored(5) [OF False]
    have u: "exact B (snd (put_block_data E key data s3))"
        "B (blks (snd (put_block_data E key data s3))) = (B (blks s))(Hash key \<mapsto> data)" by simp_all
    have P: "pool s' = pool (snd (put_block_data E key data s3))" using stored(4) p False by simp
    show ?thesis
      using u stored(6) p poolD [OF P] exact_pool [OF P, of B] by (simp del: fun_upd_apply)
  qed
qed

text \<open>
  C27. Storing a block under a root keeps the aggregate counters exact on every outcome and adds
  the block exactly when it reports success, over a block store below whose \<open>Has\<close>, \<open>Put\<close> and block
  construction may fail: an error rolls the reservation back. What is asked of the store below is
  that its answers are right and that a failed \<open>Put\<close> has no effect.
\<close>

theorem PutWithRoot_exact:
  assumes "put_laws E B" "exact B s" "B (blks s) (Hash key) \<in> {None, Some data}"
    and "PutWithRoot E now r key data root ex s = (res, s')"
  shows "exact B s' \<and> B (blks s') =
    (if res = Inr () then (B (blks s))(Hash key \<mapsto> data) else B (blks s))"
  using assms by (rule PutWithRoot_adds)

text \<open>A store whose disk is full for the block 12.\<close>

definition failing_nenv :: "((string \<times> bytes) list, (bytes \<times> bytes) list) nenv" where
  "failing_nenv = mem_nenv\<lparr>blk_Put := (\<lambda>k d b. if Hash k = [12] then (Some (Errorf ''no space left on device''), b) else (None, aupd (Hash k) d b))\<rparr>"

theorem PutWithRoot_exact_witness:
  "\<exists>r e s' s''. Ring RingPublic = Some r \<and>
    PutWithRoot failing_nenv 5 r (demo_cid 12) [7, 8] (demo_cid 1) 0 demo_nbs = (Inl e, s') \<and>
    exact map_of s' \<and> map_of (blks s') = map_of (blks demo_nbs) \<and>
    PutWithRoot failing_nenv 5 r (demo_cid 13) [7, 8] (demo_cid 1) 0 demo_nbs = (Inr (), s'') \<and>
    exact map_of s'' \<and> map_of (blks s'') = (map_of (blks demo_nbs))([13] \<mapsto> [7, 8])"
proof -
  have E: "put_laws failing_nenv map_of"
    by (auto simp: put_laws_def failing_nenv_def mem_nenv_def finite_dom_map_of)
  obtain r where r: "Ring RingPublic = Some r" by (simp add: Ring_def Let_def)
  obtain res s' where p: "PutWithRoot failing_nenv 5 r (demo_cid 12) [7, 8] (demo_cid 1) 0 demo_nbs = (res, s')" by fastforce
  obtain res2 s'' where q: "PutWithRoot failing_nenv 5 r (demo_cid 13) [7, 8] (demo_cid 1) 0 demo_nbs = (res2, s'')" by fastforce
  have "fst (PutWithRoot failing_nenv 5 (the (Ring RingPublic)) (demo_cid 12) [7, 8] (demo_cid 1) 0 demo_nbs) \<noteq> Inr ()" by code_simp
  moreover have "fst (PutWithRoot failing_nenv 5 (the (Ring RingPublic)) (demo_cid 13) [7, 8] (demo_cid 1) 0 demo_nbs) = Inr ()" by code_simp
  ultimately have res: "res \<noteq> Inr ()" "res2 = Inr ()" using r p q by simp_all
  then obtain e where "res = Inl e" by (cases res) auto
  moreover have n: "map_of (blks demo_nbs) (Hash (demo_cid 12)) \<in> {None, Some [7, 8]}" "map_of (blks demo_nbs) (Hash (demo_cid 13)) \<in> {None, Some [7, 8]}"
    by (simp_all add: demo_nbs_def demo_cid_def)
  moreover have "exact map_of s' \<and> map_of (blks s') = map_of (blks demo_nbs)"
    using PutWithRoot_exact [OF E demo_exact n(1) p] res by simp
  moreover have "exact map_of s'' \<and> map_of (blks s'') = (map_of (blks demo_nbs))([13] \<mapsto> [7, 8])"
    using PutWithRoot_exact [OF E demo_exact n(2) q] res by (simp add: demo_cid_def)
  ultimately show ?thesis using r p q res by blast
qed

section \<open>Garbage collection\<close>

text \<open>
  C25. Garbage collection over reliable stores does not fail; afterwards the store holds
  exactly the blocks that, once expired roots are pruned, some index entry ties to a root
  that is still listed as live, and the aggregate counters are exact again.
\<close>

theorem gc_exact:
  assumes "ds_laws E A" "blk_laws E B" "ds_wf A (ds s)" "exact B s" "B (blks s) [] = None"
  shows "\<exists>g s'. nbs_GC E now s = (Inr g, s') \<and> exact B s' \<and>
    (\<forall>k. B (blks s') (Hash k) =
       (if gc_live E now k (snd (PruneExpiredRoots E now s)) then B (blks s) (Hash k) else None))"
  using assms by (rule gc_sweeps)

theorem gc_exact_witness:
  "\<exists>g s'. nbs_GC mem_nenv 5 demo_nbs = (Inr g, s') \<and> exact map_of s' \<and>
     map_of (blks s') [10] = Some [1, 2] \<and> map_of (blks s') [11] = None"
proof -
  have ne: "map_of (blks demo_nbs) [] = None" by (simp add: demo_nbs_def)
  obtain g s' where s': "nbs_GC mem_nenv 5 demo_nbs = (Inr g, s')" "exact map_of s'"
    "\<And>k. map_of (blks s') (Hash k) =
       (if gc_live mem_nenv 5 k (snd (PruneExpiredRoots mem_nenv 5 demo_nbs)) then map_of (blks demo_nbs) (Hash k) else None)"
    using gc_exact [OF mem_ds_laws mem_blk_laws demo_wf demo_exact ne, of 5] by blast
  have "gc_live mem_nenv 5 (demo_cid 10) (snd (PruneExpiredRoots mem_nenv 5 demo_nbs))" by code_simp
  moreover have "\<not> gc_live mem_nenv 5 (demo_cid 11) (snd (PruneExpiredRoots mem_nenv 5 demo_nbs))" by code_simp
  ultimately show ?thesis
    using s'(1,2) s'(3) [of "demo_cid 10"] s'(3) [of "demo_cid 11"] by (simp add: demo_cid_def demo_nbs_def)
qed

text \<open>
  C26. Garbage collection never loses a block in use: a block with an unexpired root in
  some known ring is still stored, with the same content, after a collection.
\<close>

theorem gc_keeps_live:
  assumes "ds_laws E A" "blk_laws E B" "ds_wf A (ds s)" "exact B s" "B (blks s) [] = None"
    and "BlockHasLiveRootAnyRing E now k s" "B (blks s) (Hash k) = Some data"
  shows "B (blks (snd (nbs_GC E now s))) (Hash k) = Some data"
proof -
  have "Hash k \<noteq> []" using assms(5,7) by auto
  then have "gc_live E now k (snd (PruneExpiredRoots E now s))"
    using live_root_kept [OF assms(1,3) _ assms(6)] by blast
  then show ?thesis using gc_sweeps [OF assms(1-5), of now] assms(7) by auto
qed

theorem gc_keeps_live_witness:
  "map_of (blks (snd (nbs_GC mem_nenv 5 demo_nbs))) (Hash (demo_cid 10)) = Some [1, 2]"
proof (rule gc_keeps_live [OF mem_ds_laws mem_blk_laws demo_wf demo_exact])
  show "map_of (blks demo_nbs) [] = None" by (simp add: demo_nbs_def)
  show "BlockHasLiveRootAnyRing mem_nenv 5 (demo_cid 10) demo_nbs" by code_simp
  show "map_of (blks demo_nbs) (Hash (demo_cid 10)) = Some [1, 2]" by (simp add: demo_nbs_def demo_cid_def)
qed

end
