(* ===== verification/Node_Data.thy ===== *)
theory Node_Data
  imports Chord_Props Record_Store Net_Contract
begin

text \<open>
  The full node: the Chord routing state of \<open>Chord_Node\<close> together with its blocks and its
  records, and the operations of \<open>dht/node.go\<close> and \<open>dht/local.go\<close> that move them between
  nodes: put, get, has, remove, replication, key transfer, join and leave.

  A node keeps its blocks in a plain \<open>BlockStore\<close>, or in the network block store once
  \<open>SetNetworkBlocks\<close> has been called. The operations of the stores, the codecs and the
  clocks are fields of the environment: \<open>clock\<close> is the time in nanoseconds the network block store
  reads, \<open>nowNs\<close> the time of the record tables (\<open>Node.now\<close>), \<open>wallNs\<close> the wall clock.
  \<open>DecodeLinks\<close> is the DAG-PB decoder of the merkledag package.
\<close>

section \<open>State\<close>

datatype ('m, 'd, 'b) bstore = Plain 'm | Net "('d, 'b) nbs"

record ('m, 'd, 'b, 'l) denv =
  plain :: "'m bs_ops"
  netE :: "('d, 'b) nenv"
  locE :: "'l bs_ops"
  rx :: ext
  clock :: int
  nowNs :: int
  wallNs :: int
  DecodeLinks :: "bytes \<Rightarrow> cid \<Rightarrow> cid list res"

record ('m, 'd, 'b, 'l) dnode = node +
  blocks :: "('m, 'd, 'b) bstore"
  localBlocks :: "'l option"
  ringID :: string
  recs :: rec_state
  replicationsInFlight :: nat
  replicationsDropped :: nat

type_synonym ('m, 'd, 'b, 'l) world = "('m, 'd, 'b, 'l, unit) dnode_ext ring"

abbreviation defaultReplicationConcurrency :: nat where "defaultReplicationConcurrency \<equiv> 64"
abbreviation defaultPushBlocksChunkSize :: nat where "defaultPushBlocksChunkSize \<equiv> 16"
abbreviation defaultBlocksInFlight :: nat where "defaultBlocksInFlight \<equiv> 64"

definition NewDNode :: "NodeID \<Rightarrow> string \<Rightarrow> 'm \<Rightarrow> Config \<Rightarrow> ('m, 'd, 'b, 'l) dnode" where
  "NewDNode i a m cfg = node.extend (NewNode i a cfg)
     (dnode.fields (Plain m) None RingPublic (new_records cfg) 0 0)"

definition SetNetworkBlocks :: "('d, 'b) nbs \<Rightarrow> ('m, 'd, 'b, 'l) dnode \<Rightarrow> ('m, 'd, 'b, 'l) dnode" where
  "SetNetworkBlocks s n = n\<lparr>blocks := Net s\<rparr>"

definition SetRingID :: "string \<Rightarrow> ('m, 'd, 'b, 'l) dnode \<Rightarrow> ('m, 'd, 'b, 'l) dnode" where
  "SetRingID r n = n\<lparr>ringID := (if r = [] then RingPublic else r)\<rparr>"

definition SetLocalBlocks :: "'l \<Rightarrow> ('m, 'd, 'b, 'l) dnode \<Rightarrow> ('m, 'd, 'b, 'l) dnode" where
  "SetLocalBlocks l n = n\<lparr>localBlocks := Some l\<rparr>"

definition ringStore :: "('m, 'd, 'b, 'l) dnode \<Rightarrow> (RingView \<times> ('d, 'b) nbs) option" where
  "ringStore n =
     (case blocks n of
        Plain _ \<Rightarrow> None
      | Net s \<Rightarrow> (case Ring (ringID n) of Some rv \<Rightarrow> Some (rv, s) | None \<Rightarrow> None))"

definition CIDToNodeID :: "ext \<Rightarrow> cid \<Rightarrow> NodeID" where
  "CIDToNodeID X c = sha1_Sum X (Hash c)"

section \<open>The block store of a node\<close>

definition b_Put :: "('m, 'd, 'b, 'l) denv \<Rightarrow> cid \<Rightarrow> bytes \<Rightarrow> ('m, 'd, 'b) bstore \<Rightarrow> unit res \<times> ('m, 'd, 'b) bstore" where
  "b_Put E k d bs =
     (case bs of
        Plain m \<Rightarrow> map_prod id Plain (bs_Put (plain E) k d m)
      | Net s \<Rightarrow> map_prod id Net (nbs_Put (netE E) k d s))"

definition b_Get :: "('m, 'd, 'b, 'l) denv \<Rightarrow> cid \<Rightarrow> ('m, 'd, 'b) bstore \<Rightarrow> bytes res \<times> ('m, 'd, 'b) bstore" where
  "b_Get E k bs =
     (case bs of
        Plain m \<Rightarrow> map_prod id Plain (bs_Get (plain E) k m)
      | Net s \<Rightarrow> (nbs_Get (netE E) k s, bs))"

definition b_Delete :: "('m, 'd, 'b, 'l) denv \<Rightarrow> cid \<Rightarrow> ('m, 'd, 'b) bstore \<Rightarrow> unit res \<times> ('m, 'd, 'b) bstore" where
  "b_Delete E k bs =
     (case bs of
        Plain m \<Rightarrow> map_prod id Plain (bs_Delete (plain E) k m)
      | Net s \<Rightarrow> map_prod id Net (nbs_Delete (netE E) k s))"

definition b_Has :: "('m, 'd, 'b, 'l) denv \<Rightarrow> cid \<Rightarrow> ('m, 'd, 'b) bstore \<Rightarrow> bool res" where
  "b_Has E k bs =
     (case bs of Plain m \<Rightarrow> bs_Has (plain E) k m | Net s \<Rightarrow> nbs_Has (netE E) k s)"

definition b_AllKeys :: "('m, 'd, 'b, 'l) denv \<Rightarrow> ('m, 'd, 'b) bstore \<Rightarrow> cid list res" where
  "b_AllKeys E bs =
     (case bs of Plain m \<Rightarrow> bs_AllKeys (plain E) m | Net s \<Rightarrow> nbs_AllKeysChan (netE E) s)"

text \<open>
  The step shared by the local branch of \<open>PutWithRoot\<close> and by the \<open>PutBlock\<close> call: store
  under the root in the ring of the node, or in the plain store.
\<close>

definition store_block ::
  "('m, 'd, 'b, 'l) denv \<Rightarrow> cid \<Rightarrow> bytes \<Rightarrow> cid \<Rightarrow> int \<Rightarrow> ('m, 'd, 'b, 'l) dnode \<Rightarrow> unit res \<times> ('m, 'd, 'b, 'l) dnode" where
  "store_block E key data rootCID rootExpiry n =
     (case ringStore n of
        Some (rv, s) \<Rightarrow>
          (let (r, s') = PutWithRoot (netE E) (clock E) rv key data rootCID rootExpiry s
           in (r, n\<lparr>blocks := Net s'\<rparr>))
      | None \<Rightarrow> (let (r, b) = b_Put E key data (blocks n) in (r, n\<lparr>blocks := b\<rparr>)))"

text \<open>The keys a node holds for its ring, and the root entries that travel with a block.\<close>

definition ring_keys :: "('m, 'd, 'b, 'l) denv \<Rightarrow> ('m, 'd, 'b, 'l) dnode \<Rightarrow> cid list res" where
  "ring_keys E n =
     (case ringStore n of
        Some (rv, s) \<Rightarrow> Blocks (netE E) rv s
      | None \<Rightarrow> b_AllKeys E (blocks n))"

definition roots_of :: "('m, 'd, 'b, 'l) denv \<Rightarrow> ('m, 'd, 'b, 'l) dnode \<Rightarrow> cid \<Rightarrow> NetworkRootEntry list" where
  "roots_of E n key =
     (case ringStore n of
        Some (rv, s) \<Rightarrow> RootsForBlockEntries (netE E) rv key s
      | None \<Rightarrow> [])"

definition DataCount :: "('m, 'd, 'b, 'l) denv \<Rightarrow> ('m, 'd, 'b, 'l) dnode \<Rightarrow> nat" where
  "DataCount E n = (case b_AllKeys E (blocks n) of Inl _ \<Rightarrow> 0 | Inr ks \<Rightarrow> length ks)"

section \<open>Receiving pushed blocks\<close>

type_synonym pushed = "cid \<times> bytes \<times> NetworkRootEntry list"

definition add_roots ::
  "('d, 'b) nenv \<Rightarrow> RingView \<Rightarrow> cid \<Rightarrow> NetworkRootEntry list \<Rightarrow> ('d, 'b) nbs \<Rightarrow> ('d, 'b) nbs" where
  "add_roots N rv key nrs s =
     foldl (\<lambda>s nr. AddBlockRootIndex N rv key (nr_CID nr) (AddRootWithExpiry N rv (nr_CID nr) (nr_ExpiresAt nr) s)) s nrs"

definition push_one ::
  "('m, 'd, 'b, 'l) denv \<Rightarrow> pushed \<Rightarrow> ('m, 'd, 'b, 'l) dnode \<Rightarrow> unit res \<times> ('m, 'd, 'b, 'l) dnode" where
  "push_one E x n =
     (case x of (key, data, roots) \<Rightarrow>
        case (ringStore n, roots) of
          (Some (rv, s), nr # rest) \<Rightarrow>
            (case cid_Parse (netE E) (nr_CID nr) of
               Inr rc \<Rightarrow>
                 (case PutWithRoot (netE E) (clock E) rv key data rc (nr_ExpiresAt nr) s of
                    (Inl e, s') \<Rightarrow> (Inl e, n\<lparr>blocks := Net s'\<rparr>)
                  | (Inr _, s') \<Rightarrow> (Inr (), n\<lparr>blocks := Net (add_roots (netE E) rv key rest s')\<rparr>))
             | Inl _ \<Rightarrow> (let (r, b) = b_Put E key data (blocks n) in (r, n\<lparr>blocks := b\<rparr>)))
        | _ \<Rightarrow> (let (r, b) = b_Put E key data (blocks n) in (r, n\<lparr>blocks := b\<rparr>)))"

text \<open>The loop of \<open>PushBlocks\<close>: a full store skips the block, another error ends the call.\<close>

fun push_loop ::
  "('m, 'd, 'b, 'l) denv \<Rightarrow> pushed list \<Rightarrow> nat \<Rightarrow> ('m, 'd, 'b, 'l) dnode \<Rightarrow> nat res \<times> ('m, 'd, 'b, 'l) dnode" where
  "push_loop E [] stored n = (Inr stored, n)"
| "push_loop E (x # xs) stored n =
     (case push_one E x n of
        (Inr _, n') \<Rightarrow> push_loop E xs (Suc stored) n'
      | (Inl e, n') \<Rightarrow> if IsStorageFull (Some e) then push_loop E xs stored n' else (Inl e, n'))"

definition push_blocks ::
  "('m, 'd, 'b, 'l) denv \<Rightarrow> pushed list \<Rightarrow> ('m, 'd, 'b, 'l) dnode \<Rightarrow> unit res \<times> ('m, 'd, 'b, 'l) dnode" where
  "push_blocks E xs n =
     (case push_loop E xs 0 n of
        (Inl e, n') \<Rightarrow> (Inl e, n')
      | (Inr stored, n') \<Rightarrow> if stored = 0 \<and> xs \<noteq> [] then (Inl ErrStorageFull, n') else (Inr (), n'))"

definition lt_PushBlocks ::
  "('m, 'd, 'b, 'l) denv \<Rightarrow> NodeID \<Rightarrow> NodeAddr \<Rightarrow> pushed list \<Rightarrow> ('m, 'd, 'b, 'l) world \<Rightarrow> unit res \<times> ('m, 'd, 'b, 'l) world" where
  "lt_PushBlocks E me target xs w =
     (case lt_resolve w me target of
        Inl e \<Rightarrow> (Inl e, w)
      | Inr n \<Rightarrow> (let (r, n') = push_blocks E xs n in (r, put_node (ID target) n' w)))"

section \<open>Replication of a stored block\<close>

definition replica_roots :: "('m, 'd, 'b, 'l) denv \<Rightarrow> cid \<Rightarrow> int \<Rightarrow> NetworkRootEntry list" where
  "replica_roots E rootCID rootExpiry =
     (if Defined rootCID
      then [\<lparr>nr_CID = cid_String (netE E) rootCID, nr_ExpiresAt = rootExpiry\<rparr>] else [])"

text \<open>The successors a node replicates to: the first \<open>replication - 1\<close>, itself excepted.\<close>

definition replica_targets :: "'a node_scheme \<Rightarrow> NodeAddr list" where
  "replica_targets n =
     filter (\<lambda>s. ID s \<noteq> node_id n) (take (nat (replication n - 1)) (successorList n))"

text \<open>
  \<open>replicateAndReport\<close> waits for its pushes, so they run here in the order of the targets;
  the result counts the pushes that succeeded and the targets.
\<close>

fun report_loop ::
  "('m, 'd, 'b, 'l) denv \<Rightarrow> NodeID \<Rightarrow> pushed \<Rightarrow> NodeAddr list \<Rightarrow> nat \<Rightarrow> ('m, 'd, 'b, 'l) world \<Rightarrow> nat \<times> ('m, 'd, 'b, 'l) world" where
  "report_loop E me x [] ok w = (ok, w)"
| "report_loop E me x (t # ts) ok w =
     (case lt_PushBlocks E me t [x] w of
        (Inr _, w') \<Rightarrow> report_loop E me x ts (Suc ok) w'
      | (Inl _, w') \<Rightarrow> report_loop E me x ts ok w')"

definition replicateAndReport ::
  "('m, 'd, 'b, 'l) denv \<Rightarrow> NodeID \<Rightarrow> cid \<Rightarrow> bytes \<Rightarrow> cid \<Rightarrow> int \<Rightarrow> ('m, 'd, 'b, 'l) world \<Rightarrow> (nat \<times> nat) \<times> ('m, 'd, 'b, 'l) world" where
  "replicateAndReport E me key data rootCID rootExpiry w =
     (case w_node w me of
        None \<Rightarrow> ((0, 0), w)
      | Some n \<Rightarrow>
          if replication n \<le> 1 then ((0, 0), w)
          else
            let (ok, w') = report_loop E me (key, data, replica_roots E rootCID rootExpiry) (replica_targets n) 0 w
            in ((ok, length (replica_targets n)), w'))"

text \<open>
  \<open>replicateAsync\<close> starts one push per target; when \<open>defaultReplicationConcurrency\<close> pushes are
  in flight the target is skipped and counted.
\<close>

fun async_loop ::
  "pushed \<Rightarrow> NodeAddr list \<Rightarrow> ('m, 'd, 'b, 'l) dnode \<Rightarrow> ('m, 'd, 'b, 'l) dnode \<times> task list" where
  "async_loop x [] n = (n, [])"
| "async_loop x (t # ts) n =
     (if defaultReplicationConcurrency \<le> replicationsInFlight n
      then async_loop x ts (n\<lparr>replicationsDropped := Suc (replicationsDropped n)\<rparr>)
      else
        let (n', tasks) = async_loop x ts (n\<lparr>replicationsInFlight := Suc (replicationsInFlight n)\<rparr>)
        in (n', PushTask t (fst x) (fst (snd x)) (snd (snd x)) # tasks))"

definition replicateAsync ::
  "('m, 'd, 'b, 'l) denv \<Rightarrow> cid \<Rightarrow> bytes \<Rightarrow> cid \<Rightarrow> int \<Rightarrow> ('m, 'd, 'b, 'l) dnode \<Rightarrow> ('m, 'd, 'b, 'l) dnode \<times> task list" where
  "replicateAsync E key data rootCID rootExpiry n =
     (if replication n \<le> 1 then (n, [])
      else async_loop (key, data, replica_roots E rootCID rootExpiry) (replica_targets n) n)"

section \<open>The block calls of the transport\<close>

definition lt_PutBlock ::
  "('m, 'd, 'b, 'l) denv \<Rightarrow> NodeID \<Rightarrow> NodeAddr \<Rightarrow> cid \<Rightarrow> bytes \<Rightarrow> cid \<Rightarrow> int \<Rightarrow> ('m, 'd, 'b, 'l) world \<Rightarrow> unit res \<times> ('m, 'd, 'b, 'l) world" where
  "lt_PutBlock E me target key data rootCID rootExpiry w =
     (case lt_resolve w me target of
        Inl e \<Rightarrow> (Inl e, w)
      | Inr n \<Rightarrow>
          (case store_block E key data rootCID rootExpiry n of
             (Inr _, n') \<Rightarrow>
               (Inr (), on_node (ID target) (replicateAsync E key data rootCID rootExpiry) (put_node (ID target) n' w))
           | (Inl e, n') \<Rightarrow>
               if \<not> IsStorageFull (Some e) then (Inl e, put_node (ID target) n' w)
               else
                 let ((ok, _), w') = replicateAndReport E (ID target) key data rootCID rootExpiry (put_node (ID target) n' w)
                 in if ok = 0 then (Inl ErrStorageFull, w') else (Inr (), w')))"

definition lt_ReconcileBlocks ::
  "('m, 'd, 'b, 'l) denv \<Rightarrow> NodeID \<Rightarrow> NodeAddr \<Rightarrow> cid list \<Rightarrow> ('m, 'd, 'b, 'l) world \<Rightarrow> cid list res" where
  "lt_ReconcileBlocks E me target keys w =
     (case lt_resolve w me target of
        Inl e \<Rightarrow> Inl e
      | Inr n \<Rightarrow> Inr (filter (\<lambda>k. b_Has E k (blocks n) \<noteq> Inr True) keys))"

definition node_Get ::
  "('m, 'd, 'b, 'l) denv \<Rightarrow> cid \<Rightarrow> ('m, 'd, 'b, 'l) dnode \<Rightarrow> bytes res \<times> ('m, 'd, 'b, 'l) dnode" where
  "node_Get E key n = (let (r, b) = b_Get E key (blocks n) in (r, n\<lparr>blocks := b\<rparr>))"

definition local_Get ::
  "('m, 'd, 'b, 'l) denv \<Rightarrow> cid \<Rightarrow> ('m, 'd, 'b, 'l) dnode \<Rightarrow> bytes res \<times> ('m, 'd, 'b, 'l) dnode" where
  "local_Get E key n =
     (case localBlocks n of
        None \<Rightarrow> (Inl (Errorf ''block not found''), n)
      | Some l \<Rightarrow> (let (r, l') = bs_Get (locE E) key l in (r, n\<lparr>localBlocks := Some l'\<rparr>)))"

text \<open>The network store first, then the local store when there is one.\<close>

definition own_Get ::
  "('m, 'd, 'b, 'l) denv \<Rightarrow> cid \<Rightarrow> ('m, 'd, 'b, 'l) dnode \<Rightarrow> bytes res \<times> ('m, 'd, 'b, 'l) dnode" where
  "own_Get E key n =
     (case node_Get E key n of
        (Inr d, n') \<Rightarrow> (Inr d, n')
      | (Inl _, n') \<Rightarrow> local_Get E key n')"

fun fetch_succs ::
  "('m, 'd, 'b, 'l) denv \<Rightarrow> NodeID \<Rightarrow> cid \<Rightarrow> NodeAddr list \<Rightarrow> ('m, 'd, 'b, 'l) world \<Rightarrow> bytes res \<times> ('m, 'd, 'b, 'l) world" where
  "fetch_succs E me key [] w = (Inl (Errorf ''block not found''), w)"
| "fetch_succs E me key (s # ss) w =
     (if ID s = me then fetch_succs E me key ss w
      else
        case getNode w me (ID s) of
          None \<Rightarrow> fetch_succs E me key ss w
        | Some peer \<Rightarrow>
            (case node_Get E key peer of
               (Inr d, p) \<Rightarrow> (Inr d, put_node (ID s) p w)
             | (Inl _, p) \<Rightarrow> fetch_succs E me key ss (put_node (ID s) p w)))"

definition lt_FetchBlock ::
  "('m, 'd, 'b, 'l) denv \<Rightarrow> NodeID \<Rightarrow> NodeAddr \<Rightarrow> cid \<Rightarrow> ('m, 'd, 'b, 'l) world \<Rightarrow> bytes res \<times> ('m, 'd, 'b, 'l) world" where
  "lt_FetchBlock E me target key w =
     (case lt_resolve w me target of
        Inl e \<Rightarrow> (Inl e, w)
      | Inr n \<Rightarrow>
          (case own_Get E key n of
             (Inr d, n') \<Rightarrow> (Inr d, put_node (ID target) n' w)
           | (Inl _, n') \<Rightarrow> fetch_succs E (node_id n) key (successorList n) (put_node (ID target) n' w)))"

definition lt_HasBlock ::
  "('m, 'd, 'b, 'l) denv \<Rightarrow> NodeID \<Rightarrow> NodeAddr \<Rightarrow> cid \<Rightarrow> ('m, 'd, 'b, 'l) world \<Rightarrow> bool res" where
  "lt_HasBlock E me target key w =
     (case lt_resolve w me target of
        Inl e \<Rightarrow> Inl e
      | Inr n \<Rightarrow>
          if b_Has E key (blocks n) = Inr True then Inr True
          else
            case localBlocks n of
              Some l \<Rightarrow> bs_Has (locE E) key l
            | None \<Rightarrow> b_Has E key (blocks n))"

definition lt_RemoveBlock ::
  "('m, 'd, 'b, 'l) denv \<Rightarrow> NodeID \<Rightarrow> NodeAddr \<Rightarrow> cid \<Rightarrow> ('m, 'd, 'b, 'l) world \<Rightarrow> unit res \<times> ('m, 'd, 'b, 'l) world" where
  "lt_RemoveBlock E me target key w =
     (case lt_resolve w me target of
        Inl e \<Rightarrow> (Inl e, w)
      | Inr n \<Rightarrow> (let (r, b) = b_Delete E key (blocks n) in (r, put_node (ID target) (n\<lparr>blocks := b\<rparr>) w)))"

section \<open>Moving ranges of keys\<close>

definition enumerateRingKeysInRange ::
  "('m, 'd, 'b, 'l) denv \<Rightarrow> NodeID \<Rightarrow> NodeID \<Rightarrow> bool \<Rightarrow> ('m, 'd, 'b, 'l) dnode \<Rightarrow> cid list res" where
  "enumerateRingKeysInRange E from to filterByRange n =
     (case ring_keys E n of
        Inl e \<Rightarrow> Inl e
      | Inr ks \<Rightarrow>
          Inr (filter (\<lambda>k. filterByRange \<longrightarrow> BetweenRightInclusive (CIDToNodeID (rx E) k) from to) ks))"

text \<open>Reading the blocks of a list of keys with their roots; a key that cannot be read is left out.\<close>

fun read_blocks ::
  "('m, 'd, 'b, 'l) denv \<Rightarrow> cid list \<Rightarrow> ('m, 'd, 'b, 'l) dnode \<Rightarrow> pushed list \<times> ('m, 'd, 'b, 'l) dnode" where
  "read_blocks E [] n = ([], n)"
| "read_blocks E (k # ks) n =
     (case node_Get E k n of
        (Inl _, n1) \<Rightarrow> read_blocks E ks n1
      | (Inr d, n1) \<Rightarrow> (let (xs, n2) = read_blocks E ks n1 in ((k, d, roots_of E n1 k) # xs, n2)))"

definition collectRingBlocksInRange ::
  "('m, 'd, 'b, 'l) denv \<Rightarrow> NodeID \<Rightarrow> NodeID \<Rightarrow> ('m, 'd, 'b, 'l) dnode \<Rightarrow> pushed list res \<times> ('m, 'd, 'b, 'l) dnode" where
  "collectRingBlocksInRange E from to n =
     (case enumerateRingKeysInRange E from to True n of
        Inl e \<Rightarrow> (Inl e, n)
      | Inr ks \<Rightarrow> (let (xs, n') = read_blocks E ks n in (Inr xs, n')))"

definition acquireBlockSlots :: "nat \<Rightarrow> err option" where
  "acquireBlockSlots weight =
     (if defaultBlocksInFlight < weight
      then Some (Errorf ''blocksInFlight: requested weight exceeds pool capacity'') else None)"

definition push_chunk ::
  "('m, 'd, 'b, 'l) denv \<Rightarrow> NodeID \<Rightarrow> NodeAddr \<Rightarrow> cid list \<Rightarrow> ('m, 'd, 'b, 'l) world \<Rightarrow> ('m, 'd, 'b, 'l) world" where
  "push_chunk E me target ks w =
     (case w_node w me of
        None \<Rightarrow> w
      | Some n \<Rightarrow>
          (let (xs, n') = read_blocks E ks n;
               w1 = put_node me n' w
           in if xs = [] then w1 else snd (lt_PushBlocks E me target xs w1)))"

function pushBlocksChunkedToTarget ::
  "('m, 'd, 'b, 'l) denv \<Rightarrow> NodeID \<Rightarrow> NodeAddr \<Rightarrow> cid list \<Rightarrow> ('m, 'd, 'b, 'l) world \<Rightarrow> ('m, 'd, 'b, 'l) world" where
  "pushBlocksChunkedToTarget E me target keys w =
     (if keys = [] then w
      else
        let chunk = take defaultPushBlocksChunkSize keys in
        case acquireBlockSlots (length chunk) of
          Some _ \<Rightarrow> w
        | None \<Rightarrow>
            pushBlocksChunkedToTarget E me target (drop defaultPushBlocksChunkSize keys)
              (push_chunk E me target chunk w))"
  by pat_completeness auto
termination by (relation "measure (\<lambda>(E, me, target, keys, w). length keys)") auto

declare pushBlocksChunkedToTarget.simps [simp del]

definition push_target ::
  "('m, 'd, 'b, 'l) denv \<Rightarrow> NodeID \<Rightarrow> cid list \<Rightarrow> ('m, 'd, 'b, 'l) world \<Rightarrow> NodeAddr \<Rightarrow> ('m, 'd, 'b, 'l) world" where
  "push_target E me keys w target =
     (let missing = (case lt_ReconcileBlocks E me target keys w of Inl _ \<Rightarrow> keys | Inr ms \<Rightarrow> ms)
      in if missing = [] then w else pushBlocksChunkedToTarget E me target missing w)"

definition pushBlocksChunked ::
  "('m, 'd, 'b, 'l) denv \<Rightarrow> NodeID \<Rightarrow> NodeAddr list \<Rightarrow> cid list \<Rightarrow> ('m, 'd, 'b, 'l) world \<Rightarrow> ('m, 'd, 'b, 'l) world" where
  "pushBlocksChunked E me targets keys w =
     (if keys = [] \<or> targets = [] then w else foldl (push_target E me keys) w targets)"

definition transferKeysRange ::
  "('m, 'd, 'b, 'l) denv \<Rightarrow> NodeID \<Rightarrow> NodeAddr \<Rightarrow> NodeID \<Rightarrow> NodeID \<Rightarrow> ('m, 'd, 'b, 'l) world \<Rightarrow> ('m, 'd, 'b, 'l) world" where
  "transferKeysRange E me target from to w =
     (case w_node w me of
        None \<Rightarrow> w
      | Some n \<Rightarrow>
          (case enumerateRingKeysInRange E from to True n of
             Inl _ \<Rightarrow> w
           | Inr keys \<Rightarrow> if keys = [] then w else pushBlocksChunked E me [target] keys w))"

text \<open>
  \<open>replicateToNewSuccessors\<close>: to the replica successors that were not in the old window, or
  to all of them once the predecessor has changed.
\<close>

definition new_targets :: "bool \<Rightarrow> NodeAddr list \<Rightarrow> NodeAddr list \<Rightarrow> 'a node_scheme \<Rightarrow> NodeAddr list" where
  "new_targets predChanged oldList newList n =
     filter (\<lambda>s. ID s \<noteq> node_id n \<and>
               (predChanged \<or> ID s \<notin> ID ` set (take (nat (replication n - 1)) oldList)))
       (take (nat (replication n - 1)) newList)"

definition track_predecessor :: "'a node_scheme \<Rightarrow> bool \<times> 'a node_scheme" where
  "track_predecessor n =
     (case predecessor n of
        Some p \<Rightarrow> if ID p \<noteq> prevPredID n then (True, n\<lparr>prevPredID := ID p\<rparr>) else (False, n)
      | None \<Rightarrow> (False, n))"

definition replicateToNewSuccessors ::
  "('m, 'd, 'b, 'l) denv \<Rightarrow> NodeID \<Rightarrow> NodeAddr list \<Rightarrow> NodeAddr list \<Rightarrow> ('m, 'd, 'b, 'l) world \<Rightarrow> ('m, 'd, 'b, 'l) world" where
  "replicateToNewSuccessors E me oldList newList w =
     (case w_node w me of
        None \<Rightarrow> w
      | Some n \<Rightarrow>
          if replication n \<le> 1 then w
          else
            let pred = predecessor n;
                (predChanged, n1) = track_predecessor n;
                w1 = put_node me n1 w;
                targets = new_targets predChanged oldList newList n1
            in if targets = [] then w1
               else
                 case enumerateRingKeysInRange E (case pred of Some p \<Rightarrow> ID p | None \<Rightarrow> zeroID)
                        me (pred \<noteq> None) n1 of
                   Inl _ \<Rightarrow> w1
                 | Inr keys \<Rightarrow> if keys = [] then w1 else pushBlocksChunked E me targets keys w1)"

text \<open>
  Giving a key up: the ring forgets it, and its bytes go once no ring holds a live root for it.
\<close>

definition drop_key :: "('m, 'd, 'b, 'l) denv \<Rightarrow> cid \<Rightarrow> ('m, 'd, 'b, 'l) dnode \<Rightarrow> ('m, 'd, 'b, 'l) dnode" where
  "drop_key E k n =
     (case ringStore n of
        Some (rv, s) \<Rightarrow>
          (let s1 = snd (DropBlock (netE E) rv k s) in
           n\<lparr>blocks := Net (if BlockHasLiveRootAnyRing (netE E) (clock E) k s1 then s1
                           else snd (nbs_Delete (netE E) k s1))\<rparr>)
      | None \<Rightarrow> n\<lparr>blocks := snd (b_Delete E k (blocks n))\<rparr>)"

definition lt_TransferKeys ::
  "('m, 'd, 'b, 'l) denv \<Rightarrow> NodeID \<Rightarrow> NodeAddr \<Rightarrow> NodeID \<Rightarrow> NodeID \<Rightarrow> ('m, 'd, 'b, 'l) world \<Rightarrow> pushed list res \<times> ('m, 'd, 'b, 'l) world" where
  "lt_TransferKeys E me target from to w =
     (case lt_resolve w me target of
        Inl e \<Rightarrow> (Inl e, w)
      | Inr n \<Rightarrow>
          (case collectRingBlocksInRange E from to n of
             (Inl e, n') \<Rightarrow> (Inl e, put_node (ID target) n' w)
           | (Inr xs, n') \<Rightarrow>
               (Inr xs, put_node (ID target) (foldl (\<lambda>n x. drop_key E (fst x) n) n' xs) w)))"

definition PruneOutOfWindowBlocks ::
  "('m, 'd, 'b, 'l) denv \<Rightarrow> ('m, 'd, 'b, 'l) dnode \<Rightarrow> nat res \<times> ('m, 'd, 'b, 'l) dnode" where
  "PruneOutOfWindowBlocks E n =
     (if ringStore n = None \<or> replication n \<le> 1 then (Inr 0, n)
      else if predecessor n = None \<or> int (length (predecessorList n)) < replication n then (Inr 0, n)
      else
        let rangeLow = ID (predecessorList n ! nat (replication n - 1)) in
        case ring_keys E n of
          Inl e \<Rightarrow> (Inl e, n)
        | Inr keys \<Rightarrow>
            (let out = filter (\<lambda>k. \<not> BetweenRightInclusive (CIDToNodeID (rx E) k) rangeLow (node_id n)) keys
             in (Inr (length out), foldl (\<lambda>n k. drop_key E k n) n out)))"

section \<open>Records across nodes\<close>

definition put_records ::
  "('m, 'd, 'b, 'l) denv \<Rightarrow> (NodeID \<times> bytes) list \<Rightarrow> ('m, 'd, 'b, 'l) dnode \<Rightarrow> ('m, 'd, 'b, 'l) dnode" where
  "put_records E kvs n =
     n\<lparr>recs := foldl (\<lambda>st kv. localRecordPut (rx E) (nowNs E) (fst kv) (snd kv) st) (recs n) kvs\<rparr>"

definition lt_PushRecords ::
  "('m, 'd, 'b, 'l) denv \<Rightarrow> NodeID \<Rightarrow> NodeAddr \<Rightarrow> (NodeID \<times> bytes) list \<Rightarrow> ('m, 'd, 'b, 'l) world \<Rightarrow> unit res \<times> ('m, 'd, 'b, 'l) world" where
  "lt_PushRecords E me target kvs w =
     (case lt_resolve w me target of
        Inl e \<Rightarrow> (Inl e, w)
      | Inr n \<Rightarrow> (Inr (), put_node (ID target) (put_records E kvs n) w))"

definition lt_GetRecord ::
  "('m, 'd, 'b, 'l) denv \<Rightarrow> NodeID \<Rightarrow> NodeAddr \<Rightarrow> NodeID \<Rightarrow> ('m, 'd, 'b, 'l) world \<Rightarrow> bytes res" where
  "lt_GetRecord E me target key w =
     (case lt_resolve w me target of
        Inl e \<Rightarrow> Inl e
      | Inr n \<Rightarrow> localRecordGet (rx E) (nowNs E) key (recs n))"

definition lt_TransferRecords ::
  "NodeID \<Rightarrow> NodeAddr \<Rightarrow> NodeID \<Rightarrow> NodeID \<Rightarrow> ('m, 'd, 'b, 'l) world \<Rightarrow> (NodeID \<times> bytes) list res" where
  "lt_TransferRecords me target from to w =
     (case lt_resolve w me target of
        Inl e \<Rightarrow> Inl e
      | Inr n \<Rightarrow> Inr (getRecordsInRange from to (recs n)))"

definition replicateRecordBestEffort ::
  "('m, 'd, 'b, 'l) denv \<Rightarrow> NodeID \<Rightarrow> NodeID \<Rightarrow> bytes \<Rightarrow> ('m, 'd, 'b, 'l) world \<Rightarrow> ('m, 'd, 'b, 'l) world" where
  "replicateRecordBestEffort E me key data w =
     (case w_node w me of
        None \<Rightarrow> w
      | Some n \<Rightarrow>
          if replication n \<le> 1 then w
          else foldl (\<lambda>w s. snd (lt_PushRecords E me s [(key, data)] w)) w (replica_targets n))"

text \<open>The step shared by \<open>RecordPut\<close> on the responsible node and by the \<open>PutRecord\<close> call.\<close>

definition store_record ::
  "('m, 'd, 'b, 'l) denv \<Rightarrow> NodeID \<Rightarrow> ('m, 'd, 'b, 'l) dnode \<Rightarrow> NodeID \<Rightarrow> bytes \<Rightarrow> NodeID \<Rightarrow> ('m, 'd, 'b, 'l) world \<Rightarrow> unit res \<times> ('m, 'd, 'b, 'l) world" where
  "store_record E i n key data callerID w =
     (case storeRecord (rx E) (nowNs E) (wallNs E) key data callerID (recs n) of
        (Inl e, st) \<Rightarrow> (Inl e, put_node i (n\<lparr>recs := st\<rparr>) w)
      | (Inr _, st) \<Rightarrow> (Inr (), replicateRecordBestEffort E i key data (put_node i (n\<lparr>recs := st\<rparr>) w)))"

definition lt_PutRecord ::
  "('m, 'd, 'b, 'l) denv \<Rightarrow> NodeID \<Rightarrow> NodeAddr \<Rightarrow> NodeID \<Rightarrow> bytes \<Rightarrow> NodeID \<Rightarrow> ('m, 'd, 'b, 'l) world \<Rightarrow> unit res \<times> ('m, 'd, 'b, 'l) world" where
  "lt_PutRecord E me target key data callerID w =
     (case lt_resolve w me target of
        Inl e \<Rightarrow> (Inl e, w)
      | Inr n \<Rightarrow> store_record E (ID target) n key data callerID w)"

definition RecordPut ::
  "('m, 'd, 'b, 'l) denv \<Rightarrow> NodeID \<Rightarrow> NodeID \<Rightarrow> bytes \<Rightarrow> ('m, 'd, 'b, 'l) world \<Rightarrow> unit res \<times> ('m, 'd, 'b, 'l) world" where
  "RecordPut E me key data w =
     (case w_FindSuccessor me key w of
        (Inl e, w1) \<Rightarrow> (Inl (Wrap ''route record put'' e), w1)
      | (Inr responsible, w1) \<Rightarrow>
          if ID responsible = me
          then (case w_node w1 me of
                  None \<Rightarrow> (Inr (), w1)
                | Some n \<Rightarrow> store_record E me n key data me w1)
          else lt_PutRecord E me responsible key data me w1)"

definition RecordGet ::
  "('m, 'd, 'b, 'l) denv \<Rightarrow> NodeID \<Rightarrow> NodeID \<Rightarrow> ('m, 'd, 'b, 'l) world \<Rightarrow> bytes res \<times> ('m, 'd, 'b, 'l) world" where
  "RecordGet E me key w =
     (case w_FindSuccessor me key w of
        (Inl e, w1) \<Rightarrow> (Inl (Wrap ''route record get'' e), w1)
      | (Inr responsible, w1) \<Rightarrow>
          if ID responsible = me
          then (case w_node w1 me of
                  None \<Rightarrow> (Inl (Errorf ''record not found''), w1)
                | Some n \<Rightarrow> (localRecordGet (rx E) (nowNs E) key (recs n), w1))
          else (lt_GetRecord E me responsible key w1, w1))"

definition transferRecordsRange ::
  "('m, 'd, 'b, 'l) denv \<Rightarrow> NodeID \<Rightarrow> NodeAddr \<Rightarrow> NodeID \<Rightarrow> NodeID \<Rightarrow> ('m, 'd, 'b, 'l) world \<Rightarrow> ('m, 'd, 'b, 'l) world" where
  "transferRecordsRange E me target from to w =
     (case w_node w me of
        None \<Rightarrow> w
      | Some n \<Rightarrow>
          (let kvs = getRecordsInRange from to (recs n)
           in if kvs = [] then w else snd (lt_PushRecords E me target kvs w)))"

section \<open>Put, get, has and remove\<close>

definition n_PutWithRoot ::
  "('m, 'd, 'b, 'l) denv \<Rightarrow> NodeID \<Rightarrow> cid \<Rightarrow> bytes \<Rightarrow> cid \<Rightarrow> int \<Rightarrow> ('m, 'd, 'b, 'l) world \<Rightarrow> unit res \<times> ('m, 'd, 'b, 'l) world" where
  "n_PutWithRoot E me key data rootCID rootExpiry w =
     (case w_FindSuccessor me (CIDToNodeID (rx E) key) w of
        (Inl e, w1) \<Rightarrow> (Inl (Wrap ''route put'' e), w1)
      | (Inr responsible, w1) \<Rightarrow>
          if ID responsible = me
          then (case w_node w1 me of
                  None \<Rightarrow> (Inr (), w1)
                | Some n \<Rightarrow>
                    (case store_block E key data rootCID rootExpiry n of
                       (Inl e, n') \<Rightarrow> (Inl e, put_node me n' w1)
                     | (Inr _, n') \<Rightarrow>
                         (Inr (), on_node me (replicateAsync E key data rootCID rootExpiry) (put_node me n' w1))))
          else lt_PutBlock E me responsible key data rootCID rootExpiry w1)"

definition n_Put ::
  "('m, 'd, 'b, 'l) denv \<Rightarrow> NodeID \<Rightarrow> cid \<Rightarrow> bytes \<Rightarrow> ('m, 'd, 'b, 'l) world \<Rightarrow> unit res \<times> ('m, 'd, 'b, 'l) world" where
  "n_Put E me key data w = n_PutWithRoot E me key data Undef 0 w"

text \<open>
  On a local miss the owner asks all its successors at once and returns the first block that
  arrives. The order of arrival is the argument \<open>sched\<close>, a permutation of the targets. A block that
  the in-process transport returns is a slice of a store and not \<open>nil\<close>.
\<close>

fun fan_out ::
  "('m, 'd, 'b, 'l) denv \<Rightarrow> NodeID \<Rightarrow> cid \<Rightarrow> NodeAddr list \<Rightarrow> bytes res \<Rightarrow> ('m, 'd, 'b, 'l) world \<Rightarrow> bytes res \<times> ('m, 'd, 'b, 'l) world" where
  "fan_out E me key [] r w = (r, w)"
| "fan_out E me key (t # ts) r w =
     (let (r', w') = lt_FetchBlock E me t key w
      in fan_out E me key ts (case r of Inr _ \<Rightarrow> r | Inl _ \<Rightarrow> (case r' of Inr _ \<Rightarrow> r' | Inl _ \<Rightarrow> r)) w')"

definition n_Get ::
  "('m, 'd, 'b, 'l) denv \<Rightarrow> (NodeAddr list \<Rightarrow> NodeAddr list) \<Rightarrow> NodeID \<Rightarrow> cid \<Rightarrow> ('m, 'd, 'b, 'l) world \<Rightarrow> bytes res \<times> ('m, 'd, 'b, 'l) world" where
  "n_Get E sched me key w =
     (case w_FindSuccessor me (CIDToNodeID (rx E) key) w of
        (Inl e, w1) \<Rightarrow> (Inl (Wrap ''route get'' e), w1)
      | (Inr responsible, w1) \<Rightarrow>
          if ID responsible = me
          then (case w_node w1 me of
                  None \<Rightarrow> (Inl (Errorf ''block not found''), w1)
                | Some n \<Rightarrow>
                    (case own_Get E key n of
                       (Inr d, n') \<Rightarrow> (Inr d, put_node me n' w1)
                     | (Inl _, n') \<Rightarrow>
                         fan_out E me key (sched (filter (\<lambda>s. ID s \<noteq> me) (successorList n)))
                           (Inl (Errorf ''block not found'')) (put_node me n' w1)))
          else lt_FetchBlock E me responsible key w1)"

definition n_Has ::
  "('m, 'd, 'b, 'l) denv \<Rightarrow> NodeID \<Rightarrow> cid \<Rightarrow> ('m, 'd, 'b, 'l) world \<Rightarrow> bool res \<times> ('m, 'd, 'b, 'l) world" where
  "n_Has E me key w =
     (case w_FindSuccessor me (CIDToNodeID (rx E) key) w of
        (Inl e, w1) \<Rightarrow> (Inl (Wrap ''route has'' e), w1)
      | (Inr responsible, w1) \<Rightarrow>
          if ID responsible = me
          then (case w_node w1 me of
                  None \<Rightarrow> (Inr False, w1)
                | Some n \<Rightarrow> (b_Has E key (blocks n), w1))
          else (lt_HasBlock E me responsible key w1, w1))"

definition n_Remove ::
  "('m, 'd, 'b, 'l) denv \<Rightarrow> NodeID \<Rightarrow> cid \<Rightarrow> ('m, 'd, 'b, 'l) world \<Rightarrow> unit res \<times> ('m, 'd, 'b, 'l) world" where
  "n_Remove E me key w =
     (case w_FindSuccessor me (CIDToNodeID (rx E) key) w of
        (Inl e, w1) \<Rightarrow> (Inl (Wrap ''route remove'' e), w1)
      | (Inr responsible, w1) \<Rightarrow>
          if ID responsible = me
          then (case w_node w1 me of
                  None \<Rightarrow> (Inr (), w1)
                | Some n \<Rightarrow> (let (r, b) = b_Delete E key (blocks n) in (r, put_node me (n\<lparr>blocks := b\<rparr>) w1)))
          else lt_RemoveBlock E me responsible key w1)"

section \<open>Deleting a root from the ring\<close>

definition remove_root :: "('m, 'd, 'b, 'l) denv \<Rightarrow> cid \<Rightarrow> ('m, 'd, 'b, 'l) dnode \<Rightarrow> ('m, 'd, 'b, 'l) dnode" where
  "remove_root E rootCID n =
     (case ringStore n of
        Some (rv, s) \<Rightarrow> n\<lparr>blocks := Net (RemoveRootStr (netE E) rv (cid_String (netE E) rootCID) s)\<rparr>
      | None \<Rightarrow> n)"

text \<open>
  \<open>handleDeleteCID\<close> removes the root at the node and, when it propagates, calls \<open>DeleteCID\<close> of
  its replica successors without propagation, that is \<open>remove_root\<close> there.
\<close>

definition lt_DeleteCID_leaf ::
  "('m, 'd, 'b, 'l) denv \<Rightarrow> NodeID \<Rightarrow> cid \<Rightarrow> ('m, 'd, 'b, 'l) world \<Rightarrow> NodeAddr \<Rightarrow> ('m, 'd, 'b, 'l) world" where
  "lt_DeleteCID_leaf E me rootCID w target =
     (case lt_resolve w me target of
        Inl _ \<Rightarrow> w
      | Inr n \<Rightarrow> put_node (ID target) (remove_root E rootCID n) w)"

definition handleDeleteCID ::
  "('m, 'd, 'b, 'l) denv \<Rightarrow> NodeID \<Rightarrow> cid \<Rightarrow> bool \<Rightarrow> ('m, 'd, 'b, 'l) world \<Rightarrow> ('m, 'd, 'b, 'l) world" where
  "handleDeleteCID E me rootCID propagate w =
     (case w_node w me of
        None \<Rightarrow> w
      | Some n \<Rightarrow>
          (let w1 = put_node me (remove_root E rootCID n) w
           in if propagate then foldl (lt_DeleteCID_leaf E me rootCID) w1 (replica_targets n) else w1))"

definition lt_DeleteCID ::
  "('m, 'd, 'b, 'l) denv \<Rightarrow> NodeID \<Rightarrow> NodeAddr \<Rightarrow> cid \<Rightarrow> bool \<Rightarrow> ('m, 'd, 'b, 'l) world \<Rightarrow> ('m, 'd, 'b, 'l) world" where
  "lt_DeleteCID E me target rootCID propagate w =
     (case lt_resolve w me target of
        Inl _ \<Rightarrow> w
      | Inr _ \<Rightarrow> handleDeleteCID E (ID target) rootCID propagate w)"

abbreviation DagProtobuf :: nat where "DagProtobuf \<equiv> 112"

definition LinksOf :: "('m, 'd, 'b, 'l) denv \<Rightarrow> cid \<Rightarrow> bytes \<Rightarrow> cid list res" where
  "LinksOf E c data =
     (if Codec c \<noteq> DagProtobuf then Inr []
      else
        case NewBlockWithCid (netE E) data c of
          Some e \<Rightarrow> Inl e
        | None \<Rightarrow> DecodeLinks E data c)"

definition walk_data ::
  "('m, 'd, 'b, 'l) denv \<Rightarrow> cid \<Rightarrow> ('m, 'd, 'b, 'l) dnode \<Rightarrow> bytes res \<times> ('m, 'd, 'b, 'l) dnode" where
  "walk_data E c n =
     (case (if localBlocks n \<noteq> None then local_Get E c n else node_Get E c n) of
        (Inr d, n1) \<Rightarrow> (Inr d, n1)
      | (Inl _, n1) \<Rightarrow> node_Get E c n1)"

text \<open>
  One call of \<open>deleteCIDWalk\<close> on a CID that has not been seen: the root is removed at the node
  responsible for the CID, and the result is the children to walk next.
\<close>

definition walk_visit ::
  "('m, 'd, 'b, 'l) denv \<Rightarrow> NodeID \<Rightarrow> cid \<Rightarrow> cid \<Rightarrow> ('m, 'd, 'b, 'l) world \<Rightarrow> cid list \<times> ('m, 'd, 'b, 'l) world" where
  "walk_visit E me rootCID c w =
     (case w_FindSuccessor me (CIDToNodeID (rx E) c) w of
        (Inl _, w1) \<Rightarrow> ([], w1)
      | (Inr responsible, w1) \<Rightarrow>
          (let w2 = (if ID responsible = me then handleDeleteCID E me rootCID True w1
                     else lt_DeleteCID E me responsible rootCID True w1)
           in case w_node w2 me of
                None \<Rightarrow> ([], w2)
              | Some n \<Rightarrow>
                  (let (r, n') = walk_data E c n;
                       w3 = put_node me n' w2
                   in case r of
                        Inl _ \<Rightarrow> ([], w3)
                      | Inr d \<Rightarrow> (case LinksOf E c d of Inl _ \<Rightarrow> ([], w3) | Inr cs \<Rightarrow> (cs, w3)))))"

text \<open>
  The walk, depth first, with the calls still to make on an explicit stack. The walk of a block
  store with a cycle of links ends because of the visited set, so the recursion is partial here
  and its termination is a theorem.
\<close>

partial_function (option) deleteCIDWalk ::
  "('m, 'd, 'b, 'l) denv \<Rightarrow> NodeID \<Rightarrow> cid \<Rightarrow> cid list \<Rightarrow> cid list \<Rightarrow> ('m, 'd, 'b, 'l) world \<Rightarrow> (cid list \<times> ('m, 'd, 'b, 'l) world) option" where
  "deleteCIDWalk E me rootCID stack visited w =
     (case stack of
        [] \<Rightarrow> Some (visited, w)
      | c # rest \<Rightarrow>
          if c \<in> set visited then deleteCIDWalk E me rootCID rest visited w
          else
            deleteCIDWalk E me rootCID (fst (walk_visit E me rootCID c w) @ rest) (c # visited)
              (snd (walk_visit E me rootCID c w)))"

definition n_DeleteCID ::
  "('m, 'd, 'b, 'l) denv \<Rightarrow> NodeID \<Rightarrow> cid \<Rightarrow> ('m, 'd, 'b, 'l) world \<Rightarrow> ('m, 'd, 'b, 'l) world option" where
  "n_DeleteCID E me rootCID w =
     map_option snd (deleteCIDWalk E me rootCID [rootCID] []
       (on_node me (\<lambda>n. (remove_root E rootCID n, [])) w))"

section \<open>Joining and leaving\<close>

definition receive_block ::
  "('m, 'd, 'b, 'l) denv \<Rightarrow> ('m, 'd, 'b, 'l) dnode \<Rightarrow> pushed \<Rightarrow> ('m, 'd, 'b, 'l) dnode" where
  "receive_block E n x =
     (case x of (key, data, roots) \<Rightarrow>
        case ringStore n of
          Some (rv, s) \<Rightarrow>
            n\<lparr>blocks := Net (add_roots (netE E) rv key roots (snd (nbs_Put (netE E) key data s)))\<rparr>
        | None \<Rightarrow> n\<lparr>blocks := snd (b_Put E key data (blocks n))\<rparr>)"

definition receive_blocks ::
  "('m, 'd, 'b, 'l) denv \<Rightarrow> pushed list \<Rightarrow> ('m, 'd, 'b, 'l) dnode \<Rightarrow> ('m, 'd, 'b, 'l) dnode" where
  "receive_blocks E xs n = foldl (receive_block E) n xs"

definition Join ::
  "('m, 'd, 'b, 'l) denv \<Rightarrow> NodeID \<Rightarrow> NodeAddr \<Rightarrow> ('m, 'd, 'b, 'l) world \<Rightarrow> unit res \<times> ('m, 'd, 'b, 'l) world" where
  "Join E me bootstrap w =
     (case join_route me bootstrap w of
        (Inl e, w1) \<Rightarrow> (Inl e, w1)
      | (Inr succ, w1) \<Rightarrow>
          (case lt_GetPredecessor w1 me succ of
             Inr (Some pred) \<Rightarrow>
               if ID pred = me then (Inr (), w1)
               else
                 let (r, w2) = lt_TransferKeys E me succ (ID pred) me w1;
                     w3 = (case r of
                             Inl _ \<Rightarrow> w2
                           | Inr xs \<Rightarrow> on_node me (\<lambda>n. (receive_blocks E xs n, [])) w2);
                     w4 = (case lt_TransferRecords me succ (ID pred) me w3 of
                             Inl _ \<Rightarrow> w3
                           | Inr kvs \<Rightarrow> on_node me (\<lambda>n. (put_records E kvs n, [])) w3)
                 in (Inr (), w4)
           | _ \<Rightarrow> (Inr (), w1)))"

section \<open>Background tasks\<close>

definition run_task ::
  "('m, 'd, 'b, 'l) denv \<Rightarrow> ('m, 'd, 'b, 'l) world \<Rightarrow> NodeID \<times> task \<Rightarrow> ('m, 'd, 'b, 'l) world" where
  "run_task E w it =
     (case it of (me, t) \<Rightarrow>
        case t of
          ReplicateToNewSuccessors oldList newList \<Rightarrow>
            on_node me (\<lambda>n. (n\<lparr>replicateSlot := False\<rparr>, [])) (replicateToNewSuccessors E me oldList newList w)
        | TransferKeysRange target from to \<Rightarrow> transferKeysRange E me target from to w
        | TransferRecordsRange target from to \<Rightarrow> transferRecordsRange E me target from to w
        | PushTask target key data roots \<Rightarrow>
            on_node me (\<lambda>n. (n\<lparr>replicationsInFlight := replicationsInFlight n - 1\<rparr>, []))
              (snd (lt_PushBlocks E me target [(key, data, roots)] w)))"

text \<open>
  Waiting for some of the pending tasks. \<open>Stop\<close> waits for the pushes in flight and the key transfers
  (\<open>xferWG\<close>) of its node, and not for a replication to new successors, which stays pending. The
  pushes are taken to end within the five seconds \<open>Stop\<close> allows.
\<close>

definition drain ::
  "('m, 'd, 'b, 'l) denv \<Rightarrow> (NodeID \<times> task \<Rightarrow> bool) \<Rightarrow> ('m, 'd, 'b, 'l) world \<Rightarrow> ('m, 'd, 'b, 'l) world" where
  "drain E P w =
     foldl (run_task E) (w\<lparr>pending := filter (\<lambda>it. \<not> P it) (pending w)\<rparr>) (filter P (pending w))"

definition is_replication :: "task \<Rightarrow> bool" where
  "is_replication t = (case t of PushTask _ _ _ _ \<Rightarrow> True | _ \<Rightarrow> False)"

definition is_xfer :: "task \<Rightarrow> bool" where
  "is_xfer t = (case t of TransferKeysRange _ _ _ \<Rightarrow> True | TransferRecordsRange _ _ _ \<Rightarrow> True | _ \<Rightarrow> False)"

definition WaitForReplicationDrain ::
  "('m, 'd, 'b, 'l) denv \<Rightarrow> NodeID \<Rightarrow> ('m, 'd, 'b, 'l) world \<Rightarrow> ('m, 'd, 'b, 'l) world" where
  "WaitForReplicationDrain E me w = drain E (\<lambda>it. fst it = me \<and> is_replication (snd it)) w"

definition Stop ::
  "('m, 'd, 'b, 'l) denv \<Rightarrow> NodeID \<Rightarrow> ('m, 'd, 'b, 'l) world \<Rightarrow> ('m, 'd, 'b, 'l) world" where
  "Stop E me w = drain E (\<lambda>it. fst it = me \<and> is_xfer (snd it)) (WaitForReplicationDrain E me w)"

definition Leave ::
  "('m, 'd, 'b, 'l) denv \<Rightarrow> NodeID \<Rightarrow> ('m, 'd, 'b, 'l) world \<Rightarrow> ('m, 'd, 'b, 'l) world" where
  "Leave E me w =
     (case w_node w me of
        None \<Rightarrow> w
      | Some n \<Rightarrow>
          (let n0 = n\<lparr>backgroundPaused := True\<rparr>;
               succ = successor n;
               w0 = put_node me n0 w;
               w1 = (if ID succ = me then w0
                     else
                       let (xs, n1) = (case ring_keys E n0 of Inl _ \<Rightarrow> ([], n0) | Inr ks \<Rightarrow> read_blocks E ks n0);
                           wb = put_node me n1 w0;
                           wp = (if xs = [] then wb else snd (lt_PushBlocks E me succ xs wb));
                           kvs = records (recs n1);
                           wr = (if kvs = [] then wp else snd (lt_PushRecords E me succ kvs wp))
                       in leave_route (LocalNode n) succ (predecessor n) wr)
           in Stop E me w1))"

text \<open>\<open>fmt.Sprintf("test-%d", pos)\<close>, and the configuration \<open>AddNode\<close> gives its nodes.\<close>

fun dec_digits :: "nat \<Rightarrow> string" where
  "dec_digits m = (if m < 10 then [char_of (48 + m)] else dec_digits (m div 10) @ [char_of (48 + m mod 10)])"

declare dec_digits.simps [simp del]

definition test_config :: "int \<Rightarrow> Config" where
  "test_config r = \<lparr>cfg_Replication = r, cfg_SuccessorListSize = 0, cfg_StabilizeInterval = 0,
     cfg_FixFingersInterval = 0, cfg_CheckPredInterval = 0, cfg_PeerRecordTTL = 0,
     cfg_GroupRecordTTL = 0, cfg_ProviderRecordTTL = 0, cfg_RecordPurgePeriod = 0,
     cfg_PeerRepublishInterval = 0, cfg_ProviderRepublishInterval = 0\<rparr>"

definition AddNode ::
  "(testMemStore, 'd, 'b, 'l) denv \<Rightarrow> 8 word \<Rightarrow> (testMemStore, 'd, 'b, 'l) world \<Rightarrow> (testMemStore, 'd, 'b, 'l) world" where
  "AddNode E pos w =
     (let i = testNodeID pos;
          n = NewDNode i (''test-'' @ dec_digits (unat pos)) [] (test_config (ring_Replication w));
          w1 = (put_node i n w)\<lparr>Nodes := Nodes w @ [i]\<rparr>
      in case Nodes w of
           [] \<Rightarrow> on_node i (\<lambda>n. (Create n, [])) w1
         | b # _ \<Rightarrow>
             (case w_node w1 b of
                None \<Rightarrow> w1
              | Some nb \<Rightarrow> snd (Join E i (LocalNode nb) w1)))"

end
