(* ===== verification/Node_Avail.thy ===== *)
theory Node_Avail
  imports Node_Data
begin

text \<open>
  Availability of blocks. A world of nodes is good when every store keeps its contract and
  holds, under each CID, the bytes that CID names. Client calls, background tasks and ring
  maintenance keep a good world good and never take a block away from a node.
\<close>

section \<open>The store of a node as an interface\<close>

definition held :: "(cid \<Rightarrow> 'k) \<Rightarrow> ('m \<Rightarrow> 'k \<rightharpoonup> bytes) \<Rightarrow> ('b \<Rightarrow> bytes \<rightharpoonup> bytes) \<Rightarrow> ('m, 'd, 'b) bstore \<Rightarrow> cid \<rightharpoonup> bytes" where
  "held kf M B bs k = (case bs of Plain m \<Rightarrow> M m (kf k) | Net s \<Rightarrow> B (blks s) (Hash k))"

definition honest :: "(cid \<Rightarrow> bytes) \<Rightarrow> (cid \<rightharpoonup> bytes) \<Rightarrow> bool" where
  "honest truth c \<longleftrightarrow> (\<forall>k d. c k = Some d \<longrightarrow> d = truth k)"

definition store_ok ::
  "(cid \<Rightarrow> bytes) \<Rightarrow> (cid \<Rightarrow> 'k) \<Rightarrow> ('m \<Rightarrow> bool) \<Rightarrow> ('m \<Rightarrow> 'k \<rightharpoonup> bytes) \<Rightarrow> ('b \<Rightarrow> bytes \<rightharpoonup> bytes) \<Rightarrow> ('m, 'd, 'b) bstore \<Rightarrow> bool" where
  "store_ok truth kf pinv M B bs \<longleftrightarrow>
     (case bs of Plain m \<Rightarrow> pinv m | Net s \<Rightarrow> exact B s) \<and> honest truth (held kf M B bs)"

definition local_ok :: "(cid \<Rightarrow> bytes) \<Rightarrow> (cid \<Rightarrow> 'j) \<Rightarrow> ('l \<Rightarrow> bool) \<Rightarrow> ('l \<Rightarrow> 'j \<rightharpoonup> bytes) \<Rightarrow> 'l \<Rightarrow> bool" where
  "local_ok truth lf linv L l \<longleftrightarrow> linv l \<and> honest truth (\<lambda>k. L l (lf k))"

text \<open>
  What the node relies on: a put of the bytes a CID names never takes a block away and stores
  them when it reports success; a get returns exactly what is held.
\<close>

locale node_store =
  fixes E :: "('m, 'd, 'b, 'l) denv" and truth :: "cid \<Rightarrow> bytes"
    and ok :: "('m, 'd, 'b) bstore \<Rightarrow> bool" and hold :: "('m, 'd, 'b) bstore \<Rightarrow> cid \<rightharpoonup> bytes"
    and lok :: "'l \<Rightarrow> bool"
  assumes put: "ok b \<Longrightarrow> b_Put E k (truth k) b = (r, b') \<Longrightarrow>
      ok b' \<and> hold b \<subseteq>\<^sub>m hold b' \<and> (r = Inr () \<longrightarrow> hold b' k = Some (truth k))"
    and get: "ok b \<Longrightarrow> b_Get E k b = (x, b') \<Longrightarrow>
      ok b' \<and> hold b' = hold b \<and> (case hold b k of Some d \<Rightarrow> x = Inr d | None \<Rightarrow> x \<in> range Inl)"
    and has: "ok b \<Longrightarrow> b_Has E k b = Inr (hold b k \<noteq> None)"
    and put_root: "ok (Net s) \<Longrightarrow> PutWithRoot (netE E) now rv k (truth k) root ex s = (r, s') \<Longrightarrow>
      ok (Net s') \<and> hold (Net s) \<subseteq>\<^sub>m hold (Net s') \<and> (r = Inr () \<longrightarrow> hold (Net s') k = Some (truth k))"
    and index: "pool s' = pool s \<Longrightarrow> ok (Net s') = ok (Net s) \<and> hold (Net s') = hold (Net s)"
    and honest: "ok b \<Longrightarrow> hold b k = Some d \<Longrightarrow> d = truth k"
    and local_get: "lok l \<Longrightarrow> bs_Get (locE E) k l = (x, l') \<Longrightarrow> lok l' \<and> (\<forall>d. x = Inr d \<longrightarrow> d = truth k)"

definition good :: "(('m, 'd, 'b) bstore \<Rightarrow> bool) \<Rightarrow> ('l \<Rightarrow> bool) \<Rightarrow> ('m, 'd, 'b, 'l) dnode \<Rightarrow> bool" where
  "good ok lok n \<longleftrightarrow> ok (blocks n) \<and> (\<forall>l. localBlocks n = Some l \<longrightarrow> lok l)"

definition links ::
  "'a node_scheme \<Rightarrow> NodeID \<times> NodeAddr \<times> NodeAddr list \<times> NodeAddr option \<times> NodeAddr list \<times> NodeAddr list \<times> nat \<times> int \<times> int" where
  "links n = (node_id n, successor n, successorList n, predecessor n, predecessorList n, fingers n,
     nextFinger n, replication n, successorListSize n)"

fun task_honest :: "(cid \<Rightarrow> bytes) \<Rightarrow> task \<Rightarrow> bool" where
  "task_honest truth (PushTask t k d rs) \<longleftrightarrow> d = truth k"
| "task_honest truth _ \<longleftrightarrow> True"

definition world_good ::
  "(cid \<Rightarrow> bytes) \<Rightarrow> (('m, 'd, 'b) bstore \<Rightarrow> bool) \<Rightarrow> ('l \<Rightarrow> bool) \<Rightarrow> ('m, 'd, 'b, 'l) world \<Rightarrow> bool" where
  "world_good truth ok lok w \<longleftrightarrow>
     (\<forall>i n. w_node w i = Some n \<longrightarrow> good ok lok n) \<and> (\<forall>it \<in> set (pending w). task_honest truth (snd it))"

text \<open>
  A step of a node that keeps its links, keeps it good and takes no block away; and a step of
  the world that does so on every node.
\<close>

definition node_le ::
  "(('m, 'd, 'b) bstore \<Rightarrow> cid \<rightharpoonup> bytes) \<Rightarrow> ('m, 'd, 'b, 'l) dnode \<Rightarrow> ('m, 'd, 'b, 'l) dnode \<Rightarrow> bool" where
  "node_le hold n n' \<longleftrightarrow> links n' = links n \<and> hold (blocks n) \<subseteq>\<^sub>m hold (blocks n')"

definition world_le ::
  "(('m, 'd, 'b) bstore \<Rightarrow> cid \<rightharpoonup> bytes) \<Rightarrow> ('m, 'd, 'b, 'l) world \<Rightarrow> ('m, 'd, 'b, 'l) world \<Rightarrow> bool" where
  "world_le hold w w' \<longleftrightarrow> blocked w' = blocked w \<and> (\<forall>i. rel_option (node_le hold) (w_node w i) (w_node w' i))"

lemma node_le_refl [simp]: "node_le hold n n"
  by (simp add: node_le_def)

lemma node_le_trans: "node_le hold a b \<Longrightarrow> node_le hold b c \<Longrightarrow> node_le hold a c"
  by (auto simp: node_le_def intro: map_le_trans)

lemma world_le_refl [simp]: "world_le hold w w"
  by (simp add: world_le_def option.rel_refl)

lemma world_le_trans: "world_le hold u v \<Longrightarrow> world_le hold v w \<Longrightarrow> world_le hold u w"
  unfolding world_le_def
  by (metis (no_types, lifting) node_le_trans option.rel_transp transpD transpI)

lemma world_leD:
  assumes "world_le hold w w'" "w_node w i = Some n"
  obtains n' where "w_node w' i = Some n'" "links n' = links n" "hold (blocks n) \<subseteq>\<^sub>m hold (blocks n')"
proof -
  have "rel_option (node_le hold) (w_node w i) (w_node w' i)" using assms(1) by (simp add: world_le_def)
  then obtain n' where "w_node w' i = Some n'" "node_le hold n n'" using assms(2) by (cases "w_node w' i") auto
  then show ?thesis using that by (simp add: node_le_def)
qed

lemma member_ok_links: "links n' = links n \<Longrightarrow> member_ok S i n' = member_ok S i n"
  by (simp add: links_def member_ok_def node_wf_def routes_ok_def pred_sound_def)

lemma fingers_ok_links: "links n' = links n \<Longrightarrow> fingers_ok S n' = fingers_ok S n"
  by (simp add: links_def fingers_ok_def)

lemma ideal_le:
  assumes "world_le hold w w'" "ideal S w"
  shows "ideal S w'"
proof -
  have "\<exists>n. w_node w' i = Some n \<and> member_ok S i n" if i: "i \<in> S" for i
  proof -
    obtain n where n: "w_node w i = Some n" "member_ok S i n" using assms(2) i by (rule idealD)
    obtain n' where "w_node w' i = Some n'" "links n' = links n" using assms(1) n(1) by (rule world_leD)
    then show ?thesis using n(2) member_ok_links by blast
  qed
  then show ?thesis using assms by (simp add: ideal_def open_among_def world_le_def)
qed

lemma navigable_le:
  assumes "world_le hold w w'" "navigable S w"
  shows "navigable S w'"
proof (cases "card S \<le> Suc maxLookupHops")
  case False
  have "\<exists>n. w_node w' i = Some n \<and> fingers_ok S n" if i: "i \<in> S" for i
  proof -
    obtain n where n: "w_node w i = Some n" "fingers_ok S n" using assms(2) False i unfolding navigable_def by blast
    obtain n' where "w_node w' i = Some n'" "links n' = links n" using assms(1) n(1) by (rule world_leD)
    then show ?thesis using n(2) fingers_ok_links by blast
  qed
  then show ?thesis by (simp add: navigable_def)
qed (simp add: navigable_def)

definition nkeeps where
  "nkeeps ok hold lok n n' \<longleftrightarrow> (good ok lok n \<longrightarrow> good ok lok n' \<and> node_le hold n n')"

definition keeps where
  "keeps truth ok hold lok w w' \<longleftrightarrow>
     (world_good truth ok lok w \<longrightarrow> world_good truth ok lok w' \<and> world_le hold w w')"

named_theorems keeps_intros \<open>steps that take no block away\<close>

lemma nkeeps_refl [keeps_intros]: "nkeeps ok hold lok n n"
  by (simp add: nkeeps_def)

lemma nkeeps_trans: "nkeeps ok hold lok a b \<Longrightarrow> nkeeps ok hold lok b c \<Longrightarrow> nkeeps ok hold lok a c"
  by (auto simp: nkeeps_def intro: node_le_trans)

lemma keeps_refl [keeps_intros]: "keeps truth ok hold lok w w"
  by (simp add: keeps_def)

lemma keeps_trans: "keeps truth ok hold lok u v \<Longrightarrow> keeps truth ok hold lok v w \<Longrightarrow> keeps truth ok hold lok u w"
  by (auto simp: keeps_def intro: world_le_trans)

lemma keeps_put:
  assumes "w_node w i = Some n" "nkeeps ok hold lok n n'"
  shows "keeps truth ok hold lok w (put_node i n' w)"
proof -
  have "world_good truth ok lok (put_node i n' w) \<and> world_le hold w (put_node i n' w)" if w: "world_good truth ok lok w"
  proof -
    have "good ok lok n" using w assms(1) by (auto simp: world_good_def)
    then have "good ok lok n'" "node_le hold n n'" using assms(2) by (simp_all add: nkeeps_def)
    then show ?thesis using w assms(1) by (auto simp: world_good_def world_le_def option.rel_refl)
  qed
  then show ?thesis by (simp add: keeps_def)
qed

lemma keeps_spawn:
  "list_all (task_honest truth) ts \<Longrightarrow> keeps truth ok hold lok w (spawn i ts w)"
  by (auto simp: keeps_def world_good_def world_le_def list_all_iff option.rel_refl)

lemma keeps_on_node:
  assumes "\<And>n. w_node w i = Some n \<Longrightarrow> nkeeps ok hold lok n (fst (f n)) \<and> list_all (task_honest truth) (snd (f n))"
  shows "keeps truth ok hold lok w (on_node i f w)"
proof (cases "w_node w i")
  case None
  then show ?thesis by (simp add: on_node_def keeps_refl)
next
  case (Some n)
  show ?thesis
    unfolding on_node_Some [OF Some]
    using keeps_trans [OF keeps_put [OF Some] keeps_spawn] assms [OF Some] by blast
qed

lemma keeps_foldl:
  assumes "\<And>w x. x \<in> set xs \<Longrightarrow> keeps truth ok hold lok w (f w x)"
  shows "keeps truth ok hold lok w (foldl f w xs)"
  using assms by (induction xs arbitrary: w) (auto intro: keeps_refl keeps_trans)

lemma nkeeps_foldl:
  assumes "\<And>n x. x \<in> set xs \<Longrightarrow> nkeeps ok hold lok n (f n x)"
  shows "nkeeps ok hold lok n (foldl f n xs)"
  using assms by (induction xs arbitrary: n) (auto intro: nkeeps_refl nkeeps_trans)

definition pushed_honest :: "(cid \<Rightarrow> bytes) \<Rightarrow> pushed \<Rightarrow> bool" where
  "pushed_honest truth x \<longleftrightarrow> fst (snd x) = truth (fst x)"

text \<open>A step that touches neither the links nor the blocks.\<close>

lemma nkeeps_same:
  "links n' = links n \<Longrightarrow> blocks n' = blocks n \<Longrightarrow> localBlocks n' = localBlocks n \<Longrightarrow> nkeeps ok hold lok n n'"
  by (simp add: nkeeps_def good_def node_le_def)

lemma pool_add_roots: "pool (add_roots N rv key nrs s) = pool s"
  unfolding add_roots_def by (rule foldl_pool) (simp add: pool_simps)

lemma ringStore_Net: "ringStore n = Some (rv, s) \<Longrightarrow> blocks n = Net s"
  by (simp add: ringStore_def split: bstore.splits option.splits)

lemma node_of_resolve: "lt_resolve w me t = Inr n \<Longrightarrow> w_node w (ID t) = Some n"
  by (simp add: lt_resolve_def getNode_def split: if_splits option.splits)

text \<open>Node \<open>i\<close> holds the block.\<close>

definition holds where
  "holds hold w i k \<longleftrightarrow> (\<exists>n. w_node w i = Some n \<and> hold (blocks n) k \<noteq> None)"

text \<open>A ring that serves its clients.\<close>

definition serving where
  "serving truth ok lok S w \<longleftrightarrow> ideal S w \<and> navigable S w \<and> world_good truth ok lok w"

text \<open>The block can be found from the node \<open>i\<close>: there, or at one of its successors.\<close>

definition found_at where
  "found_at hold w i k \<longleftrightarrow> holds hold w i k \<or>
     (\<exists>n. w_node w i = Some n \<and> (\<exists>s \<in> set (successorList n). ID s \<noteq> i \<and> holds hold w (ID s) k))"

text \<open>
  Everything that goes on in a running ring with a fixed set of members: maintenance, client
  calls of any member, and the background tasks, in any order.
\<close>

inductive sys_step ::
  "('m, 'd, 'b, 'l) denv \<Rightarrow> (cid \<Rightarrow> bytes) \<Rightarrow> NodeID set \<Rightarrow> ('m, 'd, 'b, 'l) world \<Rightarrow> ('m, 'd, 'b, 'l) world \<Rightarrow> bool"
  for E truth S where
  maintenance: "maint_step S w w' \<Longrightarrow> sys_step E truth S w w'"
| put: "me \<in> S \<Longrightarrow> sys_step E truth S w (snd (n_PutWithRoot E me k (truth k) root ex w))"
| get: "me \<in> S \<Longrightarrow> sys_step E truth S w (snd (n_Get E sched me k w))"
| record_put: "me \<in> S \<Longrightarrow> sys_step E truth S w (snd (RecordPut E me key d w))"
| task: "pending w = xs @ (j, t) # ys \<Longrightarrow>
    sys_step E truth S w (run_task E (w\<lparr>pending := xs @ ys\<rparr>) (j, t))"

context node_store
begin

abbreviation "N \<equiv> nkeeps ok hold lok"
abbreviation "K \<equiv> keeps truth ok hold lok"

lemma links_blocks [simp]: "links (n\<lparr>blocks := b\<rparr>) = links n" "links (n\<lparr>localBlocks := l\<rparr>) = links n"
  "links (n\<lparr>recs := st\<rparr>) = links n" "links (n\<lparr>replicationsInFlight := k\<rparr>) = links n"
  "links (n\<lparr>replicationsDropped := k\<rparr>) = links n"
  by (simp_all add: links_def)

lemma N_blocks: "(ok (blocks n) \<Longrightarrow> ok b \<and> hold (blocks n) \<subseteq>\<^sub>m hold b) \<Longrightarrow> N n (n\<lparr>blocks := b\<rparr>)"
  by (auto simp: nkeeps_def good_def node_le_def)

section \<open>Steps of a node\<close>

lemma store_block_ok:
  assumes n: "good ok lok n" and s: "store_block E k (truth k) root ex n = (r, n')"
  shows "good ok lok n' \<and> node_le hold n n' \<and> (r = Inr () \<longrightarrow> hold (blocks n') k = Some (truth k))"
proof (cases "ringStore n")
  case None
  then obtain b where b: "b_Put E k (truth k) (blocks n) = (r, b)" "n' = n\<lparr>blocks := b\<rparr>"
    using s by (auto simp: store_block_def split: prod.splits)
  then show ?thesis using put [OF _ b(1)] n by (simp add: good_def node_le_def)
next
  case (Some x)
  then obtain rv st where x: "ringStore n = Some (rv, st)" by (cases x) simp
  then obtain st' where b: "PutWithRoot (netE E) (clock E) rv k (truth k) root ex st = (r, st')" "n' = n\<lparr>blocks := Net st'\<rparr>"
    using s by (auto simp: store_block_def split: prod.splits)
  then show ?thesis using put_root [OF _ b(1)] n ringStore_Net [OF x] by (simp add: good_def node_le_def)
qed

lemma N_store_block: "N n (snd (store_block E k (truth k) root ex n))"
  using store_block_ok [of n k root ex] by (metis nkeeps_def prod.collapse)

lemma node_Get_ok:
  assumes "good ok lok n" "node_Get E k n = (r, n')"
  shows "good ok lok n'" "links n' = links n" "hold (blocks n') = hold (blocks n)" "localBlocks n' = localBlocks n"
    "case hold (blocks n) k of Some d \<Rightarrow> r = Inr d | None \<Rightarrow> r \<in> range Inl"
proof -
  obtain b where b: "b_Get E k (blocks n) = (r, b)" "n' = n\<lparr>blocks := b\<rparr>"
    using assms(2) by (auto simp: node_Get_def split: prod.splits)
  then show "good ok lok n'" "links n' = links n" "hold (blocks n') = hold (blocks n)" "localBlocks n' = localBlocks n"
    "case hold (blocks n) k of Some d \<Rightarrow> r = Inr d | None \<Rightarrow> r \<in> range Inl"
    using get [OF _ b(1)] assms(1) by (simp_all add: good_def)
qed

lemma N_node_Get: "N n (snd (node_Get E k n))"
  using node_Get_ok [of n k "fst (node_Get E k n)" "snd (node_Get E k n)"] by (simp add: nkeeps_def node_le_def)

lemma local_Get_ok:
  assumes "good ok lok n" "local_Get E k n = (r, n')"
  shows "good ok lok n'" "node_le hold n n'" "\<And>d. r = Inr d \<Longrightarrow> d = truth k"
proof -
  have "good ok lok n' \<and> node_le hold n n' \<and> (\<forall>d. r = Inr d \<longrightarrow> d = truth k)"
  proof (cases "localBlocks n")
    case None
    then show ?thesis using assms by (auto simp: local_Get_def)
  next
    case (Some l)
    obtain l' where l': "bs_Get (locE E) k l = (r, l')" "n' = n\<lparr>localBlocks := Some l'\<rparr>"
      using assms(2) Some by (auto simp: local_Get_def split: prod.splits)
    then show ?thesis using local_get [OF _ l'(1)] assms(1) Some by (simp add: good_def node_le_def)
  qed
  then show "good ok lok n'" "node_le hold n n'" "\<And>d. r = Inr d \<Longrightarrow> d = truth k" by simp_all
qed

text \<open>A node answers a get with the bytes the CID names, and always when its store holds them.\<close>

lemma own_Get_ok:
  assumes n: "good ok lok n" and g: "own_Get E k n = (r, n')"
  shows "good ok lok n' \<and> node_le hold n n' \<and> (\<forall>d. r = Inr d \<longrightarrow> d = truth k) \<and>
    (hold (blocks n) k \<noteq> None \<longrightarrow> r = Inr (truth k))"
proof -
  obtain r1 n1 where g1: "node_Get E k n = (r1, n1)" by fastforce
  note n1 = node_Get_ok [OF n g1]
  show ?thesis
  proof (cases "hold (blocks n) k")
    case None
    then obtain e where "r1 = Inl e" using n1(5) by auto
    then have "local_Get E k n1 = (r, n')" using g g1 by (simp add: own_Get_def)
    from local_Get_ok [OF n1(1) this] show ?thesis using n1(2,3) None by (simp add: node_le_def)
  next
    case (Some d)
    have "r1 = Inr d" using n1(5) Some by simp
    moreover have "d = truth k" using honest [OF _ Some] n by (simp add: good_def)
    ultimately show ?thesis using g g1 n1(1-3) by (auto simp: own_Get_def node_le_def)
  qed
qed

lemma N_own_Get: "N n (snd (own_Get E k n))"
  using own_Get_ok [of n k "fst (own_Get E k n)" "snd (own_Get E k n)"] by (simp add: nkeeps_def)

lemma push_one_ok:
  assumes n: "good ok lok n" and p: "push_one E (k, truth k, roots) n = (r, n')"
  shows "good ok lok n' \<and> node_le hold n n' \<and> (r = Inr () \<longrightarrow> hold (blocks n') k = Some (truth k))"
proof -
  have that: ?thesis if "(let (r, b) = b_Put E k (truth k) (blocks n) in (r, n\<lparr>blocks := b\<rparr>)) = (r, n')"
    using that put [of "blocks n" k] n by (auto simp: good_def node_le_def split: prod.splits)
  consider (plain) "push_one E (k, truth k, roots) n = (let (r, b) = b_Put E k (truth k) (blocks n) in (r, n\<lparr>blocks := b\<rparr>))"
    | (root) rv s nr rest rc where "ringStore n = Some (rv, s)" "roots = nr # rest" "cid_Parse (netE E) (nr_CID nr) = Inr rc"
    by (cases "ringStore n"; cases roots; cases "cid_Parse (netE E) (nr_CID (hd roots))") (auto simp: push_one_def)
  then show ?thesis
  proof cases
    case plain
    with p show ?thesis by (intro that) simp
  next
    case (root rv s nr rest rc)
    note b = ringStore_Net [OF root(1)]
    obtain r1 s1 where pr: "PutWithRoot (netE E) (clock E) rv k (truth k) rc (nr_ExpiresAt nr) s = (r1, s1)" by fastforce
    have s1: "ok (Net s1)" "hold (Net s) \<subseteq>\<^sub>m hold (Net s1)" "r1 = Inr () \<longrightarrow> hold (Net s1) k = Some (truth k)"
      using put_root [OF _ pr] n b by (simp_all add: good_def)
    have ix: "ok (Net (add_roots (netE E) rv k rest s1)) = ok (Net s1)"
        "hold (Net (add_roots (netE E) rv k rest s1)) = hold (Net s1)"
      using index [OF pool_add_roots [of "netE E" rv k rest s1]] by simp_all
    show ?thesis using p root pr s1 n b ix by (cases r1) (auto simp: push_one_def good_def node_le_def)
  qed
qed

lemma push_loop_ok:
  assumes "good ok lok n" "list_all (pushed_honest truth) xs" "push_loop E xs j n = (r, n')"
  shows "good ok lok n' \<and> node_le hold n n'"
  using assms
proof (induction xs arbitrary: n j)
  case (Cons x xs)
  obtain k roots where x: "x = (k, truth k, roots)"
    using Cons.prems(2) by (cases x) (simp add: pushed_honest_def)
  obtain r1 n1 where p: "push_one E x n = (r1, n1)" by fastforce
  have n1: "good ok lok n1" "node_le hold n n1" using push_one_ok [OF Cons.prems(1) p [unfolded x]] by simp_all
  have "good ok lok n' \<and> node_le hold n1 n'"
    using Cons.prems(2,3) p Cons.IH [OF n1(1)] n1(1) by (auto split: sum.splits if_splits)
  then show ?case using n1(2) node_le_trans by blast
qed simp

lemma N_push_blocks:
  assumes "list_all (pushed_honest truth) xs"
  shows "N n (snd (push_blocks E xs n))"
proof -
  obtain r n' where p: "push_loop E xs 0 n = (r, n')" by fastforce
  then show ?thesis
    using push_loop_ok [OF _ assms p] by (simp add: nkeeps_def push_blocks_def split: sum.split)
qed

text \<open>A push of a single block that reports success has stored it.\<close>

lemma push_single_ok:
  assumes n: "good ok lok n" and p: "push_blocks E [(k, truth k, roots)] n = (Inr (), n')"
  shows "hold (blocks n') k = Some (truth k)"
proof -
  obtain r1 n1 where p1: "push_one E (k, truth k, roots) n = (r1, n1)" by fastforce
  then have "r1 = Inr ()" "n' = n1" using p by (auto simp: push_blocks_def split: sum.splits if_splits)
  then show ?thesis using push_one_ok [OF n p1] by simp
qed

lemma async_loop_ok:
  assumes "pushed_honest truth x"
  shows "links (fst (async_loop x ts n)) = links n \<and> blocks (fst (async_loop x ts n)) = blocks n \<and>
    localBlocks (fst (async_loop x ts n)) = localBlocks n \<and> list_all (task_honest truth) (snd (async_loop x ts n))"
  using assms
  by (induction ts arbitrary: n) (simp_all add: pushed_honest_def case_prod_beta Let_def)

lemma replicateAsync_ok:
  "N n (fst (replicateAsync E k (truth k) root ex n)) \<and>
     list_all (task_honest truth) (snd (replicateAsync E k (truth k) root ex n))"
  using async_loop_ok [of "(k, truth k, replica_roots E root ex)" "replica_targets n" n]
  by (simp add: replicateAsync_def nkeeps_refl nkeeps_same pushed_honest_def)

section \<open>Steps of the world\<close>

lemma K_resolve: "lt_resolve w me t = Inr n \<Longrightarrow> N n n' \<Longrightarrow> K w (put_node (ID t) n' w)"
  by (rule keeps_put [OF node_of_resolve])

lemma K_PushBlocks [keeps_intros]:
  "list_all (pushed_honest truth) xs \<Longrightarrow> K w (snd (lt_PushBlocks E me t xs w))"
  using K_resolve [OF _ N_push_blocks]
  by (auto simp: lt_PushBlocks_def case_prod_beta Let_def keeps_refl split: sum.split)

lemma K_report_loop:
  "pushed_honest truth x \<Longrightarrow> K w (snd (report_loop E me x ts j w))"
proof (induction ts arbitrary: j w)
  case (Cons t ts)
  obtain r w1 where p: "lt_PushBlocks E me t [x] w = (r, w1)" by fastforce
  have "K w w1" using K_PushBlocks [of "[x]" w me t] p Cons.prems by simp
  then show ?case using Cons p by (cases r) (auto intro: keeps_trans)
qed (simp add: keeps_refl)

lemma K_replicateAndReport [keeps_intros]: "K w (snd (replicateAndReport E me k (truth k) root ex w))"
  using K_report_loop [of "(k, truth k, replica_roots E root ex)"]
  by (auto simp: replicateAndReport_def keeps_refl case_prod_beta Let_def pushed_honest_def split: option.split)

lemma K_replicateAsync [keeps_intros]: "K w (on_node i (replicateAsync E k (truth k) root ex) w)"
  by (rule keeps_on_node) (rule replicateAsync_ok)

lemma K_PutBlock [keeps_intros]: "K w (snd (lt_PutBlock E me t k (truth k) root ex w))"
proof (cases "lt_resolve w me t")
  case (Inr n)
  obtain r n' where s: "store_block E k (truth k) root ex n = (r, n')" by fastforce
  have 1: "K w (put_node (ID t) n' w)"
    using K_resolve [OF Inr N_store_block [of n k root ex]] s by simp
  show ?thesis
    using Inr s 1 keeps_trans [OF 1 K_replicateAsync] keeps_trans [OF 1 K_replicateAndReport]
    by (cases r) (simp_all add: lt_PutBlock_def case_prod_beta Let_def)
qed (simp add: lt_PutBlock_def keeps_refl)

lemma K_fetch_succs: "K w (snd (fetch_succs E me k ss w))"
proof (induction ss arbitrary: w)
  case (Cons s ss)
  show ?case
  proof (cases "ID s = me \<or> getNode w me (ID s) = None")
    case True
    then show ?thesis using Cons.IH by auto
  next
    case False
    then obtain p where p: "ID s \<noteq> me" "getNode w me (ID s) = Some p" by auto
    then have "w_node w (ID s) = Some p" by (simp add: getNode_def split: if_splits)
    from keeps_put [OF this N_node_Get [of p k]]
    have 1: "K w (put_node (ID s) (snd (node_Get E k p)) w)" .
    show ?thesis
      using p 1 keeps_trans [OF 1 Cons.IH] by (cases "node_Get E k p") (auto split: sum.split)
  qed
qed (simp add: keeps_refl)

lemma K_FetchBlock [keeps_intros]: "K w (snd (lt_FetchBlock E me t k w))"
proof (cases "lt_resolve w me t")
  case (Inr n)
  have 1: "K w (put_node (ID t) (snd (own_Get E k n)) w)" by (rule K_resolve [OF Inr N_own_Get])
  show ?thesis
    using Inr 1 keeps_trans [OF 1 K_fetch_succs]
    by (cases "own_Get E k n") (auto simp: lt_FetchBlock_def split: sum.split)
qed (simp add: lt_FetchBlock_def keeps_refl)

lemma K_fan_out: "K w (snd (fan_out E me k ts r w))"
proof (induction ts arbitrary: r w)
  case (Cons t ts)
  show ?case using keeps_trans [OF K_FetchBlock Cons.IH] by (simp add: case_prod_beta Let_def)
qed (simp add: keeps_refl)

section \<open>Moving ranges of keys\<close>

lemma read_blocks_ok:
  assumes "good ok lok n"
  shows "good ok lok (snd (read_blocks E ks n)) \<and> node_le hold n (snd (read_blocks E ks n)) \<and>
    list_all (pushed_honest truth) (fst (read_blocks E ks n))"
  using assms
proof (induction ks arbitrary: n)
  case (Cons k ks)
  obtain r n1 where g: "node_Get E k n = (r, n1)" by fastforce
  note n1 = node_Get_ok [OF Cons.prems g]
  have le: "node_le hold n n1" using n1(2,3) by (simp add: node_le_def)
  note IH = Cons.IH [OF n1(1)]
  have "d = truth k" if r: "r = Inr d" for d
  proof -
    have "hold (blocks n) k = Some d" using n1(5) r by (auto split: option.splits)
    from honest [OF _ this] show ?thesis using Cons.prems by (simp add: good_def)
  qed
  then show ?case
    using g IH node_le_trans [OF le] by (cases r) (auto simp: case_prod_beta Let_def pushed_honest_def)
qed simp

lemma K_good_node:
  assumes "w_node w i = Some n" "good ok lok n \<Longrightarrow> K w w'"
  shows "K w w'"
proof (cases "world_good truth ok lok w")
  case True
  then have "good ok lok n" using assms(1) by (simp add: world_good_def)
  then show ?thesis by (rule assms(2))
qed (simp add: keeps_def)

lemma K_push_chunk: "K w (push_chunk E me t ks w)"
proof (cases "w_node w me")
  case (Some n)
  show ?thesis
  proof (rule K_good_node [OF Some])
    assume n: "good ok lok n"
    let ?r = "read_blocks E ks n"
    note r = read_blocks_ok [OF n, of ks]
    have 1: "K w (put_node me (snd ?r) w)" by (rule keeps_put [OF Some]) (use r in \<open>simp add: nkeeps_def\<close>)
    have 2: "K w (snd (lt_PushBlocks E me t (fst ?r) (put_node me (snd ?r) w)))"
      using keeps_trans [OF 1 K_PushBlocks] r by blast
    show "K w (push_chunk E me t ks w)"
      using 1 2 by (simp add: push_chunk_def Some case_prod_beta Let_def)
  qed
qed (simp add: push_chunk_def keeps_refl)

lemma K_pushBlocksChunkedToTarget: "K w (pushBlocksChunkedToTarget E me t ks w)"
proof (induction ks arbitrary: w rule: length_induct)
  case (1 ks)
  let ?c = "push_chunk E me t (take defaultPushBlocksChunkSize ks) w"
  have "K w (pushBlocksChunkedToTarget E me t (drop defaultPushBlocksChunkSize ks) ?c)" if "ks \<noteq> []"
    by (rule keeps_trans [OF K_push_chunk [of w me t "take defaultPushBlocksChunkSize ks"]]) (use 1 that in simp)
  then show ?case
    by (subst pushBlocksChunkedToTarget.simps) (simp add: keeps_refl Let_def split: option.split)
qed

lemma K_pushBlocksChunked [keeps_intros]: "K w (pushBlocksChunked E me ts ks w)"
proof -
  have "K w (push_target E me ks w t)" for w t
    by (simp add: push_target_def Let_def keeps_refl K_pushBlocksChunkedToTarget)
  then show ?thesis by (simp add: pushBlocksChunked_def keeps_refl keeps_foldl)
qed

lemma K_transferKeysRange [keeps_intros]: "K w (transferKeysRange E me t a b w)"
  by (simp add: transferKeysRange_def keeps_refl K_pushBlocksChunked split: option.split sum.split)

lemma K_replicateToNewSuccessors [keeps_intros]: "K w (replicateToNewSuccessors E me old new w)"
proof (cases "w_node w me")
  case (Some n)
  obtain ch n1 where t: "track_predecessor n = (ch, n1)" by fastforce
  then have "N n n1" by (auto simp: track_predecessor_def links_def intro!: nkeeps_same split: option.splits if_splits)
  from keeps_put [OF Some this] have 1: "K w (put_node me n1 w)" .
  show ?thesis
    using 1 keeps_trans [OF 1 K_pushBlocksChunked]
    by (simp add: replicateToNewSuccessors_def Some t Let_def keeps_refl split: sum.split)
qed (simp add: replicateToNewSuccessors_def keeps_refl)

section \<open>Records and tasks\<close>

lemma K_PushRecords [keeps_intros]: "K w (snd (lt_PushRecords E me t kvs w))"
  by (auto simp: lt_PushRecords_def keeps_refl put_records_def intro!: K_resolve nkeeps_same split: sum.split)

lemma K_replicateRecord [keeps_intros]: "K w (replicateRecordBestEffort E me k d w)"
  by (simp add: replicateRecordBestEffort_def keeps_refl keeps_foldl K_PushRecords split: option.split)

lemma K_store_record:
  assumes "w_node w i = Some n"
  shows "K w (snd (store_record E i n k d c w))"
proof -
  have 1: "K w (put_node i (n\<lparr>recs := st\<rparr>) w)" for st
    by (rule keeps_put [OF assms]) (simp add: nkeeps_same)
  show ?thesis
    using 1 keeps_trans [OF 1 K_replicateRecord] by (simp add: store_record_def split: prod.split sum.split)
qed

lemma K_PutRecord [keeps_intros]: "K w (snd (lt_PutRecord E me t k d c w))"
  by (simp add: lt_PutRecord_def keeps_refl K_store_record node_of_resolve split: sum.split)

lemma K_transferRecordsRange [keeps_intros]: "K w (transferRecordsRange E me t a b w)"
  by (simp add: transferRecordsRange_def keeps_refl K_PushRecords Let_def split: option.split)

lemma K_run_task:
  assumes "task_honest truth t"
  shows "K w (run_task E w (me, t))"
proof (cases t)
  case (PushTask tgt k d rs)
  then have "list_all (pushed_honest truth) [(k, d, rs)]" using assms by (simp add: pushed_honest_def)
  note 1 = K_PushBlocks [OF this, of w me tgt]
  show ?thesis
    unfolding run_task_def PushTask prod.case task.case
    by (rule keeps_trans [OF 1 keeps_on_node]) (simp add: nkeeps_same)
next
  case (ReplicateToNewSuccessors old new)
  show ?thesis
    unfolding run_task_def ReplicateToNewSuccessors prod.case task.case
    by (rule keeps_trans [OF K_replicateToNewSuccessors keeps_on_node]) (simp add: nkeeps_same links_def)
qed (simp_all add: run_task_def K_transferKeysRange K_transferRecordsRange)

section \<open>Finding a block\<close>

lemma keepsD:
  assumes "K w w'" "world_good truth ok lok w"
  shows "world_good truth ok lok w'" "world_le hold w w'"
  using assms by (simp_all add: keeps_def)

lemma holds_le:
  assumes "world_le hold w w'" "holds hold w i k"
  shows "holds hold w' i k"
proof -
  obtain n where n: "w_node w i = Some n" "hold (blocks n) k \<noteq> None" using assms(2) by (auto simp: holds_def)
  obtain n' where n': "w_node w' i = Some n'" "hold (blocks n) \<subseteq>\<^sub>m hold (blocks n')"
    using assms(1) n(1) by (rule world_leD)
  have "hold (blocks n') k = hold (blocks n) k" using n(2) n'(2) by (auto simp: map_le_def dom_def)
  then show ?thesis using n'(1) n(2) by (simp add: holds_def)
qed

lemma fetch_succs_ok:
  assumes "world_good truth ok lok w"
  shows "(\<forall>d. fst (fetch_succs E me k ss w) = Inr d \<longrightarrow> d = truth k) \<and>
    ((\<exists>s \<in> set ss. ID s \<noteq> me \<and> (me, ID s) \<notin> set (blocked w) \<and> holds hold w (ID s) k) \<longrightarrow>
      fst (fetch_succs E me k ss w) = Inr (truth k))"
  using assms
proof (induction ss arbitrary: w)
  case (Cons s ss)
  show ?case
  proof (cases "ID s = me \<or> getNode w me (ID s) = None")
    case True
    then have "\<not> (ID s \<noteq> me \<and> (me, ID s) \<notin> set (blocked w) \<and> holds hold w (ID s) k)"
      by (auto simp: getNode_def holds_def)
    moreover have "fetch_succs E me k (s # ss) w = fetch_succs E me k ss w" using True by auto
    ultimately show ?thesis using Cons.IH [OF Cons.prems] unfolding list.set(2) bex_simps by (simp only:) blast
  next
    case False
    then obtain p where p: "ID s \<noteq> me" "getNode w me (ID s) = Some p" by auto
    then have wp: "w_node w (ID s) = Some p" by (simp add: getNode_def split: if_splits)
    obtain r p' where g: "node_Get E k p = (r, p')" by fastforce
    have gp: "good ok lok p" using Cons.prems wp by (simp add: world_good_def)
    note g' = node_Get_ok [OF gp g]
    let ?w = "put_node (ID s) p' w"
    have "K w ?w" using keeps_put [OF wp N_node_Get [of p k]] g by simp
    note w' = keepsD [OF this Cons.prems]
    show ?thesis
    proof (cases "hold (blocks p) k")
      case None
      then obtain e where "r = Inl e" using g'(5) by auto
      then have "fetch_succs E me k (s # ss) w = fetch_succs E me k ss ?w" using p g by simp
      moreover have "\<not> holds hold w (ID s) k" using wp None by (simp add: holds_def)
      moreover have "blocked ?w = blocked w" by simp
      ultimately show ?thesis
        using Cons.IH [OF w'(1)] holds_le [OF w'(2)] unfolding list.set(2) bex_simps by (simp only:) blast
    next
      case (Some d)
      have "d = truth k" using honest [OF _ Some] gp by (simp add: good_def)
      then show ?thesis using p g g'(5) Some by simp
    qed
  qed
qed simp

lemma FetchBlock_ok:
  assumes w: "world_good truth ok lok w"
  shows "(\<forall>d. fst (lt_FetchBlock E me t k w) = Inr d \<longrightarrow> d = truth k) \<and>
    ((me, ID t) \<notin> set (blocked w) \<and> holds hold w (ID t) k \<longrightarrow> fst (lt_FetchBlock E me t k w) = Inr (truth k))"
proof (cases "lt_resolve w me t")
  case (Inl e)
  then have "\<not> ((me, ID t) \<notin> set (blocked w) \<and> holds hold w (ID t) k)"
    by (auto simp: lt_resolve_def getNode_def holds_def split: option.splits)
  then show ?thesis using Inl by (simp add: lt_FetchBlock_def)
next
  case (Inr n)
  note wn = node_of_resolve [OF Inr]
  have n: "good ok lok n" using w wn by (simp add: world_good_def)
  obtain r n' where g: "own_Get E k n = (r, n')" by fastforce
  note g' = own_Get_ok [OF n g]
  have "K w (put_node (ID t) n' w)" using K_resolve [OF Inr N_own_Get [of n k]] g by simp
  note w' = keepsD [OF this w]
  show ?thesis
  proof (cases r)
    case (Inl e)
    then have "\<not> holds hold w (ID t) k" using g' wn by (auto simp: holds_def)
    then show ?thesis using Inr Inl g fetch_succs_ok [OF w'(1)] by (simp add: lt_FetchBlock_def)
  next
    case (Inr d)
    then show ?thesis using \<open>lt_resolve w me t = Inr n\<close> g g' by (simp add: lt_FetchBlock_def)
  qed
qed

lemma FetchBlock_replica:
  assumes w: "world_good truth ok lok w" and t: "lt_resolve w me t = Inr n" "node_id n = ID t"
    and s: "s \<in> set (successorList n)" "ID s \<noteq> ID t" "(ID t, ID s) \<notin> set (blocked w)" "holds hold w (ID s) k"
  shows "fst (lt_FetchBlock E me t k w) = Inr (truth k)"
proof -
  note wn = node_of_resolve [OF t(1)]
  have n: "good ok lok n" using w wn by (simp add: world_good_def)
  obtain r n' where g: "own_Get E k n = (r, n')" by fastforce
  note g' = own_Get_ok [OF n g]
  have "K w (put_node (ID t) n' w)" using K_resolve [OF t(1) N_own_Get [of n k]] g by simp
  note w' = keepsD [OF this w]
  have h: "holds hold (put_node (ID t) n' w) (ID s) k" by (rule holds_le [OF w'(2) s(4)])
  show ?thesis
  proof (cases r)
    case (Inl e)
    then show ?thesis using t g fetch_succs_ok [OF w'(1), of "node_id n"] s h by (auto simp: lt_FetchBlock_def)
  qed (use t g g' in \<open>simp add: lt_FetchBlock_def\<close>)
qed

lemma fan_out_ok:
  assumes "world_good truth ok lok w" "\<forall>d. r = Inr d \<longrightarrow> d = truth k"
    and "(\<exists>d. r = Inr d) \<or> (\<exists>t \<in> set ts. (me, ID t) \<notin> set (blocked w) \<and> holds hold w (ID t) k)"
  shows "fst (fan_out E me k ts r w) = Inr (truth k)"
  using assms
proof (induction ts arbitrary: r w)
  case (Cons t ts)
  obtain r' w1 where f: "lt_FetchBlock E me t k w = (r', w1)" by fastforce
  have "K w w1" using K_FetchBlock [of w me t k] f by simp
  note w1 = keepsD [OF this Cons.prems(1)]
  have b: "blocked w1 = blocked w" using w1(2) by (simp add: world_le_def)
  note fb = FetchBlock_ok [OF Cons.prems(1), of me t k, unfolded f fst_conv]
  let ?r = "case r of Inr _ \<Rightarrow> r | Inl _ \<Rightarrow> (case r' of Inr _ \<Rightarrow> r' | Inl _ \<Rightarrow> r)"
  have "fst (fan_out E me k ts ?r w1) = Inr (truth k)"
  proof (rule Cons.IH [OF w1(1)])
    show "\<forall>d. ?r = Inr d \<longrightarrow> d = truth k" using fb Cons.prems(2) by (cases r; cases r') auto
    show "(\<exists>d. ?r = Inr d) \<or> (\<exists>t \<in> set ts. (me, ID t) \<notin> set (blocked w1) \<and> holds hold w1 (ID t) k)"
      using fb Cons.prems(3) holds_le [OF w1(2)] b by (cases r; cases r') auto
  qed
  then show ?case using f by simp
qed auto

section \<open>Client calls in a serving ring\<close>

lemma serving_route:
  assumes "serving truth ok lok S w" "me \<in> S"
  obtains a where "w_FindSuccessor me key w = (Inr a, w)" "owner S key (ID a)" "ID a \<in> S"
proof -
  obtain a where "w_FindSuccessor me key w = (Inr a, w)" "owner S key (ID a)"
    using ideal_lookup [of S w me key] assms by (auto simp: serving_def)
  then show ?thesis using that by (simp add: owner_def)
qed

lemma serving_node:
  assumes "serving truth ok lok S w" "i \<in> S"
  obtains n where "w_node w i = Some n" "node_id n = i" "good ok lok n" "\<forall>s \<in> set (successorList n). ID s \<in> S"
proof -
  have w: "ideal S w" "world_good truth ok lok w" using assms(1) by (simp_all add: serving_def)
  obtain n where n: "w_node w i = Some n" "node_id n = i" "routes_ok S n" using w(1) assms(2) by (rule idealD)
  then show ?thesis using that w(2) by (simp add: world_good_def routes_ok_def)
qed

lemma serving_open: "serving truth ok lok S w \<Longrightarrow> a \<in> S \<Longrightarrow> b \<in> S \<Longrightarrow> (a, b) \<notin> set (blocked w)"
  using ideal_open by (auto simp: serving_def)

lemma serving_keeps: "K w w' \<Longrightarrow> serving truth ok lok S w \<Longrightarrow> serving truth ok lok S w'"
  unfolding serving_def keeps_def using ideal_le navigable_le by blast

lemma K_PutWithRoot:
  assumes w: "serving truth ok lok S w" "me \<in> S"
  shows "K w (snd (n_PutWithRoot E me k (truth k) root ex w))"
proof -
  obtain a where a: "w_FindSuccessor me (CIDToNodeID (rx E) k) w = (Inr a, w)" using w by (rule serving_route)
  obtain n where n: "w_node w me = Some n" using w by (rule serving_node)
  obtain r n' where s: "store_block E k (truth k) root ex n = (r, n')" by fastforce
  have 1: "K w (put_node me n' w)" using keeps_put [OF n N_store_block [of n k root ex]] s by simp
  show ?thesis
    using a n s 1 keeps_trans [OF 1 K_replicateAsync] K_PutBlock
    by (cases r) (simp_all add: n_PutWithRoot_def)
qed

lemma K_Get:
  assumes w: "serving truth ok lok S w" "me \<in> S"
  shows "K w (snd (n_Get E sched me k w))"
proof -
  obtain a where a: "w_FindSuccessor me (CIDToNodeID (rx E) k) w = (Inr a, w)" using w by (rule serving_route)
  obtain n where n: "w_node w me = Some n" using w by (rule serving_node)
  obtain r n' where s: "own_Get E k n = (r, n')" by fastforce
  have 1: "K w (put_node me n' w)" using keeps_put [OF n N_own_Get [of n k]] s by simp
  show ?thesis
    using a n s 1 keeps_trans [OF 1 K_fan_out] K_FetchBlock by (cases r) (simp_all add: n_Get_def)
qed

lemma K_RecordPut:
  assumes w: "serving truth ok lok S w" "me \<in> S"
  shows "K w (snd (RecordPut E me key d w))"
proof -
  obtain a where a: "w_FindSuccessor me key w = (Inr a, w)" using w by (rule serving_route)
  obtain n where n: "w_node w me = Some n" using w by (rule serving_node)
  show ?thesis using a n K_store_record [OF n] K_PutRecord by (simp add: RecordPut_def)
qed

lemma reads_keep:
  assumes w: "serving truth ok lok S w" "me \<in> S"
  shows "snd (n_Has E me k w) = w" "snd (RecordGet E me key w) = w"
proof -
  obtain a where "w_FindSuccessor me (CIDToNodeID (rx E) k) w = (Inr a, w)" using w by (rule serving_route)
  then show "snd (n_Has E me k w) = w" by (simp add: n_Has_def split: option.split)
  obtain a where "w_FindSuccessor me key w = (Inr a, w)" using w by (rule serving_route)
  then show "snd (RecordGet E me key w) = w" by (simp add: RecordGet_def split: option.split)
qed

text \<open>A get returns the bytes the CID names whenever the owner can find them.\<close>

lemma Get_found:
  assumes w: "serving truth ok lok S w" "me \<in> S" and o: "owner S (CIDToNodeID (rx E) k) i"
    and f: "found_at hold w i k" and sched: "\<And>xs. set (sched xs) = set xs"
  shows "fst (n_Get E sched me k w) = Inr (truth k)"
proof -
  obtain a where a: "w_FindSuccessor me (CIDToNodeID (rx E) k) w = (Inr a, w)"
    "owner S (CIDToNodeID (rx E) k) (ID a)" "ID a \<in> S" using w by (rule serving_route)
  then have i: "i = ID a" using o owner_unique by blast
  have wg: "world_good truth ok lok w" using w(1) by (simp add: serving_def)
  obtain n where n: "w_node w i = Some n" "node_id n = i" "good ok lok n" "\<forall>s \<in> set (successorList n). ID s \<in> S"
    using w(1) a(3) [folded i] by (rule serving_node)
  note op = serving_open [OF w(1)]
  show ?thesis
  proof (cases "i = me")
    case True
    obtain r n' where g: "own_Get E k n = (r, n')" by fastforce
    have "K w (put_node me n' w)" using keeps_put [OF n(1) N_own_Get [of n k]] g True by simp
    note w1 = keepsD [OF this wg]
    show ?thesis
    proof (cases r)
      case (Inl e)
      let ?ts = "sched (filter (\<lambda>s. ID s \<noteq> me) (successorList n))"
      have nh: "\<not> holds hold w i k" using own_Get_ok [OF n(3) g] Inl n(1) by (auto simp: holds_def)
      then obtain s where s: "s \<in> set (successorList n)" "ID s \<noteq> me" "holds hold w (ID s) k"
        using f n(1) True by (auto simp: found_at_def)
      have "s \<in> set ?ts" "(me, ID s) \<notin> set (blocked (put_node me n' w))" "holds hold (put_node me n' w) (ID s) k"
        using s sched n(4) op w(2) holds_le [OF w1(2)] by simp_all
      then have "fst (fan_out E me k ?ts (Inl (Errorf ''block not found'')) (put_node me n' w)) = Inr (truth k)"
        by (intro fan_out_ok [OF w1(1)]) auto
      then show ?thesis using a(1) i True n(1) g Inl by (simp add: n_Get_def)
    next
      case (Inr d)
      then show ?thesis using a(1) i True n(1) g own_Get_ok [OF n(3) g] by (simp add: n_Get_def)
    qed
  next
    case False
    then have e: "n_Get E sched me k w = lt_FetchBlock E me a k w" using a(1) i by (simp add: n_Get_def)
    have t: "lt_resolve w me a = Inr n" using n(1) op [OF w(2) a(3)] unfolding i by (rule lt_resolve_ok)
    show ?thesis
    proof (cases "holds hold w i k")
      case True
      then have "(me, ID a) \<notin> set (blocked w) \<and> holds hold w (ID a) k" using op [OF w(2) a(3)] i by simp
      then show ?thesis using FetchBlock_ok [OF wg, of me a k] unfolding e by blast
    next
      case False
      then obtain s where s: "s \<in> set (successorList n)" "ID s \<noteq> i" "holds hold w (ID s) k"
        using f n(1) by (auto simp: found_at_def)
      then show ?thesis using e FetchBlock_replica [OF wg t] op a(3) i n(2,4) by simp
    qed
  qed
qed

section \<open>A successful put\<close>

lemma PushBlocks_holds:
  assumes w: "world_good truth ok lok w" and p: "lt_PushBlocks E me t [(k, truth k, roots)] w = (Inr (), w')"
  shows "holds hold w' (ID t) k"
proof -
  obtain n n' where n: "lt_resolve w me t = Inr n" "push_blocks E [(k, truth k, roots)] n = (Inr (), n')"
      "w' = put_node (ID t) n' w"
    using p by (auto simp: lt_PushBlocks_def split: sum.splits prod.splits)
  have "good ok lok n" using w node_of_resolve [OF n(1)] by (simp add: world_good_def)
  from push_single_ok [OF this n(2)] show ?thesis using n(3) by (simp add: holds_def)
qed

lemma report_loop_holds:
  assumes "world_good truth ok lok w" "j < fst (report_loop E me (k, truth k, roots) ts j w)"
  shows "\<exists>t \<in> set ts. holds hold (snd (report_loop E me (k, truth k, roots) ts j w)) (ID t) k"
  using assms
proof (induction ts arbitrary: j w)
  case (Cons t ts)
  let ?x = "(k, truth k, roots)"
  have hx: "pushed_honest truth ?x" by (simp add: pushed_honest_def)
  obtain r w1 where p: "lt_PushBlocks E me t [?x] w = (r, w1)" by fastforce
  have "K w w1" using K_PushBlocks [of "[?x]" w me t] p hx by simp
  note w1 = keepsD [OF this Cons.prems(1)]
  show ?case
  proof (cases r)
    case (Inl e)
    then show ?thesis using Cons.IH [OF w1(1), of j] Cons.prems(2) p by auto
  next
    case (Inr u)
    then have "holds hold w1 (ID t) k" using PushBlocks_holds [OF Cons.prems(1)] p by simp
    moreover have "world_le hold w1 (snd (report_loop E me ?x ts (Suc j) w1))"
      using keepsD(2) [OF K_report_loop [OF hx] w1(1)] .
    ultimately have "holds hold (snd (report_loop E me ?x ts (Suc j) w1)) (ID t) k" using holds_le by blast
    then show ?thesis using Inr p by simp
  qed
qed simp

lemma replica_targets_sub: "t \<in> set (replica_targets n) \<Longrightarrow> t \<in> set (successorList n) \<and> ID t \<noteq> node_id n"
  unfolding replica_targets_def by (auto dest: in_set_takeD)

text \<open>
  On the owner: the block is stored there, or, when the owner is full, at one of the successors
  it replicates to.
\<close>

lemma PutBlock_found:
  assumes w: "world_good truth ok lok w" and t: "lt_resolve w me t = Inr n" "node_id n = ID t"
    and p: "lt_PutBlock E me t k (truth k) root ex w = (Inr (), w')"
  shows "found_at hold w' (ID t) k"
proof -
  note wn = node_of_resolve [OF t(1)]
  have n: "good ok lok n" using w wn by (simp add: world_good_def)
  obtain r n' where s: "store_block E k (truth k) root ex n = (r, n')" by fastforce
  note s' = store_block_ok [OF n s]
  have "K w (put_node (ID t) n' w)" using K_resolve [OF t(1) N_store_block [of n k root ex]] s by simp
  note w1 = keepsD [OF this w]
  show ?thesis
  proof (cases r)
    case (Inr u)
    then have "holds hold (put_node (ID t) n' w) (ID t) k" using s' by (simp add: holds_def)
    moreover have "w' = on_node (ID t) (replicateAsync E k (truth k) root ex) (put_node (ID t) n' w)"
      using p t(1) s Inr by (simp add: lt_PutBlock_def)
    ultimately have "holds hold w' (ID t) k" using holds_le keepsD(2) [OF K_replicateAsync w1(1)] by blast
    then show ?thesis by (simp add: found_at_def)
  next
    case (Inl e)
    let ?w = "put_node (ID t) n' w"
    obtain ok' tot where rep: "replicateAndReport E (ID t) k (truth k) root ex ?w = ((ok', tot), w')" "ok' \<noteq> 0"
      using p t(1) s Inl by (auto simp: lt_PutBlock_def split: if_splits prod.splits)
    let ?x = "(k, truth k, replica_roots E root ex)"
    have rl: "report_loop E (ID t) ?x (replica_targets n') 0 ?w = (ok', w')"
      using rep by (auto simp: replicateAndReport_def split: if_splits prod.splits)
    obtain s where h: "s \<in> set (replica_targets n')" "holds hold w' (ID s) k"
      using report_loop_holds [OF w1(1), of 0 "ID t" k "replica_roots E root ex" "replica_targets n'"] rl rep(2) by auto
    have "links n' = links n" using s' by (simp add: node_le_def)
    then have "node_id n' = ID t" using t(2) by (simp add: links_def)
    then have sub: "s \<in> set (successorList n')" "ID s \<noteq> ID t" using replica_targets_sub [OF h(1)] by simp_all
    have hx: "pushed_honest truth ?x" by (simp add: pushed_honest_def)
    have "world_le hold ?w w'" using keepsD(2) [OF K_report_loop [OF hx] w1(1)] rl by (metis snd_conv)
    moreover have "w_node ?w (ID t) = Some n'" by simp
    ultimately obtain m where "w_node w' (ID t) = Some m" "links m = links n'" by (rule world_leD)
    then show ?thesis using sub h(2) by (auto simp: found_at_def links_def)
  qed
qed

lemma Put_found:
  assumes w: "serving truth ok lok S w" "me \<in> S"
    and p: "n_PutWithRoot E me k (truth k) root ex w = (Inr (), w')"
  shows "\<exists>i. owner S (CIDToNodeID (rx E) k) i \<and> found_at hold w' i k"
proof -
  obtain a where a: "w_FindSuccessor me (CIDToNodeID (rx E) k) w = (Inr a, w)"
    "owner S (CIDToNodeID (rx E) k) (ID a)" "ID a \<in> S" using w by (rule serving_route)
  have wg: "world_good truth ok lok w" using w(1) by (simp add: serving_def)
  have "found_at hold w' (ID a) k"
  proof (cases "ID a = me")
    case False
    obtain n where n: "w_node w (ID a) = Some n" "node_id n = ID a" using w(1) a(3) by (rule serving_node)
    have "lt_resolve w me a = Inr n" using n(1) serving_open [OF w a(3)] by (rule lt_resolve_ok)
    from PutBlock_found [OF wg this n(2)] show ?thesis using p a(1) False by (simp add: n_PutWithRoot_def)
  next
    case True
    obtain n where n: "w_node w me = Some n" "good ok lok n" using w by (rule serving_node)
    obtain r n' where s: "store_block E k (truth k) root ex n = (r, n')" by fastforce
    have e: "r = Inr ()" "w' = on_node me (replicateAsync E k (truth k) root ex) (put_node me n' w)"
      using p a(1) True n(1) s by (auto simp: n_PutWithRoot_def split: sum.splits)
    have "K w (put_node me n' w)" using keeps_put [OF n(1) N_store_block [of n k root ex]] s by simp
    note w1 = keepsD [OF this wg]
    have "holds hold (put_node me n' w) me k" using store_block_ok [OF n(2) s] e(1) by (simp add: holds_def)
    then have "holds hold w' me k" using holds_le keepsD(2) [OF K_replicateAsync w1(1)] e(2) by blast
    then show ?thesis using True by (simp add: found_at_def)
  qed
  then show ?thesis using a(2) by blast
qed

section \<open>Maintenance keeps the data\<close>

lemma more_data: "node.more n' = node.more n \<Longrightarrow> blocks n' = blocks n \<and> localBlocks n' = localBlocks n"
  by (cases n; cases n') simp

lemma keep_data:
  assumes k: "keep node.more w w'" and w: "world_good truth ok lok w"
  shows "world_good truth ok lok w' \<and> (holds hold w i b \<longrightarrow> holds hold w' i b)"
proof -
  have "good ok lok n'" if n': "w_node w' j = Some n'" for j n'
  proof -
    have "map_option node.more (w_node w j) = Some (node.more n')" using k n' unfolding keep_def by (metis option.simps(9))
    then obtain n where n: "w_node w j = Some n" "node.more n' = node.more n" by auto
    then show ?thesis using w more_data [OF n(2)] by (simp add: world_good_def good_def)
  qed
  moreover have "task_honest truth (snd it)" if it: "it \<in> set (pending w')" for it
  proof (cases "is_push (snd it)")
    case True
    then have "it \<in> set (pending w)" using k it unfolding keep_def by blast
    then show ?thesis using w by (simp add: world_good_def)
  next
    case False
    then show ?thesis by (cases "snd it") simp_all
  qed
  moreover have "holds hold w' i b" if h: "holds hold w i b"
  proof -
    obtain n where n: "w_node w i = Some n" "hold (blocks n) b \<noteq> None" using h by (auto simp: holds_def)
    obtain n' where "w_node w' i = Some n'" "node.more n' = node.more n" using keepD [OF k n(1)] by blast
    then show ?thesis using n(2) more_data [of n' n] by (simp add: holds_def)
  qed
  ultimately show ?thesis by (auto simp: world_good_def)
qed

lemma maint_keep: "maint_step S w w' \<Longrightarrow> keep node.more w w'"
  by (erule maint_step.cases) (simp_all add: extra.keep_stabilize extra.keep_fixFinger extra.keep_checkPredecessor)

section \<open>A running ring\<close>

lemma step_serving:
  assumes "sys_step E truth S w w'" "serving truth ok lok S w"
  shows "serving truth ok lok S w' \<and> (holds hold w i b \<longrightarrow> holds hold w' i b)"
proof -
  have K: ?thesis if "K w w'"
  proof -
    have "world_le hold w w'" using that assms(2) by (simp add: keeps_def serving_def)
    then show ?thesis using serving_keeps [OF that assms(2)] holds_le by blast
  qed
  from assms(1) show ?thesis
  proof cases
    case maintenance
    have "serving truth ok lok S w'"
      using maint_step_ideal [OF maintenance] keep_data [OF maint_keep [OF maintenance]] assms(2) by (simp add: serving_def)
    then show ?thesis using keep_data [OF maint_keep [OF maintenance]] assms(2) by (simp add: serving_def)
  next
    case (task xs j t ys)
    let ?v = "w\<lparr>pending := xs @ ys\<rparr>"
    have 1: "K w ?v"
      by (auto simp: keeps_def world_good_def world_le_def w_node_def task(2) option.rel_refl)
    have "world_good truth ok lok w" using assms(2) by (simp add: serving_def)
    then have "task_honest truth t" using task(2) by (simp add: world_good_def)
    from keeps_trans [OF 1 K_run_task [OF this]] show ?thesis using K task(1) by blast
  qed (use K assms(2) K_PutWithRoot K_Get K_RecordPut in blast)+
qed

lemma run_serving:
  assumes "(sys_step E truth S)\<^sup>*\<^sup>* w w'" "serving truth ok lok S w"
  shows "serving truth ok lok S w' \<and> (holds hold w i b \<longrightarrow> holds hold w' i b)"
  using assms
proof (induction rule: rtranclp_induct)
  case (step u v)
  then show ?case using step_serving [OF step.hyps(2), of i b] by blast
qed simp

end

end
