(* ===== verification/Node_Props.thy ===== *)
theory Node_Props
  imports Node_Avail
begin

text \<open>
  What the data layer of the ring promises, over any stores that keep the \<open>BlockStore\<close>
  contract: a stored block is found again from every member and stays so while the ring runs.
\<close>

section \<open>Stores that give the interface\<close>

text \<open>
  The plain and the local store of a node keep the \<open>BlockStore\<close> contract, the block store below
  the network store is reliable, and a CID names its bytes by its multihash.
\<close>

definition node_env ::
  "('m, 'd, 'b, 'l) denv \<Rightarrow> (cid \<Rightarrow> bytes) \<Rightarrow> (cid \<Rightarrow> 'k) \<Rightarrow> ('m \<Rightarrow> bool) \<Rightarrow> ('m \<Rightarrow> 'k \<rightharpoonup> bytes) \<Rightarrow>
   ('b \<Rightarrow> bytes \<rightharpoonup> bytes) \<Rightarrow> (cid \<Rightarrow> 'j) \<Rightarrow> ('l \<Rightarrow> bool) \<Rightarrow> ('l \<Rightarrow> 'j \<rightharpoonup> bytes) \<Rightarrow> bool" where
  "node_env E truth kf pinv M B lf linv L \<longleftrightarrow>
     block_store (plain E) kf pinv M \<and> blk_laws (netE E) B \<and> block_store (locE E) lf linv L \<and>
     (\<forall>j k. kf j = kf k \<or> Hash j = Hash k \<longrightarrow> truth j = truth k)"

lemma honest_upd:
  assumes "honest truth (\<lambda>k. c (f k))" "\<And>j. f j = f k \<Longrightarrow> truth j = truth k"
  shows "honest truth (\<lambda>j. (c(f k \<mapsto> truth k)) (f j))"
  using assms unfolding honest_def by (metis fun_upd_apply option.inject)

lemma honest_put:
  assumes "honest truth (\<lambda>k. c (f k))"
  shows "c (f k) \<in> {None, Some (truth k)}" "(\<lambda>j. c (f j)) \<subseteq>\<^sub>m (\<lambda>j. (c(f k \<mapsto> truth k)) (f j))"
proof -
  have "d = truth k" if "c (f k) = Some d" for d using assms that by (simp add: honest_def)
  then show c: "c (f k) \<in> {None, Some (truth k)}" by (cases "c (f k)") simp_all
  show "(\<lambda>j. c (f j)) \<subseteq>\<^sub>m (\<lambda>j. (c(f k \<mapsto> truth k)) (f j))" using c by (auto simp: map_le_def)
qed

lemma held_simps:
  "held kf M B (Plain m) = (\<lambda>k. M m (kf k))" "held kf M B (Net s) = (\<lambda>k. B (blks s) (Hash k))"
  by (simp_all add: held_def fun_eq_iff)

lemma node_envD:
  assumes "node_env E truth kf pinv M B lf linv L"
  shows "block_store (plain E) kf pinv M" "blk_laws (netE E) B" "block_store (locE E) lf linv L"
    "kf j = kf k \<Longrightarrow> truth j = truth k" "Hash j = Hash k \<Longrightarrow> truth j = truth k"
  using assms unfolding node_env_def by blast+

lemma node_env_put:
  assumes e: "node_env E truth kf pinv M B lf linv L"
    and b: "store_ok truth kf pinv M B b" "b_Put E k (truth k) b = (r, b')"
  shows "store_ok truth kf pinv M B b' \<and> held kf M B b \<subseteq>\<^sub>m held kf M B b' \<and>
      (r = Inr () \<longrightarrow> held kf M B b' k = Some (truth k))"
proof (cases b)
  case (Plain m)
  then obtain m' where m': "bs_Put (plain E) k (truth k) m = (r, m')" "b' = Plain m'"
    using b(2) by (cases "bs_Put (plain E) k (truth k) m") (auto simp: b_Put_def)
  have m: "pinv m" "honest truth (\<lambda>k. M m (kf k))" using b(1) Plain by (simp_all add: store_ok_def held_simps)
  note hp = honest_put [where c = "M m" and f = kf, OF m(2)]
  have u: "honest truth (\<lambda>j. ((M m)(kf k \<mapsto> truth k)) (kf j))"
    by (rule honest_upd [where c = "M m" and f = kf, OF m(2)]) (rule node_envD(4) [OF e])
  have "pinv m' \<and> M m' = (if r = Inr () then (M m)(kf k \<mapsto> truth k) else M m)"
    by (rule block_store.put [OF node_envD(1) [OF e] m(1) hp(1) m'(1)])
  then show ?thesis
    using u hp(2) m(2) by (cases "r = Inr ()") (simp_all add: Plain m'(2) store_ok_def held_simps)
next
  case (Net s)
  then obtain s' where s': "nbs_Put (netE E) k (truth k) s = (r, s')" "b' = Net s'"
    using b(2) by (cases "nbs_Put (netE E) k (truth k) s") (auto simp: b_Put_def)
  have s: "exact B s" "honest truth (\<lambda>k. B (blks s) (Hash k))" using b(1) Net by (simp_all add: store_ok_def held_simps)
  note hp = honest_put [where c = "B (blks s)" and f = Hash, OF s(2)]
  have u: "honest truth (\<lambda>j. ((B (blks s))(Hash k \<mapsto> truth k)) (Hash j))"
    by (rule honest_upd [where c = "B (blks s)" and f = Hash, OF s(2)]) (rule node_envD(5) [OF e])
  have "bs_Put (nbs_ops (netE E)) k (truth k) s = (r, s')" using s'(1) by (simp add: nbs_ops_def)
  from block_store.put [OF nbs_block_store [OF node_envD(2) [OF e]] s(1) hp(1) this]
  show ?thesis
    using u hp(2) s(2) by (cases "r = Inr ()") (simp_all add: Net s'(2) store_ok_def held_simps)
qed

lemma node_env_store:
  assumes e: "node_env E truth kf pinv M B lf linv L"
  shows "node_store E truth (store_ok truth kf pinv M B) (held kf M B) (local_ok truth lf linv L)"
proof (unfold_locales, goal_cases)
  case (1 b k r b')
  then show ?case by (rule node_env_put [OF e])
next
  case (2 b k x b')
  show ?case
  proof (cases b)
    case (Plain m)
    then obtain m' where m': "bs_Get (plain E) k m = (x, m')" "b' = Plain m'" using 2(2) by (cases "bs_Get (plain E) k m") (auto simp: b_Get_def)
    then show ?thesis using block_store.get [OF node_envD(1) [OF e] _ m'(1)] 2(1) Plain by (simp add: store_ok_def held_simps)
  next
    case (Net s)
    then have "x = nbs_Get (netE E) k s" "b' = b" using 2(2) by (simp_all add: b_Get_def)
    then show ?thesis
      using block_store.get [OF nbs_block_store [OF node_envD(2) [OF e]], of s k x s] 2(1) Net by (simp add: store_ok_def held_simps nbs_ops_def)
  qed
next
  case (3 b k)
  show ?case
  proof (cases b)
    case (Plain m)
    then show ?thesis using block_store.has [OF node_envD(1) [OF e]] 3 by (simp add: store_ok_def held_simps b_Has_def)
  next
    case (Net s)
    then show ?thesis
      using block_store.has [OF nbs_block_store [OF node_envD(2) [OF e]], of s k] 3 by (simp add: store_ok_def held_simps b_Has_def nbs_ops_def)
  qed
next
  case (4 s now rv k root ex r s')
  have s: "exact B s" "honest truth (\<lambda>k. B (blks s) (Hash k))" using 4(1) by (simp_all add: store_ok_def held_simps)
  note hp = honest_put [where c = "B (blks s)" and f = Hash, OF s(2)]
  have u: "honest truth (\<lambda>j. ((B (blks s))(Hash k \<mapsto> truth k)) (Hash j))"
    by (rule honest_upd [where c = "B (blks s)" and f = Hash, OF s(2)]) (rule node_envD(5) [OF e])
  show ?case
    using PutWithRoot_adds [OF put_laws_reliable [OF node_envD(2) [OF e]] s(1) hp(1) 4(2)] u hp(2) s(2)
    by (cases "r = Inr ()") (simp_all add: store_ok_def held_simps)
next
  case (5 s' s)
  then show ?case using poolD [OF 5] exact_pool [OF 5, of B] by (simp add: store_ok_def held_simps)
next
  case (6 b k d)
  then show ?case by (simp add: store_ok_def honest_def)
next
  case (7 l k x l')
  then have l: "linv l" "honest truth (\<lambda>k. L l (lf k))" by (simp_all add: local_ok_def)
  then show ?case
    using block_store.get [OF node_envD(3) [OF e] l(1) 7(2)] by (auto simp: local_ok_def honest_def split: option.splits)
qed

section \<open>A small ring with quotas\<close>

definition demo_rx :: ext where
  "demo_rx =
     \<lparr>marshal_signed = (\<lambda>_. Inl (Errorf ''codec'')), unmarshal_signed = (\<lambda>_. Inl (Errorf ''codec'')),
      marshal_provider = (\<lambda>_. Inl (Errorf ''codec'')), unmarshal_provider = (\<lambda>_. Inl (Errorf ''codec'')),
      marshal_providers = (\<lambda>_. Inl (Errorf ''codec'')), unmarshal_providers = (\<lambda>_. Inl (Errorf ''codec'')),
      cbor_marshal_peer = (\<lambda>_. Inl (Errorf ''codec'')), cbor_unmarshal_peer = (\<lambda>_. Inl (Errorf ''codec'')),
      cbor_marshal_group = (\<lambda>_. Inl (Errorf ''codec'')), cbor_unmarshal_group = (\<lambda>_. Inl (Errorf ''codec'')),
      sha1_Sum = (\<lambda>b. testNodeID (hd b)), hmac_sha256 = (\<lambda>k m. k @ m),
      ed25519_Public = take 32, ed25519_Sign = (\<lambda>k m. replicate 64 0),
      ed25519_Verify = (\<lambda>pub m s. length s = 64)\<rparr>"

definition demo_denv :: "(testMemStore quotaBlockStore, (string \<times> bytes) list, (bytes \<times> bytes) list, testMemStore) denv" where
  "demo_denv = \<lparr>plain = quota_ops mem_ops, netE = mem_nenv, locE = mem_ops,
     rx = demo_rx, clock = 5, nowNs = 5, wallNs = 5,
     DecodeLinks = (\<lambda>_ _. Inr [])\<rparr>"

definition demo_node where
  "demo_node k succs p mx = node.extend (demo_member k succs p)
     (dnode.fields (Plain \<lparr>q_inner = [], q_maxBytes = mx, q_usedBytes = 0\<rparr>) None RingPublic (new_records demo_cfg) 0 0)"

definition demo_world :: "(testMemStore quotaBlockStore, (string \<times> bytes) list, (bytes \<times> bytes) list, testMemStore) world" where
  "demo_world = \<lparr>nodeMap = [(demo_id 10, demo_node 10 [20, 30] 30 100), (demo_id 20, demo_node 20 [30, 10] 10 100),
       (demo_id 30, demo_node 30 [10, 20] 20 2)],
     Nodes = [demo_id 10, demo_id 20, demo_id 30], blocked = [], pending = [], ring_Replication = 2\<rparr>"

abbreviation demo_block :: cid where "demo_block \<equiv> NewCidV1 codec_Raw [25, 1, 2]"

lemma demo_node_env:
  "node_env demo_denv Hash (\<lambda>k. k) (quota_inv (\<lambda>m. distinct (map fst m)) map_of) (\<lambda>q. map_of (q_inner q))
     map_of (\<lambda>k. k) (\<lambda>m. distinct (map fst m)) map_of"
  using quota_mem.block_store_axioms mem.block_store_axioms mem_blk_laws
  by (simp add: node_env_def demo_denv_def)

abbreviation "demo_ok \<equiv> store_ok Hash (\<lambda>k. k) (quota_inv (\<lambda>m. distinct (map fst m)) map_of) (\<lambda>q. map_of (q_inner q)) map_of"
abbreviation "demo_hold \<equiv> held (\<lambda>k. k) (\<lambda>q. map_of (q_inner q)) map_of"
abbreviation "demo_lok \<equiv> local_ok Hash (\<lambda>k. k) (\<lambda>m. distinct (map fst m)) map_of"

interpretation demo: node_store demo_denv Hash demo_ok demo_hold demo_lok
  by (rule node_env_store [OF demo_node_env])

lemma demo_links: "links (demo_node k ss p mx) = links (demo_member k ss p)"
  by (simp add: demo_node_def links_def node.defs)

lemma demo_world_nodes:
  "w_node demo_world i = (if i = demo_id 10 then Some (demo_node 10 [20, 30] 30 100)
     else if i = demo_id 20 then Some (demo_node 20 [30, 10] 10 100)
     else if i = demo_id 30 then Some (demo_node 30 [10, 20] 20 2) else None)"
  by (simp add: w_node_def demo_world_def)

lemma demo_world_frame: "blocked demo_world = []" "pending demo_world = []"
  by (simp_all add: demo_world_def)

lemma demo_good: "0 \<le> mx \<Longrightarrow> good demo_ok demo_lok (demo_node k ss p mx)"
  by (simp add: good_def demo_node_def node.defs dnode.defs store_ok_def held_simps quota_inv_def honest_def usage_empty)

lemma demo_serving: "serving Hash demo_ok demo_lok demo_ids demo_world"
proof -
  have mo: "member_ok demo_ids (demo_id k) (demo_node k ss p mx)"
    if "w_node demo_ring (demo_id k) = Some (demo_member k ss p)" "demo_id k \<in> demo_ids" for k ss p mx
    using demo_ideal that member_ok_links [OF demo_links] unfolding ideal_def by fastforce
  have "ideal demo_ids demo_world"
    using mo [OF demo_nodes(1)] mo [OF demo_nodes(2)] mo [OF demo_nodes(3)]
    by (auto simp: ideal_def open_among_def demo_world_nodes demo_world_frame)
  moreover have "navigable demo_ids demo_world" by (simp add: navigable_def card_insert_if)
  moreover have "world_good Hash demo_ok demo_lok demo_world"
    by (auto simp: world_good_def demo_world_nodes demo_world_frame demo_good split: if_splits)
  ultimately show ?thesis by (simp add: serving_def)
qed

section \<open>Blocks\<close>

text \<open>
  C15. A put that reports success can be read back: whichever member stored the block, and
  whether the owner kept it or, being full, left it to a successor, a get from any member
  returns the bytes, in whatever order the answers arrive.
\<close>

theorem put_then_get:
  assumes "node_env E truth kf pinv M B lf linv L"
    and "serving truth (store_ok truth kf pinv M B) (local_ok truth lf linv L) S w" "me \<in> S" "you \<in> S"
    and "n_PutWithRoot E me key (truth key) root ex w = (Inr (), w')"
    and "\<And>xs. set (sched xs) = set xs"
  shows "fst (n_Get E sched you key w') = Inr (truth key)"
proof -
  note ns = node_env_store [OF assms(1)]
  have "serving truth (store_ok truth kf pinv M B) (local_ok truth lf linv L) S w'"
    using node_store.serving_keeps [OF ns node_store.K_PutWithRoot [OF ns assms(2,3)] assms(2)] assms(5) by (metis snd_conv)
  moreover obtain i where "owner S (CIDToNodeID (rx E) key) i" "found_at (held kf M B) w' i key"
    using node_store.Put_found [OF ns assms(2,3,5)] by blast
  ultimately show ?thesis using node_store.Get_found [OF ns _ assms(4) _ _ assms(6)] by blast
qed

lemma demo_put: "fst (n_PutWithRoot demo_denv (demo_id 10) demo_block (Hash demo_block) Undef 0 demo_world) = Inr ()"
  by code_simp

theorem put_then_get_witness:
  "fst (n_Get demo_denv rev (demo_id 20) demo_block
      (snd (n_PutWithRoot demo_denv (demo_id 10) demo_block (Hash demo_block) Undef 0 demo_world))) = Inr [25, 1, 2]"
proof -
  have "n_PutWithRoot demo_denv (demo_id 10) demo_block (Hash demo_block) Undef 0 demo_world =
    (Inr (), snd (n_PutWithRoot demo_denv (demo_id 10) demo_block (Hash demo_block) Undef 0 demo_world))"
    by (rule prod_eqI) (simp_all only: demo_put fst_conv snd_conv)
  from put_then_get [OF demo_node_env demo_serving _ _ this, of "demo_id 20" rev]
  show ?thesis by (simp add: NewCidV1_def)
qed

text \<open>
  C16. A stored block stays available while the ring runs: once the owner holds it, then
  after any sequence of puts, gets and record puts of the members, background tasks and
  maintenance rounds, a get from any member returns its bytes.
\<close>

theorem block_stays_available:
  assumes "node_env E truth kf pinv M B lf linv L"
    and "serving truth (store_ok truth kf pinv M B) (local_ok truth lf linv L) S w"
    and "owner S (CIDToNodeID (rx E) key) i" "holds (held kf M B) w i key"
    and "(sys_step E truth S)\<^sup>*\<^sup>* w w'" "me \<in> S" "\<And>xs. set (sched xs) = set xs"
  shows "fst (n_Get E sched me key w') = Inr (truth key)"
proof -
  note ns = node_env_store [OF assms(1)]
  have "serving truth (store_ok truth kf pinv M B) (local_ok truth lf linv L) S w'" "holds (held kf M B) w' i key"
    using node_store.run_serving [OF ns assms(5,2)] assms(4) by blast+
  then show ?thesis
    using node_store.Get_found [OF ns _ assms(6,3) _ assms(7)] by (simp add: found_at_def)
qed

abbreviation demo_small :: cid where "demo_small \<equiv> NewCidV1 codec_Raw [25, 1]"

definition demo_stored where
  "demo_stored = snd (n_PutWithRoot demo_denv (demo_id 10) demo_small (Hash demo_small) Undef 0 demo_world)"

theorem block_stays_available_witness:
  "fst (n_Get demo_denv rev (demo_id 10) demo_small (stabilize (demo_id 20) demo_stored)) = Inr [25, 1]"
proof -
  have s: "serving Hash demo_ok demo_lok demo_ids demo_stored"
    unfolding demo_stored_def by (rule demo.serving_keeps [OF demo.K_PutWithRoot [OF demo_serving] demo_serving]) simp
  have o: "owner demo_ids (CIDToNodeID (rx demo_denv) demo_small) (demo_id 30)"
    using demo_owner by (simp add: CIDToNodeID_def demo_denv_def demo_rx_def NewCidV1_def demo_id_def)
  have "map_option (\<lambda>n. demo_hold (blocks n) demo_small) (w_node demo_stored (demo_id 30)) = Some (Some [25, 1])"
    by code_simp
  then have h: "holds demo_hold demo_stored (demo_id 30) demo_small" by (auto simp: holds_def)
  have "(sys_step demo_denv Hash demo_ids)\<^sup>*\<^sup>* demo_stored (stabilize (demo_id 20) demo_stored)"
    by (rule r_into_rtranclp, rule sys_step.maintenance, rule m_stabilize) simp
  from block_stays_available [OF demo_node_env s o h this, of "demo_id 10" rev]
  show ?thesis by (simp add: NewCidV1_def)
qed

end
