(* ===== verification/Node_Moves.thy ===== *)
theory Node_Moves
  imports Node_Props
begin

text \<open>
  How keys move when membership changes. In a ring whose nodes keep their blocks in plain
  stores that never refuse a put, as the stores of the test ring, every block is with the
  owner of its key again after a join, after a leave and after the crash of a replicated owner.
\<close>

section \<open>Responsibility after a change of membership\<close>

lemma owner_insert:
  assumes own: "owner S me s" "me \<notin> S" and p: "next_member S p s" "p \<in> S" and x: "owner S x i"
  shows "owner (insert me S) x (if cw p x \<le> cw p me then me else i)"
    and "cw p x \<le> cw p me \<Longrightarrow> i = s"
proof -
  note ins = next_member_insert [OF own p]
  have pm: "cw p me < cw p s" using own p(2) by (rule newcomer_between)
  show "i = s" if "cw p x \<le> cw p me"
  proof -
    have "owner S x s" by (rule owner_next_member [OF p(1)]) (use that pm in simp)
    then show ?thesis using x owner_unique by blast
  qed
  show "owner (insert me S) x (if cw p x \<le> cw p me then me else i)"
  proof (cases "cw p x \<le> cw p me")
    case True
    then show ?thesis using owner_next_member [OF ins(1)] by simp
  next
    case False
    have "dist x p \<le> dist x me"
    proof (cases "x = p \<or> x = me")
      case False
      have "cw p x = cw p me + cw me x" by (rule cw_split) (use \<open>\<not> cw p x \<le> cw p me\<close> in simp)
      moreover have "cw p x + cw x p = ringSize" "cw me x + cw x me = ringSize"
        using False cw_swap [of p x] cw_swap [of me x] by auto
      ultimately show ?thesis using False by (simp add: dist_def)
    qed (use \<open>\<not> cw p x \<le> cw p me\<close> in auto)
    moreover have "dist x i \<le> dist x p" using x p(2) by (simp add: owner_def)
    ultimately show ?thesis using x False by (auto simp: owner_def)
  qed
qed

lemma owner_remove:
  assumes x: "owner S x i" and s: "next_member S me s" "s \<noteq> me" and me: "me \<in> S"
  shows "owner (S - {me}) x (if i = me then s else i)"
proof (cases "i = me")
  case False
  then show ?thesis using x by (auto simp: owner_def)
next
  case True
  have split: "dist x y = dist x me + dist me y" if "y \<in> S" for y
    using x that True by (intro dist_split) (simp add: owner_def)
  have "dist x s \<le> dist x y" if y: "y \<in> S - {me}" for y
  proof -
    have "cw me s \<le> cw me y" using s(1) y by (simp add: next_member_def)
    moreover have "s \<in> S" using s(1) by (simp add: next_member_def)
    ultimately show ?thesis using y split [of s] split [of y] s(2) by (auto simp: dist_def)
  qed
  then show ?thesis using True s by (simp add: owner_def next_member_def)
qed

section \<open>Plain stores that never refuse\<close>

definition is_plain :: "('m, 'd, 'b, 'l) dnode \<Rightarrow> bool" where
  "is_plain n \<longleftrightarrow> (\<exists>m. blocks n = Plain m)"

definition plain_world :: "('m, 'd, 'b, 'l) world \<Rightarrow> bool" where
  "plain_world w \<longleftrightarrow> (\<forall>i n. w_node w i = Some n \<longrightarrow> is_plain n)"

definition keys_at where
  "keys_at hold w i = {k. holds hold w i k}"

lemma node_pending [simp]: "w_node (w\<lparr>pending := ps\<rparr>) i = w_node w i"
  by (simp add: w_node_def)

lemma keys_at_put: "keys_at hold (put_node i n w) = (keys_at hold w)(i := dom (hold (blocks n)))"
  by (auto simp: keys_at_def holds_def fun_eq_iff)

lemma keys_at_node: "w_node w i = Some n \<Longrightarrow> keys_at hold w i = dom (hold (blocks n))"
  by (auto simp: keys_at_def holds_def)

lemma plain_put: "plain_world w \<Longrightarrow> is_plain n \<Longrightarrow> plain_world (put_node i n w)"
  by (simp add: plain_world_def)

lemma plain_ringStore: "is_plain n \<Longrightarrow> ringStore n = None"
  by (auto simp: is_plain_def ringStore_def)

locale eager_nodes = node_store E truth ok hold lok
  for E :: "('m, 'd, 'b, 'l) denv" and truth ok hold lok +
  assumes e_put: "ok (Plain m) \<Longrightarrow> b_Put E k (truth k) (Plain m) = (r, b') \<Longrightarrow>
      r = Inr () \<and> (\<exists>m'. b' = Plain m') \<and> dom (hold b') = insert k (dom (hold (Plain m)))"
    and e_get: "b_Get E k (Plain m) = (x, b') \<Longrightarrow> \<exists>m'. b' = Plain m'"
    and e_delete: "ok (Plain m) \<Longrightarrow> b_Delete E k (Plain m) = (r, b') \<Longrightarrow>
      (\<exists>m'. b' = Plain m') \<and> ok b' \<and> dom (hold b') = dom (hold (Plain m)) - {k}"
    and e_keys: "ok (Plain m) \<Longrightarrow> \<exists>ks. b_AllKeys E (Plain m) = Inr ks \<and> set ks = dom (hold (Plain m))"
begin

lemma plain_Get:
  assumes "good ok lok n" "is_plain n" "node_Get E k n = (r, n')"
  shows "good ok lok n'" "is_plain n'" "links n' = links n" "hold (blocks n') = hold (blocks n)" "recs n' = recs n"
    "r = Inr (truth k) \<and> k \<in> dom (hold (blocks n)) \<or> (\<exists>e. r = Inl e) \<and> k \<notin> dom (hold (blocks n))"
proof -
  obtain m where m: "blocks n = Plain m" using assms(2) by (auto simp: is_plain_def)
  note g = node_Get_ok [OF assms(1,3)]
  show "good ok lok n'" "links n' = links n" "hold (blocks n') = hold (blocks n)" by (rule g(1-3))+
  show "is_plain n'" "recs n' = recs n"
    using assms(3) e_get [of k m] m by (auto simp: node_Get_def is_plain_def split: prod.splits)
  show "r = Inr (truth k) \<and> k \<in> dom (hold (blocks n)) \<or> (\<exists>e. r = Inl e) \<and> k \<notin> dom (hold (blocks n))"
  proof (cases "hold (blocks n) k")
    case (Some d)
    then have "d = truth k" using honest [OF _ Some] assms(1) by (simp add: good_def)
    then show ?thesis using g(5) Some by auto
  qed (use g(5) in auto)
qed

lemma plain_read:
  assumes "good ok lok n" "is_plain n"
  shows "fst (read_blocks E ks n) = map (\<lambda>k. (k, truth k, [])) (filter (\<lambda>k. k \<in> dom (hold (blocks n))) ks) \<and>
    good ok lok (snd (read_blocks E ks n)) \<and> is_plain (snd (read_blocks E ks n)) \<and>
    links (snd (read_blocks E ks n)) = links n \<and> hold (blocks (snd (read_blocks E ks n))) = hold (blocks n) \<and>
    recs (snd (read_blocks E ks n)) = recs n"
  using assms
proof (induction ks arbitrary: n)
  case (Cons k ks)
  obtain r n1 where g: "node_Get E k n = (r, n1)" by fastforce
  note n1 = plain_Get [OF Cons.prems g]
  have "roots_of E n1 k = []" using plain_ringStore [OF n1(2)] by (simp add: roots_of_def)
  then show ?case using Cons.IH [OF n1(1,2)] g n1(3-6) by (auto simp: case_prod_beta Let_def)
qed simp

lemma plain_push_one:
  assumes n: "good ok lok n" "is_plain n"
  shows "fst (push_one E (k, truth k, roots) n) = Inr () \<and> is_plain (snd (push_one E (k, truth k, roots) n)) \<and>
    dom (hold (blocks (snd (push_one E (k, truth k, roots) n)))) = insert k (dom (hold (blocks n)))"
proof -
  obtain m where m: "blocks n = Plain m" using n(2) by (auto simp: is_plain_def)
  obtain r b where b: "b_Put E k (truth k) (Plain m) = (r, b)" by fastforce
  have "push_one E (k, truth k, roots) n = (r, n\<lparr>blocks := b\<rparr>)"
    using plain_ringStore [OF n(2)] b m by (simp add: push_one_def)
  then show ?thesis using e_put [OF _ b] n(1) m by (auto simp: good_def is_plain_def)
qed

lemma plain_push_loop:
  assumes "good ok lok n" "is_plain n" "list_all (pushed_honest truth) xs"
  shows "fst (push_loop E xs j n) = Inr (j + length xs) \<and> is_plain (snd (push_loop E xs j n)) \<and>
    dom (hold (blocks (snd (push_loop E xs j n)))) = dom (hold (blocks n)) \<union> fst ` set xs"
  using assms
proof (induction xs arbitrary: n j)
  case (Cons x xs)
  obtain k roots where x: "x = (k, truth k, roots)"
    using Cons.prems(3) by (cases x) (simp add: pushed_honest_def)
  obtain r n1 where p: "push_one E x n = (r, n1)" by fastforce
  have "good ok lok n1" using push_one_ok [OF Cons.prems(1) p [unfolded x]] by simp
  moreover have "r = Inr ()" "is_plain n1" "dom (hold (blocks n1)) = insert k (dom (hold (blocks n)))"
    using plain_push_one [OF Cons.prems(1,2), of k roots] p x by simp_all
  ultimately show ?case using Cons.IH [of n1 "Suc j"] Cons.prems(3) p x by simp
qed simp

lemma PushBlocks_target:
  assumes t: "lt_resolve w me t = Inr n" and n: "good ok lok n" "is_plain n"
    and xs: "list_all (pushed_honest truth) xs"
  obtains n' where "snd (lt_PushBlocks E me t xs w) = put_node (ID t) n' w" "is_plain n'"
    "dom (hold (blocks n')) = dom (hold (blocks n)) \<union> fst ` set xs"
proof -
  obtain r n' where p: "push_loop E xs 0 n = (r, n')" by fastforce
  have l: "r = Inr (length xs)" "is_plain n'" "dom (hold (blocks n')) = dom (hold (blocks n)) \<union> fst ` set xs"
    using plain_push_loop [OF n xs, of 0] p by simp_all
  have "snd (lt_PushBlocks E me t xs w) = put_node (ID t) n' w"
    using t p l(1) by (simp add: lt_PushBlocks_def push_blocks_def)
  then show ?thesis using that l by blast
qed

lemma PushBlocks_all:
  assumes w: "world_good truth ok lok w" "plain_world w" and t: "lt_resolve w me t = Inr n"
    and xs: "list_all (pushed_honest truth) xs"
  shows "plain_world (snd (lt_PushBlocks E me t xs w)) \<and>
    keys_at hold (snd (lt_PushBlocks E me t xs w)) =
      (keys_at hold w)(ID t := keys_at hold w (ID t) \<union> fst ` set xs)"
proof -
  note wn = node_of_resolve [OF t]
  have n: "good ok lok n" "is_plain n" using w wn by (simp_all add: world_good_def plain_world_def)
  obtain n' where n': "snd (lt_PushBlocks E me t xs w) = put_node (ID t) n' w" "is_plain n'"
    "dom (hold (blocks n')) = dom (hold (blocks n)) \<union> fst ` set xs" using t n xs by (rule PushBlocks_target)
  then show ?thesis
    using plain_put [OF w(2) n'(2)] keys_at_put [of hold "ID t" n' w] keys_at_node [OF wn, of hold] by simp
qed

section \<open>Handing a range of keys over\<close>

definition handed where
  "handed w w' t ks \<longleftrightarrow> world_good truth ok lok w' \<and> plain_world w' \<and> world_le hold w w' \<and>
     keys_at hold w' = (keys_at hold w)(t := keys_at hold w t \<union> ks)"

lemma handed_refl: "world_good truth ok lok w \<Longrightarrow> plain_world w \<Longrightarrow> ks \<subseteq> keys_at hold w t \<Longrightarrow> handed w w t ks"
  by (simp add: handed_def Un_absorb2)

lemma handed_trans:
  assumes "handed u v t a" "handed v w t b" "c = a \<union> b"
  shows "handed u w t c"
  using assms world_le_trans [of hold u v w] by (simp add: handed_def Un_assoc)

lemma resolve_le:
  assumes "world_le hold w w'" "lt_resolve w me t = Inr n"
  obtains n' where "lt_resolve w' me t = Inr n'"
proof -
  note wn = node_of_resolve [OF assms(2)]
  obtain n' where n': "w_node w' (ID t) = Some n'" using assms(1) wn by (rule world_leD)
  have "(me, ID t) \<notin> set (blocked w')"
    using assms by (auto simp: world_le_def lt_resolve_def getNode_def split: if_splits)
  from lt_resolve_ok [OF n' this] show ?thesis using that by blast
qed

lemma push_chunk_handed:
  assumes w: "world_good truth ok lok w" "plain_world w" and n: "w_node w me = Some n"
    and t: "lt_resolve w me t = Inr nt" "ID t \<noteq> me"
  shows "handed w (push_chunk E me t ks w) (ID t) (set ks \<inter> keys_at hold w me)"
proof -
  have gn: "good ok lok n" "is_plain n" using w n by (simp_all add: world_good_def plain_world_def)
  obtain xs n' where r: "read_blocks E ks n = (xs, n')" by fastforce
  have r': "xs = map (\<lambda>k. (k, truth k, [])) (filter (\<lambda>k. k \<in> dom (hold (blocks n))) ks)"
      "is_plain n'" "hold (blocks n') = hold (blocks n)"
    using plain_read [OF gn, of ks] r by simp_all
  let ?v = "put_node me n' w"
  have km: "keys_at hold w me = dom (hold (blocks n))" by (rule keys_at_node [OF n])
  have kv: "keys_at hold ?v = keys_at hold w"
    using keys_at_put [of hold me n' w] km r'(3) by (metis fun_upd_triv)
  have K1: "K w (push_chunk E me t ks w)" by (rule K_push_chunk)
  note g = keepsD [OF K1 w(1)]
  have "world_good truth ok lok ?v"
    using w(1) read_blocks_ok [OF gn(1), of ks] r by (simp add: world_good_def)
  note pv = this plain_put [OF w(2) r'(2)]
  have tv: "lt_resolve ?v me t = Inr nt" using t by (simp add: lt_resolve_def getNode_def split: if_splits)
  have hx: "list_all (pushed_honest truth) xs" using r'(1) by (simp add: list_all_iff pushed_honest_def)
  have im: "fst ` set xs = set ks \<inter> keys_at hold w me" using r'(1) km by (auto simp: image_image)
  have "plain_world (push_chunk E me t ks w) \<and>
      keys_at hold (push_chunk E me t ks w) = (keys_at hold w)(ID t := keys_at hold w (ID t) \<union> fst ` set xs)"
  proof (cases "xs = []")
    case True
    then show ?thesis using pv(2) kv n r by (simp add: push_chunk_def)
  next
    case False
    then have "push_chunk E me t ks w = snd (lt_PushBlocks E me t xs ?v)" using n r by (simp add: push_chunk_def)
    then show ?thesis using PushBlocks_all [OF pv tv hx] kv by simp
  qed
  then show ?thesis using g im by (simp add: handed_def)
qed

lemma acquire_chunk: "acquireBlockSlots (length (take defaultPushBlocksChunkSize ks)) = None"
  by (simp add: acquireBlockSlots_def)

lemma toTarget_handed:
  assumes "world_good truth ok lok w" "plain_world w" "w_node w me = Some n"
    and "lt_resolve w me t = Inr nt" "ID t \<noteq> me"
  shows "handed w (pushBlocksChunkedToTarget E me t ks w) (ID t) (set ks \<inter> keys_at hold w me)"
  using assms
proof (induction ks arbitrary: w n nt rule: length_induct)
  case (1 ks)
  show ?case
  proof (cases "ks = []")
    case True
    then show ?thesis using 1(2,3) handed_refl by (subst pushBlocksChunkedToTarget.simps) simp
  next
    case False
    let ?a = "take defaultPushBlocksChunkSize ks" and ?b = "drop defaultPushBlocksChunkSize ks"
    let ?v = "push_chunk E me t ?a w"
    have e: "pushBlocksChunkedToTarget E me t ks w = pushBlocksChunkedToTarget E me t ?b ?v"
      using False acquire_chunk [of ks] by (subst pushBlocksChunkedToTarget.simps) (simp only: Let_def option.case if_False)
    have h: "handed w ?v (ID t) (set ?a \<inter> keys_at hold w me)" by (rule push_chunk_handed [OF 1(2-6)])
    then have v: "world_good truth ok lok ?v" "plain_world ?v" "world_le hold w ?v" by (simp_all add: handed_def)
    obtain n' where n': "w_node ?v me = Some n'" using v(3) 1(4) by (rule world_leD)
    obtain nt' where t': "lt_resolve ?v me t = Inr nt'" using v(3) 1(5) by (rule resolve_le)
    have "keys_at hold ?v me = keys_at hold w me" using h 1(6) by (simp add: handed_def)
    then have hb: "handed ?v (pushBlocksChunkedToTarget E me t ?b ?v) (ID t) (set ?b \<inter> keys_at hold w me)"
      using 1(1) [rule_format, OF _ v(1,2) n' t' 1(6), of ?b] False by simp
    have "set ks = set ?a \<union> set ?b" using set_append [of ?a ?b] by simp
    then have "set ks \<inter> keys_at hold w me = (set ?a \<inter> keys_at hold w me) \<union> (set ?b \<inter> keys_at hold w me)" by blast
    from handed_trans [OF h hb this] show ?thesis unfolding e .
  qed
qed

lemma push_target_handed:
  assumes w: "world_good truth ok lok w" "plain_world w" and n: "w_node w me = Some n"
    and t: "lt_resolve w me t = Inr nt" "ID t \<noteq> me"
  shows "handed w (push_target E me ks w t) (ID t) (set ks \<inter> keys_at hold w me)"
proof -
  note wt = node_of_resolve [OF t(1)]
  have gt: "ok (blocks nt)" using w(1) wt by (simp add: world_good_def good_def)
  have kt: "keys_at hold w (ID t) = dom (hold (blocks nt))" by (rule keys_at_node [OF wt])
  let ?ms = "filter (\<lambda>k. k \<notin> keys_at hold w (ID t)) ks"
  have "lt_ReconcileBlocks E me t ks w = Inr ?ms"
    using t(1) has [OF gt] kt by (simp add: lt_ReconcileBlocks_def domIff)
  then have e: "push_target E me ks w t = (if ?ms = [] then w else pushBlocksChunkedToTarget E me t ?ms w)"
    by (simp add: push_target_def)
  have "handed w (push_target E me ks w t) (ID t) (set ?ms \<inter> keys_at hold w me)"
  proof (cases "?ms = []")
    case True
    then show ?thesis unfolding e using handed_refl [OF w] by simp
  next
    case False
    then show ?thesis unfolding e if_not_P [OF False] by (intro toTarget_handed [OF w n t])
  qed
  moreover have "keys_at hold w (ID t) \<union> (set ?ms \<inter> keys_at hold w me) = keys_at hold w (ID t) \<union> (set ks \<inter> keys_at hold w me)"
    by auto
  ultimately show ?thesis by (simp add: handed_def)
qed

lemma range_keys:
  assumes n: "good ok lok n" "is_plain n"
  obtains ks where "enumerateRingKeysInRange E a b True n = Inr ks"
    "set ks = {k \<in> dom (hold (blocks n)). BetweenRightInclusive (CIDToNodeID (rx E) k) a b}"
proof -
  obtain m where m: "blocks n = Plain m" using n(2) by (auto simp: is_plain_def)
  then obtain ks where "b_AllKeys E (Plain m) = Inr ks" "set ks = dom (hold (Plain m))"
    using e_keys [of m] n(1) by (auto simp: good_def)
  then show ?thesis
    using that m plain_ringStore [OF n(2)] by (auto simp: enumerateRingKeysInRange_def ring_keys_def)
qed

lemma transfer_handed:
  assumes w: "world_good truth ok lok w" "plain_world w" and n: "w_node w me = Some n"
    and t: "lt_resolve w me t = Inr nt" "ID t \<noteq> me"
  shows "handed w (transferKeysRange E me t a b w) (ID t)
    {k \<in> keys_at hold w me. BetweenRightInclusive (CIDToNodeID (rx E) k) a b}"
proof -
  have gn: "good ok lok n" "is_plain n" using w n by (simp_all add: world_good_def plain_world_def)
  obtain ks where ks: "enumerateRingKeysInRange E a b True n = Inr ks"
    "set ks = {k \<in> dom (hold (blocks n)). BetweenRightInclusive (CIDToNodeID (rx E) k) a b}"
    using gn by (rule range_keys)
  have s: "set ks \<inter> keys_at hold w me = {k \<in> keys_at hold w me. BetweenRightInclusive (CIDToNodeID (rx E) k) a b}"
    using ks(2) keys_at_node [OF n, of hold] by auto
  show ?thesis
  proof (cases "ks = []")
    case True
    then have "transferKeysRange E me t a b w = w" using n ks(1) by (simp add: transferKeysRange_def)
    then show ?thesis unfolding s [symmetric] using handed_refl [OF w, of "set ks \<inter> keys_at hold w me"] True by simp
  next
    case False
    then show ?thesis
      using n ks(1) push_target_handed [OF w n t, of ks] s by (simp add: transferKeysRange_def pushBlocksChunked_def)
  qed
qed

section \<open>Taking a range of keys\<close>

lemma plain_drop:
  assumes "good ok lok n" "is_plain n"
  shows "good ok lok (drop_key E k n)" "is_plain (drop_key E k n)" "links (drop_key E k n) = links n"
    "dom (hold (blocks (drop_key E k n))) = dom (hold (blocks n)) - {k}" "recs (drop_key E k n) = recs n"
proof -
  obtain m where m: "blocks n = Plain m" using assms(2) by (auto simp: is_plain_def)
  obtain r b where b: "b_Delete E k (Plain m) = (r, b)" by fastforce
  have d: "drop_key E k n = n\<lparr>blocks := b\<rparr>" using plain_ringStore [OF assms(2)] b m by (simp add: drop_key_def)
  show "good ok lok (drop_key E k n)" "is_plain (drop_key E k n)" "links (drop_key E k n) = links n"
    "dom (hold (blocks (drop_key E k n))) = dom (hold (blocks n)) - {k}" "recs (drop_key E k n) = recs n"
    using e_delete [OF _ b] assms(1) m d by (auto simp: good_def is_plain_def links_def)
qed

lemma plain_drops:
  assumes "good ok lok n" "is_plain n"
  shows "good ok lok (foldl (\<lambda>n x. drop_key E (fst x) n) n xs) \<and> is_plain (foldl (\<lambda>n x. drop_key E (fst x) n) n xs) \<and>
    links (foldl (\<lambda>n x. drop_key E (fst x) n) n xs) = links n \<and>
    dom (hold (blocks (foldl (\<lambda>n x. drop_key E (fst x) n) n xs))) = dom (hold (blocks n)) - fst ` set xs"
  using assms
proof (induction xs arbitrary: n)
  case (Cons x xs)
  note d = plain_drop [OF Cons.prems, of "fst x"]
  show ?case using Cons.IH [OF d(1,2)] d(3,4) by auto
qed simp

lemma plain_receive:
  assumes "good ok lok n" "is_plain n" "list_all (pushed_honest truth) xs"
  shows "good ok lok (receive_blocks E xs n) \<and> is_plain (receive_blocks E xs n) \<and>
    links (receive_blocks E xs n) = links n \<and>
    dom (hold (blocks (receive_blocks E xs n))) = dom (hold (blocks n)) \<union> fst ` set xs"
  using assms
proof (induction xs arbitrary: n)
  case (Cons x xs)
  obtain k roots where x: "x = (k, truth k, roots)"
    using Cons.prems(3) by (cases x) (simp add: pushed_honest_def)
  obtain m where m: "blocks n = Plain m" using Cons.prems(2) by (auto simp: is_plain_def)
  obtain r b where b: "b_Put E k (truth k) (Plain m) = (r, b)" by fastforce
  have e: "receive_block E n x = n\<lparr>blocks := b\<rparr>"
    using plain_ringStore [OF Cons.prems(2)] x b m by (simp add: receive_block_def)
  have okm: "ok (Plain m)" using Cons.prems(1) m by (simp add: good_def)
  have "good ok lok (n\<lparr>blocks := b\<rparr>)" "is_plain (n\<lparr>blocks := b\<rparr>)"
      "dom (hold b) = insert k (dom (hold (blocks n)))"
    using put [OF okm b] e_put [OF okm b] Cons.prems(1) m by (auto simp: good_def is_plain_def)
  then show ?case using Cons.IH [of "n\<lparr>blocks := b\<rparr>"] Cons.prems(3) e x by (simp add: receive_blocks_def)
qed (simp add: receive_blocks_def)

lemma TransferKeys_ok:
  assumes w: "world_good truth ok lok w" "plain_world w" and t: "lt_resolve w me t = Inr n"
  obtains xs n' where "lt_TransferKeys E me t a b w = (Inr xs, put_node (ID t) n' w)"
    "list_all (pushed_honest truth) xs" "good ok lok n'" "is_plain n'" "links n' = links n"
    "fst ` set xs = {k \<in> dom (hold (blocks n)). BetweenRightInclusive (CIDToNodeID (rx E) k) a b}"
    "dom (hold (blocks n')) = dom (hold (blocks n)) - fst ` set xs"
proof -
  note wn = node_of_resolve [OF t]
  have gn: "good ok lok n" "is_plain n" using w wn by (simp_all add: world_good_def plain_world_def)
  obtain ks where ks: "enumerateRingKeysInRange E a b True n = Inr ks"
    "set ks = {k \<in> dom (hold (blocks n)). BetweenRightInclusive (CIDToNodeID (rx E) k) a b}"
    using gn by (rule range_keys)
  obtain xs n1 where r: "read_blocks E ks n = (xs, n1)" by fastforce
  have r': "xs = map (\<lambda>k. (k, truth k, [])) (filter (\<lambda>k. k \<in> dom (hold (blocks n))) ks)"
      "good ok lok n1" "is_plain n1" "links n1 = links n" "hold (blocks n1) = hold (blocks n)"
    using plain_read [OF gn, of ks] r by simp_all
  have fx: "fst ` set xs = {k \<in> dom (hold (blocks n)). BetweenRightInclusive (CIDToNodeID (rx E) k) a b}"
    using r'(1) ks(2) by (auto simp: image_image)
  let ?n = "foldl (\<lambda>n x. drop_key E (fst x) n) n1 xs"
  have "lt_TransferKeys E me t a b w = (Inr xs, put_node (ID t) ?n w)"
    using t ks(1) r by (simp add: lt_TransferKeys_def collectRingBlocksInRange_def)
  moreover have "list_all (pushed_honest truth) xs" using r'(1) by (simp add: list_all_iff pushed_honest_def)
  ultimately show ?thesis using that fx plain_drops [OF r'(2,3), of xs] r'(4,5) by simp
qed

section \<open>Join\<close>

lemma keys_on_node:
  assumes "w_node w i = Some n" "hold (blocks (fst (f n))) = hold (blocks n)"
  shows "keys_at hold (on_node i f w) = keys_at hold w"
proof -
  have "holds hold (on_node i f w) j k = holds hold w j k" for j k using assms by (simp add: holds_def)
  then show ?thesis by (simp add: keys_at_def fun_eq_iff)
qed

lemma good_on_node:
  assumes "world_good truth ok lok w" "plain_world w" "w_node w i = Some n"
    and "good ok lok (fst (f n))" "is_plain (fst (f n))" "snd (f n) = []"
  shows "world_good truth ok lok (on_node i f w)" "plain_world (on_node i f w)"
  using assms by (auto simp: on_node_Some world_good_def plain_world_def)

lemma Join_moves:
  assumes w: "ideal S w" "navigable S w" "newcomer S x w" "ID b \<in> S" "world_good truth ok lok w" "plain_world w"
    and s: "owner S x s" "w_node w s = Some ns" "predecessor ns = Some p"
  shows "\<exists>w'. Join E x b w = (Inr (), w') \<and> world_good truth ok lok w' \<and> plain_world w' \<and>
    keys_at hold w' = (keys_at hold w)
      (x := keys_at hold w x \<union> {k \<in> keys_at hold w s. BetweenRightInclusive (CIDToNodeID (rx E) k) (ID p) x},
       s := keys_at hold w s - {k \<in> keys_at hold w s. BetweenRightInclusive (CIDToNodeID (rx E) k) (ID p) x})"
proof -
  let ?R = "{k \<in> keys_at hold w s. BetweenRightInclusive (CIDToNodeID (rx E) k) (ID p) x}"
  let ?f = "\<lambda>a n. (n\<lparr>successor := a, successorList := [a]\<rparr>, []) :: ('m, 'd, 'b, 'l) dnode \<times> task list"
  obtain a where a: "join_route x b w = (Inr a, on_node x (?f a) w)" "owner S x (ID a)"
    using w(1-4) by (rule join_route_ok)
  have as: "ID a = s" using a(2) s(1) owner_unique by blast
  let ?w1 = "on_node x (?f a) w"
  obtain nx where nx: "w_node w x = Some nx" "x \<notin> S" "open_among (insert x S) w" using w(3) by (auto simp: newcomer_def)
  have sS: "s \<in> S" using s(1) by (simp add: owner_def)
  then have sx: "s \<noteq> x" using nx(2) by blast
  have gx: "good ok lok nx" "is_plain nx" using w(5,6) nx(1) by (simp_all add: world_good_def plain_world_def)
  have w1: "world_good truth ok lok ?w1" "plain_world ?w1" "keys_at hold ?w1 = keys_at hold w"
    using good_on_node [OF w(5,6) nx(1), of "?f a"] keys_on_node [OF nx(1), of "?f a"] gx
    by (simp_all add: good_def is_plain_def)
  have t: "lt_resolve ?w1 x a = Inr ns"
    using s(2) as sx sS nx(3) by (intro lt_resolve_ok) (simp_all add: open_among_def)
  have ip: "ID p \<noteq> x" using w(1) s(2,3) sS nx(2) unfolding ideal_def member_ok_def pred_sound_def by fastforce
  have gp: "lt_GetPredecessor ?w1 x a = Inr (Some p)" using t s(3) by (simp add: lt_GetPredecessor_def)
  obtain xs n' where tk: "lt_TransferKeys E x a (ID p) x ?w1 = (Inr xs, put_node (ID a) n' ?w1)"
    "list_all (pushed_honest truth) xs" "good ok lok n'" "is_plain n'"
    "fst ` set xs = {k \<in> dom (hold (blocks ns)). BetweenRightInclusive (CIDToNodeID (rx E) k) (ID p) x}"
    "dom (hold (blocks n')) = dom (hold (blocks ns)) - fst ` set xs"
    using w1(1,2) t by (rule TransferKeys_ok)
  have R: "fst ` set xs = ?R" using tk(5) keys_at_node [OF s(2), of hold] by simp
  let ?w2 = "put_node s n' ?w1"
  have w2: "world_good truth ok lok ?w2" "plain_world ?w2" "keys_at hold ?w2 = (keys_at hold w)(s := keys_at hold w s - ?R)"
    using w1 tk(3,4,6) R keys_at_put [of hold s n' ?w1] keys_at_node [OF s(2), of hold]
    by (simp_all add: world_good_def plain_world_def)
  let ?nx = "fst (?f a nx)"
  have nx2: "w_node ?w2 x = Some ?nx" using nx(1) sx by simp
  have gx2: "good ok lok ?nx" "is_plain ?nx" using gx by (simp_all add: good_def is_plain_def)
  note rc = plain_receive [OF gx2 tk(2)]
  let ?w3 = "on_node x (\<lambda>n. (receive_blocks E xs n, [])) ?w2"
  have w3: "world_good truth ok lok ?w3" "plain_world ?w3"
    using good_on_node [OF w2(1,2) nx2, of "\<lambda>n. (receive_blocks E xs n, [])"] rc by simp_all
  have k3: "keys_at hold ?w3 = (keys_at hold w)(x := keys_at hold w x \<union> ?R, s := keys_at hold w s - ?R)"
  proof -
    have "keys_at hold ?w3 = (keys_at hold ?w2)(x := dom (hold (blocks ?nx)) \<union> ?R)"
      using rc R keys_at_put [of hold x "receive_blocks E xs ?nx" ?w2] by (simp add: on_node_Some [OF nx2])
    then show ?thesis using w2(3) sx keys_at_node [OF nx(1), of hold] by (simp add: fun_upd_twist)
  qed
  have nx3: "w_node ?w3 x = Some (receive_blocks E xs ?nx)" using nx2 by simp
  have t3: "lt_resolve ?w3 x a = Inr n'"
    using as sx sS nx(3) by (intro lt_resolve_ok) (simp_all add: open_among_def)
  let ?w4 = "on_node x (\<lambda>n. (put_records E (getRecordsInRange (ID p) x (recs n')) n, [])) ?w3"
  have "Join E x b w = (Inr (), ?w4)"
    unfolding Join_def using a(1) gp ip tk(1) as t3 by (simp add: lt_TransferRecords_def)
  moreover have "world_good truth ok lok ?w4" "plain_world ?w4"
    using good_on_node [OF w3 nx3] rc by (simp_all add: put_records_def good_def is_plain_def)
  moreover have "keys_at hold ?w4 = keys_at hold ?w3" using keys_on_node [OF nx3] by (simp add: put_records_def)
  ultimately show ?thesis using k3 by auto
qed

section \<open>Leave\<close>

lemma K_tasks:
  assumes "\<forall>it \<in> set ts. task_honest truth (snd it)"
  shows "K w (foldl (run_task E) w ts)"
  using assms by (intro keeps_foldl) (metis K_run_task prod.collapse)

lemma K_drain: "K w (drain E P w)"
proof (cases "world_good truth ok lok w")
  case True
  then have h: "\<forall>it \<in> set (pending w). task_honest truth (snd it)" by (simp add: world_good_def)
  have "K w (w\<lparr>pending := filter (\<lambda>it. \<not> P it) (pending w)\<rparr>)"
    by (auto simp: keeps_def world_good_def world_le_def w_node_def option.rel_refl)
  from keeps_trans [OF this K_tasks] show ?thesis unfolding drain_def using h by simp
qed (simp add: keeps_def)

lemma K_Stop: "K w (Stop E me w)"
  unfolding Stop_def WaitForReplicationDrain_def by (rule keeps_trans [OF K_drain K_drain])

text \<open>What a step that keeps the blocks does to the keys.\<close>

lemma K_holds: "K w w' \<Longrightarrow> world_good truth ok lok w \<Longrightarrow> holds hold w i k \<Longrightarrow> holds hold w' i k"
  using keepsD(2) holds_le by blast

lemma leave_route_keep: "keep node.more w (leave_route self s p w)"
  unfolding leave_route_def Let_def
  by (auto split: option.split intro: extra.keep_NotifyLeave keep_trans [OF extra.keep_NotifyLeave extra.keep_NotifyLeave])

lemma Leave_moves:
  assumes w: "ideal S w" "me \<in> S" "world_good truth ok lok w" "plain_world w"
    and n: "w_node w me = Some n" "ID (successor n) \<noteq> me"
    and k: "holds hold w i k"
  shows "holds hold (Leave E me w) (if i = me then ID (successor n) else i) k"
proof -
  let ?n0 = "n\<lparr>backgroundPaused := True\<rparr>" and ?s = "successor n"
  let ?w0 = "put_node me ?n0 w"
  have gn: "good ok lok ?n0" "is_plain ?n0" using w(3,4) n(1) by (auto simp: world_good_def plain_world_def good_def is_plain_def)
  obtain ks where ks: "ring_keys E ?n0 = Inr ks" "set ks = dom (hold (blocks n))"
  proof -
    obtain m where m: "blocks n = Plain m" using gn(2) by (auto simp: is_plain_def)
    then show ?thesis
      using that e_keys [of m] gn(1) plain_ringStore [OF gn(2)] by (auto simp: ring_keys_def good_def)
  qed
  obtain xs n1 where r: "read_blocks E ks ?n0 = (xs, n1)" by fastforce
  have r': "xs = map (\<lambda>k. (k, truth k, [])) (filter (\<lambda>k. k \<in> dom (hold (blocks n))) ks)"
      "good ok lok n1" "is_plain n1" "hold (blocks n1) = hold (blocks n)"
    using plain_read [OF gn, of ks] r by simp_all
  have fx: "fst ` set xs = dom (hold (blocks n))" using r'(1) ks(2) by (auto simp: image_image)
  have hx: "list_all (pushed_honest truth) xs" using r'(1) by (simp add: list_all_iff pushed_honest_def)
  let ?wb = "put_node me n1 ?w0"
  have wb: "world_good truth ok lok ?wb" "plain_world ?wb" "keys_at hold ?wb = keys_at hold w"
    using w(3,4) r'(2-4) keys_at_put [of hold me n1 ?w0] keys_at_put [of hold me ?n0 w]
      fun_upd_idem [of "keys_at hold w" me, OF keys_at_node [OF n(1), of hold]]
    by (auto simp: world_good_def plain_world_def)
  have sS: "ID ?s \<in> S" using w(1,2) n(1) unfolding ideal_def member_ok_def routes_ok_def next_member_def by fastforce
  obtain nt where nt: "w_node w (ID ?s) = Some nt" using w(1) sS by (rule idealD)
  have t: "lt_resolve ?wb me ?s = Inr nt"
    using nt n(2) ideal_open [OF w(1,2) sS] by (intro lt_resolve_ok) simp_all
  define wp where "wp = (if xs = [] then ?wb else snd (lt_PushBlocks E me ?s xs ?wb))"
  define j where "j = (if i = me then ID ?s else i)"
  have wp: "world_good truth ok lok wp" using keepsD(1) [OF K_PushBlocks [OF hx] wb(1)] wb(1) by (simp add: wp_def)
  have h: "holds hold ?wb i k" using k wb(3) by (auto simp: keys_at_def fun_eq_iff)
  have hp: "holds hold wp j k"
  proof (cases "i = me")
    case True
    then have "k \<in> fst ` set xs" using k n(1) fx by (auto simp: holds_def)
    moreover from this have "xs \<noteq> []" by auto
    ultimately have "k \<in> keys_at hold wp (ID ?s)" using PushBlocks_all [OF wb(1,2) t hx] by (simp add: wp_def)
    then show ?thesis using True by (simp add: keys_at_def j_def)
  next
    case False
    then show ?thesis using h K_holds [OF K_PushBlocks [OF hx] wb(1) h] by (simp add: wp_def j_def)
  qed
  define wr where "wr = (if records (recs n1) = [] then wp else snd (lt_PushRecords E me ?s (records (recs n1)) wp))"
  have wr: "world_good truth ok lok wr" "holds hold wr j k"
    using wp hp keepsD(1) [OF K_PushRecords wp] K_holds [OF K_PushRecords wp hp] by (simp_all add: wr_def)
  let ?wl = "leave_route (LocalNode n) ?s (predecessor n) wr"
  have wl: "world_good truth ok lok ?wl" "holds hold ?wl j k"
    using keep_data [OF leave_route_keep wr(1)] wr(2) by blast+
  have "Leave E me w = Stop E me ?wl"
    unfolding Leave_def wr_def wp_def using n ks(1) r by (simp add: Let_def)
  then show ?thesis using K_holds [OF K_Stop wl] by (simp add: j_def)
qed

section \<open>Crash of a replicated owner\<close>

lemma async_loop_push: "list_all is_replication (snd (async_loop x ts n))"
  by (induction x ts n rule: async_loop.induct) (auto simp: is_replication_def Let_def split: prod.split)

lemma replicateAsync_first:
  assumes "1 < replication n" "successorList n = s # ss" "ID s \<noteq> node_id n" "replicationsInFlight n < defaultReplicationConcurrency"
  shows "\<exists>ts. snd (replicateAsync E k d root ex n) = PushTask s k d (replica_roots E root ex) # ts \<and> list_all is_replication ts"
proof -
  obtain c where "nat (replication n - 1) = Suc c" using assms(1) by (cases "nat (replication n - 1)") simp_all
  then have "replica_targets n = s # filter (\<lambda>s. ID s \<noteq> node_id n) (take c ss)"
    using assms(2,3) by (simp add: replica_targets_def)
  then obtain ts where "snd (replicateAsync E k d root ex n) = PushTask s k d (replica_roots E root ex) # ts"
    using assms(1,4) by (simp add: replicateAsync_def case_prod_beta Let_def)
  moreover have "list_all is_replication (snd (replicateAsync E k d root ex n))"
    using async_loop_push [of "(k, d, replica_roots E root ex)" "replica_targets n" n] by (simp add: replicateAsync_def)
  ultimately show ?thesis by simp
qed

lemma put_replicated:
  assumes w: "serving truth ok lok S w" "me \<in> S" "plain_world w" "pending w = []"
    and p: "n_PutWithRoot E me k (truth k) root ex w = (r, w')"
    and o: "owner S (CIDToNodeID (rx E) k) i" "w_node w i = Some n"
    and n: "1 < replication n" "successorList n = successor n # ss" "ID (successor n) \<noteq> i"
      "replicationsInFlight n < defaultReplicationConcurrency"
  shows "r = Inr () \<and> holds hold (WaitForReplicationDrain E i w') (ID (successor n)) k"
proof -
  have wg: "world_good truth ok lok w" and id: "ideal S w" using w(1) by (simp_all add: serving_def)
  obtain a where a: "w_FindSuccessor me (CIDToNodeID (rx E) k) w = (Inr a, w)"
    "owner S (CIDToNodeID (rx E) k) (ID a)" "ID a \<in> S" using w(1,2) by (rule serving_route)
  have ai: "ID a = i" using a(2) o(1) owner_unique by blast
  have gn: "good ok lok n" "is_plain n" using wg w(3) o(2) by (simp_all add: world_good_def plain_world_def)
  have ni: "node_id n = i" using id a(3) o(2) ai unfolding ideal_def member_ok_def by fastforce
  obtain m where m: "blocks n = Plain m" using gn(2) by (auto simp: is_plain_def)
  obtain r1 b where b: "b_Put E k (truth k) (Plain m) = (r1, b)" by fastforce
  let ?n = "n\<lparr>blocks := b\<rparr>"
  have sb: "store_block E k (truth k) root ex n = (Inr (), ?n)"
    using e_put [OF _ b] b gn m plain_ringStore [OF gn(2)] by (simp add: store_block_def good_def)
  have rs: "lt_resolve w me a = Inr n" using o(2) ai serving_open [OF w(1,2) a(3)] by (intro lt_resolve_ok) simp_all
  let ?v = "put_node i ?n w"
  have w': "r = Inr ()" "w' = on_node i (replicateAsync E k (truth k) root ex) ?v"
    using p a(1) ai rs sb o(2) by (auto simp: n_PutWithRoot_def lt_PutBlock_def split: if_splits)
  have wv: "world_good truth ok lok ?v"
    using keepsD(1) [OF keeps_put [OF o(2) N_store_block [of n k root ex]] wg] sb by simp
  have "world_good truth ok lok w'" using keepsD(1) [OF K_replicateAsync wv] w'(2) by simp
  obtain ts where ts: "snd (replicateAsync E k (truth k) root ex ?n) = PushTask (successor n) k (truth k) (replica_roots E root ex) # ts"
      "list_all is_replication ts"
    using replicateAsync_first [of ?n "successor n" ss k "truth k" root ex] n ni by auto
  let ?x = "[(k, truth k, replica_roots E root ex)]"
  let ?u = "w'\<lparr>pending := []\<rparr>"
  have pd: "pending w' = map (Pair i) (PushTask (successor n) k (truth k) (replica_roots E root ex) # ts)"
    using w'(2) w(4) ts by (simp add: on_node_Some)
  have gu: "world_good truth ok lok ?u" using \<open>world_good truth ok lok w'\<close> by (simp add: world_good_def w_node_def)
  have ht: "\<forall>it \<in> set (map (Pair i) ts). task_honest truth (snd it)"
    using \<open>world_good truth ok lok w'\<close> pd by (simp add: world_good_def)
  have sS: "ID (successor n) \<in> S" using id a(3) o(2) ai unfolding ideal_def member_ok_def routes_ok_def next_member_def by fastforce
  obtain nt where nt: "w_node w (ID (successor n)) = Some nt" using id sS by (rule idealD)
  have ru: "lt_resolve ?u i (successor n) = Inr nt"
    using nt n(3) w'(2) ideal_open [OF id _ sS] a(3) ai by (intro lt_resolve_ok) simp_all
  have gt: "good ok lok nt" "is_plain nt" using wg w(3) nt by (simp_all add: world_good_def plain_world_def)
  have hx: "list_all (pushed_honest truth) ?x" by (simp add: pushed_honest_def)
  obtain n2 where n2: "snd (lt_PushBlocks E i (successor n) ?x ?u) = put_node (ID (successor n)) n2 ?u"
    "dom (hold (blocks n2)) = dom (hold (blocks nt)) \<union> fst ` set ?x" using ru gt hx by (rule PushBlocks_target)
  define t0 where "t0 = (i, PushTask (successor n) k (truth k) (replica_roots E root ex))"
  have "holds hold (put_node (ID (successor n)) n2 ?u) (ID (successor n)) k" using n2(2) by (auto simp: holds_def)
  then have h1: "holds hold (run_task E ?u t0) (ID (successor n)) k"
    using n2(1) n(3) by (simp add: t0_def run_task_def holds_def)
  have g1: "world_good truth ok lok (run_task E ?u t0)"
    using keepsD(1) [OF K_run_task gu] by (simp add: t0_def)
  have "filter is_replication ts = ts" "filter (\<lambda>t. \<not> is_replication t) ts = []"
    using ts(2) by (simp_all add: list_all_iff)
  moreover have "is_replication (PushTask a b c d)" for a b c d by (simp add: is_replication_def)
  ultimately have "WaitForReplicationDrain E i w' = foldl (run_task E) (run_task E ?u t0) (map (Pair i) ts)"
    by (simp add: WaitForReplicationDrain_def drain_def pd t0_def filter_map comp_def)
  then show ?thesis using w'(1) K_holds [OF K_tasks [OF ht] g1 h1] by simp
qed

end

end
