(* ===== verification/Member_Props.thy ===== *)
theory Member_Props
  imports Node_Moves
begin

text \<open>
  Blocks and membership: in the ring of \<open>dht/local.go\<close>, whose nodes keep their blocks in
  memory, every block stays with the owner of its key when a node joins, leaves or dies.
\<close>

section \<open>The stores of the test ring\<close>

definition test_env where
  "test_env E truth B lf linv L \<longleftrightarrow> plain E = mem_ops \<and>
     node_env E truth (\<lambda>k. k) (\<lambda>m. distinct (map fst m)) map_of B lf linv L"

definition test_world where
  "test_world truth B lf linv L S w \<longleftrightarrow>
     serving truth (store_ok truth (\<lambda>k. k) (\<lambda>m. distinct (map fst m)) map_of B) (local_ok truth lf linv L) S w \<and>
     plain_world w"

abbreviation mem_hold where "mem_hold B \<equiv> held (\<lambda>k. k) map_of B"

lemma test_eager:
  assumes "test_env E truth B lf linv L"
  shows "eager_nodes E truth (store_ok truth (\<lambda>k. k) (\<lambda>m. distinct (map fst m)) map_of B) (mem_hold B) (local_ok truth lf linv L)"
proof -
  have p: "plain E = mem_ops" and e: "node_env E truth (\<lambda>k. k) (\<lambda>m. distinct (map fst m)) map_of B lf linv L"
    using assms by (simp_all add: test_env_def)
  let ?ok = "store_ok truth (\<lambda>k. k) (\<lambda>m. distinct (map fst m)) map_of B"
  have put: "r = Inr () \<and> (\<exists>m'. b' = Plain m') \<and> dom (mem_hold B b') = insert k (dom (mem_hold B (Plain m)))"
    if "b_Put E k (truth k) (Plain m) = (r, b')" for k m r b'
    using that p by (auto simp: b_Put_def mem_defs held_simps)
  have get: "\<exists>m'. b' = Plain m'" if "b_Get E k (Plain m) = (x, b')" for k m x b'
    using that p by (auto simp: b_Get_def mem_defs)
  have del: "(\<exists>m'. b' = Plain m') \<and> ?ok b' \<and> dom (mem_hold B b') = dom (mem_hold B (Plain m)) - {k}"
    if "?ok (Plain m)" "b_Delete E k (Plain m) = (r, b')" for k m r b'
  proof -
    have "b' = Plain (adel k m)" using that(2) p by (simp add: b_Delete_def mem_defs)
    then show ?thesis
      using that(1) by (auto simp: store_ok_def held_simps honest_def distinct_adel split: if_splits)
  qed
  have keys: "\<exists>ks. b_AllKeys E (Plain m) = Inr ks \<and> set ks = dom (mem_hold B (Plain m))" for m
    using p by (simp add: b_AllKeys_def mem_defs held_simps dom_map_of_conv_image_fst)
  show ?thesis
    by (intro eager_nodes.intro node_env_store [OF e] eager_nodes_axioms.intro; (rule put get del keys; assumption)?)
qed

lemma test_worldD:
  assumes "test_world truth B lf linv L S w"
  shows "serving truth (store_ok truth (\<lambda>k. k) (\<lambda>m. distinct (map fst m)) map_of B) (local_ok truth lf linv L) S w"
    "plain_world w" "ideal S w" "navigable S w"
    "world_good truth (store_ok truth (\<lambda>k. k) (\<lambda>m. distinct (map fst m)) map_of B) (local_ok truth lf linv L) w"
  using assms by (simp_all add: test_world_def serving_def)

section \<open>A test ring with blocks\<close>

definition mem_denv :: "(testMemStore, (string \<times> bytes) list, (bytes \<times> bytes) list, testMemStore) denv" where
  "mem_denv = \<lparr>plain = mem_ops, netE = mem_nenv, locE = mem_ops, rx = demo_rx, clock = 5, nowNs = 5, wallNs = 5,
     DecodeLinks = (\<lambda>_ _. Inr [])\<rparr>"

definition dress where
  "dress n m = node.extend n (dnode.fields (Plain m) None RingPublic (new_records demo_cfg) 0 0)"

abbreviation moving_block :: cid where "moving_block \<equiv> NewCidV1 codec_Raw [22]"

text \<open>The ring of three nodes and a newcomer; node 30 holds a block with key 22.\<close>

definition mem_world :: "(testMemStore, (string \<times> bytes) list, (bytes \<times> bytes) list, testMemStore) world" where
  "mem_world = \<lparr>nodeMap = [(demo_id 10, dress (demo_member 10 [20, 30] 30) []), (demo_id 20, dress (demo_member 20 [30, 10] 10) []),
       (demo_id 30, dress (demo_member 30 [10, 20] 20) [(moving_block, [22])]), (demo_id 25, dress (demo_new 25) [])],
     Nodes = [demo_id 10, demo_id 20, demo_id 30, demo_id 25], blocked = [], pending = [], ring_Replication = 2\<rparr>"

lemma mem_test_env: "test_env mem_denv Hash map_of (\<lambda>k. k) (\<lambda>m. distinct (map fst m)) map_of"
  using mem.block_store_axioms mem_blk_laws by (simp add: test_env_def node_env_def mem_denv_def)

interpretation memring: eager_nodes mem_denv Hash "store_ok Hash (\<lambda>k. k) (\<lambda>m. distinct (map fst m)) map_of map_of"
    "mem_hold map_of" "local_ok Hash (\<lambda>k. k) (\<lambda>m. distinct (map fst m)) map_of"
  by (rule test_eager [OF mem_test_env])

lemma dress_simps:
  "links (dress n m) = links n" "blocks (dress n m) = Plain m" "localBlocks (dress n m) = None"
  "node_id (dress n m) = node_id n" "predecessor (dress n m) = predecessor n" "fingers (dress n m) = fingers n"
  "successor (dress n m) = successor n" "successorList (dress n m) = successorList n" "replication (dress n m) = replication n"
  "replicationsInFlight (dress n m) = 0" "node_wf (dress n m) = node_wf n"
  by (simp_all add: dress_def links_def node.defs dnode.defs node_wf_def)

lemma mem_nodes:
  "w_node mem_world i = (if i = demo_id 10 then Some (dress (demo_member 10 [20, 30] 30) [])
     else if i = demo_id 20 then Some (dress (demo_member 20 [30, 10] 10) [])
     else if i = demo_id 30 then Some (dress (demo_member 30 [10, 20] 20) [(moving_block, [22])])
     else if i = demo_id 25 then Some (dress (demo_new 25) []) else None)"
  "blocked mem_world = []" "pending mem_world = []"
  by (simp_all add: w_node_def mem_world_def)

lemma dress_good:
  assumes "distinct (map fst m)" "\<forall>(k, d) \<in> set m. d = Hash k"
  shows "good (store_ok Hash (\<lambda>k. k) (\<lambda>m. distinct (map fst m)) map_of map_of)
      (local_ok Hash (\<lambda>k. k) (\<lambda>m. distinct (map fst m)) map_of) (dress n m)"
  using assms by (auto simp: good_def dress_simps store_ok_def held_simps honest_def dest: map_of_SomeD)

lemma mem_test_world: "test_world Hash map_of (\<lambda>k. k) (\<lambda>m. distinct (map fst m)) map_of demo_ids mem_world"
proof -
  have mo: "member_ok demo_ids (demo_id k) (dress (demo_member k ss p) m)"
    if "w_node demo_ring (demo_id k) = Some (demo_member k ss p)" "demo_id k \<in> demo_ids" for k ss p m
    using demo_ideal that member_ok_links [OF dress_simps(1)] unfolding ideal_def by fastforce
  have "ideal demo_ids mem_world"
    using mo [OF demo_nodes(1)] mo [OF demo_nodes(2)] mo [OF demo_nodes(3)]
    by (auto simp: ideal_def open_among_def mem_nodes)
  moreover have "navigable demo_ids mem_world" by (simp add: navigable_def card_insert_if)
  moreover have "plain_world mem_world" by (simp add: plain_world_def is_plain_def mem_nodes dress_simps)
  ultimately show ?thesis
    by (auto simp: test_world_def serving_def world_good_def mem_nodes NewCidV1_def dress_good split: if_splits)
qed

lemma mem_newcomer: "newcomer demo_ids (demo_id 25) mem_world"
  using demo_newcomer by (simp add: newcomer_def open_among_def mem_nodes demo_nodes dress_simps)

lemma mem_moving:
  "CIDToNodeID (rx mem_denv) moving_block = demo_id 22"
  "owner demo_ids (CIDToNodeID (rx mem_denv) moving_block) (demo_id 30)"
  "holds (mem_hold map_of) mem_world (demo_id 30) moving_block"
  "w_node mem_world (demo_id 30) = Some (dress (demo_member 30 [10, 20] 20) [(moving_block, [22])])"
proof -
  show p: "CIDToNodeID (rx mem_denv) moving_block = demo_id 22"
    by (simp add: CIDToNodeID_def mem_denv_def demo_rx_def NewCidV1_def demo_id_def)
  show "owner demo_ids (CIDToNodeID (rx mem_denv) moving_block) (demo_id 30)"
    unfolding p by (simp add: owner_def dist_def cw_demo)
  show "holds (mem_hold map_of) mem_world (demo_id 30) moving_block"
    by (simp add: holds_def mem_nodes dress_simps held_simps)
qed (simp add: mem_nodes)

section \<open>Join, leave and crash\<close>

text \<open>
  C17. A join moves exactly the blocks of the newcomer's range. The ring is settled, its nodes keep
  their blocks in the in-memory store of \<open>dht/local.go\<close>, which never refuses a put, and the node that
  owns the newcomer's identifier knows its predecessor. Then \<open>Join\<close> succeeds; afterwards the newcomer
  has, beside what it had, exactly the blocks of its successor whose keys lie between that
  predecessor and itself, the successor has exactly its others, and every other node what it had. So a
  block that was with the owner of its key is with the owner of its key in the enlarged ring.
\<close>

theorem join_keeps_blocks:
  assumes "test_env E truth B lf linv L" "test_world truth B lf linv L S w"
    and "newcomer S x w" "ID b \<in> S" "owner S x s" "w_node w s = Some ns" "predecessor ns = Some p"
  defines "moved \<equiv> \<lambda>k. holds (mem_hold B) w s k \<and> BetweenRightInclusive (CIDToNodeID (rx E) k) (ID p) x"
  shows "\<exists>w'. Join E x b w = (Inr (), w') \<and>
    (\<forall>j k. holds (mem_hold B) w' j k \<longleftrightarrow>
       (if j = x then holds (mem_hold B) w x k \<or> moved k else holds (mem_hold B) w j k \<and> \<not> (j = s \<and> moved k))) \<and>
    (\<forall>k i. owner S (CIDToNodeID (rx E) k) i \<and> holds (mem_hold B) w i k \<longrightarrow>
       (\<exists>i'. owner (insert x S) (CIDToNodeID (rx E) k) i' \<and> holds (mem_hold B) w' i' k))"
proof -
  note en = test_eager [OF assms(1)] and w = test_worldD [OF assms(2)]
  obtain w' where w': "Join E x b w = (Inr (), w')"
    "keys_at (mem_hold B) w' = (keys_at (mem_hold B) w)
      (x := keys_at (mem_hold B) w x \<union> {k \<in> keys_at (mem_hold B) w s. BetweenRightInclusive (CIDToNodeID (rx E) k) (ID p) x},
       s := keys_at (mem_hold B) w s - {k \<in> keys_at (mem_hold B) w s. BetweenRightInclusive (CIDToNodeID (rx E) k) (ID p) x})"
    using eager_nodes.Join_moves [OF en w(3,4) assms(3,4) w(5,2) assms(5-7)] by blast
  have xS: "x \<notin> S" and sS: "s \<in> S" using assms(3,5) by (simp_all add: newcomer_def owner_def)
  obtain n where "w_node w s = Some n" "node_id n = s" "pred_sound S n" using w(3) sS by (rule idealD)
  then have p: "ID p \<in> S" "next_member S (ID p) s" using assms(6,7) by (auto simp: pred_sound_def)
  have sx: "s \<noteq> x" using xS sS by blast
  have at: "holds (mem_hold B) w' j k \<longleftrightarrow>
      (if j = x then holds (mem_hold B) w x k \<or> moved k else holds (mem_hold B) w j k \<and> \<not> (j = s \<and> moved k))" for j k
  proof -
    have "holds (mem_hold B) w' j k \<longleftrightarrow> k \<in> keys_at (mem_hold B) w' j" by (simp add: keys_at_def)
    then show ?thesis unfolding w'(2) using sx by (auto simp: keys_at_def moved_def)
  qed
  have "\<exists>i'. owner (insert x S) (CIDToNodeID (rx E) k) i' \<and> holds (mem_hold B) w' i' k"
    if o: "owner S (CIDToNodeID (rx E) k) i" "holds (mem_hold B) w i k" for k i
  proof -
    note own = owner_insert [OF assms(5) xS p(2,1) o(1)]
    have iS: "i \<in> S" using o(1) by (simp add: owner_def)
    have "holds (mem_hold B) w' (if cw (ID p) (CIDToNodeID (rx E) k) \<le> cw (ID p) x then x else i) k"
      using o(2) own(2) xS iS by (auto simp: at moved_def between_cw)
    then show ?thesis using own(1) by blast
  qed
  then show ?thesis using w'(1) at by blast
qed

theorem join_keeps_blocks_witness:
  "\<exists>w'. Join mem_denv (demo_id 25) (demo_addr 10) mem_world = (Inr (), w') \<and> holds (mem_hold map_of) w' (demo_id 25) moving_block \<and>
     \<not> holds (mem_hold map_of) w' (demo_id 30) moving_block"
proof -
  have b: "ID (demo_addr 10) \<in> demo_ids" by (simp add: demo_addr_def)
  have p: "predecessor (dress (demo_member 30 [10, 20] 20) [(moving_block, [22])]) = Some (demo_addr 20)"
    by (simp add: dress_simps demo_member_links)
  have "BetweenRightInclusive (CIDToNodeID (rx mem_denv) moving_block) (ID (demo_addr 20)) (demo_id 25)"
    unfolding mem_moving(1) by (simp add: between_cw demo_addr_def cw_demo)
  then show ?thesis
    using join_keeps_blocks [OF mem_test_env mem_test_world mem_newcomer b demo_owner mem_moving(4) p] mem_moving(3) by auto
qed

text \<open>
  C18. A departure loses no block. The ring is settled, and its nodes keep their blocks in the in-memory
  store of \<open>dht/local.go\<close>, which never refuses a put; a node that is not alone departs. When it leaves
  with \<open>Leave\<close>, every block that was with the owner of its key is with the owner of its key in the
  smaller ring, the blocks of the leaving node with its successor. When it crashes instead, the same
  holds for a block it owned and had replicated: if no task was pending and the node keeps more than one
  copy, names its successor first on its list and has a free push slot, then a put by any member
  succeeds, and after the pushes of the node have run the crash leaves the block with the owner of its
  key among the others. A node with a network store takes the other branch of \<open>Leave\<close>, and its
  successor may refuse a block for want of space: that is outside this statement.
\<close>

theorem departure_keeps_blocks:
  assumes "test_env E truth B lf linv L" "test_world truth B lf linv L S w"
    and "me \<in> S" "w_node w me = Some n" "ID (successor n) \<noteq> me"
  shows "(\<forall>k i. owner S (CIDToNodeID (rx E) k) i \<and> holds (mem_hold B) w i k \<longrightarrow>
      (\<exists>i'. owner (S - {me}) (CIDToNodeID (rx E) k) i' \<and> holds (mem_hold B) (RemoveNode me (Leave E me w)) i' k)) \<and>
    (\<forall>k you root ex ss. you \<in> S \<and> pending w = [] \<and> owner S (CIDToNodeID (rx E) k) me \<and>
       1 < replication n \<and> successorList n = successor n # ss \<and> replicationsInFlight n < defaultReplicationConcurrency \<longrightarrow>
       (\<exists>w' i'. n_PutWithRoot E you k (truth k) root ex w = (Inr (), w') \<and>
          owner (S - {me}) (CIDToNodeID (rx E) k) i' \<and>
          holds (mem_hold B) (RemoveNode me (WaitForReplicationDrain E me w')) i' k))"
proof -
  note en = test_eager [OF assms(1)] and w = test_worldD [OF assms(2)]
  have nm: "next_member S me (ID (successor n))"
    using w(3) assms(3,4) unfolding ideal_def member_ok_def routes_ok_def by fastforce
  have "\<exists>i'. owner (S - {me}) (CIDToNodeID (rx E) k) i' \<and> holds (mem_hold B) (RemoveNode me (Leave E me w)) i' k"
    if o: "owner S (CIDToNodeID (rx E) k) i" "holds (mem_hold B) w i k" for k i
  proof -
    let ?i = "if i = me then ID (successor n) else i"
    have "holds (mem_hold B) (Leave E me w) ?i k"
      by (rule eager_nodes.Leave_moves [OF en w(3) assms(3) w(5,2) assms(4,5) o(2)])
    then have "holds (mem_hold B) (RemoveNode me (Leave E me w)) ?i k"
      using assms(5) by (simp add: holds_def w_node_Remove)
    then show ?thesis using owner_remove [OF o(1) nm assms(5,3)] by blast
  qed
  moreover have "\<exists>w' i'. n_PutWithRoot E you k (truth k) root ex w = (Inr (), w') \<and>
      owner (S - {me}) (CIDToNodeID (rx E) k) i' \<and> holds (mem_hold B) (RemoveNode me (WaitForReplicationDrain E me w')) i' k"
    if c: "you \<in> S" "pending w = []" "owner S (CIDToNodeID (rx E) k) me" "1 < replication n"
      "successorList n = successor n # ss" "replicationsInFlight n < defaultReplicationConcurrency" for k you root ex ss
  proof -
    obtain r w' where p: "n_PutWithRoot E you k (truth k) root ex w = (r, w')" by fastforce
    have r: "r = Inr ()" "holds (mem_hold B) (WaitForReplicationDrain E me w') (ID (successor n)) k"
      using eager_nodes.put_replicated [OF en w(1) c(1) w(2) c(2) p c(3) assms(4) c(4,5) assms(5) c(6)] by blast+
    have "holds (mem_hold B) (RemoveNode me (WaitForReplicationDrain E me w')) (ID (successor n)) k"
      using r(2) assms(5) by (simp add: holds_def w_node_Remove)
    then show ?thesis using p r(1) owner_remove [OF c(3) nm assms(5,3)] by auto
  qed
  ultimately show ?thesis by blast
qed

theorem departure_keeps_blocks_witness:
  "holds (mem_hold map_of) (RemoveNode (demo_id 30) (Leave mem_denv (demo_id 30) mem_world)) (demo_id 10) moving_block \<and>
   (\<exists>w'. n_PutWithRoot mem_denv (demo_id 20) moving_block (Hash moving_block) Undef 0 mem_world = (Inr (), w') \<and>
      holds (mem_hold map_of) (RemoveNode (demo_id 30) (WaitForReplicationDrain mem_denv (demo_id 30) w')) (demo_id 10) moving_block)"
proof -
  let ?n = "dress (demo_member 30 [10, 20] 20) [(moving_block, [22])]"
  have me: "demo_id 30 \<in> demo_ids" "demo_id 20 \<in> demo_ids" by simp_all
  have n: "1 < replication ?n" "successorList ?n = successor ?n # [demo_addr 20]" "ID (successor ?n) \<noteq> demo_id 30"
    "replicationsInFlight ?n < defaultReplicationConcurrency"
    by (simp_all add: dress_simps demo_member_def NewNode_def Let_def demo_cfg_def cfg_replication_def demo_addr_def)
  have "demo_ids - {demo_id 30} = {demo_id 10, demo_id 20}" by auto
  then have o: "owner (demo_ids - {demo_id 30}) (CIDToNodeID (rx mem_denv) moving_block) (demo_id 10)"
    unfolding mem_moving(1) by (simp add: owner_def dist_def cw_demo)
  note th = departure_keeps_blocks [OF mem_test_env mem_test_world me(1) mem_moving(4) n(3)]
  have "holds (mem_hold map_of) (RemoveNode (demo_id 30) (Leave mem_denv (demo_id 30) mem_world)) (demo_id 10) moving_block"
    using th [THEN conjunct1] mem_moving(2,3) o owner_unique by blast
  moreover have "\<exists>w'. n_PutWithRoot mem_denv (demo_id 20) moving_block (Hash moving_block) Undef 0 mem_world = (Inr (), w') \<and>
      holds (mem_hold map_of) (RemoveNode (demo_id 30) (WaitForReplicationDrain mem_denv (demo_id 30) w')) (demo_id 10) moving_block"
    using th [THEN conjunct2] me(2) mem_nodes(3) mem_moving(2) n o owner_unique by blast
  ultimately show ?thesis by blast
qed

end
