(* ===== verification/Node_Delete.thy ===== *)
theory Node_Delete
  imports Member_Props
begin

text \<open>
  Deleting a root from the ring (\<open>DeleteCID\<close> of \<open>dht/node.go\<close>): the walk over the DAG ends,
  visits every block that can be reached through blocks the caller has, and takes the root
  from the owner of each and from the replicas of that owner.
\<close>

section \<open>What the walk sees\<close>

text \<open>The CIDs a node has the bytes of, in its ring store or in its local store.\<close>

definition knows where
  "knows hold lhold n = {c. hold (blocks n) c \<noteq> None \<or> (\<exists>l. localBlocks n = Some l \<and> lhold l c \<noteq> None)}"

text \<open>The links of a CID, when it is known.\<close>

definition kids where
  "kids E truth Kn c = (if c \<in> Kn then (case LinksOf E c (truth c) of Inr cs \<Rightarrow> cs | Inl _ \<Rightarrow> []) else [])"

text \<open>The blocks of the DAG below a root, as far as links are known.\<close>

inductive below where
  root: "below E truth Kn r r"
| link: "below E truth Kn r c \<Longrightarrow> d \<in> set (kids E truth Kn c) \<Longrightarrow> below E truth Kn r d"

text \<open>The node counts the root as live at time \<open>now\<close>.\<close>

definition root_at where
  "root_at E now root n =
     (case ringStore n of
        Some (rv, s) \<Rightarrow> HasRootStr (netE E) now rv (cid_String (netE E) root) s
      | None \<Rightarrow> False)"

definition rooted where
  "rooted E now root w i \<longleftrightarrow> (\<exists>n. w_node w i = Some n \<and> root_at E now root n)"

text \<open>A step of the walk: content and links stay, roots may only go.\<close>

definition wnode where
  "wnode E root ok hold lok lhold n n' \<longleftrightarrow>
     links n' = links n \<and> ringID n' = ringID n \<and>
     (good ok lok n \<longrightarrow> good ok lok n' \<and> hold (blocks n') = hold (blocks n) \<and> knows hold lhold n' = knows hold lhold n) \<and>
     (\<forall>now. root_at E now root n' \<longrightarrow> root_at E now root n)"

definition wmove where
  "wmove E root ok hold lok lhold w w' \<longleftrightarrow> blocked w' = blocked w \<and> pending w' = pending w \<and>
     (\<forall>i. rel_option (wnode E root ok hold lok lhold) (w_node w i) (w_node w' i))"

lemma wnode_refl [simp]: "wnode E root ok hold lok lhold n n"
  by (simp add: wnode_def)

lemma wnode_trans:
  "wnode E root ok hold lok lhold a b \<Longrightarrow> wnode E root ok hold lok lhold b c \<Longrightarrow> wnode E root ok hold lok lhold a c"
  unfolding wnode_def by auto

lemma wmove_refl [simp]: "wmove E root ok hold lok lhold w w"
  by (simp add: wmove_def option.rel_refl)

lemma wmove_trans:
  "wmove E root ok hold lok lhold u v \<Longrightarrow> wmove E root ok hold lok lhold v w \<Longrightarrow> wmove E root ok hold lok lhold u w"
  unfolding wmove_def
  by (metis (no_types, lifting) wnode_trans option.rel_transp transpD transpI)

lemma wmove_put:
  "w_node w i = Some n \<Longrightarrow> wnode E root ok hold lok lhold n n' \<Longrightarrow> wmove E root ok hold lok lhold w (put_node i n' w)"
  by (simp add: wmove_def option.rel_refl)

lemma wmoveD:
  assumes "wmove E root ok hold lok lhold w w'" "w_node w i = Some n"
  obtains n' where "w_node w' i = Some n'" "wnode E root ok hold lok lhold n n'"
proof -
  have "rel_option (wnode E root ok hold lok lhold) (w_node w i) (w_node w' i)" using assms(1) by (simp add: wmove_def)
  then show ?thesis using assms(2) that by (cases "w_node w' i") auto
qed

lemma wmove_back:
  assumes "wmove E root ok hold lok lhold w w'" "w_node w' i = Some n'"
  obtains n where "w_node w i = Some n" "wnode E root ok hold lok lhold n n'"
proof -
  have "rel_option (wnode E root ok hold lok lhold) (w_node w i) (w_node w' i)" using assms(1) by (simp add: wmove_def)
  then show ?thesis using assms(2) that by (cases "w_node w i") auto
qed

lemma wmove_rooted: "wmove E root ok hold lok lhold w w' \<Longrightarrow> rooted E now root w' i \<Longrightarrow> rooted E now root w i"
  by (auto simp: rooted_def wnode_def elim: wmove_back)

lemma wmove_serving:
  fixes hold :: "('m, 'd, 'b) bstore \<Rightarrow> cid \<rightharpoonup> bytes"
  assumes "wmove E root ok hold lok lhold w w'" "serving truth ok lok S w"
  shows "serving truth ok lok S w'"
proof -
  have s: "ideal S w" "navigable S w" "world_good truth ok lok w" using assms(2) by (simp_all add: serving_def)
  have g: "good ok lok n'" if i: "w_node w' i = Some n'" for i n'
  proof -
    obtain n where "w_node w i = Some n" "wnode E root ok hold lok lhold n n'" using assms(1) i by (rule wmove_back)
    then show ?thesis using s(3) by (simp add: world_good_def wnode_def)
  qed
  have "rel_option (node_le hold) (w_node w i) (w_node w' i)" for i
  proof (cases "w_node w i")
    case None
    then show ?thesis using assms(1) by (cases "w_node w' i") (auto elim: wmove_back)
  next
    case (Some n)
    obtain n' where n': "w_node w' i = Some n'" "wnode E root ok hold lok lhold n n'" using assms(1) Some by (rule wmoveD)
    moreover have "good ok lok n" using s(3) Some by (simp add: world_good_def)
    ultimately show ?thesis using Some by (simp add: wnode_def node_le_def)
  qed
  then have "world_le hold w w'" using assms(1) by (simp add: world_le_def wmove_def)
  moreover have "world_good truth ok lok w'" using g s(3) assms(1) by (simp add: world_good_def wmove_def)
  ultimately show ?thesis using ideal_le navigable_le s(1,2) by (simp add: serving_def) blast
qed

text \<open>The rings the nodes belong to have names that can stand in a datastore key.\<close>

definition rings_ok where
  "rings_ok w \<longleftrightarrow> (\<forall>i n. w_node w i = Some n \<longrightarrow> seg_ok (ringID n))"

text \<open>The root is gone from the owner of \<open>c\<close> and from the replicas of that owner.\<close>

definition freed where
  "freed E S root w c \<longleftrightarrow> (\<forall>i n now. owner S (CIDToNodeID (rx E) c) i \<longrightarrow> w_node w i = Some n \<longrightarrow>
     \<not> rooted E now root w i \<and> (\<forall>t \<in> set (replica_targets n). \<not> rooted E now root w (ID t)))"

section \<open>The stores the walk reads\<close>

locale walk_store = node_store E truth ok hold lok
  for E :: "('m, 'd, 'b, 'l) denv" and truth ok hold lok +
  fixes lhold :: "'l \<Rightarrow> cid \<rightharpoonup> bytes" and A :: "'d \<Rightarrow> string \<rightharpoonup> bytes"
  assumes local_read: "lok l \<Longrightarrow> bs_Get (locE E) k l = (x, l') \<Longrightarrow>
      lhold l' = lhold l \<and> (case lhold l k of Some d \<Rightarrow> x = Inr d | None \<Rightarrow> x \<in> range Inl)"
    and ds: "ds_laws (netE E) A"
begin

abbreviation "D root \<equiv> wnode E root ok hold lok lhold"
abbreviation "W root \<equiv> wmove E root ok hold lok lhold"

lemma root_at_blocks: "ringStore n' = ringStore n \<Longrightarrow> root_at E now root n' = root_at E now root n"
  by (simp add: root_at_def)

lemma ringStore_local: "ringStore (n\<lparr>localBlocks := l\<rparr>) = ringStore n"
  by (simp add: ringStore_def split: bstore.split)

lemma ringStore_Get:
  assumes "b_Get E c (blocks n) = (r, b)"
  shows "ringStore (n\<lparr>blocks := b\<rparr>) = ringStore n"
proof (cases "blocks n")
  case (Plain m)
  then obtain m' where "b = Plain m'" using assms by (cases "bs_Get (plain E) c m") (auto simp: b_Get_def)
  then show ?thesis using Plain by (simp add: ringStore_def)
next
  case (Net s)
  then have "b = Net s" using assms by (simp add: b_Get_def)
  then show ?thesis using Net by (simp add: ringStore_def)
qed

lemma D_node_Get:
  assumes "node_Get E c n = (r, n')"
  shows "D root n n'"
proof -
  obtain b where b: "b_Get E c (blocks n) = (r, b)" "n' = n\<lparr>blocks := b\<rparr>"
    using assms by (auto simp: node_Get_def split: prod.splits)
  have "good ok lok n' \<and> hold (blocks n') = hold (blocks n)" if "good ok lok n"
    using node_Get_ok [OF that assms] by simp
  then show ?thesis
    using b(2) root_at_blocks [OF ringStore_Get [OF b(1)]] by (simp add: wnode_def knows_def)
qed

lemma D_local_Get: "local_Get E c n = (r, n') \<Longrightarrow> D root n n'"
proof (cases "localBlocks n")
  case (Some l)
  assume g: "local_Get E c n = (r, n')"
  obtain l' where l': "bs_Get (locE E) c l = (r, l')" "n' = n\<lparr>localBlocks := Some l'\<rparr>"
    using g Some by (auto simp: local_Get_def split: prod.splits)
  have "lok l' \<and> lhold l' = lhold l" if "good ok lok n"
    using local_read [OF _ l'(1)] local_get [OF _ l'(1)] Some that by (simp add: good_def)
  then show ?thesis
    using Some root_at_blocks [OF ringStore_local] by (auto simp: l'(2) wnode_def knows_def good_def)
qed (simp add: local_Get_def)

lemma local_Get_res:
  assumes "good ok lok n" "local_Get E c n = (r, n')" "localBlocks n = Some l"
  shows "case lhold l c of Some d \<Rightarrow> r = Inr (truth c) | None \<Rightarrow> r \<in> range Inl"
proof -
  obtain l' where l': "bs_Get (locE E) c l = (r, l')" using assms(2,3) by (auto simp: local_Get_def split: prod.splits)
  have "lok l" using assms(1,3) by (simp add: good_def)
  then show ?thesis using local_read [OF _ l'] local_get [OF _ l'] by (auto split: option.splits)
qed

lemma node_Get_res:
  assumes "good ok lok n" "node_Get E c n = (r, n')"
  shows "if hold (blocks n) c \<noteq> None then r = Inr (truth c) else r \<in> range Inl"
  using node_Get_ok(5) [OF assms] honest assms(1) by (auto simp: good_def split: option.splits)

lemma walk_data_ok:
  assumes n: "good ok lok n" and g: "walk_data E c n = (r, n')"
  shows "D root n n'" "if c \<in> knows hold lhold n then r = Inr (truth c) else r \<in> range Inl"
proof -
  define f where "f = (if localBlocks n \<noteq> None then local_Get E c n else node_Get E c n)"
  obtain r1 n1 where f: "f = (r1, n1)" by fastforce
  have 1: "D root n n1" using f D_local_Get D_node_Get by (auto simp: f_def split: if_splits)
  then have g1: "good ok lok n1" and h1: "hold (blocks n1) = hold (blocks n)" using n by (simp_all add: wnode_def)
  have r1: "if (case localBlocks n of Some l \<Rightarrow> lhold l c \<noteq> None | None \<Rightarrow> hold (blocks n) c \<noteq> None)
      then r1 = Inr (truth c) else r1 \<in> range Inl"
    using f local_Get_res [OF n, of c r1 n1] node_Get_res [OF n, of c r1 n1]
    by (auto simp: f_def split: if_splits option.splits)
  have e: "walk_data E c n = (case (r1, n1) of (Inr d, n1) \<Rightarrow> (Inr d, n1) | (Inl _, n1) \<Rightarrow> node_Get E c n1)"
    unfolding walk_data_def f [symmetric] f_def ..
  show "D root n n'"
    using g e 1 wnode_trans [OF 1 D_node_Get] by (cases r1) auto
  show "if c \<in> knows hold lhold n then r = Inr (truth c) else r \<in> range Inl"
    using g e r1 node_Get_res [OF g1, of c r n'] h1
    by (cases r1) (auto simp: knows_def split: if_splits option.splits)
qed

lemma remove_root_ok:
  assumes "seg_ok (ringID n)" "seg_ok (cid_String (netE E) root)"
  shows "D root n (remove_root E root n)" "\<not> root_at E now root (remove_root E root n)"
proof -
  have "D root n (remove_root E root n) \<and> \<not> root_at E now root (remove_root E root n)"
  proof (cases "ringStore n")
    case None
    then show ?thesis by (simp add: remove_root_def root_at_def)
  next
    case (Some x)
    then obtain rv s where x: "ringStore n = Some (rv, s)" by (cases x) simp
    let ?c = "cid_String (netE E) root" and ?s = "RemoveRootStr (netE E) rv (cid_String (netE E) root) s"
    have b: "blocks n = Net s" "Ring (ringID n) = Some rv"
      using x by (auto simp: ringStore_def split: bstore.splits option.splits)
    then have "is_ring rv" using assms(1) by (auto simp: is_ring_def Ring_def Let_def split: if_splits)
    note rk = rootKey_NewKey [OF ds this assms(2)] and ar = A_RemoveRoot [OF ds this assms(2), of s]
    have "ds_Get (netE E) (NewKey (netE E) (rootKey rv ?c)) (nbs.ds ?s) \<in> range Inl"
      unfolding rk by (rule ds_lawsD(4) [OF ds]) (simp add: ar)
    then have h: "\<not> HasRootStr (netE E) now rv ?c ?s" for now by (auto simp: HasRootStr_def)
    have p: "ok (Net ?s) = ok (Net s) \<and> hold (Net ?s) = hold (Net s)" by (rule index) (rule pool_RemoveRootStr)
    have "ringStore (n\<lparr>blocks := Net ?s\<rparr>) = Some (rv, ?s)" using b(2) by (simp add: ringStore_def)
    then show ?thesis
      using p h b x by (simp add: wnode_def remove_root_def root_at_def knows_def good_def)
  qed
  then show "D root n (remove_root E root n)" "\<not> root_at E now root (remove_root E root n)" by simp_all
qed

section \<open>One visit\<close>

lemma W_node: "w_node w i = Some n \<Longrightarrow> W root w w' \<Longrightarrow> \<exists>n'. w_node w' i = Some n' \<and> D root n n'"
  by (metis wmoveD)

lemma rings_ok_W: "W root w w' \<Longrightarrow> rings_ok w \<Longrightarrow> rings_ok w'"
  unfolding rings_ok_def by (metis wmove_back wnode_def)

lemma drop_at:
  assumes n: "w_node w i = Some n" and w: "rings_ok w" and c: "seg_ok (cid_String (netE E) root)"
  shows "W root w (put_node i (remove_root E root n) w)" "\<not> rooted E now root (put_node i (remove_root E root n) w) i"
proof -
  have "seg_ok (ringID n)" using w n by (simp add: rings_ok_def)
  note r = remove_root_ok [OF this c]
  show "W root w (put_node i (remove_root E root n) w)" by (rule wmove_put [OF n r(1)])
  show "\<not> rooted E now root (put_node i (remove_root E root n) w) i" using r(2) by (simp add: rooted_def)
qed

lemma leaves_ok:
  assumes "rings_ok w" "seg_ok (cid_String (netE E) root)"
    and "\<And>t. t \<in> set ts \<Longrightarrow> w_node w (ID t) \<noteq> None \<and> (i, ID t) \<notin> set (blocked w)"
  shows "W root w (foldl (lt_DeleteCID_leaf E i root) w ts) \<and>
    (\<forall>t \<in> set ts. \<forall>now. \<not> rooted E now root (foldl (lt_DeleteCID_leaf E i root) w ts) (ID t))"
  using assms(1,3)
proof (induction ts arbitrary: w)
  case (Cons t ts)
  obtain n where n: "w_node w (ID t) = Some n" "(i, ID t) \<notin> set (blocked w)" using Cons.prems(2) [of t] by auto
  let ?w = "put_node (ID t) (remove_root E root n) w"
  have e: "lt_DeleteCID_leaf E i root w t = ?w"
    using lt_resolve_ok [OF n] by (simp add: lt_DeleteCID_leaf_def)
  note d = drop_at [OF n(1) Cons.prems(1) assms(2)]
  have ih: "W root ?w (foldl (lt_DeleteCID_leaf E i root) ?w ts) \<and>
    (\<forall>t \<in> set ts. \<forall>now. \<not> rooted E now root (foldl (lt_DeleteCID_leaf E i root) ?w ts) (ID t))"
    using Cons.prems by (intro Cons.IH rings_ok_W [OF d(1)]) auto
  then have 1: "W root ?w (foldl (lt_DeleteCID_leaf E i root) ?w ts)" by blast
  have 2: "\<not> rooted E now root (foldl (lt_DeleteCID_leaf E i root) ?w ts) (ID u)" if "u \<in> set ts" for now u
    using ih that by blast
  have "\<not> rooted E now root (foldl (lt_DeleteCID_leaf E i root) ?w ts) (ID t)" for now
    using wmove_rooted [OF 1] d(2) by blast
  then show ?case using wmove_trans [OF d(1) 1] 2 by (auto simp: e)
qed simp

lemma handle_ok:
  assumes w: "serving truth ok lok S w" "rings_ok w" and c: "seg_ok (cid_String (netE E) root)"
    and i: "i \<in> S" "w_node w i = Some n"
  shows "W root w (handleDeleteCID E i root True w)"
    "\<not> rooted E now root (handleDeleteCID E i root True w) i"
    "t \<in> set (replica_targets n) \<Longrightarrow> \<not> rooted E now root (handleDeleteCID E i root True w) (ID t)"
proof -
  let ?w = "put_node i (remove_root E root n) w"
  note d = drop_at [OF i(2) w(2) c]
  have t: "w_node ?w (ID t) \<noteq> None \<and> (i, ID t) \<notin> set (blocked ?w)" if "t \<in> set (replica_targets n)" for t
  proof -
    obtain m where "w_node w i = Some m" "\<forall>s \<in> set (successorList m). ID s \<in> S" using w(1) i(1) by (rule serving_node)
    then have "ID t \<in> S" using i(2) replica_targets_sub [OF that] by simp
    moreover obtain k where "w_node w (ID t) = Some k" using w(1) \<open>ID t \<in> S\<close> by (rule serving_node)
    ultimately show ?thesis using serving_open [OF w(1) i(1)] by simp
  qed
  note l = leaves_ok [OF rings_ok_W [OF d(1) w(2)] c t]
  have e: "handleDeleteCID E i root True w = foldl (lt_DeleteCID_leaf E i root) ?w (replica_targets n)"
    by (simp add: handleDeleteCID_def i(2))
  show "W root w (handleDeleteCID E i root True w)" unfolding e using l wmove_trans [OF d(1)] by blast
  show "\<not> rooted E now root (handleDeleteCID E i root True w) i"
    unfolding e using l wmove_rooted d(2) by blast
  show "\<not> rooted E now root (handleDeleteCID E i root True w) (ID t)" if "t \<in> set (replica_targets n)"
    unfolding e using l that by blast
qed

lemma D_targets: "D root n n' \<Longrightarrow> replica_targets n' = replica_targets n"
  by (simp add: wnode_def links_def replica_targets_def)

lemma freed_W: "W root w w' \<Longrightarrow> freed E S root w c \<Longrightarrow> freed E S root w' c"
  unfolding freed_def
proof (intro allI impI)
  fix i n now
  assume w: "W root w w'" and f: "\<forall>i n now. owner S (CIDToNodeID (rx E) c) i \<longrightarrow> w_node w i = Some n \<longrightarrow>
      \<not> rooted E now root w i \<and> (\<forall>t \<in> set (replica_targets n). \<not> rooted E now root w (ID t))"
    and o: "owner S (CIDToNodeID (rx E) c) i" and n: "w_node w' i = Some n"
  obtain m where m: "w_node w i = Some m" "D root m n" using w n by (rule wmove_back)
  show "\<not> rooted E now root w' i \<and> (\<forall>t \<in> set (replica_targets n). \<not> rooted E now root w' (ID t))"
    using f o m(1) wmove_rooted [OF w] unfolding D_targets [OF m(2)] by blast
qed

lemma visit_ok:
  assumes w: "serving truth ok lok S w" "rings_ok w" and c: "seg_ok (cid_String (netE E) root)"
    and me: "me \<in> S" "w_node w me = Some n"
  shows "W root w (snd (walk_visit E me root c w))" "freed E S root (snd (walk_visit E me root c w)) c"
    "fst (walk_visit E me root c w) = kids E truth (knows hold lhold n) c"
proof -
  obtain a where a: "w_FindSuccessor me (CIDToNodeID (rx E) c) w = (Inr a, w)"
    "owner S (CIDToNodeID (rx E) c) (ID a)" "ID a \<in> S" using w(1) me(1) by (rule serving_route)
  obtain m where m: "w_node w (ID a) = Some m" using w(1) a(3) by (rule serving_node)
  let ?w = "handleDeleteCID E (ID a) root True w"
  note h = handle_ok [OF w c a(3) m]
  have "(me, ID a) \<notin> set (blocked w)" using serving_open [OF w(1) me(1) a(3)] .
  then have e: "(if ID a = me then handleDeleteCID E me root True w else lt_DeleteCID E me a root True w) = ?w"
    using lt_resolve_ok [OF m] by (simp add: lt_DeleteCID_def)
  obtain n2 where n2: "w_node ?w me = Some n2" "D root n n2" using h(1) me(2) by (rule wmoveD)
  have g: "good ok lok n" using w(1) me(2) by (simp add: serving_def world_good_def)
  then have g2: "good ok lok n2" "knows hold lhold n2 = knows hold lhold n" using n2(2) by (simp_all add: wnode_def)
  obtain r n3 where d: "walk_data E c n2 = (r, n3)" by fastforce
  note wd = walk_data_ok [OF g2(1) d]
  have 2: "W root ?w (put_node me n3 ?w)" by (rule wmove_put [OF n2(1) wd(1)])
  have v: "walk_visit E me root c w = (kids E truth (knows hold lhold n) c, put_node me n3 ?w)"
    using a(1) n2(1) d wd(2) g2(2)
    by (cases r) (auto simp: walk_visit_def e Let_def kids_def split: sum.split if_splits)
  show 1: "W root w (snd (walk_visit E me root c w))" unfolding v using wmove_trans [OF h(1) 2] by simp
  have "freed E S root ?w c"
    unfolding freed_def
  proof (intro allI impI)
    fix i k now
    assume "owner S (CIDToNodeID (rx E) c) i" "w_node ?w i = Some k"
    moreover have "i = ID a" using calculation(1) a(2) by (rule owner_unique)
    moreover obtain m' where "w_node ?w (ID a) = Some m'" "D root m m'" using h(1) m by (rule wmoveD)
    ultimately show "\<not> rooted E now root ?w i \<and> (\<forall>t \<in> set (replica_targets k). \<not> rooted E now root ?w (ID t))"
      using h(2,3) D_targets by fastforce
  qed
  then show "freed E S root (snd (walk_visit E me root c w)) c" unfolding v using freed_W [OF 2] by simp
  show "fst (walk_visit E me root c w) = kids E truth (knows hold lhold n) c" by (simp add: v)
qed

section \<open>The walk\<close>

lemma links_left:
  assumes "finite {y \<in> V. f y \<noteq> []}" "x \<in> V" "x \<notin> set visited"
  shows "(\<Sum>y \<in> {y \<in> V. f y \<noteq> []} - set visited. length (f y)) =
    length (f x) + (\<Sum>y \<in> {y \<in> V. f y \<noteq> []} - set (x # visited). length (f y))"
proof (cases "f x = []")
  case True
  then have "{y \<in> V. f y \<noteq> []} - set (x # visited) = {y \<in> V. f y \<noteq> []} - set visited" by auto
  then show ?thesis using True by simp
next
  case False
  have "{y \<in> V. f y \<noteq> []} - set (x # visited) = ({y \<in> V. f y \<noteq> []} - set visited) - {x}" by auto
  then show ?thesis using assms False by (simp add: sum.remove [of "{y \<in> V. f y \<noteq> []} - set visited" x])
qed

text \<open>
  Each unvisited CID pushes its links once, so the stack and the links still to push shrink
  with every step.
\<close>

lemma walk_ok:
  assumes c: "seg_ok (cid_String (netE E) root)" and me: "me \<in> S"
    and V: "\<And>x. x \<in> V \<Longrightarrow> set (kids E truth Kn x) \<subseteq> V" and fin: "finite {x \<in> V. kids E truth Kn x \<noteq> []}"
  shows "serving truth ok lok S w \<Longrightarrow> rings_ok w \<Longrightarrow> w_node w me = Some n \<Longrightarrow> knows hold lhold n = Kn \<Longrightarrow> set stack \<subseteq> V \<Longrightarrow>
    \<exists>v w'. deleteCIDWalk E me root stack visited w = Some (v, w') \<and> W root w w' \<and> set visited \<union> set stack \<subseteq> set v \<and>
      (\<forall>x \<in> set v - set visited. set (kids E truth Kn x) \<subseteq> set v \<and> freed E S root w' x)"
proof (induction "length stack + (\<Sum>x \<in> {x \<in> V. kids E truth Kn x \<noteq> []} - set visited. length (kids E truth Kn x))"
    arbitrary: stack visited w n rule: less_induct)
  case less
  let ?P = "{x \<in> V. kids E truth Kn x \<noteq> []}"
  show ?case
  proof (cases stack)
    case Nil
    then show ?thesis by (simp add: deleteCIDWalk.simps)
  next
    case (Cons x rest)
    show ?thesis
    proof (cases "x \<in> set visited")
      case True
      then have "deleteCIDWalk E me root stack visited w = deleteCIDWalk E me root rest visited w"
        using Cons by (simp add: deleteCIDWalk.simps)
      moreover have "set rest \<subseteq> V" using less.prems(5) Cons by simp
      moreover have "set visited \<union> set stack = set visited \<union> set rest" using Cons True by auto
      ultimately show ?thesis
        using less.hyps [of rest visited w n] less.prems(1-4) Cons by simp
    next
      case False
      let ?ks = "kids E truth Kn x" and ?w = "snd (walk_visit E me root x w)"
      note v = visit_ok [OF less.prems(1,2) c me less.prems(3), of x, unfolded less.prems(4)]
      have e: "deleteCIDWalk E me root stack visited w = deleteCIDWalk E me root (?ks @ rest) (x # visited) ?w"
        unfolding Cons using False v(3) by (subst deleteCIDWalk.simps) simp
      have xV: "x \<in> V" using less.prems(5) Cons by simp
      note sum = links_left [OF fin xV False]
      obtain m where m: "w_node ?w me = Some m" "D root n m" using v(1) less.prems(3) by (rule wmoveD)
      have "good ok lok n" using less.prems(1,3) by (simp add: serving_def world_good_def)
      then have kn: "knows hold lhold m = Kn" using m(2) less.prems(4) by (simp add: wnode_def)
      have st: "set (?ks @ rest) \<subseteq> V" using V [OF xV] less.prems(5) Cons by simp
      have "length (?ks @ rest) + (\<Sum>y \<in> ?P - set (x # visited). length (kids E truth Kn y)) <
          length stack + (\<Sum>y \<in> ?P - set visited. length (kids E truth Kn y))" using Cons sum by simp
      from less.hyps [OF this wmove_serving [OF v(1) less.prems(1)] rings_ok_W [OF v(1) less.prems(2)] m(1) kn st]
      obtain vs w' where r: "deleteCIDWalk E me root (?ks @ rest) (x # visited) ?w = Some (vs, w')" "W root ?w w'"
          "set (x # visited) \<union> set (?ks @ rest) \<subseteq> set vs"
          "\<forall>y \<in> set vs - set (x # visited). set (kids E truth Kn y) \<subseteq> set vs \<and> freed E S root w' y" by blast
      have "freed E S root w' x" by (rule freed_W [OF r(2) v(2)])
      then have "\<forall>y \<in> set vs - set visited. set (kids E truth Kn y) \<subseteq> set vs \<and> freed E S root w' y"
        using r(3,4) by auto
      moreover have "set visited \<union> set stack \<subseteq> set vs" using r(3) Cons by auto
      ultimately show ?thesis using trans [OF e r(1)] wmove_trans [OF v(1) r(2)] by blast
    qed
  qed
qed

lemma below_closed:
  assumes "below E truth Kn r c" "r \<in> Z" "\<And>x. x \<in> Z \<Longrightarrow> set (kids E truth Kn x) \<subseteq> Z"
  shows "c \<in> Z"
  using assms by (induction rule: below.induct) blast+

lemma delete_ok:
  assumes w: "serving truth ok lok S w" "rings_ok w" and c: "seg_ok (cid_String (netE E) root)"
    and me: "me \<in> S" "w_node w me = Some n" and Kn: "knows hold lhold n = Kn"
    and V: "root \<in> V" "\<And>x. x \<in> V \<Longrightarrow> set (kids E truth Kn x) \<subseteq> V" and fin: "finite {x \<in> V. kids E truth Kn x \<noteq> []}"
  shows "\<exists>w'. n_DeleteCID E me root w = Some w' \<and> (\<forall>x. below E truth Kn root x \<longrightarrow> freed E S root w' x) \<and>
    W root w w' \<and> (\<forall>now. \<not> rooted E now root w' me)"
proof -
  let ?w = "put_node me (remove_root E root n) w"
  note d = drop_at [OF me(2) w(2) c]
  have e: "on_node me (\<lambda>n. (remove_root E root n, [])) w = ?w" by (simp add: on_node_Some [OF me(2)])
  obtain m where m: "w_node ?w me = Some m" "D root n m" using d(1) me(2) by (rule wmoveD)
  have "good ok lok n" using w(1) me(2) by (simp add: serving_def world_good_def)
  then have kn: "knows hold lhold m = Kn" using m(2) Kn by (simp add: wnode_def)
  have "set [root] \<subseteq> V" using V(1) by simp
  from walk_ok [OF c me(1) V(2) fin wmove_serving [OF d(1) w(1)] rings_ok_W [OF d(1) w(2)] m(1) kn this, of "[]"]
  obtain v w' where r: "deleteCIDWalk E me root [root] [] ?w = Some (v, w')" "W root ?w w'" "root \<in> set v"
      "\<And>x. x \<in> set v \<Longrightarrow> set (kids E truth Kn x) \<subseteq> set v \<and> freed E S root w' x" by auto
  have "freed E S root w' x" if "below E truth Kn root x" for x
    using below_closed [OF that r(3)] r(4) by blast
  moreover have "\<not> rooted E now root w' me" for now using wmove_rooted [OF r(2)] d(2) by blast
  ultimately show ?thesis
    using r(1) wmove_trans [OF d(1) r(2)] by (auto simp: n_DeleteCID_def e)
qed

end

section \<open>Stores that give the interface\<close>

fun cid_Version :: "cid \<Rightarrow> nat" where
  "cid_Version Undef = 0"
| "cid_Version (Cid v c h) = v"

text \<open>
  The stores keep the contracts of \<open>node_env\<close> and of the datastore, their keys determine the
  multihash, and a decoded link is a CID of version 0 or 1.
\<close>

definition walk_env where
  "walk_env E truth kf pinv M B lf linv L A \<longleftrightarrow>
     node_env E truth kf pinv M B lf linv L \<and> ds_laws (netE E) A \<and>
     (\<forall>c d. kf c = kf d \<or> lf c = lf d \<longrightarrow> Hash c = Hash d) \<and>
     (\<forall>c d cs. DecodeLinks E d c = Inr cs \<longrightarrow> (\<forall>x \<in> set cs. cid_Version x \<le> 1))"

lemma walk_env_store:
  assumes "walk_env E truth kf pinv M B lf linv L A"
  shows "walk_store E truth (store_ok truth kf pinv M B) (held kf M B) (local_ok truth lf linv L) (\<lambda>l k. L l (lf k)) A"
proof -
  have e: "node_env E truth kf pinv M B lf linv L" and d: "ds_laws (netE E) A" using assms by (simp_all add: walk_env_def)
  have "(\<lambda>k. L l' (lf k)) = (\<lambda>k. L l (lf k)) \<and> (case L l (lf k) of Some d \<Rightarrow> x = Inr d | None \<Rightarrow> x \<in> range Inl)"
    if "local_ok truth lf linv L l" "bs_Get (locE E) k l = (x, l')" for l k x l'
    using block_store.get [OF node_envD(3) [OF e] _ that(2)] that(1) by (simp add: local_ok_def)
  then show ?thesis by (intro walk_store.intro node_env_store [OF e] walk_store_axioms.intro d)
qed

lemma finite_hashes:
  assumes "finite F" "\<And>c d. kf c = kf d \<Longrightarrow> Hash c = Hash d"
  shows "finite (Hash ` {x. kf x \<in> F})"
proof (rule finite_subset)
  show "finite ((\<lambda>k. Hash (inv kf k)) ` F)" using assms(1) by simp
  show "Hash ` {x. kf x \<in> F} \<subseteq> (\<lambda>k. Hash (inv kf k)) ` F"
  proof
    fix h assume "h \<in> Hash ` {x. kf x \<in> F}"
    then obtain x where x: "h = Hash x" "kf x \<in> F" by auto
    have "kf (inv kf (kf x)) = kf x" by (rule f_inv_into_f) simp
    then have "h = Hash (inv kf (kf x))" using assms(2) x(1) by metis
    then show "h \<in> (\<lambda>k. Hash (inv kf k)) ` F" using x(2) by blast
  qed
qed

text \<open>Only finitely many known CIDs have links.\<close>

lemma finite_kids:
  assumes e: "walk_env E truth kf pinv M B lf linv L A" and n: "good (store_ok truth kf pinv M B) (local_ok truth lf linv L) n"
  shows "finite {x \<in> {x. cid_Version x \<le> 1}. kids E truth (knows (held kf M B) (\<lambda>l k. L l (lf k)) n) x \<noteq> []}" (is "finite ?P")
proof -
  let ?Kn = "knows (held kf M B) (\<lambda>l k. L l (lf k)) n"
  have ne: "node_env E truth kf pinv M B lf linv L" using e by (simp add: walk_env_def)
  have inj: "kf c = kf d \<Longrightarrow> Hash c = Hash d" "lf c = lf d \<Longrightarrow> Hash c = Hash d" for c d using e unfolding walk_env_def by blast+
  have h1: "finite (Hash ` {x. held kf M B (blocks n) x \<noteq> None})"
  proof (cases "blocks n")
    case (Plain m)
    then have "finite (dom (M m))"
      using block_store.finite_content [OF node_envD(1) [OF ne]] n by (simp add: good_def store_ok_def)
    from finite_hashes [where kf = kf, OF this inj(1)] show ?thesis using Plain by (simp add: held_simps dom_def)
  next
    case (Net s)
    from finite_hashes [of "dom (B (blks s))" Hash] show ?thesis
      using blk_lawsD(1) [OF node_envD(2) [OF ne]] Net by (simp add: held_simps dom_def)
  qed
  have h2: "finite (Hash ` {x. \<exists>l. localBlocks n = Some l \<and> L l (lf x) \<noteq> None})"
  proof (cases "localBlocks n")
    case (Some l)
    then have "finite (dom (L l))"
      using block_store.finite_content [OF node_envD(3) [OF ne]] n by (simp add: good_def local_ok_def)
    from finite_hashes [where kf = lf, OF this inj(2)] show ?thesis using Some by (simp add: dom_def)
  qed simp
  have "Hash ` ?Kn = Hash ` {x. held kf M B (blocks n) x \<noteq> None} \<union> Hash ` {x. \<exists>l. localBlocks n = Some l \<and> L l (lf x) \<noteq> None}"
    by (auto simp: knows_def)
  then have h: "finite (Hash ` ?Kn)" using h1 h2 by simp
  have "x \<in> (\<lambda>(v, h). Cid v DagProtobuf h) ` ({0..1} \<times> Hash ` ?Kn)" if x: "x \<in> ?P" for x
  proof -
    have "Codec x = DagProtobuf" "x \<in> ?Kn" "cid_Version x \<le> 1"
      using x by (auto simp: kids_def LinksOf_def split: if_splits)
    then show ?thesis by (cases x) force+
  qed
  then have "?P \<subseteq> (\<lambda>(v, h). Cid v DagProtobuf h) ` ({0..1} \<times> Hash ` ?Kn)" by blast
  then show ?thesis using h finite_subset by blast
qed

lemma kids_version:
  assumes "walk_env E truth kf pinv M B lf linv L A" "y \<in> set (kids E truth Kn x)"
  shows "cid_Version y \<le> 1"
proof (cases "LinksOf E x (truth x)")
  case (Inl e)
  then have "kids E truth Kn x = []" by (simp add: kids_def)
  then show ?thesis using assms(2) by simp
next
  case (Inr cs)
  then have y: "y \<in> set cs" using assms(2) by (cases "x \<in> Kn") (simp_all add: kids_def)
  have "DecodeLinks E (truth x) x = Inr cs"
    using Inr y by (cases "Codec x = DagProtobuf"; cases "NewBlockWithCid (netE E) (truth x) x") (auto simp: LinksOf_def)
  moreover have "\<forall>c d cs. DecodeLinks E d c = Inr cs \<longrightarrow> (\<forall>x \<in> set cs. cid_Version x \<le> 1)"
    using assms(1) by (simp add: walk_env_def)
  ultimately show ?thesis using y by blast
qed

section \<open>Deleting a root\<close>

text \<open>
  C19. \<open>DeleteCID\<close> returns, whatever cycles the links have, and afterwards no owner of a block
  of the DAG below the root, as far as the caller has the blocks, counts the root as live, and
  no replica of such an owner does.
\<close>

theorem delete_unpins_dag:
  assumes "walk_env E truth kf pinv M B lf linv L A"
    and "serving truth (store_ok truth kf pinv M B) (local_ok truth lf linv L) S w" "rings_ok w"
    and "me \<in> S" "w_node w me = Some n" "cid_Version root \<le> 1" "seg_ok (cid_String (netE E) root)"
  shows "\<exists>w'. n_DeleteCID E me root w = Some w' \<and> (\<forall>now. \<not> rooted E now root w' me) \<and>
    (\<forall>c. below E truth (knows (held kf M B) (\<lambda>l k. L l (lf k)) n) root c \<longrightarrow> freed E S root w' c)"
proof -
  have "good (store_ok truth kf pinv M B) (local_ok truth lf linv L) n"
    using assms(2,5) by (simp add: serving_def world_good_def)
  note fin = finite_kids [OF assms(1) this]
  have "set (kids E truth (knows (held kf M B) (\<lambda>l k. L l (lf k)) n) x) \<subseteq> {x. cid_Version x \<le> 1}"
    if "x \<in> {x. cid_Version x \<le> 1}" for x
    using kids_version [OF assms(1)] by blast
  from walk_store.delete_ok [OF walk_env_store [OF assms(1)] assms(2,3,7,4,5) refl _ this fin]
  obtain w' where "n_DeleteCID E me root w = Some w'" "\<forall>now. \<not> rooted E now root w' me"
      "\<forall>c. below E truth (knows (held kf M B) (\<lambda>l k. L l (lf k)) n) root c \<longrightarrow> freed E S root w' c"
    using assms(6) by fastforce
  then show ?thesis by blast
qed

section \<open>A ring of network stores\<close>

abbreviation dag_root :: cid where "dag_root \<equiv> NewCidV1 codec_DagProtobuf [22]"
abbreviation dag_leaf :: cid where "dag_leaf \<equiv> NewCidV1 codec_DagProtobuf [8]"

text \<open>Two blocks that link to each other; node 30 owns the first, node 10 the second.\<close>

definition dag_denv where
  "dag_denv = mem_denv\<lparr>DecodeLinks := (\<lambda>d c. if d = [22] then Inr [dag_leaf] else if d = [8] then Inr [dag_root] else Inr [])\<rparr>"

definition dag_node :: "unit node_scheme \<Rightarrow> bytes list \<Rightarrow> cid list \<Rightarrow> (testMemStore, (string \<times> bytes) list, (bytes \<times> bytes) list, testMemStore) dnode" where
  "dag_node n bs roots = node.extend n (dnode.fields
     (Net \<lparr>ds = map (\<lambda>r. (''/ring/public/netroots/'' @ HexString r, [])) roots, blks = map (\<lambda>b. (b, b)) bs,
        maxBytes = 9, usedBytesAtomic = int (length (concat bs)), blockCountAtomic = int (length bs), ringCtrs = [], knownRings = []\<rparr>)
     None RingPublic (new_records demo_cfg) 0 0)"

definition dag_world :: "(testMemStore, (string \<times> bytes) list, (bytes \<times> bytes) list, testMemStore) world" where
  "dag_world = \<lparr>nodeMap = [(demo_id 10, dag_node (demo_member 10 [20, 30] 30) [] [dag_root]),
       (demo_id 20, dag_node (demo_member 20 [30, 10] 10) [[22], [8]] []),
       (demo_id 30, dag_node (demo_member 30 [10, 20] 20) [] [dag_root])],
     Nodes = [demo_id 10, demo_id 20, demo_id 30], blocked = [], pending = [], ring_Replication = 2\<rparr>"

lemma dag_env: "walk_env dag_denv Hash (\<lambda>k. k) (\<lambda>m. distinct (map fst m)) map_of map_of (\<lambda>k. k) (\<lambda>m. distinct (map fst m)) map_of map_of"
  using mem_test_env mem_ds_laws
  by (auto simp: walk_env_def test_env_def node_env_def dag_denv_def mem_denv_def NewCidV1_def split: if_splits)

interpretation dagring: walk_store dag_denv Hash "store_ok Hash (\<lambda>k. k) (\<lambda>m. distinct (map fst m)) map_of map_of"
    "mem_hold map_of" "local_ok Hash (\<lambda>k. k) (\<lambda>m. distinct (map fst m)) map_of" "\<lambda>l k. map_of l k" map_of
  by (rule walk_env_store [OF dag_env])

lemma dag_simps:
  "links (dag_node n bs rs) = links n" "localBlocks (dag_node n bs rs) = None" "ringID (dag_node n bs rs) = RingPublic"
  by (simp_all add: dag_node_def links_def node.defs dnode.defs)

lemma dag_nodes:
  "w_node dag_world i = (if i = demo_id 10 then Some (dag_node (demo_member 10 [20, 30] 30) [] [dag_root])
     else if i = demo_id 20 then Some (dag_node (demo_member 20 [30, 10] 10) [[22], [8]] [])
     else if i = demo_id 30 then Some (dag_node (demo_member 30 [10, 20] 20) [] [dag_root]) else None)"
  "blocked dag_world = []" "pending dag_world = []"
  by (simp_all add: w_node_def dag_world_def)

lemma dag_good:
  assumes "distinct bs"
  shows "good (store_ok Hash (\<lambda>k. k) (\<lambda>m. distinct (map fst m)) map_of map_of)
      (local_ok Hash (\<lambda>k. k) (\<lambda>m. distinct (map fst m)) map_of) (dag_node n bs rs)"
proof -
  have m: "map_of (map (\<lambda>b. (b, b)) bs) = (\<lambda>b. if b \<in> set bs then Some b else None)"
    using map_of_map_restrict [of "\<lambda>b. b" bs] by (auto simp: restrict_map_def fun_eq_iff)
  have d: "dom (map_of (map (\<lambda>b. (b, b)) bs)) = set bs" by (auto simp: m dom_def)
  have "usage (map_of (map (\<lambda>b. (b, b)) bs)) = (\<Sum>b \<in> set bs. int (length b))"
    unfolding usage_def d by (rule sum.cong) (simp_all add: m)
  also have "\<dots> = int (length (concat bs))" using assms by (induction bs) simp_all
  finally have "usage (map_of (map (\<lambda>b. (b, b)) bs)) = int (length (concat bs))" .
  then show ?thesis
    using assms by (auto simp: good_def store_ok_def dag_node_def node.defs dnode.defs held_simps exact_def d honest_def distinct_card m [THEN fun_cong] split: if_splits)
qed

lemma dag_serving: "serving Hash (store_ok Hash (\<lambda>k. k) (\<lambda>m. distinct (map fst m)) map_of map_of)
    (local_ok Hash (\<lambda>k. k) (\<lambda>m. distinct (map fst m)) map_of) demo_ids dag_world" "rings_ok dag_world"
proof -
  have mo: "member_ok demo_ids (demo_id k) (dag_node (demo_member k ss p) bs rs)"
    if "w_node demo_ring (demo_id k) = Some (demo_member k ss p)" "demo_id k \<in> demo_ids" for k ss p bs rs
    using demo_ideal that member_ok_links [OF dag_simps(1)] unfolding ideal_def by fastforce
  have "ideal demo_ids dag_world"
    using mo [OF demo_nodes(1)] mo [OF demo_nodes(2)] mo [OF demo_nodes(3)]
    by (auto simp: ideal_def open_among_def dag_nodes)
  moreover have "navigable demo_ids dag_world" by (simp add: navigable_def card_insert_if)
  ultimately show "serving Hash (store_ok Hash (\<lambda>k. k) (\<lambda>m. distinct (map fst m)) map_of map_of)
    (local_ok Hash (\<lambda>k. k) (\<lambda>m. distinct (map fst m)) map_of) demo_ids dag_world"
    by (auto simp: serving_def world_good_def dag_nodes dag_good split: if_splits)
  show "rings_ok dag_world" by (auto simp: rings_ok_def dag_nodes dag_simps seg_ok_def split: if_splits)
qed

lemma dag_root_at: "root_at dag_denv 5 dag_root (dag_node n bs [dag_root])"
  by (simp add: root_at_def ringStore_def dag_node_def node.defs dnode.defs Ring_def Let_def HasRootStr_def dag_denv_def
      mem_denv_def mem_nenv_def rootKey_def opt_res_def)

theorem delete_unpins_dag_witness:
  "rooted dag_denv 5 dag_root dag_world (demo_id 10) \<and> rooted dag_denv 5 dag_root dag_world (demo_id 30) \<and>
   (\<exists>w'. n_DeleteCID dag_denv (demo_id 20) dag_root dag_world = Some w' \<and>
      \<not> rooted dag_denv 5 dag_root w' (demo_id 10) \<and> \<not> rooted dag_denv 5 dag_root w' (demo_id 30))"
proof -
  let ?n = "dag_node (demo_member 20 [30, 10] 10) [[22], [8]] []"
  let ?Kn = "knows (mem_hold map_of) (\<lambda>l k. map_of l k) ?n :: cid set"
  have me: "demo_id 20 \<in> demo_ids" "w_node dag_world (demo_id 20) = Some ?n" by (simp_all add: dag_nodes)
  have r: "cid_Version dag_root \<le> 1" "seg_ok (cid_String (netE dag_denv) dag_root)"
    by (simp_all add: NewCidV1_def dag_denv_def mem_denv_def mem_nenv_def HexString_def hex_seg)
  obtain w' where w': "n_DeleteCID dag_denv (demo_id 20) dag_root dag_world = Some w'"
      "\<forall>c. below dag_denv Hash ?Kn dag_root c \<longrightarrow> freed dag_denv demo_ids dag_root w' c"
    using delete_unpins_dag [OF dag_env dag_serving me r] by blast
  have k: "dag_root \<in> ?Kn" by (simp add: knows_def dag_node_def node.defs dnode.defs held_simps)
  have "dag_leaf \<in> set (kids dag_denv Hash ?Kn dag_root)"
    using k by (simp add: kids_def LinksOf_def dag_denv_def mem_denv_def mem_nenv_def NewCidV1_def)
  then have "below dag_denv Hash ?Kn dag_root dag_root" "below dag_denv Hash ?Kn dag_root dag_leaf"
    by (auto intro: below.intros)
  then have f: "freed dag_denv demo_ids dag_root w' dag_root" "freed dag_denv demo_ids dag_root w' dag_leaf" using w'(2) by auto
  have p: "CIDToNodeID (rx dag_denv) dag_root = demo_id 22" "CIDToNodeID (rx dag_denv) dag_leaf = demo_id 8"
    by (simp_all add: CIDToNodeID_def dag_denv_def mem_denv_def demo_rx_def NewCidV1_def demo_id_def)
  have o: "owner demo_ids (CIDToNodeID (rx dag_denv) dag_root) (demo_id 30)"
      "owner demo_ids (CIDToNodeID (rx dag_denv) dag_leaf) (demo_id 10)"
    unfolding p by (simp_all add: owner_def dist_def cw_demo)
  have "rooted dag_denv 5 dag_root dag_world (demo_id 10)" "rooted dag_denv 5 dag_root dag_world (demo_id 30)"
    by (simp_all add: rooted_def dag_nodes dag_root_at)
  moreover have "\<not> rooted dag_denv 5 dag_root w' (demo_id 30)" "\<not> rooted dag_denv 5 dag_root w' (demo_id 10)"
    using f o by (auto simp: freed_def rooted_def)
  ultimately show ?thesis using w'(1) by blast
qed

end
