(* ===== verification/Record_Ring.thy ===== *)
theory Record_Ring
  imports Node_Delete
begin

text \<open>
  Records in the ring: what \<open>RecordPut\<close> leaves at the owner of a key and at its replicas, and
  what \<open>RecordGet\<close> answers from any member.
\<close>

section \<open>Pushing a record to the replicas\<close>

definition recs_at where
  "recs_at w i = map_option recs (w_node w i)"

lemma recs_at_put: "recs_at (put_node i n w) j = (if j = i then Some (recs n) else recs_at w j)"
  by (simp add: recs_at_def)

lemma PushRecords_recs:
  assumes "lt_resolve w me t = Inr n"
  shows "recs_at (snd (lt_PushRecords E me t [(key, d)] w)) j =
    (if j = ID t then Some (localRecordPut (rx E) (nowNs E) key d (recs n)) else recs_at w j)"
    "blocked (snd (lt_PushRecords E me t [(key, d)] w)) = blocked w"
    "w_node (snd (lt_PushRecords E me t [(key, d)] w)) j = None \<longleftrightarrow> w_node w j = None"
  using assms node_of_resolve [OF assms] by (auto simp: lt_PushRecords_def put_records_def recs_at_put)

text \<open>
  A replica answers a read with a record of at least the version pushed, when provider records
  do not play a part at the key: none is recorded there, and the bytes pushed list none.
\<close>

definition lists_none :: "ext \<Rightarrow> bytes \<Rightarrow> bool" where
  "lists_none X d \<longleftrightarrow> (case unmarshal_providers X d of Inr l \<Rightarrow> pb_Providers l = [] | Inl _ \<Rightarrow> True)"

definition answers :: "ext \<Rightarrow> int \<Rightarrow> NodeID \<Rightarrow> 64 word \<Rightarrow> rec_state \<Rightarrow> bool" where
  "answers X now key v st \<longleftrightarrow>
     (case localRecordGet X now key st of Inr x \<Rightarrow> v \<le> extractRecordVersion X x | Inl _ \<Rightarrow> False)"

lemma localRecordPut_answers:
  assumes "map_of (providerEntryTimes st) key = None" "lists_none X d"
  shows "map_of (providerEntryTimes (localRecordPut X now key d st)) key = None"
    "answers X now key (extractRecordVersion X d) (localRecordPut X now key d st)"
  using assms
  by (auto simp: localRecordPut_def Let_def lists_none_def answers_def localRecordGet_def split: sum.splits option.splits)

lemma push_all_recs:
  fixes E :: "('m, 'd, 'b, 'l) denv" and key :: NodeID and d :: bytes
  assumes "\<And>t. t \<in> set ts \<Longrightarrow> w_node w (ID t) \<noteq> None \<and> (me, ID t) \<notin> set (blocked w)" and "recs_at w j = Some st"
  defines "A \<equiv> answers (rx E) (nowNs E) key (extractRecordVersion (rx E) d)"
  shows "\<exists>st'. recs_at (foldl (\<lambda>w t. snd (lt_PushRecords E me t [(key, d)] w)) w ts) j = Some st' \<and>
    (j \<notin> ID ` set ts \<longrightarrow> st' = st) \<and>
    (map_of (providerEntryTimes st) key = None \<and> lists_none (rx E) d \<longrightarrow>
       map_of (providerEntryTimes st') key = None \<and> (A st \<or> j \<in> ID ` set ts \<longrightarrow> A st'))"
  using assms(1,2)
proof (induction ts arbitrary: w st)
  case (Cons t ts)
  obtain n where n: "w_node w (ID t) = Some n" "(me, ID t) \<notin> set (blocked w)" using Cons.prems(1) [of t] by auto
  have nt: "j = ID t \<Longrightarrow> recs n = st" using n(1) Cons.prems(2) by (auto simp: recs_at_def)
  note p = PushRecords_recs [OF lt_resolve_ok [OF n], where E = E and key = key and d = d]
  let ?w = "snd (lt_PushRecords E me t [(key, d)] w)"
  obtain st1 where st1: "recs_at ?w j = Some st1" "st1 = (if j = ID t then localRecordPut (rx E) (nowNs E) key d st else st)"
    using p(1) [of j] Cons.prems(2) nt by auto
  have up: "map_of (providerEntryTimes st1) key = None \<and> (A st \<or> j = ID t \<longrightarrow> A st1)"
    if "map_of (providerEntryTimes st) key = None" "lists_none (rx E) d"
    using localRecordPut_answers [OF that, of "nowNs E"] that unfolding st1(2) A_def by simp
  have "w_node ?w (ID u) \<noteq> None \<and> (me, ID u) \<notin> set (blocked ?w)" if "u \<in> set ts" for u
    using Cons.prems(1) [of u] that p(2,3) by simp
  from Cons.IH [OF this st1(1)] obtain st' where st': "recs_at (foldl (\<lambda>w t. snd (lt_PushRecords E me t [(key, d)] w)) ?w ts) j = Some st'"
      "j \<notin> ID ` set ts \<longrightarrow> st' = st1"
      "map_of (providerEntryTimes st1) key = None \<and> lists_none (rx E) d \<longrightarrow>
        map_of (providerEntryTimes st') key = None \<and> (A st1 \<or> j \<in> ID ` set ts \<longrightarrow> A st')"
    by blast
  have "j \<notin> ID ` set (t # ts) \<longrightarrow> st' = st" using st'(2) st1(2) by auto
  moreover have "map_of (providerEntryTimes st') key = None \<and> (A st \<or> j \<in> ID ` set (t # ts) \<longrightarrow> A st')"
    if "map_of (providerEntryTimes st) key = None" "lists_none (rx E) d"
    using up [OF that] st'(3) that by auto
  ultimately show ?case using st'(1) by auto
qed auto

section \<open>A put of a signed record\<close>

lemma store_signed:
  assumes "classifyRecord X d = recPeer \<or> classifyRecord X d = recGroup"
    and "storeRecord X now wall key d c st = (Inr (), st')"
  shows "st' = put_record key d \<lparr>storedAt = now, ttl = ttlForType st (classifyRecord X d), rtyp = classifyRecord X d\<rparr> st"
  using assms by (auto simp: storeRecord_def storeSignedRecord_def split: sum.splits if_splits)

lemma fresh_get:
  assumes "map_of (providerEntryTimes st) key = None"
  shows "localRecordGet X now key (put_record key d \<lparr>storedAt = now, ttl = t, rtyp = y\<rparr> st) = Inr d"
  using assms by (simp add: localRecordGet_def)

lemma mixed_get:
  assumes "map_of (providerEntryTimes st) key \<noteq> None" "DecodeProviderRecords X d \<in> range Inl"
  shows "localRecordGet X now key (put_record key d m st) \<in> range Inl"
  using assms by (auto simp: localRecordGet_def)

lemma store_record_signed:
  assumes n: "w_node w i = Some n" "node_id n = i"
    and ts: "\<And>t. t \<in> set (replica_targets n) \<Longrightarrow> w_node w (ID t) \<noteq> None \<and> (i, ID t) \<notin> set (blocked w)"
    and d: "classifyRecord (rx E) d = recPeer \<or> classifyRecord (rx E) d = recGroup"
    and s: "store_record E i n key d c w = (Inr (), w')"
  shows "recs_at w' i = Some (put_record key d
      \<lparr>storedAt = nowNs E, ttl = ttlForType (recs n) (classifyRecord (rx E) d), rtyp = classifyRecord (rx E) d\<rparr> (recs n))"
    "t \<in> set (replica_targets n) \<Longrightarrow> recs_at w (ID t) = Some m \<Longrightarrow> map_of (providerEntryTimes m) key = None \<Longrightarrow>
      lists_none (rx E) d \<Longrightarrow>
      \<exists>m'. recs_at w' (ID t) = Some m' \<and> answers (rx E) (nowNs E) key (extractRecordVersion (rx E) d) m'"
proof -
  obtain st where st: "storeRecord (rx E) (nowNs E) (wallNs E) key d c (recs n) = (Inr (), st)"
    "w' = replicateRecordBestEffort E i key d (put_node i (n\<lparr>recs := st\<rparr>) w)"
    using s by (auto simp: store_record_def split: prod.splits sum.splits)
  note e = store_signed [OF d(1) st(1)]
  let ?w = "put_node i (n\<lparr>recs := st\<rparr>) w"
  have rt: "replica_targets (n\<lparr>recs := st\<rparr>) = replica_targets n" by (simp add: replica_targets_def)
  have w': "w' = (if replication n \<le> 1 then ?w
      else foldl (\<lambda>w t. snd (lt_PushRecords E i t [(key, d)] w)) ?w (replica_targets n))"
    unfolding st(2) replicateRecordBestEffort_def by (simp add: rt)
  have "w_node ?w (ID t) \<noteq> None \<and> (i, ID t) \<notin> set (blocked ?w)" if "t \<in> set (replica_targets n)" for t
    using ts [OF that] by simp
  note push = push_all_recs [where ts = "replica_targets n" and me = i and w = ?w and E = E and key = key and d = d, OF this]
  have i: "i \<notin> ID ` set (replica_targets n)" using n(2) by (auto simp: replica_targets_def)
  have own: "recs_at ?w i = Some st" by (simp add: recs_at_put)
  have o: "recs_at w' i = Some st" using push [OF _ own] i w' own by auto
  then show "recs_at w' i = Some (put_record key d
      \<lparr>storedAt = nowNs E, ttl = ttlForType (recs n) (classifyRecord (rx E) d), rtyp = classifyRecord (rx E) d\<rparr> (recs n))"
    unfolding e .
  show "\<exists>m'. recs_at w' (ID t) = Some m' \<and> answers (rx E) (nowNs E) key (extractRecordVersion (rx E) d) m'"
    if t: "t \<in> set (replica_targets n)" "recs_at w (ID t) = Some m" "map_of (providerEntryTimes m) key = None" "lists_none (rx E) d"
  proof -
    have r: "1 < replication n" using t(1) by (cases "1 < replication n") (simp_all add: replica_targets_def)
    have "ID t \<noteq> i" using t(1) i by blast
    then have "recs_at ?w (ID t) = Some m" using t(2) by (simp add: recs_at_put)
    from push [OF _ this] show ?thesis using t r w' by auto
  qed
qed

lemma serving_targets:
  assumes w: "serving truth ok lok S w" and i: "i \<in> S" "w_node w i = Some n" and t: "t \<in> set (replica_targets n)"
  shows "w_node w (ID t) \<noteq> None \<and> (i, ID t) \<notin> set (blocked w)"
proof -
  have id: "ideal S w" using w by (simp add: serving_def)
  obtain m where "w_node w i = Some m" "routes_ok S m" using id i(1) by (rule idealD)
  then have "ID t \<in> S" using i(2) t in_set_takeD by (fastforce simp: routes_ok_def replica_targets_def)
  moreover obtain k where "w_node w (ID t) = Some k" using id \<open>ID t \<in> S\<close> by (rule idealD)
  ultimately show ?thesis using ideal_open [OF id i(1)] by simp
qed

lemma RecordPut_owner:
  assumes ns: "node_store E truth ok hold lok" and w: "serving truth ok lok S w" "me \<in> S"
    and o: "owner S key i" and n: "w_node w i = Some n"
  shows "RecordPut E me key d w = store_record E i n key d me w"
proof -
  obtain a where a: "w_FindSuccessor me key w = (Inr a, w)" "owner S key (ID a)" "ID a \<in> S"
    using ns w by (rule node_store.serving_route)
  then have i: "ID a = i" using o owner_unique by blast
  show ?thesis
  proof (cases "ID a = me")
    case True
    then show ?thesis using a(1) i n by (simp add: RecordPut_def)
  next
    case False
    have "lt_resolve w me a = Inr n"
      using n i node_store.serving_open [OF ns w a(3)] by (intro lt_resolve_ok) simp_all
    then show ?thesis using a(1) i False by (simp add: RecordPut_def lt_PutRecord_def)
  qed
qed

lemma RecordGet_owner:
  assumes ns: "node_store E truth ok hold lok" and w: "serving truth ok lok S w" "you \<in> S"
    and o: "owner S key i" and n: "w_node w i = Some n"
  shows "RecordGet E you key w = (localRecordGet (rx E) (nowNs E) key (recs n), w)"
proof -
  obtain b where b: "w_FindSuccessor you key w = (Inr b, w)" "owner S key (ID b)" "ID b \<in> S"
    using ns w by (rule node_store.serving_route)
  then have i: "ID b = i" using o owner_unique by blast
  show ?thesis
  proof (cases "ID b = you")
    case True
    then show ?thesis using b(1) i n by (simp add: RecordGet_def)
  next
    case False
    have "lt_resolve w you b = Inr n"
      using n i node_store.serving_open [OF ns w b(3)] by (intro lt_resolve_ok) simp_all
    then show ?thesis using b(1) i False by (simp add: RecordGet_def lt_GetRecord_def)
  qed
qed

text \<open>
  C20. What a signed record that \<open>RecordPut\<close> accepted on a serving ring is good for. When the owner of
  the key has never recorded a provider there, \<open>RecordGet\<close> returns the record from every member; when
  it has, and the record does not decode as a list of providers, \<open>RecordGet\<close> fails from every member,
  although the put succeeded. Every replica of the owner with no provider entry at the key, given
  bytes that list no provider, then answers a read with a record of at least that version.
\<close>

theorem record_put_get:
  assumes "node_env E truth kf pinv M B lf linv L"
    and "serving truth (store_ok truth kf pinv M B) (local_ok truth lf linv L) S w" "me \<in> S" "you \<in> S"
    and "classifyRecord (rx E) d = recPeer \<or> classifyRecord (rx E) d = recGroup"
    and "owner S key i" "w_node w i = Some n" "RecordPut E me key d w = (Inr (), w')"
  shows "(map_of (providerEntryTimes (recs n)) key = None \<longrightarrow> fst (RecordGet E you key w') = Inr d) \<and>
    (map_of (providerEntryTimes (recs n)) key \<noteq> None \<and> DecodeProviderRecords (rx E) d \<in> range Inl \<longrightarrow>
       fst (RecordGet E you key w') \<in> range Inl) \<and>
    (\<forall>t \<in> set (replica_targets n). \<forall>m. w_node w (ID t) = Some m \<and> map_of (providerEntryTimes (recs m)) key = None \<and>
       lists_none (rx E) d \<longrightarrow>
       (\<exists>m' x. w_node w' (ID t) = Some m' \<and> localRecordGet (rx E) (nowNs E) key (recs m') = Inr x \<and>
          extractRecordVersion (rx E) d \<le> extractRecordVersion (rx E) x))"
proof -
  note ns = node_env_store [OF assms(1)]
  have iS: "i \<in> S" using assms(6) by (simp add: owner_def)
  have "node_id n = i"
    using assms(2,7) iS unfolding serving_def ideal_def member_ok_def node_wf_def by fastforce
  have s: "store_record E i n key d me w = (Inr (), w')"
    using RecordPut_owner [OF ns assms(2,3,6,7), of d] assms(8) by simp
  note r = store_record_signed [OF assms(7) \<open>node_id n = i\<close> serving_targets [OF assms(2) iS assms(7)] assms(5) s]
  have sv: "serving truth (store_ok truth kf pinv M B) (local_ok truth lf linv L) S w'"
    using node_store.serving_keeps [OF ns node_store.K_RecordPut [OF ns assms(2,3), of key d] assms(2)] assms(8) by simp
  obtain n' y where n': "w_node w' i = Some n'" "recs n' = put_record key d \<lparr>storedAt = nowNs E, ttl = ttlForType (recs n) y, rtyp = y\<rparr> (recs n)"
    using r(1) by (auto simp: recs_at_def)
  have g: "fst (RecordGet E you key w') = localRecordGet (rx E) (nowNs E) key (recs n')"
    using RecordGet_owner [OF ns sv assms(4,6) n'(1)] by simp
  have 1: "fst (RecordGet E you key w') = Inr d" if "map_of (providerEntryTimes (recs n)) key = None"
    unfolding g n'(2) by (rule fresh_get [OF that])
  have 2: "fst (RecordGet E you key w') \<in> range Inl"
    if "map_of (providerEntryTimes (recs n)) key \<noteq> None" "DecodeProviderRecords (rx E) d \<in> range Inl"
    unfolding g n'(2) using that by (rule mixed_get)
  have 3: "\<exists>m' x. w_node w' (ID t) = Some m' \<and> localRecordGet (rx E) (nowNs E) key (recs m') = Inr x \<and>
      extractRecordVersion (rx E) d \<le> extractRecordVersion (rx E) x"
    if h: "t \<in> set (replica_targets n)" "w_node w (ID t) = Some m" "map_of (providerEntryTimes (recs m)) key = None" "lists_none (rx E) d"
    for t m
  proof -
    have "recs_at w (ID t) = Some (recs m)" using h(2) by (simp add: recs_at_def)
    then obtain m' where "recs_at w' (ID t) = Some m'" "answers (rx E) (nowNs E) key (extractRecordVersion (rx E) d) m'"
      using r(2) [OF _ h(1) _ h(3,4)] by blast
    then show ?thesis by (auto simp: recs_at_def answers_def split: sum.splits)
  qed
  show ?thesis using 1 2 3 by blast
qed

definition rec_denv where "rec_denv = demo_denv\<lparr>rx := wit_signed_ext\<rparr>"

theorem record_put_get_witness:
  "\<exists>w' m x. RecordPut rec_denv (demo_id 20) (demo_id 25) [9] demo_world = (Inr (), w') \<and>
     fst (RecordGet rec_denv (demo_id 10) (demo_id 25) w') = Inr [9] \<and>
     w_node w' (demo_id 10) = Some m \<and> localRecordGet wit_signed_ext 5 (demo_id 25) (recs m) = Inr x \<and>
     3 \<le> extractRecordVersion wit_signed_ext x"
proof -
  have e: "node_env rec_denv Hash (\<lambda>k. k) (quota_inv (\<lambda>m. distinct (map fst m)) map_of) (\<lambda>q. map_of (q_inner q))
     map_of (\<lambda>k. k) (\<lambda>m. distinct (map fst m)) map_of"
    using demo_node_env by (simp add: node_env_def rec_denv_def)
  let ?n = "demo_node 30 [10, 20] 20 2 :: (testMemStore quotaBlockStore, (string \<times> bytes) list, (bytes \<times> bytes) list, testMemStore) dnode"
  have me: "demo_id 20 \<in> demo_ids" "demo_id 10 \<in> demo_ids" by simp_all
  have rx: "rx rec_denv = wit_signed_ext" "nowNs rec_denv = 5" by (simp_all add: rec_denv_def demo_denv_def)
  have v: "extractRecordVersion wit_signed_ext [9] = 3"
    using wit_id_nonzero by (simp add: extractRecordVersion_def Let_def DecodePeerIdentityRecord_def wit_signed_simps)
  have o: "owner demo_ids (demo_id 25) (demo_id 30)" by (simp add: owner_def dist_def cw_demo)
  have n: "w_node demo_world (demo_id 30) = Some ?n" by (simp add: demo_world_nodes)
  have p: "map_of (providerEntryTimes (recs ?n)) (demo_id 25) = None"
    by (simp add: demo_node_def node.defs dnode.defs new_records_def)
  have inc: "incoming_version wit_signed_ext [9] recPeer = Inr 3"
    by (simp add: incoming_version_def DecodePeerIdentityRecord_def peer_Verify_def PubKeyToNodeID_def
        cborSignPayload_def wit_signed_simps wit_id_def)
  have "storeRecord wit_signed_ext 5 (wallNs rec_denv) (demo_id 25) [9] (demo_id 20) (recs ?n) =
      (Inr (), put_record (demo_id 25) [9] \<lparr>storedAt = 5, ttl = ttlForType (recs ?n) recPeer, rtyp = recPeer\<rparr> (recs ?n))"
    by (simp add: storeRecord_def wit_signed_class storeSignedRecord_def inc demo_node_def node.defs dnode.defs new_records_def)
  then obtain w' where w': "RecordPut rec_denv (demo_id 20) (demo_id 25) [9] demo_world = (Inr (), w')"
    using RecordPut_owner [OF node_env_store [OF e] demo_serving me(1) o n, of "[9]"] by (auto simp: store_record_def rx)
  have t: "demo_addr 10 \<in> set (replica_targets ?n)"
    by (simp add: replica_targets_def demo_node_def node.defs demo_member_def NewNode_def Let_def demo_cfg_def cfg_replication_def demo_addr_def)
  let ?m = "demo_node 10 [20, 30] 30 100 :: (testMemStore quotaBlockStore, (string \<times> bytes) list, (bytes \<times> bytes) list, testMemStore) dnode"
  have m: "w_node demo_world (ID (demo_addr 10)) = Some ?m" by (simp add: demo_world_nodes demo_addr_def)
  have mt: "map_of (providerEntryTimes (recs ?m)) (demo_id 25) = None"
    by (simp add: demo_node_def node.defs dnode.defs new_records_def)
  have l: "lists_none (rx rec_denv) [9]" by (simp add: rx lists_none_def wit_signed_simps)
  have c: "classifyRecord (rx rec_denv) [9] = recPeer \<or> classifyRecord (rx rec_denv) [9] = recGroup"
    unfolding rx using wit_signed_class by simp
  note th = record_put_get [OF e demo_serving me c o n w']
  obtain k x where "w_node w' (demo_id 10) = Some k" "localRecordGet wit_signed_ext 5 (demo_id 25) (recs k) = Inr x"
      "3 \<le> extractRecordVersion wit_signed_ext x"
    using th [THEN conjunct2, THEN conjunct2, THEN bspec, OF t, THEN spec, THEN mp, OF conjI [OF m conjI [OF mt l]]]
    unfolding rx v by (auto simp: demo_addr_def)
  moreover have "fst (RecordGet rec_denv (demo_id 10) (demo_id 25) w') = Inr [9]" using th p by blast
  ultimately show ?thesis using w' by blast
qed

section \<open>Provider records and signed records at one key\<close>

text \<open>
  C21. A provider record displaces a signed record. The node holds a signed record \<open>sr\<close> at a key, which a
  read returns. Any member announces itself there as the provider of any content: the content hash \<open>p\<close>
  names is not tied to the key by any hypothesis, and the codec encodes the resulting one-entry list.
  The announcement is accepted; no later read at any time returns \<open>sr\<close>, although nothing newer was
  signed; and every signed record the node accepts at that key right afterwards, one that does not
  decode as a list of providers, is stored and cannot be read.
\<close>

theorem provider_displaces_signed:
  assumes "ext_ok X"
    and "localRecordGet X now key st = Inr sr" "map_of (providerEntryTimes st) key = None" "DecodeProviderRecords X sr \<in> range Inl"
    and "unmarshal_provider X d = Inr p" "length (pb_ContentHash p) = 20" "length (pb_Provider p) = 20"
    and "encodeProviderRecordListWithTimestamps X wall [of_pb p] [(Provider (of_pb p), now)] = Inr merged"
  shows "\<exists>st'. storeRecord X now wall key d (Provider (of_pb p)) st = (Inr (), st') \<and>
    (\<forall>now'. localRecordGet X now' key st' \<noteq> Inr sr) \<and>
    (\<forall>sr2 now2 wall2 c2 st2 now3. classifyRecord X sr2 \<in> {recPeer, recGroup} \<and> DecodeProviderRecords X sr2 \<in> range Inl \<and>
       storeRecord X now2 wall2 key sr2 c2 st' = (Inr (), st2) \<longrightarrow>
       map_of (records st2) key = Some sr2 \<and> localRecordGet X now3 key st2 \<in> range Inl)"
proof -
  have r: "map_of (records st) key = Some sr"
    using assms(2,3) by (auto simp: localRecordGet_def split: option.splits if_splits)
  have "stored_providers X st key = []" using assms(4) r by (auto simp: stored_providers_def)
  moreover have "times_at st key = []" using assms(3) by (simp add: times_at_def)
  moreover have "classifyRecord X d = recProvider" using assms(5-7) by (simp add: classifyRecord_def)
  ultimately obtain st' where st': "storeRecord X now wall key d (Provider (of_pb p)) st = (Inr (), st')"
      "st' = put_record key merged \<lparr>storedAt = now, ttl = 0, rtyp = recProvider\<rparr>
        (st\<lparr>providerEntryTimes := aupd key [(Provider (of_pb p), now)] (providerEntryTimes st)\<rparr>)"
    using assms(5,8) by (simp add: storeRecord_def storeProviderRecord_def)
  have "DecodeProviderRecords X merged = Inr [of_pb p]"
    using assms(1,8) by (rule Decode_encodeProviderRecordListWithTimestamps)
  have "localRecordGet X now' key st' \<noteq> Inr sr" for now'
  proof
    assume g: "localRecordGet X now' key st' = Inr sr"
    then obtain live where "encodeProviderRecordList X live = Inr sr"
      using \<open>DecodeProviderRecords X merged = Inr [of_pb p]\<close> by (auto simp: st'(2) localRecordGet_def Let_def split: if_splits)
    then have "DecodeProviderRecords X sr = Inr live" by (rule Decode_encodeProviderRecordList [OF assms(1)])
    then show False using assms(4) by auto
  qed
  moreover have "map_of (records st2) key = Some sr2 \<and> localRecordGet X now3 key st2 \<in> range Inl"
    if c: "classifyRecord X sr2 \<in> {recPeer, recGroup}" and nd: "DecodeProviderRecords X sr2 \<in> range Inl"
      and s: "storeRecord X now2 wall2 key sr2 c2 st' = (Inr (), st2)" for sr2 now2 wall2 c2 st2 now3
  proof -
    have "map_of (providerEntryTimes st') key \<noteq> None" by (simp add: st'(2))
    from mixed_get [OF this nd] show ?thesis using store_signed [OF _ s] c by auto
  qed
  ultimately show ?thesis using st'(1) by blast
qed

definition wit_mixed_ext :: ext where
  "wit_mixed_ext = demo_ext
     [(\<lparr>pb_Data = [7], pb_Pubkey = replicate 32 1, pb_Signature = replicate 64 0\<rparr>, [9])] [(to_pb wit_pr, [1])]
     [(\<lparr>pb_Providers = [to_pb wit_pr], pb_Timestamps = [10]\<rparr>, [2])]
     [(\<lparr>PeerID = wit_id, pd_Version = 3, Address = ''a'', GroupAddrs = Map.empty\<rparr>, [7])] []"

theorem provider_displaces_signed_witness:
  "\<exists>st st'. storeRecord wit_mixed_ext 5 5 wit_id [9] wit_id (new_records wit_cfg) = (Inr (), st) \<and>
     localRecordGet wit_mixed_ext 10 wit_id st = Inr [9] \<and> ContentHash wit_pr \<noteq> wit_id \<and>
     storeRecord wit_mixed_ext 10 10 wit_id [1] (testNodeID 5) st = (Inr (), st') \<and>
     localRecordGet wit_mixed_ext 10 wit_id st' \<noteq> Inr [9]"
proof -
  let ?X = wit_mixed_ext
  have X: "ext_ok ?X" unfolding wit_mixed_ext_def by (rule ext_ok_demo) simp_all
  note ws = wit_mixed_ext_def demo_ext_def table_enc_def table_dec_def
  have c9: "classifyRecord ?X [9] = recPeer" using wit_id_nonzero by (simp add: classifyRecord_def ws)
  have inc: "incoming_version ?X [9] recPeer = Inr 3"
    by (simp add: incoming_version_def DecodePeerIdentityRecord_def peer_Verify_def PubKeyToNodeID_def
        cborSignPayload_def ws wit_id_def)
  define st where "st = put_record wit_id [9] \<lparr>storedAt = 5, ttl = 50, rtyp = recPeer\<rparr> (new_records wit_cfg)"
  have 1: "storeRecord ?X 5 5 wit_id [9] wit_id (new_records wit_cfg) = (Inr (), st)"
    by (simp add: storeRecord_def c9 storeSignedRecord_def inc st_def new_records_def ttlForType_def wit_cfg_def cfg_peerRecordTTL_def)
  have 2: "localRecordGet ?X 10 wit_id st = Inr [9]" "map_of (providerEntryTimes st) wit_id = None"
    by (simp_all add: localRecordGet_def st_def new_records_def isExpiredAt_def time_Sub_def)
  have nd: "DecodeProviderRecords ?X [9] \<in> range Inl" by (simp add: DecodeProviderRecords_def ws)
  have raw: "unmarshal_provider ?X [1] = Inr (to_pb wit_pr)" "length (pb_ContentHash (to_pb wit_pr)) = 20"
      "length (pb_Provider (to_pb wit_pr)) = 20"
    by (simp_all add: ws to_pb_def)
  have enc: "encodeProviderRecordListWithTimestamps ?X 10 [of_pb (to_pb wit_pr)] [(Provider (of_pb (to_pb wit_pr)), 10)] = Inr [2]"
    by (simp add: encodeProviderRecordListWithTimestamps_def ws)
  have "Provider wit_pr = testNodeID 5" by (simp add: wit_pr_def)
  moreover have "id_bytes (testNodeID 1) \<noteq> id_bytes wit_id" unfolding wit_id_def by code_simp
  then have "ContentHash wit_pr \<noteq> wit_id" by (auto simp: wit_pr_def)
  ultimately show ?thesis using provider_displaces_signed [OF X 2 nd raw enc] 1 2 by auto
qed

end
