(* ===== verification/Node_Window.thy ===== *)
theory Node_Window
  imports Record_Ring
begin

text \<open>
  The replication window: \<open>PruneOutOfWindowBlocks\<close> gives up only blocks of which enough other
  members are closer to the key than the node itself.
\<close>

section \<open>The list of predecessors\<close>

text \<open>Consecutive members, going backwards from \<open>i\<close>.\<close>

fun pred_chain :: "NodeID set \<Rightarrow> NodeID \<Rightarrow> NodeAddr list \<Rightarrow> bool" where
  "pred_chain S i [] \<longleftrightarrow> True"
| "pred_chain S i (p # ps) \<longleftrightarrow> ID p \<in> S \<and> next_member S (ID p) i \<and> pred_chain S (ID p) ps"

lemma pred_chain_snoc:
  "pred_chain S i (ps @ [q]) \<longleftrightarrow> pred_chain S i ps \<and> ID q \<in> S \<and> next_member S (ID q) (last (i # map ID ps))"
  by (induction ps arbitrary: i) auto

lemma pred_chain_mem: "pred_chain S i ps \<Longrightarrow> p \<in> set ps \<Longrightarrow> ID p \<in> S"
  by (induction ps arbitrary: i) auto

lemma pred_loop_chain:
  assumes get: "\<And>p q. ID p \<in> S \<Longrightarrow> getPred p = Inr (Some q) \<Longrightarrow> ID q \<in> S \<and> next_member S (ID q) (ID p)"
    and "pred_chain S i list" "list \<noteq> []" "last list = cur" "distinct (map ID list)" "i \<notin> ID ` set list"
  shows "pred_chain S i (pred_loop k getPred i cur list) \<and> distinct (map ID (pred_loop k getPred i cur list)) \<and>
    i \<notin> ID ` set (pred_loop k getPred i cur list)"
  using assms(2-)
proof (induction k arbitrary: cur list)
  case (Suc k)
  show ?case
  proof (cases "\<exists>q. ID cur \<noteq> i \<and> getPred cur = Inr (Some q) \<and> ID q \<noteq> i \<and> \<not> list_ex (\<lambda>e. ID e = ID q) list")
    case True
    then obtain q where q: "ID cur \<noteq> i" "getPred cur = Inr (Some q)" "ID q \<noteq> i" "\<not> list_ex (\<lambda>e. ID e = ID q) list" by blast
    have e: "pred_loop (Suc k) getPred i cur list = pred_loop k getPred i q (list @ [q])" using q by simp
    have "ID cur \<in> S" using Suc.prems(1-3) by (cases list rule: rev_cases) (auto simp: pred_chain_snoc)
    then have "pred_chain S i (list @ [q])"
      using get q(2) Suc.prems(1-3) by (auto simp: pred_chain_snoc last_map)
    then show ?thesis
      unfolding e using q(3,4) Suc.prems(4,5) by (intro Suc.IH) (auto simp: list_ex_iff)
  next
    case False
    then have "pred_loop (Suc k) getPred i cur list = list" by (auto split: sum.split option.split)
    then show ?thesis using Suc.prems by simp
  qed
qed simp

text \<open>In an ideal ring the refreshed list names consecutive members.\<close>

lemma refresh_chain:
  assumes "ideal S w" "i \<in> S" "w_node (refreshPredecessorList i w) i = Some n" "predecessor n \<noteq> None \<Longrightarrow> 1 < card S"
  shows "pred_chain S i (predecessorList n)" "distinct (map ID (predecessorList n))" "i \<notin> ID ` set (predecessorList n)"
proof -
  obtain m where m: "w_node w i = Some m" "node_id m = i" "pred_sound S m" using assms(1,2) by (rule idealD)
  have "pred_chain S i (predecessorList n) \<and> distinct (map ID (predecessorList n)) \<and> i \<notin> ID ` set (predecessorList n)"
  proof (cases "predecessor m")
    case None
    then show ?thesis using assms(3) m(1) by (auto simp: refreshPredecessorList_def on_node_Some)
  next
    case (Some p)
    have l: "predecessorList n = pred_loop (nat (successorListSize m - 1)) (lt_GetPredecessor w i) i p [p]" "predecessor n = Some p"
      using assms(3) m(1) Some by (auto simp: refreshPredecessorList_def on_node_Some)
    have get: "ID b \<in> S \<and> next_member S (ID b) (ID a)" if "ID a \<in> S" "lt_GetPredecessor w i a = Inr (Some b)" for a b
    proof -
      obtain k where k: "w_node w (ID a) = Some k" "node_id k = ID a" "pred_sound S k" using assms(1) \<open>ID a \<in> S\<close> by (rule idealD)
      have "predecessor k = Some b"
        using that(2) k(1) by (auto simp: lt_GetPredecessor_def lt_resolve_def getNode_def split: if_splits)
      then show ?thesis using k(2,3) by (simp add: pred_sound_def)
    qed
    have p: "ID p \<in> S" "next_member S (ID p) i" using m Some by (auto simp: pred_sound_def)
    have "ID p \<noteq> i"
    proof
      assume e: "ID p = i"
      have "1 < card S" using assms(4) l(2) by simp
      then obtain x where "x \<in> S" "x \<noteq> i" using ideal_finite [OF assms(1)]
        by (metis card_le_Suc0_iff_eq One_nat_def not_less assms(2))
      then have "cw i i \<le> cw i x" "cw i x < ringSize" using p(2) e by (auto simp: next_member_def)
      then show False by simp
    qed
    then show ?thesis unfolding l(1) using get p by (intro pred_loop_chain) auto
  qed
  then show "pred_chain S i (predecessorList n)" "distinct (map ID (predecessorList n))" "i \<notin> ID ` set (predecessorList n)" by simp_all
qed

section \<open>Closer members\<close>

lemma outside_closer:
  assumes "cw a i < cw a k"
  shows "dist k a < dist k i"
proof (cases "k = a")
  case True
  then show ?thesis using assms by (auto simp: dist_def)
next
  case False
  have "cw a k = cw a i + cw i k" using assms by (rule cw_split)
  moreover have "cw a k + cw k a = ringSize" using False by (intro cw_swap) auto
  moreover have "k \<noteq> i" using assms by auto
  moreover have "cw i k + cw k i = ringSize" using \<open>k \<noteq> i\<close> by (intro cw_swap) auto
  moreover have "0 < cw a i" by simp
  ultimately have "cw k a < cw k i" by linarith
  then show ?thesis using False \<open>k \<noteq> i\<close> by (simp add: dist_def)
qed

lemma chain_outside:
  assumes "pred_chain S i ps" "i \<in> S" "i \<notin> ID ` set ps" "distinct (map ID ps)" "j < length ps" "cw (ID (last ps)) i < cw (ID (last ps)) k"
  shows "cw (ID (ps ! j)) i < cw (ID (ps ! j)) k"
  using assms
proof (induction ps rule: rev_induct)
  case (snoc q ps)
  show ?case
  proof (cases "j = length ps")
    case True
    then show ?thesis using snoc.prems(6) by simp
  next
    case False
    then have j: "j < length ps" "ps \<noteq> []" using snoc.prems(5) by auto
    let ?p = "ID (last ps)"
    have c: "pred_chain S i ps" "next_member S (ID q) ?p"
      using snoc.prems(1) j(2) by (auto simp: pred_chain_snoc last_map)
    have pi: "?p \<noteq> i" using snoc.prems(3) j(2) last_in_set by fastforce
    have le: "cw (ID q) ?p \<le> cw (ID q) i" using c(2) snoc.prems(2) by (simp add: next_member_def)
    then have s: "cw (ID q) i = cw (ID q) ?p + cw ?p i" using cw_split [of "ID q" ?p i] pi by (simp add: le_less)
    have k: "cw (ID q) ?p < cw (ID q) k" using le snoc.prems(6) by simp
    have "cw (ID q) k = cw (ID q) ?p + cw ?p k" using k by (rule cw_split)
    then have "cw ?p i < cw ?p k" using s snoc.prems(6) by simp
    then show ?thesis using snoc.IH [OF c(1) snoc.prems(2)] snoc.prems(3,4) j by (simp add: nth_append)
  qed
qed simp

lemma closer_members:
  assumes "pred_chain S i ps" "i \<in> S" "i \<notin> ID ` set ps" "distinct (map ID ps)" "finite S" "r \<le> length ps" "0 < r"
    and out: "\<not> BetweenRightInclusive k (ID (ps ! (r - 1))) i"
  shows "r \<le> card {m \<in> S. dist k m < dist k i}"
proof -
  let ?qs = "take r ps"
  have sub: "pred_chain S i (take r ps)" using assms(1) by (induction ps arbitrary: i r) (auto simp: take_Cons split: nat.split)
  have "ps \<noteq> []" using assms(6,7) by auto
  then have l: "length ?qs = r" "last ?qs = ps ! (r - 1)" using assms(6,7) last_conv_nth [of "take r ps"] by auto
  have i: "i \<notin> ID ` set ?qs" using assms(3) set_take_subset by fastforce
  have d: "distinct (map ID ?qs)" using assms(4) distinct_take [of "map ID ps" r] by (simp add: take_map)
  have o: "cw (ID (last ?qs)) i < cw (ID (last ?qs)) k" using out by (simp add: between_cw l(2))
  have mem: "ID p \<in> S" if "p \<in> set ?qs" for p
    using sub that by (rule pred_chain_mem)
  have "ID ` set ?qs \<subseteq> {m \<in> S. dist k m < dist k i}"
  proof clarsimp
    fix p assume p: "p \<in> set ?qs"
    then obtain j where "j < length ?qs" "p = ?qs ! j" by (metis in_set_conv_nth)
    then have "cw (ID p) i < cw (ID p) k" using chain_outside [OF sub assms(2) i d _ o] by simp
    then show "ID p \<in> S \<and> dist k (ID p) < dist k i" using mem [OF p] outside_closer by blast
  qed
  moreover have "card (ID ` set ?qs) = r" using d l(1) distinct_card [of "map ID ?qs"] by simp
  ultimately show ?thesis using assms(5) card_mono [of "{m \<in> S. dist k m < dist k i}" "ID ` set ?qs"] by simp
qed

section \<open>Pruning\<close>

lemma nbs_Delete_exact:
  assumes "blk_laws N B" "exact B s" "nbs_Delete N k s = (r, s')"
  shows "exact B s'" "\<And>h. h \<noteq> Hash k \<Longrightarrow> B (blks s') h = B (blks s) h"
proof -
  have "bs_Delete (nbs_ops N) k s = (r, s')" using assms(3) by (simp add: nbs_ops_def)
  then have "exact B s' \<and> B (blks s') = (if r = Inr () then (B (blks s))(Hash k := None) else B (blks s))"
    by (rule block_store.delete [OF nbs_block_store [OF assms(1)] assms(2)])
  then show "exact B s'" "\<And>h. h \<noteq> Hash k \<Longrightarrow> B (blks s') h = B (blks s) h" by simp_all
qed

text \<open>Giving up one key touches no block with another multihash.\<close>

lemma drop_key_net:
  assumes "blk_laws (netE E) B" "blocks n = Net s" "exact B s" "Ring (ringID n) = Some rv"
  shows "\<exists>s'. drop_key E k n = n\<lparr>blocks := Net s'\<rparr> \<and> exact B s' \<and> (\<forall>h. h \<noteq> Hash k \<longrightarrow> B (blks s') h = B (blks s) h)"
proof -
  let ?s1 = "snd (DropBlock (netE E) rv k s)"
  obtain r s2 where d: "nbs_Delete (netE E) k ?s1 = (r, s2)" by fastforce
  have p: "exact B ?s1" "blks ?s1 = blks s"
    using exact_pool [OF pool_DropBlock] assms(3) poolD [OF pool_DropBlock] by blast+
  have "ringStore n = Some (rv, s)" using assms(2,4) by (simp add: ringStore_def)
  then have "drop_key E k n = n\<lparr>blocks := Net (if BlockHasLiveRootAnyRing (netE E) (clock E) k ?s1 then ?s1 else s2)\<rparr>"
    using d by (simp add: drop_key_def Let_def)
  then show ?thesis using p nbs_Delete_exact [OF assms(1) p(1) d] by (cases "BlockHasLiveRootAnyRing (netE E) (clock E) k ?s1") auto
qed

lemma drop_keys_net:
  assumes "blk_laws (netE E) B" "blocks n = Net s" "exact B s" "Ring (ringID n) = Some rv"
  shows "\<exists>s'. foldl (\<lambda>n k. drop_key E k n) n ks = n\<lparr>blocks := Net s'\<rparr> \<and> exact B s' \<and>
    (\<forall>h. h \<notin> Hash ` set ks \<longrightarrow> B (blks s') h = B (blks s) h)"
  using assms(2-)
proof (induction ks arbitrary: n s)
  case Nil
  then show ?case by (intro exI [of _ s]) simp
next
  case (Cons k ks)
  obtain s1 where s1: "drop_key E k n = n\<lparr>blocks := Net s1\<rparr>" "exact B s1" "\<forall>h. h \<noteq> Hash k \<longrightarrow> B (blks s1) h = B (blks s) h"
    using drop_key_net [OF assms(1) Cons.prems] by blast
  have r: "Ring (ringID (n\<lparr>blocks := Net s1\<rparr>)) = Some rv" using Cons.prems(3) by simp
  obtain s2 where s2: "foldl (\<lambda>n k. drop_key E k n) (n\<lparr>blocks := Net s1\<rparr>) ks = (n\<lparr>blocks := Net s1\<rparr>)\<lparr>blocks := Net s2\<rparr>" "exact B s2"
      "\<forall>h. h \<notin> Hash ` set ks \<longrightarrow> B (blks s2) h = B (blks s1) h"
    using Cons.IH [OF _ s1(2) r] by auto
  then show ?case using s1 by (intro exI [of _ s2]) auto
qed

text \<open>
  C22. Pruning keeps the replication window. After the node has refreshed its list of
  predecessors in a correct ring, \<open>PruneOutOfWindowBlocks\<close> removes the bytes of a block only if
  at least \<open>replication\<close> other members are closer to its key; so the owner of a key and the
  replicas after it never lose the block, and the accounting of the store stays exact.
\<close>

theorem prune_keeps_window:
  assumes "blk_laws (netE E) B" "ideal S w" "i \<in> S" "1 < card S"
    and "w_node (refreshPredecessorList i w) i = Some n" "blocks n = Net s" "exact B s"
    and "PruneOutOfWindowBlocks E n = (r, n')"
  shows "\<exists>s'. blocks n' = Net s' \<and> exact B s' \<and>
    (\<forall>k. B (blks s') (Hash k) \<noteq> B (blks s) (Hash k) \<longrightarrow> 1 < replication n \<and>
       replication n \<le> int (card {m \<in> S. dist (CIDToNodeID (rx E) k) m < dist (CIDToNodeID (rx E) k) i}))"
proof (cases "n' = n")
  case False
  let ?low = "ID (predecessorList n ! nat (replication n - 1))"
  obtain rv where rv: "Ring (ringID n) = Some rv"
    using False assms(6,8) by (cases "Ring (ringID n)") (auto simp: PruneOutOfWindowBlocks_def ringStore_def)
  have g: "1 < replication n" "replication n \<le> int (length (predecessorList n))"
    using False assms(8) by (auto simp: PruneOutOfWindowBlocks_def Let_def split: if_splits)
  obtain ks where ks: "n' = foldl (\<lambda>n k. drop_key E k n) n ks"
      "\<forall>k \<in> set ks. \<not> BetweenRightInclusive (CIDToNodeID (rx E) k) ?low (node_id n)"
    using False assms(8) by (auto simp: PruneOutOfWindowBlocks_def Let_def split: if_splits sum.splits)
  obtain s' where s': "n' = n\<lparr>blocks := Net s'\<rparr>" "exact B s'" "\<forall>h. h \<notin> Hash ` set ks \<longrightarrow> B (blks s') h = B (blks s) h"
    using drop_keys_net [OF assms(1,6,7) rv] ks(1) by blast
  have id: "node_id n = i"
  proof -
    obtain m where m: "w_node w i = Some m" "node_id m = i" using assms(2,3) by (rule idealD)
    then show ?thesis using assms(5) by (auto simp: refreshPredecessorList_def on_node_Some split: option.splits)
  qed
  note ch = refresh_chain [OF assms(2,3,5,4)]
  have "replication n \<le> int (card {m \<in> S. dist (CIDToNodeID (rx E) k) m < dist (CIDToNodeID (rx E) k) i})"
    if changed: "B (blks s') (Hash k) \<noteq> B (blks s) (Hash k)" for k
  proof -
    have "Hash k \<in> Hash ` set ks" using s'(3) changed by blast
    then obtain j where j: "j \<in> set ks" "Hash j = Hash k" by auto
    then have "\<not> BetweenRightInclusive (CIDToNodeID (rx E) k) (ID (predecessorList n ! (nat (replication n) - 1))) i"
      using ks(2) id g(1) by (auto simp: CIDToNodeID_def nat_diff_distrib)
    then have "nat (replication n) \<le> card {m \<in> S. dist (CIDToNodeID (rx E) k) m < dist (CIDToNodeID (rx E) k) i}"
      using g by (intro closer_members [OF ch(1) assms(3) ch(3,2) ideal_finite [OF assms(2)]]) auto
    then show ?thesis by linarith
  qed
  then show ?thesis using s' g(1) by auto
qed (use assms(6,7) in auto)

text \<open>Node 30 holds a block of its window, with key 22, and one outside of it, with key 8.\<close>

definition window_node :: "(testMemStore, (string \<times> bytes) list, (bytes \<times> bytes) list, testMemStore) dnode" where
  "window_node = node.extend (demo_member 30 [10, 20] 20) (dnode.fields
     (Net \<lparr>ds = [(''/rings/public'', []), (''/ring/public/netroots/16'', []), (''/ring/public/blockroots/16/16'', []),
             (''/ring/public/blockroots/08/16'', [])], blks = [([22], [22]), ([8], [8])],
        maxBytes = 9, usedBytesAtomic = 2, blockCountAtomic = 2, ringCtrs = [], knownRings = []\<rparr>)
     None RingPublic (new_records demo_cfg) 0 0)"

definition window_world where
  "window_world = put_node (demo_id 30) window_node dag_world"

lemma window_ideal: "ideal demo_ids window_world"
proof -
  have "ideal demo_ids dag_world" using dag_serving(1) by (simp add: serving_def)
  moreover have "links window_node = links (dag_node (demo_member 30 [10, 20] 20) [] [dag_root])"
    by (simp add: window_node_def dag_node_def links_def node.defs)
  ultimately show ?thesis
    using member_ok_links by (fastforce simp: ideal_def open_among_def window_world_def dag_nodes)
qed

text \<open>The bytes a node has after pruning and the number of blocks it gave up.\<close>

definition pruned where
  "pruned E n = (case PruneOutOfWindowBlocks E n of (r, n') \<Rightarrow> (r, case blocks n' of Net s \<Rightarrow> blks s | _ \<Rightarrow> []))"

theorem prune_keeps_window_witness:
  "\<exists>n b. w_node (refreshPredecessorList (demo_id 30) window_world) (demo_id 30) = Some n \<and>
     pruned mem_denv n = (Inr 1, b) \<and> map_of b [8] = None \<and> map_of b [22] = Some [22]"
proof -
  have ev: "map_option (pruned mem_denv) (w_node (refreshPredecessorList (demo_id 30) window_world) (demo_id 30)) =
      Some (Inr 1, [([22], [22])])"
    by code_simp
  then obtain n where n: "w_node (refreshPredecessorList (demo_id 30) window_world) (demo_id 30) = Some n"
      "pruned mem_denv n = (Inr 1, [([22], [22])])" by auto
  obtain r n' where p: "PruneOutOfWindowBlocks mem_denv n = (r, n')" by fastforce
  have b: "blocks n = blocks window_node"
    using n(1) by (auto simp: refreshPredecessorList_def on_node_def window_world_def split: option.splits)
  let ?s = "\<lparr>ds = [(''/rings/public'', []), (''/ring/public/netroots/16'', []), (''/ring/public/blockroots/16/16'', []),
             (''/ring/public/blockroots/08/16'', [])], blks = [([22], [22]), ([8], [8])],
        maxBytes = 9, usedBytesAtomic = 2, blockCountAtomic = 2, ringCtrs = [], knownRings = []\<rparr>
      :: ((string \<times> bytes) list, (bytes \<times> bytes) list) nbs"
  have s: "blocks n = Net ?s" unfolding b by (simp add: window_node_def node.defs dnode.defs)
  have ex: "exact map_of ?s" by (simp add: exact_def usage_def)
  have l: "blk_laws (netE mem_denv) map_of" using mem_blk_laws by (simp add: mem_denv_def)
  have c: "demo_id 30 \<in> demo_ids" "1 < card demo_ids" by simp_all
  obtain s' where s': "blocks n' = Net s'" "\<forall>k. map_of (blks s') (Hash k) \<noteq> map_of (blks ?s) (Hash k) \<longrightarrow>
      1 < replication n \<and> replication n \<le> int (card {m \<in> demo_ids. dist (CIDToNodeID (rx mem_denv) k) m < dist (CIDToNodeID (rx mem_denv) k) (demo_id 30)})"
    using prune_keeps_window [OF l window_ideal c n(1) s ex p] by blast
  have "CIDToNodeID (rx mem_denv) moving_block = demo_id 22" by (rule mem_moving(1))
  then have e: "{m \<in> demo_ids. dist (CIDToNodeID (rx mem_denv) moving_block) m < dist (CIDToNodeID (rx mem_denv) moving_block) (demo_id 30)} = {}"
    by (auto simp: dist_def cw_demo)
  have "\<not> (1 < replication n \<and> replication n \<le> int (card ({} :: NodeID set)))" by simp
  then have "map_of (blks s') (Hash moving_block) = map_of (blks ?s) (Hash moving_block)"
    using s'(2) [THEN spec, of moving_block, unfolded e] by blast
  then have "map_of (blks s') [22] = Some [22]" by simp
  moreover have "map_of (blks s') [8] = None" "pruned mem_denv n = (Inr 1, blks s')"
    using n(2) p s'(1) by (auto simp: pruned_def)
  ultimately show ?thesis using n(1) by blast
qed

end
