(* ===== verification/Join_Full.thy ===== *)
theory Join_Full
  imports Node_Window
begin

text \<open>A join that loses a block: the newcomer has no room for what its successor hands over.\<close>

definition full_new where
  "full_new k = node.extend (demo_new k)
     (dnode.fields (Plain \<lparr>q_inner = [], q_maxBytes = 1, q_usedBytes = 0\<rparr>) None RingPublic (new_records demo_cfg) 0 0)"

abbreviation full_block :: cid where "full_block \<equiv> NewCidV1 codec_Raw [22, 1]"

definition full_owner where
  "full_owner = (demo_node 30 [10, 20] 20 9)\<lparr>blocks := Plain \<lparr>q_inner = [(full_block, [22, 1])], q_maxBytes = 9, q_usedBytes = 2\<rparr>\<rparr>"

definition full_world :: "(testMemStore quotaBlockStore, (string \<times> bytes) list, (bytes \<times> bytes) list, testMemStore) world" where
  "full_world = \<lparr>nodeMap = [(demo_id 10, demo_node 10 [20, 30] 30 9), (demo_id 20, demo_node 20 [30, 10] 10 9),
       (demo_id 30, full_owner), (demo_id 25, full_new 25)],
     Nodes = [demo_id 10, demo_id 20, demo_id 30, demo_id 25], blocked = [], pending = [], ring_Replication = 2\<rparr>"

definition stocked where
  "stocked w = map fst (filter (\<lambda>(i, n). demo_hold (blocks n) full_block \<noteq> None) (nodeMap w))"

lemma stocked_holds:
  assumes "stocked w = []"
  shows "\<not> holds demo_hold w i full_block"
proof
  assume "holds demo_hold w i full_block"
  then obtain n where "map_of (nodeMap w) i = Some n" "demo_hold (blocks n) full_block \<noteq> None"
    by (auto simp: holds_def w_node_def)
  then have "i \<in> set (stocked w)" by (force simp: stocked_def dest: map_of_SomeD)
  then show False using assms by simp
qed

text \<open>
  C23. \<open>Join\<close> can lose a block: the successor deletes the blocks of the newcomer's range
  before they arrive, and a put that fails at the newcomer is ignored. In this ring node 30
  is the only one to hold a block, the newcomer 25 has no room for it, the join reports
  success, and afterwards no node holds the block.
\<close>

theorem join_full_loses_block:
  "holds demo_hold full_world (demo_id 30) full_block \<and>
   (\<exists>w'. Join demo_denv (demo_id 25) (demo_addr 10) full_world = (Inr (), w') \<and>
      (\<forall>i. \<not> holds demo_hold w' i full_block))"
proof -
  have "map_prod id stocked (Join demo_denv (demo_id 25) (demo_addr 10) full_world) = (Inr (), [])" by code_simp
  then obtain w' where "Join demo_denv (demo_id 25) (demo_addr 10) full_world = (Inr (), w')" "stocked w' = []"
    by (cases "Join demo_denv (demo_id 25) (demo_addr 10) full_world") auto
  moreover have "holds demo_hold full_world (demo_id 30) full_block"
    by (simp add: holds_def w_node_def full_world_def full_owner_def held_simps)
  ultimately show ?thesis using stocked_holds by blast
qed

end
