(* ===== verification/Ring_Types.thy ===== *)
theory Ring_Types
  imports Node_Data Chord_Repair
begin

text \<open>
  What every node of every reachable ring satisfies, whatever the network does: the sizes of
  its tables, the maps of its records and the number of its pushes in flight stay within the
  bounds the code gives them.
\<close>

section \<open>The invariant of a node\<close>

text \<open>
  The successor list holds at most \<open>successorListSize\<close> other nodes; the failover to a ring of
  one can put the node itself in front of them.
\<close>

definition node_ok :: "('m, 'd, 'b, 'l) dnode \<Rightarrow> bool" where
  "node_ok n \<longleftrightarrow> node_wf n \<and>
     int (length (filter (\<lambda>s. ID s \<noteq> node_id n) (successorList n))) \<le> successorListSize n \<and>
     int (length (successorList n)) \<le> successorListSize n + 1 \<and>
     rec_inv (recs n) \<and> replicationsInFlight n \<le> defaultReplicationConcurrency"

definition nstep :: "('m, 'd, 'b, 'l) dnode \<Rightarrow> ('m, 'd, 'b, 'l) dnode \<Rightarrow> bool" where
  "nstep n n' \<longleftrightarrow> node_id n' = node_id n \<and> (node_ok n \<longrightarrow> node_ok n')"

definition wstep :: "('m, 'd, 'b, 'l) world \<Rightarrow> ('m, 'd, 'b, 'l) world \<Rightarrow> bool" where
  "wstep w w' \<longleftrightarrow> (\<forall>i. rel_option nstep (w_node w i) (w_node w' i))"

named_theorems step_intros \<open>steps that keep the invariant of every node\<close>

lemma nstep_refl [simp]: "nstep n n"
  by (simp add: nstep_def)

lemma nstep_trans: "nstep a b \<Longrightarrow> nstep b c \<Longrightarrow> nstep a c"
  by (simp add: nstep_def)

lemma nstep_foldl: "(\<And>n x. nstep n (f n x)) \<Longrightarrow> nstep n (foldl f n xs)"
  by (induction xs arbitrary: n) (auto intro: nstep_trans)

lemma wstep_refl [simp]: "wstep w w"
  by (simp add: wstep_def option.rel_refl)

lemma wstep_trans: "wstep u v \<Longrightarrow> wstep v w \<Longrightarrow> wstep u w"
  unfolding wstep_def by (metis (no_types, lifting) nstep_trans option.rel_transp transpD transpI)

lemma wstep_put: "w_node w i = Some n \<Longrightarrow> nstep n n' \<Longrightarrow> wstep w (put_node i n' w)"
  by (simp add: wstep_def option.rel_refl)

lemma wstep_spawn [simp]: "wstep w (spawn i ts v) \<longleftrightarrow> wstep w v"
  by (simp add: wstep_def)

lemma wstep_on_node: "(\<And>n. w_node w i = Some n \<Longrightarrow> nstep n (fst (f n))) \<Longrightarrow> wstep w (on_node i f w)"
  by (cases "w_node w i") (auto simp: on_node_def case_prod_beta intro: wstep_put)

lemma wstep_resolve: "lt_resolve w me t = Inr n \<Longrightarrow> nstep n n' \<Longrightarrow> wstep w (put_node (ID t) n' w)"
  by (rule wstep_put) (simp_all add: lt_resolve_def getNode_def split: if_splits option.splits)

lemma wstep_foldl: "(\<And>w x. wstep w (f w x)) \<Longrightarrow> wstep w (foldl f w xs)"
  by (induction xs arbitrary: w) (auto intro: wstep_trans)

lemma wstepD:
  assumes "wstep w w'" "w_node w' i = Some n'"
  obtains n where "w_node w i = Some n" "nstep n n'"
proof -
  have "rel_option nstep (w_node w i) (w_node w' i)" using assms(1) by (simp add: wstep_def)
  then show ?thesis using assms(2) that by (cases "w_node w i") auto
qed

text \<open>A step that leaves the routing state and the records alone.\<close>

lemma nstep_blocks [simp]:
  "nstep n (n\<lparr>blocks := b\<rparr>)" "nstep n (n\<lparr>localBlocks := l\<rparr>)" "nstep n (n\<lparr>ringID := r\<rparr>)"
  "nstep n (n\<lparr>replicationsDropped := k\<rparr>)" "nstep n (n\<lparr>backgroundPaused := p\<rparr>)"
  "nstep n (n\<lparr>replicateSlot := p\<rparr>)" "nstep n (n\<lparr>replicateDropped := k\<rparr>)" "nstep n (n\<lparr>prevPredID := j\<rparr>)"
  "nstep n (n\<lparr>successor := s\<rparr>)" "nstep n (n\<lparr>predecessor := q\<rparr>)"
  by (simp_all add: nstep_def node_ok_def node_wf_def)

lemma nstep_recs: "(rec_inv (recs n) \<Longrightarrow> rec_inv st) \<Longrightarrow> nstep n (n\<lparr>recs := st\<rparr>)"
  by (simp add: nstep_def node_ok_def node_wf_def)

lemma nstep_list:
  assumes "\<And>k. 0 < successorListSize n \<Longrightarrow> int (length (filter (\<lambda>s. ID s \<noteq> node_id n) (successorList n))) \<le> successorListSize n \<Longrightarrow>
      int (length (successorList n)) \<le> successorListSize n + 1 \<Longrightarrow>
      int (length (filter (\<lambda>s. ID s \<noteq> node_id n) l)) \<le> successorListSize n \<and> int (length l) \<le> successorListSize n + 1"
  shows "nstep n (n\<lparr>successorList := l\<rparr>)"
  using assms by (simp add: nstep_def node_ok_def node_wf_def)

lemma nstep_short: "int (length l) \<le> max 1 (successorListSize n) \<Longrightarrow> nstep n (n\<lparr>successorList := l\<rparr>)"
proof (rule nstep_list)
  assume "int (length l) \<le> max 1 (successorListSize n)" "0 < successorListSize n"
  moreover have "length (filter (\<lambda>s. ID s \<noteq> node_id n) l) \<le> length l" by (rule length_filter_le)
  ultimately show "int (length (filter (\<lambda>s. ID s \<noteq> node_id n) l)) \<le> successorListSize n \<and> int (length l) \<le> successorListSize n + 1"
    by linarith
qed

section \<open>Routing steps\<close>

lemma filter_comm: "filter P (filter Q xs) = filter Q (filter P xs)"
  by (induction xs) auto

lemma nstep_evict: "nstep n (fst (evictNode d n))"
proof -
  obtain n' ts where e: "evictNode d n = (n', ts)" by fastforce
  have m: "node.more n' = node.more n"
    using e by (auto simp: evictNode_def Let_def triggerReplicateToNewSuccessors_def split: if_splits)
  then have r: "recs n' = recs n" "replicationsInFlight n' = replicationsInFlight n"
    by (cases n; cases n'; simp)+
  note f = evictNode_frame [OF e]
  have "length (filter (\<lambda>s. ID s \<noteq> node_id n) (successorList n')) \<le> length (filter (\<lambda>s. ID s \<noteq> node_id n) (successorList n))"
    unfolding f(9) by (subst filter_comm) (rule length_filter_le)
  moreover have "length (successorList n') \<le> length (successorList n)" unfolding f by (rule length_filter_le)
  moreover have "node_wf n \<longrightarrow> node_wf n'" using node_wf_evictNode [of n d] e by simp
  ultimately show ?thesis using f(1,8) r e by (auto simp: nstep_def node_ok_def)
qed

lemma wstep_FindSuccessor [step_intros]: "wstep w (snd (w_FindSuccessor i k w))"
proof (cases "w_node w i")
  case None
  then show ?thesis by (simp add: w_FindSuccessor_def)
next
  case (Some n)
  let ?r = "FindSuccessor (\<lambda>_. None) (lt_ClosestPrecedingNode w i) k n"
  have "nstep n (fst (snd ?r))"
    by (rule FindSuccessor_keeps [where P = "nstep n"]) (auto intro: nstep_trans nstep_evict)
  then show ?thesis using Some by (simp add: w_FindSuccessor_def case_prod_beta wstep_put)
qed

lemma nstep_trigger: "nstep n (fst (triggerReplicateToNewSuccessors old new n))"
  by (simp add: triggerReplicateToNewSuccessors_def)

lemma nstep_notify: "nstep n (fst (notify ping c n))"
  using nstep_trans [OF nstep_blocks(10) nstep_blocks(10)]
  by (simp add: notify_def acceptPredecessor_def Let_def split: option.split)

lemma wstep_Notify [step_intros]: "wstep w (lt_Notify me t c w)"
  by (simp add: lt_Notify_def wstep_on_node nstep_notify split: sum.split)

lemma wstep_checkPredecessor [step_intros]: "wstep w (checkPredecessor i w)"
  unfolding checkPredecessor_def by (rule wstep_on_node) (simp split: option.split)

lemma nstep_predList: "nstep n (n\<lparr>predecessorList := pred_loop (nat (successorListSize n - 1)) g i p [p]\<rparr>)"
  using same_links_predList [of n g i p] by (simp add: nstep_def node_ok_def same_links_def)

lemma nstep_noPreds: "nstep n (n\<lparr>predecessorList := []\<rparr>)"
  by (simp add: nstep_def node_ok_def node_wf_def)

lemma wstep_refreshPred [step_intros]: "wstep w (refreshPredecessorList i w)"
  unfolding refreshPredecessorList_def
  by (rule wstep_on_node) (simp add: nstep_predList nstep_noPreds split: option.split)

lemma length_append_upto: "int (length xs) \<le> max 1 m \<Longrightarrow> int (length (append_upto m xs ys)) \<le> max 1 m"
  by (induction m xs ys rule: append_upto.induct) auto

lemma wstep_refresh [step_intros]:
  fixes w :: "('m, 'd, 'b, 'l) world"
  shows "wstep w (refreshSuccessorListAndReplicate i s old w)"
proof -
  have "nstep n (n\<lparr>successorList := append_upto (successorListSize n) [s] l\<rparr>)" for n :: "('m, 'd, 'b, 'l) dnode" and l
    by (rule nstep_short) (rule length_append_upto, simp)
  then have "wstep w (on_node i (\<lambda>n. let list = append_upto (successorListSize n) [s] l
      in triggerReplicateToNewSuccessors old list (n\<lparr>successorList := list\<rparr>)) w)" for l
    unfolding Let_def by (intro wstep_on_node nstep_trans [OF _ nstep_trigger])
  then show ?thesis
    by (simp add: refreshSuccessorListAndReplicate_def wstep_trans [OF _ wstep_refreshPred] split: sum.split)
qed

lemma nstep_failover: "nstep n (handleSuccessorFailure ping n)"
proof -
  have 1: "nstep n (n\<lparr>successorList := dropWhile P (successorList n)\<rparr>)" for P
  proof (rule nstep_list, intro conjI)
    assume a: "int (length (filter (\<lambda>s. ID s \<noteq> node_id n) (successorList n))) \<le> successorListSize n"
      "int (length (successorList n)) \<le> successorListSize n + 1"
    have e: "successorList n = takeWhile P (successorList n) @ dropWhile P (successorList n)" by simp
    then have l: "length (dropWhile P (successorList n)) \<le> length (successorList n)"
      by (metis le_add2 length_append)
    then show "int (length (dropWhile P (successorList n))) \<le> successorListSize n + 1" using a by linarith
    have "length (filter (\<lambda>s. ID s \<noteq> node_id n) (dropWhile P (successorList n))) \<le> length (filter (\<lambda>s. ID s \<noteq> node_id n) (successorList n))"
      by (subst (2) e, subst filter_append) simp
    then show "int (length (filter (\<lambda>s. ID s \<noteq> node_id n) (dropWhile P (successorList n)))) \<le> successorListSize n" using a by linarith
  qed
  have 2: "nstep n (n\<lparr>successorList := LocalNode n # filter (\<lambda>s. ID s \<noteq> node_id n) (successorList n)\<rparr>)"
    by (rule nstep_list) simp
  have u: "n\<lparr>successor := x, successorList := l\<rparr> = n\<lparr>successorList := l\<rparr>\<lparr>successor := x\<rparr>" for x l by simp
  show ?thesis
  proof (cases "dropWhile (\<lambda>s. ID s = node_id n \<or> \<not> ping s) (successorList n)")
    case Nil
    show ?thesis unfolding handleSuccessorFailure_def Nil Let_def list.case u by (rule nstep_trans [OF 2 nstep_blocks(9)])
  next
    case (Cons s rest)
    show ?thesis unfolding handleSuccessorFailure_def Cons Let_def list.case u
      by (rule nstep_trans [OF 1 [of "\<lambda>s. ID s = node_id n \<or> \<not> ping s", unfolded Cons] nstep_blocks(9)])
  qed
qed

lemma nstep_single: "nstep n (n\<lparr>successor := s, successorList := [t]\<rparr>)"
proof -
  have "nstep n (n\<lparr>successor := s\<rparr>\<lparr>successorList := [t]\<rparr>)" by (rule nstep_trans [OF nstep_blocks(9) nstep_short]) simp
  then show ?thesis by simp
qed

lemma nstep_reconnect: "nstep n (snd (tryReconnect ping n))"
  by (simp add: tryReconnect_def nstep_single split: option.split)

lemma wstep_stabilize [step_intros]:
  fixes w :: "('m, 'd, 'b, 'l) world"
  shows "wstep w (stabilize i w)"
proof (cases "w_node w i")
  case None
  then show ?thesis by (simp add: stabilize_def)
next
  case (Some n)
  have dead: "wstep w (put_node i (handleSuccessorFailure p n) w)" for p
    by (rule wstep_put [OF Some nstep_failover])
  have live: "wstep w (lt_Notify i b c (put_node i (n\<lparr>successor := a\<rparr>) w))" for a b c
    by (rule wstep_trans [OF wstep_put [OF Some] wstep_Notify]) simp
  have tr: "wstep v (on_node i (\<lambda>n. (snd (tryReconnect p n), [])) v)" for p and v :: "('m, 'd, 'b, 'l) world"
    by (rule wstep_on_node) (simp add: nstep_reconnect)
  note notified = wstep_trans [OF live tr] wstep_trans [OF live wstep_refresh]
    wstep_trans [OF wstep_Notify tr] wstep_trans [OF wstep_Notify wstep_refresh]
  show ?thesis
  proof (cases "lt_GetPredecessor w i (successor n)")
    case (Inl e)
    then show ?thesis
      using dead wstep_trans [OF dead wstep_refresh] by (simp add: stabilize_def Some Let_def)
  next
    case (Inr p)
    then show ?thesis
      by (cases p) (simp_all add: stabilize_def Some Let_def notified)
  qed
qed

lemma wstep_fixFinger [step_intros]: "wstep w (fixFinger i w)"
proof (cases "w_node w i")
  case None
  then show ?thesis by (simp add: fixFinger_def)
next
  case (Some n)
  have 1: "wstep w (snd (w_FindSuccessor i k (put_node i (n\<lparr>nextFinger := j mod fingerCount\<rparr>) w)))" for k j
    by (rule wstep_trans [OF wstep_put [OF Some] wstep_FindSuccessor]) (simp add: nstep_def node_ok_def node_wf_def)
  have 2: "wstep v (on_node i (\<lambda>n. (n\<lparr>fingers := (fingers n)[k := s]\<rparr>, [])) v)" for k s v
    by (rule wstep_on_node) (simp add: nstep_def node_ok_def node_wf_def)
  show ?thesis
    unfolding fixFinger_def Some Let_def
    using 1 wstep_trans [OF 1 2] by (simp add: case_prod_beta split: sum.split)
qed

lemma nstep_notifyLeave: "nstep n (handleNotifyLeave leaver s p n)"
proof -
  let ?f = "\<lambda>newList x. if ID x \<noteq> ID leaver \<and> ID x \<noteq> ID s \<and> int (length newList) < successorListSize n then newList @ [x] else newList"
  have 1: "int (length l) \<le> max 1 (successorListSize n) \<Longrightarrow> int (length (foldl ?f l xs)) \<le> max 1 (successorListSize n)" for l xs
    by (induction xs arbitrary: l) auto
  have "int (length (foldl ?f [s] (successorList n))) \<le> max 1 (successorListSize n)" by (rule 1) simp
  then have "nstep (n\<lparr>successor := s\<rparr>) (n\<lparr>successor := s\<rparr>\<lparr>successorList := foldl ?f [s] (successorList n)\<rparr>)"
    by (intro nstep_short) simp
  then have 2: "nstep n (n\<lparr>successor := s, successorList := foldl ?f [s] (successorList n)\<rparr>)"
    by (rule nstep_trans [OF nstep_blocks(9)])
  show ?thesis
    using 2 nstep_trans [OF 2 nstep_blocks(10)] by (simp add: handleNotifyLeave_def Let_def split: option.split)
qed

lemma wstep_NotifyLeave [step_intros]: "wstep w (lt_NotifyLeave me t self s p w)"
  by (simp add: lt_NotifyLeave_def wstep_on_node nstep_notifyLeave split: sum.split)

lemma wstep_leave_route [step_intros]: "wstep w (leave_route self s p w)"
  by (simp add: leave_route_def Let_def wstep_NotifyLeave wstep_trans [OF wstep_NotifyLeave wstep_NotifyLeave]
      split: option.split)

lemma wstep_join_route [step_intros]: "wstep w (snd (join_route i b w))"
proof -
  have 1: "wstep w (snd (lt_FindSuccessor i b i w))" by (simp add: lt_FindSuccessor_def wstep_FindSuccessor split: sum.split)
  have 2: "wstep v (on_node i (\<lambda>n. (n\<lparr>successor := s, successorList := [s]\<rparr>, [])) v)" for s v
    by (rule wstep_on_node) (simp add: nstep_single)
  show ?thesis using 1 wstep_trans [OF 1 2] by (simp add: join_route_def case_prod_beta split: sum.split)
qed

section \<open>Block and record steps\<close>

lemma nstep_store_block: "nstep n (snd (store_block E key data rc ex n))"
  by (simp add: store_block_def case_prod_beta Let_def split: option.split)

lemma nstep_push_one: "nstep n (snd (push_one E x n))"
  by (simp add: push_one_def case_prod_beta Let_def split: prod.split sum.split option.split list.split)

lemma nstep_push_loop: "nstep n (snd (push_loop E xs m n))"
proof (induction xs arbitrary: m n)
  case (Cons x xs)
  obtain r n' where p: "push_one E x n = (r, n')" by fastforce
  then have "nstep n n'" using nstep_push_one [of n E x] by simp
  then show ?case using p nstep_trans [OF _ Cons.IH] by (simp split: sum.split)
qed simp

lemma nstep_push_blocks: "nstep n (snd (push_blocks E xs n))"
  using nstep_push_loop [of n E xs 0] by (simp add: push_blocks_def case_prod_beta split: sum.split)

lemma wstep_PushBlocks [step_intros]: "wstep w (snd (lt_PushBlocks E me t xs w))"
  by (auto simp: lt_PushBlocks_def case_prod_beta Let_def intro: wstep_resolve nstep_push_blocks split: sum.split)

lemma wstep_report: "wstep w (snd (report_loop E me x ts ok w))"
proof (induction ts arbitrary: ok w)
  case (Cons t ts)
  obtain r w' where p: "lt_PushBlocks E me t [x] w = (r, w')" by fastforce
  then have "wstep w w'" using wstep_PushBlocks [of w E me t "[x]"] by simp
  then show ?case using p wstep_trans [OF _ Cons.IH] by (simp split: sum.split)
qed simp

lemma wstep_replicateAndReport: "wstep w (snd (replicateAndReport E me key data rc ex w))"
  by (simp add: replicateAndReport_def case_prod_beta Let_def wstep_report split: option.split)

lemma nstep_async: "nstep n (fst (async_loop x ts n))"
proof (induction ts arbitrary: n)
  case (Cons t ts)
  have "replicationsInFlight n < defaultReplicationConcurrency \<Longrightarrow>
      nstep n (n\<lparr>replicationsInFlight := Suc (replicationsInFlight n)\<rparr>)"
    by (simp add: nstep_def node_ok_def node_wf_def)
  then show ?case
    using nstep_trans [OF _ Cons.IH] nstep_trans [OF nstep_blocks(4) Cons.IH] by (simp add: case_prod_beta Let_def)
qed simp

lemma nstep_replicateAsync: "nstep n (fst (replicateAsync E key data rc ex n))"
  by (simp add: replicateAsync_def nstep_async)

lemma wstep_replicateAsync: "wstep w (on_node i (replicateAsync E key data rc ex) w)"
  by (rule wstep_on_node) (rule nstep_replicateAsync)

lemma wstep_PutBlock [step_intros]: "wstep w (snd (lt_PutBlock E me t key data rc ex w))"
proof (cases "lt_resolve w me t")
  case (Inl e)
  then show ?thesis by (simp add: lt_PutBlock_def)
next
  case (Inr n)
  obtain r n' where b: "store_block E key data rc ex n = (r, n')" by fastforce
  have 1: "wstep w (put_node (ID t) n' w)"
    using wstep_resolve [OF Inr] nstep_store_block [of n E key data rc ex] b by simp
  show ?thesis
    using Inr b 1 wstep_trans [OF 1 wstep_replicateAsync] wstep_trans [OF 1 wstep_replicateAndReport]
    by (cases r) (simp_all add: lt_PutBlock_def case_prod_beta Let_def)
qed

lemma nstep_Get: "nstep n (snd (node_Get E key n))" "nstep n (snd (local_Get E key n))"
  by (simp_all add: node_Get_def local_Get_def case_prod_beta Let_def split: option.split)

lemma nstep_own_Get: "nstep n (snd (own_Get E key n))"
  by (simp add: own_Get_def case_prod_beta nstep_Get nstep_trans [OF nstep_Get(1) nstep_Get(2)] split: sum.split)

lemma wstep_fetch_succs: "wstep w (snd (fetch_succs E me key ss w))"
proof (induction ss arbitrary: w)
  case (Cons s ss)
  show ?case
  proof (cases "getNode w me (ID s)")
    case None
    then show ?thesis using Cons.IH by simp
  next
    case (Some p)
    then have "w_node w (ID s) = Some p" by (simp add: getNode_def split: if_splits)
    then have "wstep w (put_node (ID s) (snd (node_Get E key p)) w)" by (rule wstep_put) (rule nstep_Get)
    then show ?thesis
      using Some Cons.IH wstep_trans [OF _ Cons.IH] by (simp add: case_prod_beta split: sum.split)
  qed
qed simp

lemma wstep_FetchBlock [step_intros]: "wstep w (snd (lt_FetchBlock E me t key w))"
proof (cases "lt_resolve w me t")
  case (Inr n)
  then have 1: "wstep w (put_node (ID t) (snd (own_Get E key n)) w)" by (rule wstep_resolve) (rule nstep_own_Get)
  then show ?thesis
    using Inr by (simp add: lt_FetchBlock_def case_prod_beta wstep_trans [OF 1 wstep_fetch_succs] split: sum.split)
qed (simp add: lt_FetchBlock_def)

lemma wstep_RemoveBlock [step_intros]: "wstep w (snd (lt_RemoveBlock E me t key w))"
  by (auto simp: lt_RemoveBlock_def case_prod_beta Let_def intro: wstep_resolve split: sum.split)

lemma nstep_read: "nstep n (snd (read_blocks E ks n))"
proof (induction ks arbitrary: n)
  case (Cons k ks)
  show ?case using nstep_trans [OF nstep_Get(1) Cons.IH] by (simp add: case_prod_beta Let_def split: sum.split)
qed simp

lemma wstep_push_chunk: "wstep w (push_chunk E me t ks w)"
proof (cases "w_node w me")
  case (Some n)
  have 1: "wstep w (put_node me (snd (read_blocks E ks n)) w)" by (rule wstep_put [OF Some nstep_read])
  show ?thesis using Some 1 wstep_trans [OF 1 wstep_PushBlocks] by (simp add: push_chunk_def case_prod_beta Let_def)
qed (simp add: push_chunk_def)

lemma wstep_toTarget: "wstep w (pushBlocksChunkedToTarget E me t keys w)"
proof (induction E me t keys w rule: pushBlocksChunkedToTarget.induct)
  case (1 E me t keys w)
  show ?case
    using wstep_trans [OF wstep_push_chunk 1(1) [OF _ refl]]
    by (subst pushBlocksChunkedToTarget.simps) (simp add: Let_def split: option.split)
qed

lemma wstep_pushBlocksChunked: "wstep w (pushBlocksChunked E me ts keys w)"
  unfolding pushBlocksChunked_def
  by (auto intro!: wstep_foldl wstep_toTarget simp: push_target_def Let_def)

lemma wstep_transferKeysRange [step_intros]: "wstep w (transferKeysRange E me t a b w)"
  by (simp add: transferKeysRange_def wstep_pushBlocksChunked split: option.split sum.split)

lemma nstep_track: "nstep n (snd (track_predecessor n))"
  by (simp add: track_predecessor_def split: option.split)

lemma wstep_replicateToNew [step_intros]: "wstep w (replicateToNewSuccessors E me old new w)"
proof (cases "w_node w me")
  case (Some n)
  have 1: "wstep w (put_node me (snd (track_predecessor n)) w)" by (rule wstep_put [OF Some nstep_track])
  show ?thesis
    using Some 1 wstep_trans [OF 1 wstep_pushBlocksChunked]
    by (simp add: replicateToNewSuccessors_def case_prod_beta Let_def split: sum.split)
qed (simp add: replicateToNewSuccessors_def)

lemma nstep_drop: "nstep n (drop_key E k n)"
  by (simp add: drop_key_def case_prod_beta Let_def split: option.split)

lemma wstep_TransferKeys [step_intros]: "wstep w (snd (lt_TransferKeys E me t a b w))"
proof (cases "lt_resolve w me t")
  case (Inr n)
  obtain r n' where c: "collectRingBlocksInRange E a b n = (r, n')" by fastforce
  have 1: "nstep n n'" using c nstep_read
    by (auto simp: collectRingBlocksInRange_def case_prod_beta Let_def split: sum.splits)
  have "nstep n (foldl (\<lambda>n x. drop_key E (fst x) n) n' xs)" for xs :: "pushed list"
    by (rule nstep_trans [OF 1 nstep_foldl]) (rule nstep_drop)
  then show ?thesis
    using Inr c 1 wstep_resolve [OF Inr] by (simp add: lt_TransferKeys_def split: sum.split)
qed (simp add: lt_TransferKeys_def)

lemma nstep_prune: "nstep n (snd (PruneOutOfWindowBlocks E n))"
  by (auto simp: PruneOutOfWindowBlocks_def Let_def intro!: nstep_foldl nstep_drop split: sum.split)

lemma nstep_put_records: "nstep n (put_records E kvs n)"
proof -
  have "rec_inv st \<Longrightarrow> rec_inv (foldl (\<lambda>st kv. localRecordPut X now (fst kv) (snd kv) st) st kvs)" for st X now
    by (induction kvs arbitrary: st) (auto intro: rec_inv_localRecordPut)
  then show ?thesis unfolding put_records_def by (rule nstep_recs)
qed

lemma wstep_PushRecords [step_intros]: "wstep w (snd (lt_PushRecords E me t kvs w))"
  by (auto simp: lt_PushRecords_def intro: wstep_resolve nstep_put_records split: sum.split)

lemma wstep_store_record:
  assumes "w_node w i = Some n"
  shows "wstep w (snd (store_record E i n key data c w))"
proof -
  obtain r st where s: "storeRecord (rx E) (nowNs E) (wallNs E) key data c (recs n) = (r, st)" by fastforce
  then have 1: "wstep w (put_node i (n\<lparr>recs := st\<rparr>) w)"
    using rec_inv_storeRecord [of "recs n" "rx E" "nowNs E" "wallNs E" key data c]
    by (intro wstep_put [OF assms] nstep_recs) simp
  have 2: "wstep v (replicateRecordBestEffort E i key data v)" for v
    by (auto simp: replicateRecordBestEffort_def intro!: wstep_foldl wstep_PushRecords split: option.split)
  show ?thesis using s 1 wstep_trans [OF 1 2] by (simp add: store_record_def split: sum.split)
qed

lemma wstep_PutRecord [step_intros]: "wstep w (snd (lt_PutRecord E me t key data c w))"
proof (cases "lt_resolve w me t")
  case (Inr n)
  then have "w_node w (ID t) = Some n" by (simp add: lt_resolve_def getNode_def split: if_splits option.splits)
  then show ?thesis using Inr by (simp add: lt_PutRecord_def wstep_store_record)
qed (simp add: lt_PutRecord_def)

lemma wstep_transferRecordsRange [step_intros]: "wstep w (transferRecordsRange E me t a b w)"
  by (simp add: transferRecordsRange_def Let_def wstep_PushRecords split: option.split)

section \<open>Client operations\<close>

lemma wstep_found:
  assumes "w_FindSuccessor me k w = (r, w1)"
  shows "wstep w w1" "wstep w1 w' \<Longrightarrow> wstep w w'"
  using assms wstep_FindSuccessor [of w me k] wstep_trans by (metis snd_conv)+

lemma wstep_Put [step_intros]: "wstep w (snd (n_PutWithRoot E me key data rc ex w))"
proof -
  obtain r w1 where f: "w_FindSuccessor me (CIDToNodeID (rx E) key) w = (r, w1)" by fastforce
  have "wstep w1 (put_node me (snd (store_block E key data rc ex n)) w1)" if "w_node w1 me = Some n" for n
    by (rule wstep_put [OF that nstep_store_block])
  then have "w_node w1 me = Some n \<Longrightarrow> store_block E key data rc ex n = (x, n') \<Longrightarrow>
      wstep w1 (put_node me n' w1) \<and> wstep w1 (on_node me (replicateAsync E key data rc ex) (put_node me n' w1))" for n n' x
    using wstep_trans [OF _ wstep_replicateAsync] by fastforce
  then show ?thesis
    using f wstep_found(1) [OF f]
    by (auto simp: n_PutWithRoot_def intro!: wstep_found(2) [OF f] wstep_PutBlock split: sum.split option.split prod.split)
qed

lemma wstep_fan_out: "wstep w (snd (fan_out E me key ts r w))"
proof (induction ts arbitrary: r w)
  case (Cons t ts)
  show ?case using wstep_trans [OF wstep_FetchBlock Cons.IH] by (simp add: case_prod_beta Let_def)
qed simp

lemma wstep_n_Get [step_intros]: "wstep w (snd (n_Get E sched me key w))"
proof -
  obtain r w1 where f: "w_FindSuccessor me (CIDToNodeID (rx E) key) w = (r, w1)" by fastforce
  have "w_node w1 me = Some n \<Longrightarrow> own_Get E key n = (x, n') \<Longrightarrow> wstep w1 (put_node me n' w1)" for n n' x
    using wstep_put nstep_own_Get by (metis snd_conv)
  then show ?thesis
    using f wstep_found(1) [OF f]
    by (auto simp: n_Get_def intro!: wstep_found(2) [OF f] wstep_trans [OF _ wstep_fan_out] wstep_FetchBlock
        split: sum.split option.split prod.split)
qed

lemma wstep_n_Has [step_intros]: "wstep w (snd (n_Has E me key w))"
  using wstep_FindSuccessor [of w me "CIDToNodeID (rx E) key"]
  by (simp add: n_Has_def case_prod_beta split: sum.split option.split)

lemma wstep_n_Remove [step_intros]: "wstep w (snd (n_Remove E me key w))"
proof -
  obtain r w1 where f: "w_FindSuccessor me (CIDToNodeID (rx E) key) w = (r, w1)" by fastforce
  show ?thesis
    using f wstep_found(1) [OF f]
    by (auto simp: n_Remove_def case_prod_beta Let_def intro!: wstep_found(2) [OF f] wstep_put wstep_RemoveBlock
        split: sum.split option.split)
qed

lemma wstep_RecordPut [step_intros]: "wstep w (snd (RecordPut E me key data w))"
proof -
  obtain r w1 where f: "w_FindSuccessor me key w = (r, w1)" by fastforce
  show ?thesis
    using f wstep_found(1) [OF f]
    by (auto simp: RecordPut_def intro!: wstep_found(2) [OF f] wstep_store_record wstep_PutRecord split: sum.split option.split)
qed

lemma wstep_RecordGet [step_intros]: "wstep w (snd (RecordGet E me key w))"
  using wstep_FindSuccessor [of w me key]
  by (simp add: RecordGet_def case_prod_beta split: sum.split option.split)

lemma nstep_remove_root: "nstep n (remove_root E c n)"
  by (simp add: remove_root_def split: option.split)

lemma wstep_handleDelete: "wstep w (handleDeleteCID E me c p w)"
proof (cases "w_node w me")
  case (Some n)
  have 1: "wstep w (put_node me (remove_root E c n) w)" by (rule wstep_put [OF Some nstep_remove_root])
  have 2: "wstep v (lt_DeleteCID_leaf E me c v t)" for v t
    by (auto simp: lt_DeleteCID_leaf_def intro: wstep_resolve nstep_remove_root split: sum.split)
  have "wstep w (foldl (lt_DeleteCID_leaf E me c) (put_node me (remove_root E c n) w) ts)" for ts
    by (rule wstep_trans [OF 1 wstep_foldl]) (rule 2)
  then show ?thesis using Some 1 by (simp add: handleDeleteCID_def Let_def)
qed (simp add: handleDeleteCID_def)

lemma wstep_walk_visit: "wstep w (snd (walk_visit E me c k w))"
proof -
  obtain r w1 where f: "w_FindSuccessor me (CIDToNodeID (rx E) k) w = (r, w1)" by fastforce
  show ?thesis
  proof (cases r)
    case (Inr s)
    define w2 where "w2 = (if ID s = me then handleDeleteCID E me c True w1 else lt_DeleteCID E me s c True w1)"
    have 2: "wstep w1 w2" by (simp add: w2_def lt_DeleteCID_def wstep_handleDelete split: sum.split)
    have wd: "nstep n (snd (walk_data E k n))" for n
      by (simp add: walk_data_def case_prod_beta nstep_Get nstep_trans [OF nstep_Get(1) nstep_Get(1)]
          nstep_trans [OF nstep_Get(2) nstep_Get(1)] split: sum.split)
    have "wstep w2 (put_node me (snd (walk_data E k n)) w2)" if "w_node w2 me = Some n" for n
      by (rule wstep_put [OF that wd])
    then have "wstep w1 (snd (walk_visit E me c k w))"
      using f Inr 2 wstep_trans [OF 2]
      unfolding walk_visit_def f Inr prod.case sum.case Let_def w2_def [symmetric]
      by (simp add: case_prod_beta split: sum.split option.split)
    then show ?thesis by (rule wstep_found(2) [OF f])
  qed (use f wstep_found(1) [OF f] in \<open>simp add: walk_visit_def\<close>)
qed

lemma wstep_walk:
  fixes w :: "('m, 'd, 'b, 'l) world"
  shows "deleteCIDWalk E me c stack vis w = Some r \<Longrightarrow> wstep w (snd r)"
proof (erule deleteCIDWalk.raw_induct [rotated])
  fix walk E me c stack vis r
  fix w :: "('m, 'd, 'b, 'l) world"
  assume ih: "\<And>E me c stack vis w r. walk E me c stack vis w = Some r \<Longrightarrow> wstep w (snd r)"
    and "(case stack of [] \<Rightarrow> Some (vis, w)
      | k # rest \<Rightarrow> if k \<in> set vis then walk E me c rest vis w
          else walk E me c (fst (walk_visit E me c k w) @ rest) (k # vis) (snd (walk_visit E me c k w))) = Some r"
  then show "wstep w (snd r)"
    using ih wstep_trans [OF wstep_walk_visit ih] by (auto split: list.splits if_splits)
qed

lemma wstep_DeleteCID: "n_DeleteCID E me c w = Some w' \<Longrightarrow> wstep w w'"
proof -
  assume "n_DeleteCID E me c w = Some w'"
  then obtain r where "deleteCIDWalk E me c [c] [] (on_node me (\<lambda>n. (remove_root E c n, [])) w) = Some r" "w' = snd r"
    by (auto simp: n_DeleteCID_def)
  then have 2: "wstep (on_node me (\<lambda>n. (remove_root E c n, [])) w) w'" using wstep_walk by simp
  have 1: "wstep w (on_node me (\<lambda>n. (remove_root E c n, [])) w)"
    by (rule wstep_on_node) (simp add: nstep_remove_root)
  show ?thesis by (rule wstep_trans [OF 1 2])
qed

section \<open>Membership\<close>

lemma nstep_receive: "nstep n (receive_blocks E xs n)"
  unfolding receive_blocks_def
  by (rule nstep_foldl) (simp add: receive_block_def case_prod_beta split: option.split)

lemma wstep_Join [step_intros]: "wstep w (snd (Join E me b w))"
proof -
  obtain r w1 where j: "join_route me b w = (r, w1)" by fastforce
  then have 1: "wstep w w1" using wstep_join_route [of w me b] by simp
  have rb: "wstep v (on_node me (\<lambda>n. (receive_blocks E xs n, [])) v)" for xs v
    by (rule wstep_on_node) (simp add: nstep_receive)
  have pr: "wstep v (on_node me (\<lambda>n. (put_records E kvs n, [])) v)" for kvs v
    by (rule wstep_on_node) (simp add: nstep_put_records)
  have tk: "wstep w (snd (lt_TransferKeys E me t a c w1))" for t a c
    by (rule wstep_trans [OF 1 wstep_TransferKeys])
  show ?thesis
    using j 1 tk wstep_trans [OF tk rb] wstep_trans [OF tk pr] wstep_trans [OF wstep_trans [OF tk rb] pr]
    by (simp add: Join_def case_prod_beta Let_def split: sum.split option.split)
qed

lemma nstep_pushed: "nstep n (n\<lparr>replicationsInFlight := replicationsInFlight n - 1\<rparr>)"
  by (auto simp: nstep_def node_ok_def node_wf_def)

lemma wstep_run_task [step_intros]:
  fixes w :: "('m, 'd, 'b, 'l) world"
  shows "wstep w (run_task E w it)"
proof -
  have 1: "wstep v (on_node i (\<lambda>n. (n\<lparr>replicateSlot := False\<rparr>, [])) v)" for i v
    by (rule wstep_on_node) simp
  have 2: "wstep v (on_node i (\<lambda>n. (n\<lparr>replicationsInFlight := replicationsInFlight n - 1\<rparr>, [])) v)" for i and v :: "('m, 'd, 'b, 'l) world"
    by (rule wstep_on_node) (simp only: fst_conv nstep_pushed)
  show ?thesis
    using wstep_trans [OF wstep_PushBlocks 2]
    by (simp add: run_task_def case_prod_beta wstep_trans [OF wstep_replicateToNew 1]
        wstep_transferKeysRange wstep_transferRecordsRange split: task.split)
qed

lemma wstep_same_map: "nodeMap w' = nodeMap w \<Longrightarrow> wstep w w'"
  by (simp add: wstep_def w_node_def option.rel_refl)

lemma wstep_drain [step_intros]: "wstep w (drain E P w)"
  unfolding drain_def by (rule wstep_trans [OF wstep_same_map wstep_foldl [OF wstep_run_task]]) simp

lemma wstep_Stop [step_intros]: "wstep w (Stop E me w)"
  unfolding Stop_def WaitForReplicationDrain_def by (rule wstep_trans [OF wstep_drain wstep_drain])

lemma wstep_Leave [step_intros]: "wstep w (Leave E me w)"
proof (cases "w_node w me")
  case (Some n)
  define n0 where "n0 = n\<lparr>backgroundPaused := True\<rparr>"
  define rd where "rd = (case ring_keys E n0 of Inl _ \<Rightarrow> ([], n0) | Inr ks \<Rightarrow> read_blocks E ks n0)"
  define wb where "wb = put_node me (snd rd) (put_node me n0 w)"
  define wp where "wp = (if fst rd = [] then wb else snd (lt_PushBlocks E me (successor n) (fst rd) wb))"
  define wr where "wr = (if records (recs (snd rd)) = [] then wp
    else snd (lt_PushRecords E me (successor n) (records (recs (snd rd))) wp))"
  have 0: "wstep w (put_node me n0 w)" by (rule wstep_put [OF Some]) (simp add: n0_def)
  have "nstep n0 (snd rd)" by (simp add: rd_def nstep_read split: sum.split)
  then have 1: "wstep w wb" unfolding wb_def by (intro wstep_trans [OF 0 wstep_put]) simp
  have 2: "wstep w wp" using 1 wstep_trans [OF 1 wstep_PushBlocks] by (simp add: wp_def)
  have 3: "wstep w wr" using 2 wstep_trans [OF 2 wstep_PushRecords] by (simp add: wr_def)
  have "Leave E me w = Stop E me
      (if ID (successor n) = me then put_node me n0 w else leave_route (LocalNode n) (successor n) (predecessor n) wr)"
    unfolding wr_def wp_def wb_def rd_def n0_def by (simp add: Leave_def Some Let_def case_prod_beta)
  then show ?thesis
    using wstep_trans [OF 0 wstep_Stop] wstep_trans [OF wstep_trans [OF 3 wstep_leave_route] wstep_Stop] by simp
qed (simp add: Leave_def)

section \<open>The transitions of a ring\<close>

text \<open>
  The steps of one node that call no other node.
\<close>

inductive node_step :: "('m, 'd, 'b, 'l) dnode \<Rightarrow> ('m, 'd, 'b, 'l) dnode \<Rightarrow> bool" where
  create: "node_step n (Create n)"
| set_addr: "node_step n (setAddr a n)"
| network_blocks: "node_step n (SetNetworkBlocks s n)"
| ring_id: "node_step n (SetRingID r n)"
| local_blocks: "node_step n (SetLocalBlocks l n)"
| pause: "node_step n (n\<lparr>backgroundPaused := b\<rparr>)"
| prune: "node_step n (snd (PruneOutOfWindowBlocks E n))"
| purge: "node_step n (n\<lparr>recs := purgeExpiredRecords X now (recs n)\<rparr>)"
| delete_record: "node_step n (n\<lparr>recs := snd (DeleteRecord h (recs n))\<rparr>)"

text \<open>
  One transition of a ring, at any moment and in any order: nodes appear and vanish, links break
  and heal, any node calls any operation of any other node with any argument, clients use the
  ring, the maintenance loops tick, and pending tasks run.
\<close>

inductive ring_step :: "('m, 'd, 'b, 'l) world \<Rightarrow> ('m, 'd, 'b, 'l) world \<Rightarrow> bool" where
  start: "ring_step w ((put_node i (NewDNode i a m cfg) w)\<lparr>Nodes := Nodes w @ [i]\<rparr>)"
| crash: "ring_step w (RemoveNode i w)"
| partition: "ring_step w (Partition i j w)"
| heal: "ring_step w (Heal i j w)"
| node: "w_node w i = Some n \<Longrightarrow> node_step n n' \<Longrightarrow> ring_step w (put_node i n' w)"
| task: "it \<in> set (pending w) \<Longrightarrow> ring_step w (run_task E (w\<lparr>pending := remove1 it (pending w)\<rparr>) it)"
| join: "ring_step w (snd (Join E i b w))"
| leave: "ring_step w (Leave E i w)"
| tick_stabilize: "ring_step w (stabilize i w)"
| tick_fixFinger: "ring_step w (fixFinger i w)"
| tick_checkPredecessor: "ring_step w (checkPredecessor i w)"
| find: "ring_step w (snd (w_FindSuccessor i k w))"
| put: "ring_step w (snd (n_PutWithRoot E i key data rc ex w))"
| get: "ring_step w (snd (n_Get E sched i key w))"
| has: "ring_step w (snd (n_Has E i key w))"
| remove: "ring_step w (snd (n_Remove E i key w))"
| delete: "n_DeleteCID E i c w = Some w' \<Longrightarrow> ring_step w w'"
| record_put: "ring_step w (snd (RecordPut E i k data w))"
| record_get: "ring_step w (snd (RecordGet E i k w))"
| call_Notify: "ring_step w (lt_Notify i t c w)"
| call_NotifyLeave: "ring_step w (lt_NotifyLeave i t c s p w)"
| call_PutBlock: "ring_step w (snd (lt_PutBlock E i t key data rc ex w))"
| call_FetchBlock: "ring_step w (snd (lt_FetchBlock E i t key w))"
| call_RemoveBlock: "ring_step w (snd (lt_RemoveBlock E i t key w))"
| call_PushBlocks: "ring_step w (snd (lt_PushBlocks E i t xs w))"
| call_TransferKeys: "ring_step w (snd (lt_TransferKeys E i t a b w))"
| call_PushRecords: "ring_step w (snd (lt_PushRecords E i t kvs w))"
| call_PutRecord: "ring_step w (snd (lt_PutRecord E i t k data c w))"
| call_DeleteCID: "ring_step w (lt_DeleteCID E i t c pr w)"

definition reachable :: "('m, 'd, 'b, 'l) world \<Rightarrow> bool" where
  "reachable w \<longleftrightarrow> ring_step\<^sup>*\<^sup>* NewTestRing w"

lemma node_ok_new: "node_id (NewDNode i a m cfg) = i" "node_ok (NewDNode i a m cfg)"
  using node_wf_NewNode [of i a cfg] rec_inv_new [of cfg]
  by (simp_all add: node_ok_def NewDNode_def node.defs dnode.defs node_wf_def NewNode_def Let_def cfg_successorListSize_def)

lemma nstep_Create: "nstep n (Create n)"
proof -
  have "nstep n (n\<lparr>successor := s, successorList := [s], predecessor := None, fingers := replicate (length (fingers n)) s\<rparr>)" for s
    using nstep_single [of n s s] by (simp add: nstep_def node_ok_def node_wf_def)
  then show ?thesis by (simp add: Create_def Let_def)
qed

lemma nstep_setAddr: "nstep n (setAddr a n)"
proof -
  let ?sw = "\<lambda>s. if s = LocalNode n then \<lparr>ID = node_id n, Addr = a\<rparr> else s"
  have sw: "ID (?sw s) = ID s" for s by (simp add: LocalNode_def)
  have l: "successorList (setAddr a n) = map ?sw (successorList n)" by (simp add: setAddr_def Let_def)
  have "filter (\<lambda>s. ID s \<noteq> node_id n) (map ?sw (successorList n)) = map ?sw (filter (\<lambda>s. ID s \<noteq> node_id n) (successorList n))"
    unfolding filter_map o_def sw by (rule refl)
  then have f: "length (filter (\<lambda>s. ID s \<noteq> node_id n) (successorList (setAddr a n))) =
      length (filter (\<lambda>s. ID s \<noteq> node_id n) (successorList n))" "length (successorList (setAddr a n)) = length (successorList n)"
    unfolding l by (simp_all only: length_map)
  have g: "node_id (setAddr a n) = node_id n" "successorListSize (setAddr a n) = successorListSize n"
    "recs (setAddr a n) = recs n" "replicationsInFlight (setAddr a n) = replicationsInFlight n"
    by (simp_all add: setAddr_def Let_def)
  show ?thesis unfolding nstep_def node_ok_def f g by (blast intro: node_wf_setAddr)
qed

lemma node_step_nstep: "node_step n n' \<Longrightarrow> nstep n n'"
proof (induction rule: node_step.induct)
  case (purge n X now)
  show ?case by (rule nstep_recs) (rule rec_inv_purge)
next
  case (delete_record n h)
  show ?case by (rule nstep_recs) (rule rec_inv_DeleteRecord)
next
  case (create n)
  show ?case by (rule nstep_Create)
next
  case (set_addr n a)
  show ?case by (rule nstep_setAddr)
next
  case (prune n E)
  show ?case by (rule nstep_prune)
qed (simp_all only: SetNetworkBlocks_def SetRingID_def SetLocalBlocks_def nstep_blocks)

definition world_ok :: "('m, 'd, 'b, 'l) world \<Rightarrow> bool" where
  "world_ok w \<longleftrightarrow> (\<forall>i n. w_node w i = Some n \<longrightarrow> node_id n = i \<and> node_ok n)"

lemma world_ok_wstep: "wstep w w' \<Longrightarrow> world_ok w \<Longrightarrow> world_ok w'"
  unfolding world_ok_def
proof (intro allI impI)
  fix i n'
  assume w: "wstep w w'" "\<forall>i n. w_node w i = Some n \<longrightarrow> node_id n = i \<and> node_ok n" and n': "w_node w' i = Some n'"
  obtain n where "w_node w i = Some n" "nstep n n'" using wstepD [OF w(1) n'] .
  then show "node_id n' = i \<and> node_ok n'" using w(2) by (auto simp: nstep_def)
qed

lemmas world_ok_steps = step_intros [THEN world_ok_wstep]

lemma world_ok_step: "ring_step w w' \<Longrightarrow> world_ok w \<Longrightarrow> world_ok w'"
proof (induction rule: ring_step.induct)
  case (start w i a m cfg)
  have put: "world_ok (put_node i n w)" if "node_id n = i" "node_ok n" for n
    using start that by (auto simp: world_ok_def)
  have "world_ok (put_node i (NewDNode i a m cfg) w)" by (rule put) (rule node_ok_new)+
  then show ?case by (rule world_ok_wstep [OF wstep_same_map, rotated]) simp
next
  case (crash w i)
  have "w_node w j = Some n" if "w_node (RemoveNode i w) j = Some n" for j n
    using that by (simp add: RemoveNode_def w_node_def split: if_splits)
  then show ?case using crash unfolding world_ok_def by blast
next
  case (node w i n n')
  show ?case by (rule world_ok_wstep [OF wstep_put [OF node(1) node_step_nstep [OF node(2)]] node(3)])
next
  case (delete E i c w w')
  show ?case by (rule world_ok_wstep [OF wstep_DeleteCID [OF delete(1)] delete(2)])
next
  case (task it w E)
  show ?case by (rule world_ok_wstep [OF wstep_trans [OF wstep_same_map wstep_run_task] task(2)]) simp
next
  case (call_DeleteCID w E i t c pr)
  have "wstep w (lt_DeleteCID E i t c pr w)" by (simp add: lt_DeleteCID_def wstep_handleDelete split: sum.split)
  then show ?case using call_DeleteCID by (rule world_ok_wstep)
next
  case (partition w i j)
  then show ?case by (rule world_ok_wstep [OF wstep_same_map, rotated]) (simp add: Partition_def)
next
  case (heal w i j)
  then show ?case by (rule world_ok_wstep [OF wstep_same_map, rotated]) (simp add: Heal_def)
qed (erule world_ok_steps)+

text \<open>
  C24. Types of every reachable ring. From the empty ring, by any sequence of starts, crashes,
  partitions, heals, joins, leaves, client calls, calls from other nodes with arbitrary
  arguments, maintenance ticks and background tasks, every node stored under an ID has that
  ID, 160 fingers and a finger cursor below 160, a predecessor list without repetitions, at most
  \<open>successorListSize\<close> successors other than itself, record maps with unique keys whose metadata
  belongs to stored records, and at most 64 replication pushes in flight.
\<close>

theorem ring_types:
  assumes "reachable w" "w_node w i = Some n"
  shows "node_id n = i \<and> node_ok n"
proof -
  have "ring_step\<^sup>*\<^sup>* NewTestRing w" using assms(1) by (simp add: reachable_def)
  then have "world_ok w"
  proof (induction rule: rtranclp_induct)
    case base
    show ?case by (simp add: world_ok_def NewTestRing_def w_node_def)
  qed (rule world_ok_step)
  then show ?thesis using assms(2) by (simp add: world_ok_def)
qed

definition two_nodes :: "(testMemStore, unit, unit, unit) world" where
  "two_nodes =
     (let a = testNodeID 10; b = testNodeID 20;
          start = (\<lambda>i w. (put_node i (NewDNode i ''test'' [] (test_config 2)) w)\<lparr>Nodes := Nodes w @ [i]\<rparr>);
          w1 = start a NewTestRing
      in stabilize a (Partition a b (start b (put_node a (Create (NewDNode a ''test'' [] (test_config 2))) w1))))"

lemma two_nodes_reachable: "reachable two_nodes"
proof -
  define a b where "a = testNodeID 10" and "b = testNodeID 20"
  define st :: "NodeID \<Rightarrow> (testMemStore, unit, unit, unit) world \<Rightarrow> _" where
    "st = (\<lambda>i w. (put_node i (NewDNode i ''test'' [] (test_config 2)) w)\<lparr>Nodes := Nodes w @ [i]\<rparr>)"
  define w2 where "w2 = put_node a (Create (NewDNode a ''test'' [] (test_config 2))) (st a NewTestRing)"
  have s: "ring_step w (st i w)" for w i unfolding st_def by (rule start)
  have "w_node (st a NewTestRing) a = Some (NewDNode a ''test'' [] (test_config 2))"
    by (simp add: st_def w_node_def put_node_def)
  then have c: "ring_step (st a NewTestRing) w2" unfolding w2_def by (rule node) (rule create)
  have "two_nodes = stabilize a (Partition a b (st b w2))"
    by (simp only: two_nodes_def Let_def w2_def st_def a_def b_def)
  then have "ring_step\<^sup>*\<^sup>* (st a NewTestRing) two_nodes"
    using c s [of w2 b] partition [of "st b w2" a b] tick_stabilize [of "Partition a b (st b w2)" a]
    by (metis (no_types, lifting) converse_rtranclp_into_rtranclp r_into_rtranclp)
  then show ?thesis unfolding reachable_def by (rule converse_rtranclp_into_rtranclp [of ring_step, OF s [of NewTestRing a]])
qed

theorem ring_types_witness:
  "\<exists>n. w_node two_nodes (testNodeID 10) = Some n \<and> node_id n = testNodeID 10 \<and> node_ok n"
proof -
  have "w_node two_nodes (testNodeID 10) \<noteq> None" by code_simp
  then show ?thesis using ring_types [OF two_nodes_reachable] by fastforce
qed

end
