(* ===== verification/Root_Registry.thy ===== *)
theory Root_Registry
  imports Net_GC Record_Store
begin

text \<open>
  The registry of local roots (\<open>store/roots.go\<close>): one CBOR record per root and two index
  entries, by CID and by name, in a key-value store.

  The key-value store and its batches, the CBOR codec and the CID library are the fields of the
  record \<open>renv\<close>; \<open>uuid.New\<close> and the clock are arguments of \<open>Add\<close>. \<open>url.PathEscape\<close> and the
  functions of \<open>strings\<close> belong to the standard library and are defined here.
\<close>

section \<open>Strings\<close>

text \<open>\<open>url.PathEscape\<close>: what a path segment may hold stays, every other byte becomes \<open>%XX\<close>.\<close>

definition path_safe :: "char \<Rightarrow> bool" where
  "path_safe c \<longleftrightarrow> (let b = (of_char c :: nat) in
     97 \<le> b \<and> b \<le> 122 \<or> 65 \<le> b \<and> b \<le> 90 \<or> 48 \<le> b \<and> b \<le> 57 \<or> c \<in> set ''-_.~$&+:=@'')"

definition upper_hex :: "nat \<Rightarrow> char" where
  "upper_hex d = (if d < 10 then char_of (48 + d) else char_of (55 + d))"

definition escape_byte :: "char \<Rightarrow> string" where
  "escape_byte c =
     (if path_safe c then [c]
      else [CHR ''%'', upper_hex (of_char c div 16), upper_hex (of_char c mod 16)])"

definition PathEscape :: "string \<Rightarrow> string" where
  "PathEscape s = concat (map escape_byte s)"

text \<open>\<open>strings.Split\<close> with a separator of one byte, and \<open>strings.TrimRight\<close>.\<close>

fun str_Split :: "char \<Rightarrow> string \<Rightarrow> string list" where
  "str_Split c [] = [[]]"
| "str_Split c (x # xs) =
     (if x = c then [] # str_Split c xs
      else case str_Split c xs of [] \<Rightarrow> [[x]] | y # ys \<Rightarrow> (x # y) # ys)"

definition str_TrimRight :: "char \<Rightarrow> string \<Rightarrow> string" where
  "str_TrimRight c s = rev (dropWhile (\<lambda>x. x = c) (rev s))"

text \<open>\<open>NameIno\<close>: the 64-bit FNV-1a hash of a name, with wrap-around.\<close>

definition NameIno :: "string \<Rightarrow> 64 word" where
  "NameIno name =
     foldl (\<lambda>h c. (h XOR of_nat (of_char c)) * 1099511628211) 14695981039346656037 name"

section \<open>Data\<close>

record Root =
  r_ID :: string
  r_Name :: string
  r_CID :: cid
  r_Path :: string
  r_AddedAt :: int

record rootRecord =
  rr_ID :: string
  rr_Name :: string
  rr_CID :: bytes
  rr_Path :: string
  rr_AddedAt :: "64 word"

definition zero_Root :: Root where
  "zero_Root = \<lparr>r_ID = [], r_Name = [], r_CID = Undef, r_Path = [], r_AddedAt = zero_Time\<rparr>"

datatype batch_op = BPut string bytes | BDelete string

text \<open>
  \<open>r_Get\<close> answers \<open>Inr None\<close> for \<open>datastore.ErrNotFound\<close>; \<open>r_bat\<close> is what \<open>batch.Put\<close> or
  \<open>batch.Delete\<close> returns for an operation after the operations already in the batch.
\<close>

record 'd renv =
  r_NewKey :: "string \<Rightarrow> string"
  r_Get :: "string \<Rightarrow> 'd \<Rightarrow> bytes option res"
  r_Query :: "string \<Rightarrow> bool \<Rightarrow> 'd \<Rightarrow> (string \<times> bytes) res list res"
  r_Batch :: "'d \<Rightarrow> err option"
  r_bat :: "batch_op list \<Rightarrow> batch_op \<Rightarrow> err option"
  r_Commit :: "batch_op list \<Rightarrow> 'd \<Rightarrow> err option \<times> 'd"
  rec_Marshal :: "rootRecord \<Rightarrow> bytes res"
  rec_Unmarshal :: "bytes \<Rightarrow> rootRecord res"
  cid_Bytes :: "cid \<Rightarrow> bytes"
  cid_Cast :: "bytes \<Rightarrow> cid res"
  r_cidString :: "cid \<Rightarrow> string"

abbreviation prefixRec :: string where "prefixRec \<equiv> ''/roots/rec/''"
abbreviation prefixIdxCID :: string where "prefixIdxCID \<equiv> ''/roots/idx/cid/''"
abbreviation prefixIdxName :: string where "prefixIdxName \<equiv> ''/roots/idx/name/''"

definition recKey :: "'d renv \<Rightarrow> string \<Rightarrow> string" where
  "recKey E i = r_NewKey E (prefixRec @ i)"

definition cidIdxKey :: "'d renv \<Rightarrow> string \<Rightarrow> string \<Rightarrow> string" where
  "cidIdxKey E cidStr i = r_NewKey E (prefixIdxCID @ cidStr @ ''/'' @ i)"

definition nameIdxKey :: "'d renv \<Rightarrow> string \<Rightarrow> string \<Rightarrow> string" where
  "nameIdxKey E name i = r_NewKey E (prefixIdxName @ PathEscape name @ ''/'' @ i)"

text \<open>\<open>UnixNano\<close> is a signed 64-bit count of nanoseconds.\<close>

definition root_record :: "'d renv \<Rightarrow> Root \<Rightarrow> rootRecord" where
  "root_record E root =
     \<lparr>rr_ID = r_ID root, rr_Name = r_Name root, rr_CID = cid_Bytes E (r_CID root),
      rr_Path = r_Path root, rr_AddedAt = word_of_int (r_AddedAt root)\<rparr>"

definition encodeRecord :: "'d renv \<Rightarrow> Root \<Rightarrow> bytes res" where
  "encodeRecord E root = rec_Marshal E (root_record E root)"

definition decodeRecord :: "'d renv \<Rightarrow> bytes \<Rightarrow> Root res" where
  "decodeRecord E data =
     (case rec_Unmarshal E data of
        Inl e \<Rightarrow> Inl e
      | Inr rec \<Rightarrow>
          (case cid_Cast E (rr_CID rec) of
             Inl e \<Rightarrow> Inl (Wrap ''invalid CID bytes'' e)
           | Inr c \<Rightarrow> Inr \<lparr>r_ID = rr_ID rec, r_Name = rr_Name rec, r_CID = c, r_Path = rr_Path rec,
                          r_AddedAt = sint (rr_AddedAt rec)\<rparr>))"

section \<open>Reading\<close>

definition GetByID :: "'d renv \<Rightarrow> string \<Rightarrow> 'd \<Rightarrow> Root option res" where
  "GetByID E i d =
     (case r_Get E (recKey E i) d of
        Inl e \<Rightarrow> Inl e
      | Inr None \<Rightarrow> Inr None
      | Inr (Some data) \<Rightarrow> (case decodeRecord E data of Inl e \<Rightarrow> Inl e | Inr root \<Rightarrow> Inr (Some root)))"

definition last_part :: "string \<Rightarrow> string" where
  "last_part key = last (str_Split (CHR ''/'') (str_TrimRight (CHR ''/'') key))"

fun index_loop :: "'d renv \<Rightarrow> (string \<times> bytes) res list \<Rightarrow> 'd \<Rightarrow> Root list res" where
  "index_loop E [] d = Inr []"
| "index_loop E (Inl e # rs) d = Inl e"
| "index_loop E (Inr (key, _) # rs) d =
     (case GetByID E (last_part key) d of
        Inl e \<Rightarrow> Inl e
      | Inr None \<Rightarrow> index_loop E rs d
      | Inr (Some root) \<Rightarrow> (case index_loop E rs d of Inl e \<Rightarrow> Inl e | Inr roots \<Rightarrow> Inr (root # roots)))"

definition queryByIndexPrefix :: "'d renv \<Rightarrow> string \<Rightarrow> 'd \<Rightarrow> Root list res" where
  "queryByIndexPrefix E pre d =
     (case r_Query E pre True d of Inl e \<Rightarrow> Inl e | Inr rs \<Rightarrow> index_loop E rs d)"

definition GetByCID :: "'d renv \<Rightarrow> cid \<Rightarrow> 'd \<Rightarrow> Root list res" where
  "GetByCID E c d = queryByIndexPrefix E (prefixIdxCID @ r_cidString E c @ ''/'') d"

definition GetByName :: "'d renv \<Rightarrow> string \<Rightarrow> 'd \<Rightarrow> Root list res" where
  "GetByName E name d = queryByIndexPrefix E (prefixIdxName @ PathEscape name @ ''/'') d"

definition root_List :: "'d renv \<Rightarrow> 'd \<Rightarrow> Root list" where
  "root_List E d =
     (case r_Query E prefixRec False d of
        Inl _ \<Rightarrow> []
      | Inr rs \<Rightarrow> ok_results (map (\<lambda>(_, data). decodeRecord E data) (ok_results rs)))"

section \<open>Writing\<close>

text \<open>The operations of a batch one after the other, then the commit.\<close>

fun bat_errs :: "'d renv \<Rightarrow> batch_op list \<Rightarrow> batch_op list \<Rightarrow> err option" where
  "bat_errs E done [] = None"
| "bat_errs E done (x # ops) =
     (case r_bat E done x of Some e \<Rightarrow> Some e | None \<Rightarrow> bat_errs E (done @ [x]) ops)"

definition run_batch :: "'d renv \<Rightarrow> batch_op list \<Rightarrow> 'd \<Rightarrow> err option \<times> 'd" where
  "run_batch E ops d =
     (case r_Batch E d of
        Some e \<Rightarrow> (Some e, d)
      | None \<Rightarrow> (case bat_errs E [] ops of Some e \<Rightarrow> (Some e, d) | None \<Rightarrow> r_Commit E ops d))"

definition root_Add :: "'d renv \<Rightarrow> string \<Rightarrow> int \<Rightarrow> Root \<Rightarrow> 'd \<Rightarrow> (Root \<times> err option) \<times> 'd" where
  "root_Add E uid now root0 d =
     (case GetByCID E (r_CID root0) d of
        Inl e \<Rightarrow> ((zero_Root, Some e), d)
      | Inr (x # _) \<Rightarrow> ((x, Some ErrAlreadyTracked), d)
      | Inr [] \<Rightarrow>
          (let root = root0\<lparr>r_ID := uid,
                 r_AddedAt := (if r_AddedAt root0 = zero_Time then now else r_AddedAt root0)\<rparr>
           in case encodeRecord E root of
                Inl e \<Rightarrow> ((zero_Root, Some e), d)
              | Inr data \<Rightarrow>
                  (case run_batch E
                      [BPut (recKey E uid) data,
                       BPut (cidIdxKey E (r_cidString E (r_CID root)) uid) [],
                       BPut (nameIdxKey E (r_Name root) uid) []] d of
                     (Some e, d') \<Rightarrow> ((zero_Root, Some e), d')
                   | (None, d') \<Rightarrow> ((root, None), d'))))"

definition root_Remove :: "'d renv \<Rightarrow> string \<Rightarrow> 'd \<Rightarrow> err option \<times> 'd" where
  "root_Remove E i d =
     (case GetByID E i d of
        Inl e \<Rightarrow> (Some e, d)
      | Inr None \<Rightarrow> (Some ErrNotFound, d)
      | Inr (Some root) \<Rightarrow>
          run_batch E
            [BDelete (recKey E i),
             BDelete (cidIdxKey E (r_cidString E (r_CID root)) i),
             BDelete (nameIdxKey E (r_Name root) i)] d)"

definition root_Rename :: "'d renv \<Rightarrow> string \<Rightarrow> string \<Rightarrow> 'd \<Rightarrow> err option \<times> 'd" where
  "root_Rename E i newName d =
     (if newName = [] then (Some (Errorf ''name must not be empty''), d)
      else
        case GetByID E i d of
          Inl e \<Rightarrow> (Some e, d)
        | Inr None \<Rightarrow> (Some ErrNotFound, d)
        | Inr (Some root) \<Rightarrow>
            (case encodeRecord E (root\<lparr>r_Name := newName\<rparr>) of
               Inl e \<Rightarrow> (Some e, d)
             | Inr data \<Rightarrow>
                 run_batch E
                   [BPut (recKey E i) data,
                    BDelete (nameIdxKey E (r_Name root) i),
                    BPut (nameIdxKey E newName i) []] d))"

section \<open>Escaping and splitting\<close>

lemma of_char_bound: "of_char c < (256::nat)"
  using mod_less_divisor [of 256 "of_char c :: nat"] by (simp only: of_char_mod_256 zero_less_numeral)

lemma upper_hex_inj: "a < 16 \<Longrightarrow> b < 16 \<Longrightarrow> upper_hex a = upper_hex b \<Longrightarrow> a = b"
  by (auto simp: upper_hex_def split: if_splits dest!: arg_cong [where f = "of_char :: char \<Rightarrow> nat"])

lemma escape_byte_safe: "set (escape_byte c) \<subseteq> Collect path_safe \<union> {CHR ''%''}"
proof -
  have "path_safe (upper_hex d)" if "d < 16" for d
    using that by (auto simp: upper_hex_def path_safe_def Let_def)
  moreover have "of_char c div 16 < (16::nat)" using of_char_bound [of c] by (simp add: less_mult_imp_div_less)
  ultimately show ?thesis by (auto simp: escape_byte_def)
qed

lemma escape_byte_inj:
  assumes "escape_byte a @ x = escape_byte b @ y"
  shows "a = b \<and> x = y"
proof -
  have pc: "\<not> path_safe (CHR ''%'')" by (simp add: path_safe_def)
  have hex: "a = b" if "upper_hex (of_char a div 16) = upper_hex (of_char b div 16)"
    "upper_hex (of_char a mod 16) = upper_hex (of_char b mod 16)"
  proof -
    have lt: "of_char c div 16 < (16::nat)" for c using of_char_bound [of c] by (simp add: less_mult_imp_div_less)
    have "of_char a div 16 = (of_char b div 16 :: nat)" "of_char a mod 16 = (of_char b mod 16 :: nat)"
      using upper_hex_inj [OF lt lt that(1)] upper_hex_inj [OF _ _ that(2)] by simp_all
    then have "(of_char a :: nat) = of_char b" by (metis div_mult_mod_eq)
    then show ?thesis by simp
  qed
  show ?thesis
    using assms pc hex by (auto simp: escape_byte_def split: if_splits)
qed

lemma PathEscape_simps [simp]: "PathEscape [] = []" "PathEscape (c # s) = escape_byte c @ PathEscape s"
  by (simp_all add: PathEscape_def)

lemma escape_byte_ne [simp]: "escape_byte c \<noteq> []"
  by (simp add: escape_byte_def)

lemma PathEscape_inj: "PathEscape s = PathEscape t \<longleftrightarrow> s = t"
proof
  show "PathEscape s = PathEscape t \<Longrightarrow> s = t"
  proof (induction s arbitrary: t)
    case Nil
    then show ?case by (cases t) simp_all
  next
    case (Cons c s)
    then obtain b u where t: "t = b # u" by (cases t) simp_all
    then show ?case using Cons escape_byte_inj [of c "PathEscape s" b "PathEscape u"] by simp
  qed
qed simp

text \<open>
  \<open>utf8.ValidString\<close>: CBOR text strings are UTF-8, and the decoder refuses a text string that is
  not. A name that is empty, \<open>.\<close> or \<open>..\<close> is not a path segment: \<open>NewKey\<close> cleans it away.
\<close>

definition utf8_cont :: "nat \<Rightarrow> bool" where "utf8_cont b \<longleftrightarrow> 128 \<le> b \<and> b < 192"

fun utf8_bytes :: "nat list \<Rightarrow> bool" where
  "utf8_bytes [] \<longleftrightarrow> True"
| "utf8_bytes (b # bs) \<longleftrightarrow>
     (if b < 128 then utf8_bytes bs
      else if 194 \<le> b \<and> b < 224
      then (case bs of c # r \<Rightarrow> utf8_cont c \<and> utf8_bytes r | [] \<Rightarrow> False)
      else if 224 \<le> b \<and> b < 240
      then (case bs of c # d # r \<Rightarrow> utf8_cont c \<and> utf8_cont d \<and> (b = 224 \<longrightarrow> 160 \<le> c) \<and> (b = 237 \<longrightarrow> c < 160) \<and> utf8_bytes r
         | _ \<Rightarrow> False)
      else if 240 \<le> b \<and> b < 245
      then (case bs of c # d # e # r \<Rightarrow> utf8_cont c \<and> utf8_cont d \<and> utf8_cont e \<and> (b = 240 \<longrightarrow> 144 \<le> c) \<and> (b = 244 \<longrightarrow> c < 144) \<and> utf8_bytes r
         | _ \<Rightarrow> False)
      else False)"

definition utf8_valid :: "string \<Rightarrow> bool" where "utf8_valid s \<longleftrightarrow> utf8_bytes (map of_char s)"

definition text_record :: "rootRecord \<Rightarrow> bool" where
  "text_record r \<longleftrightarrow> utf8_valid (rr_ID r) \<and> utf8_valid (rr_Name r) \<and> utf8_valid (rr_Path r)"

definition name_ok :: "string \<Rightarrow> bool" where
  "name_ok s \<longleftrightarrow> s \<noteq> [] \<and> s \<noteq> ''.'' \<and> s \<noteq> ''..'' \<and> utf8_valid s"

lemma PathEscape_seg: "name_ok s \<Longrightarrow> seg_ok (PathEscape s)"
proof -
  assume s: "name_ok s"
  have "set (PathEscape s) \<subseteq> Collect path_safe \<union> {CHR ''%''}"
    using escape_byte_safe by (fastforce simp: PathEscape_def)
  moreover have "\<not> path_safe (CHR ''/'')" by (simp add: path_safe_def)
  ultimately have "CHR ''/'' \<notin> set (PathEscape s)" by auto
  moreover have "PathEscape [] = []" "PathEscape ''.'' = ''.''" "PathEscape ''..'' = ''..''"
    by (simp_all add: escape_byte_def path_safe_def)
  ultimately show ?thesis using s PathEscape_inj unfolding seg_ok_def name_ok_def by metis
qed

lemma str_Split_ne [simp]: "str_Split c s \<noteq> []"
  by (induction s) (auto split: list.split)

lemma str_Split_plain: "c \<notin> set s \<Longrightarrow> str_Split c s = [s]"
  by (induction s) auto

lemma str_Split_last: "c \<notin> set b \<Longrightarrow> last (str_Split c (a @ c # b)) = b"
proof (induction a)
  case Nil
  then show ?case by (simp add: str_Split_plain)
next
  case (Cons x a)
  obtain y ys where s: "str_Split c (a @ c # b) = y # ys" using str_Split_ne by (metis neq_Nil_conv)
  have "ys \<noteq> []"
  proof -
    have "2 \<le> length (str_Split c (a @ c # b))"
      by (induction a) (auto simp: Suc_le_eq split: list.split)
    then show ?thesis using s by auto
  qed
  then show ?case using Cons s by auto
qed

lemma last_part_join [simp]: "seg_ok i \<Longrightarrow> last_part (p @ CHR ''/'' # i) = i"
proof -
  assume i: "seg_ok i"
  then obtain xs x where e: "i = xs @ [x]" by (metis append_butlast_last_id seg_ok_def)
  then have "x \<noteq> CHR ''/''" using i by auto
  then have "str_TrimRight (CHR ''/'') (p @ CHR ''/'' # i) = p @ CHR ''/'' # i" by (simp add: str_TrimRight_def e)
  then show ?thesis using i by (simp add: last_part_def str_Split_last seg_okD)
qed

section \<open>What the registry relies on\<close>

definition apply_op :: "(string \<rightharpoonup> bytes) \<Rightarrow> batch_op \<Rightarrow> (string \<rightharpoonup> bytes)" where
  "apply_op m x = (case x of BPut k v \<Rightarrow> m(k \<mapsto> v) | BDelete k \<Rightarrow> m(k := None))"

text \<open>
  A reliable key-value store and the codecs: \<open>NewKey\<close> keeps clean paths, a query returns the
  entries below a clean prefix, a batch is applied in order, CBOR and CIDs decode to what was
  encoded, and the text of a CID is a usable path segment that identifies it.
\<close>

definition reg_laws :: "'d renv \<Rightarrow> ('d \<Rightarrow> string \<rightharpoonup> bytes) \<Rightarrow> bool" where
  "reg_laws E A \<longleftrightarrow>
     (\<forall>xs. xs \<noteq> [] \<and> (\<forall>x \<in> set xs. seg_ok x) \<longrightarrow> r_NewKey E (join xs) = join xs) \<and>
     (\<forall>k d. r_Get E k d = Inr (A d k)) \<and>
     (\<forall>p ko d. clean_prefix p \<longrightarrow> (\<exists>xs. r_Query E p ko d = Inr (map Inr xs) \<and> distinct (map fst xs) \<and>
        fst ` set xs = {k. A d k \<noteq> None \<and> has_prefix k p} \<and>
        (\<not> ko \<longrightarrow> (\<forall>(k, v) \<in> set xs. A d k = Some v)))) \<and>
     (\<forall>d. r_Batch E d = None) \<and> (\<forall>ops x. r_bat E ops x = None) \<and>
     (\<forall>ops d. fst (r_Commit E ops d) = None \<and> A (snd (r_Commit E ops d)) = foldl apply_op (A d) ops) \<and>
     (\<forall>rec. text_record rec \<longrightarrow> (\<exists>v. rec_Marshal E rec = Inr v \<and> rec_Unmarshal E v = Inr rec)) \<and>
     (\<forall>c. Defined c \<longrightarrow> cid_Cast E (cid_Bytes E c) = Inr c \<and> seg_ok (r_cidString E c)) \<and>
     (\<forall>c c'. Defined c \<and> Defined c' \<and> r_cidString E c = r_cidString E c' \<longrightarrow> c = c')"

lemma reg_lawsD:
  assumes "reg_laws E A"
  shows "xs \<noteq> [] \<Longrightarrow> (\<And>x. x \<in> set xs \<Longrightarrow> seg_ok x) \<Longrightarrow> r_NewKey E (join xs) = join xs"
    "r_Get E k d = Inr (A d k)"
    "clean_prefix p \<Longrightarrow> \<exists>ys. r_Query E p ko d = Inr (map Inr ys) \<and> distinct (map fst ys) \<and>
        fst ` set ys = {k. A d k \<noteq> None \<and> has_prefix k p} \<and>
        (\<not> ko \<longrightarrow> (\<forall>(k, v) \<in> set ys. A d k = Some v))"
    "r_Batch E d = None" "r_bat E ops x = None"
    "fst (r_Commit E ops d) = None" "A (snd (r_Commit E ops d)) = foldl apply_op (A d) ops"
    "text_record rec \<Longrightarrow> \<exists>v. rec_Marshal E rec = Inr v \<and> rec_Unmarshal E v = Inr rec"
    "Defined c \<Longrightarrow> cid_Cast E (cid_Bytes E c) = Inr c" "Defined c \<Longrightarrow> seg_ok (r_cidString E c)"
    "Defined c \<Longrightarrow> Defined c' \<Longrightarrow> r_cidString E c = r_cidString E c' \<longleftrightarrow> c = c'"
proof -
  note L1 = assms [unfolded reg_laws_def]
  note L2 = L1 [THEN conjunct2] note L3 = L2 [THEN conjunct2] note L4 = L3 [THEN conjunct2]
  note L5 = L4 [THEN conjunct2] note L6 = L5 [THEN conjunct2] note L7 = L6 [THEN conjunct2]
  note L8 = L7 [THEN conjunct2] note L9 = L8 [THEN conjunct2]
  show "xs \<noteq> [] \<Longrightarrow> (\<And>x. x \<in> set xs \<Longrightarrow> seg_ok x) \<Longrightarrow> r_NewKey E (join xs) = join xs"
    using L1 [THEN conjunct1, THEN spec, of xs] by blast
  show "r_Get E k d = Inr (A d k)" using L2 [THEN conjunct1, THEN spec, THEN spec] .
  show "clean_prefix p \<Longrightarrow> \<exists>ys. r_Query E p ko d = Inr (map Inr ys) \<and> distinct (map fst ys) \<and>
        fst ` set ys = {k. A d k \<noteq> None \<and> has_prefix k p} \<and>
        (\<not> ko \<longrightarrow> (\<forall>(k, v) \<in> set ys. A d k = Some v))"
    using L3 [THEN conjunct1, THEN spec, THEN spec, THEN spec, THEN mp] .
  show "r_Batch E d = None" using L4 [THEN conjunct1, THEN spec] .
  show "r_bat E ops x = None" using L5 [THEN conjunct1, THEN spec, THEN spec] .
  show "fst (r_Commit E ops d) = None" "A (snd (r_Commit E ops d)) = foldl apply_op (A d) ops"
    using L6 [THEN conjunct1, THEN spec, THEN spec, of ops d] by blast+
  show "text_record rec \<Longrightarrow> \<exists>v. rec_Marshal E rec = Inr v \<and> rec_Unmarshal E v = Inr rec"
    using L7 [THEN conjunct1, THEN spec, THEN mp] .
  show "Defined c \<Longrightarrow> cid_Cast E (cid_Bytes E c) = Inr c" "Defined c \<Longrightarrow> seg_ok (r_cidString E c)"
    using L8 [THEN conjunct1, THEN spec, of c] by blast+
  show "Defined c \<Longrightarrow> Defined c' \<Longrightarrow> r_cidString E c = r_cidString E c' \<longleftrightarrow> c = c'"
    using L9 [THEN spec, THEN spec, of c c'] by blast
qed

text \<open>The records the code can store: identifiers and names that are path segments, UTF-8 text, and a time in range.\<close>

definition root_ok :: "Root \<Rightarrow> bool" where
  "root_ok r \<longleftrightarrow> seg_ok (r_ID r) \<and> utf8_valid (r_ID r) \<and> name_ok (r_Name r) \<and> utf8_valid (r_Path r) \<and> Defined (r_CID r) \<and>
     - (2 ^ 63) \<le> r_AddedAt r \<and> r_AddedAt r < 2 ^ 63"

section \<open>Representation\<close>

text \<open>The entries of one root, and the key-value map that stands for a list of roots.\<close>

definition rec_path :: "Root \<Rightarrow> string" where "rec_path r = join [''roots'', ''rec'', r_ID r]"

definition cid_path :: "'d renv \<Rightarrow> Root \<Rightarrow> string" where
  "cid_path E r = join [''roots'', ''idx'', ''cid'', r_cidString E (r_CID r), r_ID r]"

definition name_path :: "Root \<Rightarrow> string" where
  "name_path r = join [''roots'', ''idx'', ''name'', PathEscape (r_Name r), r_ID r]"

definition record_bytes :: "'d renv \<Rightarrow> Root \<Rightarrow> bytes" where
  "record_bytes E r = (case encodeRecord E r of Inr v \<Rightarrow> v | Inl _ \<Rightarrow> [])"

definition reg_entries :: "'d renv \<Rightarrow> Root \<Rightarrow> string \<rightharpoonup> bytes" where
  "reg_entries E r = [rec_path r \<mapsto> record_bytes E r, cid_path E r \<mapsto> [], name_path r \<mapsto> []]"

definition reg_rel :: "'d renv \<Rightarrow> ('d \<Rightarrow> string \<rightharpoonup> bytes) \<Rightarrow> Root list \<Rightarrow> 'd \<Rightarrow> bool" where
  "reg_rel E A rs d \<longleftrightarrow> distinct (map r_ID rs) \<and> distinct (map r_CID rs) \<and> (\<forall>r \<in> set rs. root_ok r) \<and>
     (\<forall>k v. A d k = Some v \<longleftrightarrow> (\<exists>r \<in> set rs. reg_entries E r k = Some v))"

lemma seg_lits: "seg_ok ''roots''" "seg_ok ''rec''" "seg_ok ''idx''" "seg_ok ''cid''" "seg_ok ''name''"
  by (simp_all add: seg_ok_def)

lemma root_keys:
  assumes "reg_laws E A" "root_ok r"
  shows "recKey E (r_ID r) = rec_path r" "cidIdxKey E (r_cidString E (r_CID r)) (r_ID r) = cid_path E r"
    "nameIdxKey E (r_Name r) (r_ID r) = name_path r"
proof -
  note K = reg_lawsD(1) [OF assms(1)]
  note ok = assms(2) [unfolded root_ok_def]
  have c: "seg_ok (r_cidString E (r_CID r))" using reg_lawsD(10) [OF assms(1)] ok by blast
  have n: "seg_ok (PathEscape (r_Name r))" using PathEscape_seg ok by blast
  show "recKey E (r_ID r) = rec_path r"
    using K [of "[''roots'', ''rec'', r_ID r]"] ok seg_lits by (auto simp: recKey_def rec_path_def)
  show "cidIdxKey E (r_cidString E (r_CID r)) (r_ID r) = cid_path E r"
    using K [of "[''roots'', ''idx'', ''cid'', r_cidString E (r_CID r), r_ID r]"] ok seg_lits c
    by (auto simp: cidIdxKey_def cid_path_def)
  show "nameIdxKey E (r_Name r) (r_ID r) = name_path r"
    using K [of "[''roots'', ''idx'', ''name'', PathEscape (r_Name r), r_ID r]"] ok seg_lits n
    by (auto simp: nameIdxKey_def name_path_def)
qed

lemma rec_key:
  assumes "reg_laws E A" "seg_ok i"
  shows "recKey E i = join [''roots'', ''rec'', i]"
  using reg_lawsD(1) [OF assms(1), of "[''roots'', ''rec'', i]"] assms(2) seg_lits by (auto simp: recKey_def)

lemma last_part_keys:
  assumes "root_ok r"
  shows "last_part (rec_path r) = r_ID r" "last_part (cid_path E r) = r_ID r" "last_part (name_path r) = r_ID r"
proof -
  have s: "seg_ok (r_ID r)" using assms by (simp add: root_ok_def)
  show "last_part (rec_path r) = r_ID r"
    using last_part_join [OF s, of "join [''roots'', ''rec'']"] by (simp add: rec_path_def)
  show "last_part (cid_path E r) = r_ID r"
    using last_part_join [OF s, of "join [''roots'', ''idx'', ''cid'', r_cidString E (r_CID r)]"] by (simp add: cid_path_def)
  show "last_part (name_path r) = r_ID r"
    using last_part_join [OF s, of "join [''roots'', ''idx'', ''name'', PathEscape (r_Name r)]"] by (simp add: name_path_def)
qed

lemma keys_differ [simp]:
  "rec_path r \<noteq> cid_path E s" "rec_path r \<noteq> name_path s" "cid_path E r \<noteq> name_path s"
  "cid_path E s \<noteq> rec_path r" "name_path s \<noteq> rec_path r" "name_path s \<noteq> cid_path E r"
  by (simp_all add: rec_path_def cid_path_def name_path_def)

lemma reg_entries_iff:
  "reg_entries E r k = Some v \<longleftrightarrow>
     k = rec_path r \<and> v = record_bytes E r \<or> k = cid_path E r \<and> v = [] \<or> k = name_path r \<and> v = []"
  by (auto simp: reg_entries_def)

lemma entries_last: "root_ok r \<Longrightarrow> reg_entries E r k = Some v \<Longrightarrow> last_part k = r_ID r"
  by (auto simp: reg_entries_iff last_part_keys)

lemma decode_encode:
  assumes "reg_laws E A" "root_ok r"
  shows "encodeRecord E r = Inr (record_bytes E r)" "decodeRecord E (record_bytes E r) = Inr r"
proof -
  have "text_record (root_record E r)"
    using assms(2) by (simp add: text_record_def root_record_def root_ok_def name_ok_def)
  then obtain v where v: "rec_Marshal E (root_record E r) = Inr v" "rec_Unmarshal E v = Inr (root_record E r)"
    using reg_lawsD(8) [OF assms(1)] by blast
  then have b: "record_bytes E r = v" by (simp add: record_bytes_def encodeRecord_def)
  then show "encodeRecord E r = Inr (record_bytes E r)" using v by (simp add: encodeRecord_def)
  have "sint (word_of_int (r_AddedAt r) :: 64 word) = r_AddedAt r"
    using assms(2) by (subst sint_sbintrunc') (simp add: root_ok_def signed_take_bit_int_eq_self)
  then show "decodeRecord E (record_bytes E r) = Inr r"
    using v reg_lawsD(9) [OF assms(1)] assms(2) by (simp add: b decodeRecord_def root_record_def root_ok_def)
qed

section \<open>What the queries return\<close>

lemma find_ID: "distinct (map r_ID rs) \<Longrightarrow> r \<in> set rs \<Longrightarrow> find (\<lambda>x. r_ID x = r_ID r) rs = Some r"
  by (induction rs) auto

lemma same_ID:
  assumes "distinct (map r_ID rs)" "r \<in> set rs" "s \<in> set rs" "r_ID r = r_ID s"
  shows "r = s"
  using assms by (auto simp: distinct_map dest: inj_onD)

lemma reg_relD:
  assumes "reg_rel E A rs d"
  shows "distinct (map r_ID rs)" "distinct (map r_CID rs)" "r \<in> set rs \<Longrightarrow> root_ok r"
    "A d k = Some v \<longleftrightarrow> (\<exists>r \<in> set rs. reg_entries E r k = Some v)"
  using assms unfolding reg_rel_def by blast+

lemma stored_keys:
  assumes "reg_rel E A rs d"
  shows "{k. A d k \<noteq> None \<and> Q k} = rec_path ` {r \<in> set rs. Q (rec_path r)} \<union>
    cid_path E ` {r \<in> set rs. Q (cid_path E r)} \<union> name_path ` {r \<in> set rs. Q (name_path r)}"
proof -
  have "A d k \<noteq> None \<longleftrightarrow> (\<exists>r \<in> set rs. k = rec_path r \<or> k = cid_path E r \<or> k = name_path r)" for k
    using reg_relD(4) [OF assms, of k] by (auto simp: reg_entries_iff)
  then show ?thesis by auto
qed

lemma GetByID_rel:
  assumes L: "reg_laws E A" and R: "reg_rel E A rs d" and i: "seg_ok i"
  shows "GetByID E i d = Inr (find (\<lambda>r. r_ID r = i) rs)"
proof -
  note D = reg_relD [OF R]
  have k: "recKey E i = join [''roots'', ''rec'', i]" by (rule rec_key [OF L i])
  have g: "r_Get E (recKey E i) d = Inr (A d (recKey E i))" by (rule reg_lawsD(2) [OF L])
  show ?thesis
  proof (cases "find (\<lambda>r. r_ID r = i) rs")
    case None
    have "A d (recKey E i) = None"
    proof (rule ccontr)
      assume "A d (recKey E i) \<noteq> None"
      then obtain r v where "r \<in> set rs" "reg_entries E r (recKey E i) = Some v" using D(4) by blast
      then have "r_ID r = i" by (auto simp: k reg_entries_iff rec_path_def cid_path_def name_path_def)
      then show False using None \<open>r \<in> set rs\<close> by (auto simp: find_None_iff)
    qed
    then show ?thesis using None g by (simp add: GetByID_def)
  next
    case (Some r)
    then have r: "r \<in> set rs" "r_ID r = i" by (auto simp: find_Some_iff)
    then have "recKey E i = rec_path r" using root_keys(1) [OF L D(3) [OF r(1)]] by simp
    then have "A d (recKey E i) = Some (record_bytes E r)" using D(4) r(1) by (auto simp: reg_entries_iff)
    then show ?thesis using Some g decode_encode(2) [OF L D(3) [OF r(1)]] by (simp add: GetByID_def)
  qed
qed

lemma index_loop_rel:
  assumes L: "reg_laws E A" and R: "reg_rel E A rs d"
    and xs: "\<And>k v. (k, v) \<in> set xs \<Longrightarrow> \<exists>r \<in> set rs. last_part k = r_ID r"
  shows "index_loop E (map Inr xs) d = Inr (map (\<lambda>x. the (find (\<lambda>r. r_ID r = last_part (fst x)) rs)) xs)"
  using xs
proof (induction xs)
  case (Cons x xs)
  obtain k v where x: "x = (k, v)" by fastforce
  obtain r where r: "r \<in> set rs" "last_part k = r_ID r" using Cons.prems [of k v] x by auto
  have "seg_ok (r_ID r)" using reg_relD(3) [OF R r(1)] by (simp add: root_ok_def)
  then have "GetByID E (last_part k) d = Inr (Some r)"
    using GetByID_rel [OF L R] find_ID [OF reg_relD(1) [OF R] r(1)] r(2) by simp
  moreover have "index_loop E (map Inr xs) d = Inr (map (\<lambda>x. the (find (\<lambda>r. r_ID r = last_part (fst x)) rs)) xs)"
    using Cons.prems by (intro Cons.IH) (metis list.set_intros(2))
  ultimately show ?case using x find_ID [OF reg_relD(1) [OF R] r(1)] r(2) by simp
qed simp

lemma index_query:
  assumes L: "reg_laws E A" and R: "reg_rel E A rs d" and p: "clean_prefix p"
    and keys: "{k. A d k \<noteq> None \<and> has_prefix k p} = path ` {r \<in> set rs. P r}"
    and last: "\<And>r. r \<in> set rs \<Longrightarrow> last_part (path r) = r_ID r"
  shows "\<exists>ys. queryByIndexPrefix E p d = Inr ys \<and> set ys = {r \<in> set rs. P r} \<and> distinct ys"
proof -
  obtain xs where q: "r_Query E p True d = Inr (map Inr xs)" and dis: "distinct (map fst xs)"
    and fs: "fst ` set xs = path ` {r \<in> set rs. P r}"
    using reg_lawsD(3) [OF L p, of True d, unfolded keys] by blast
  define f where "f = (\<lambda>x :: string \<times> bytes. the (find (\<lambda>r. r_ID r = last_part (fst x)) rs))"
  have f: "f x = r" if "fst x = path r" "r \<in> set rs" for x :: "string \<times> bytes" and r
    using that last find_ID [OF reg_relD(1) [OF R]] by (simp add: f_def)
  have mem: "\<exists>r \<in> set rs. P r \<and> fst x = path r" if "x \<in> set xs" for x
    using imageI [OF that, of fst] unfolding fs by blast
  have "index_loop E (map Inr xs) d = Inr (map f xs)"
    using mem last unfolding f_def by (intro index_loop_rel [OF L R]) fastforce
  moreover have "set (map f xs) = {r \<in> set rs. P r}"
  proof (intro set_eqI iffI)
    fix r assume "r \<in> set (map f xs)"
    then obtain x where "x \<in> set xs" "r = f x" by auto
    then obtain s where "s \<in> set rs" "P s" "fst x = path s" using mem by blast
    then show "r \<in> {r \<in> set rs. P r}" using f \<open>r = f x\<close> by simp
  next
    fix r assume r: "r \<in> {r \<in> set rs. P r}"
    then have "path r \<in> fst ` set xs" using fs by blast
    then obtain x where x: "x \<in> set xs" "fst x = path r" by auto
    have "f x = r" using f [OF x(2)] r by blast
    then show "r \<in> set (map f xs)" using x(1) by auto
  qed
  moreover have "distinct (map f xs)"
  proof -
    have "inj_on f (set xs)"
    proof (rule inj_onI)
      fix x y assume xy: "x \<in> set xs" "y \<in> set xs" "f x = f y"
      obtain r s where r: "r \<in> set rs" "fst x = path r" and s: "s \<in> set rs" "fst y = path s"
        using mem [OF xy(1)] mem [OF xy(2)] by blast
      have "r = s" using f [OF r(2,1)] f [OF s(2,1)] xy(3) by simp
      then have "fst x = fst y" using r s by simp
      then show "x = y" using dis xy(1,2) unfolding distinct_map by (meson inj_onD)
    qed
    then show ?thesis using dis by (simp add: distinct_map)
  qed
  ultimately show ?thesis using q by (simp add: queryByIndexPrefix_def)
qed

lemma GetByCID_rel:
  assumes L: "reg_laws E A" and R: "reg_rel E A rs d" and c: "Defined c"
  shows "\<exists>ys. GetByCID E c d = Inr ys \<and> set ys = {r \<in> set rs. r_CID r = c} \<and> distinct ys"
  unfolding GetByCID_def
proof (rule index_query [OF L R])
  note D = reg_relD [OF R]
  let ?p = "prefixIdxCID @ r_cidString E c @ ''/''"
  have cs: "seg_ok (r_cidString E x)" if "Defined x" for x using reg_lawsD(10) [OF L that] .
  show "clean_prefix ?p"
    unfolding clean_prefix_def
    by (rule exI [of _ "[''roots'', ''idx'', ''cid'', r_cidString E c]"]) (use cs [OF c] seg_lits in simp)
  have 1: "has_prefix (cid_path E r) ?p \<longleftrightarrow> r_CID r = c" if r: "r \<in> set rs" for r
  proof -
    have d: "Defined (r_CID r)" using D(3) [OF r] by (simp add: root_ok_def)
    have "has_prefix (cid_path E r) ?p \<longleftrightarrow>
        has_prefix (r_cidString E (r_CID r) @ CHR ''/'' # r_ID r) (r_cidString E c @ CHR ''/'' # [])"
      by (simp add: cid_path_def has_prefix_iff)
    also have "\<dots> \<longleftrightarrow> r_cidString E (r_CID r) = r_cidString E c"
      using seg_prefix [OF seg_okD [OF cs [OF d]] seg_okD [OF cs [OF c]], of "r_ID r" "[]"] by (simp add: has_prefix_def)
    finally show ?thesis using reg_lawsD(11) [OF L d c] by simp
  qed
  have 2: "\<not> has_prefix (rec_path r) ?p" "\<not> has_prefix (name_path r) ?p" for r
    by (simp_all add: rec_path_def name_path_def has_prefix_iff)
  have "{r \<in> set rs. has_prefix (cid_path E r) ?p} = {r \<in> set rs. r_CID r = c}" using 1 by blast
  then show "{k. A d k \<noteq> None \<and> has_prefix k ?p} = cid_path E ` {r \<in> set rs. r_CID r = c}"
    unfolding stored_keys [OF R] by (simp only: 2 simp_thms) simp
  show "last_part (cid_path E r) = r_ID r" if "r \<in> set rs" for r by (rule last_part_keys(2) [OF D(3) [OF that]])
qed

lemma GetByName_rel:
  assumes L: "reg_laws E A" and R: "reg_rel E A rs d" and n: "name_ok name"
  shows "\<exists>ys. GetByName E name d = Inr ys \<and> set ys = {r \<in> set rs. r_Name r = name} \<and> distinct ys"
  unfolding GetByName_def
proof (rule index_query [OF L R])
  note D = reg_relD [OF R]
  let ?p = "prefixIdxName @ PathEscape name @ ''/''"
  show "clean_prefix ?p"
    unfolding clean_prefix_def
    by (rule exI [of _ "[''roots'', ''idx'', ''name'', PathEscape name]"]) (use PathEscape_seg [OF n] seg_lits in simp)
  have 1: "has_prefix (name_path r) ?p \<longleftrightarrow> r_Name r = name" if r: "r \<in> set rs" for r
  proof -
    have nr: "name_ok (r_Name r)" using D(3) [OF r] by (simp add: root_ok_def)
    have "has_prefix (name_path r) ?p \<longleftrightarrow>
        has_prefix (PathEscape (r_Name r) @ CHR ''/'' # r_ID r) (PathEscape name @ CHR ''/'' # [])"
      by (simp add: name_path_def has_prefix_iff)
    also have "\<dots> \<longleftrightarrow> PathEscape (r_Name r) = PathEscape name"
      using seg_prefix [OF seg_okD [OF PathEscape_seg [OF nr]] seg_okD [OF PathEscape_seg [OF n]], of "r_ID r" "[]"]
      by (simp add: has_prefix_def)
    finally show ?thesis by (simp add: PathEscape_inj)
  qed
  have 2: "\<not> has_prefix (rec_path r) ?p" "\<not> has_prefix (cid_path E r) ?p" for r
    by (simp_all add: rec_path_def cid_path_def has_prefix_iff)
  have "{r \<in> set rs. has_prefix (name_path r) ?p} = {r \<in> set rs. r_Name r = name}" using 1 by blast
  then show "{k. A d k \<noteq> None \<and> has_prefix k ?p} = name_path ` {r \<in> set rs. r_Name r = name}"
    unfolding stored_keys [OF R] by (simp only: 2 simp_thms) simp
  show "last_part (name_path r) = r_ID r" if "r \<in> set rs" for r by (rule last_part_keys(3) [OF D(3) [OF that]])
qed

lemma ok_results_map:
  "(\<And>x. x \<in> set xs \<Longrightarrow> \<exists>r. f x = Inr r) \<Longrightarrow>
   ok_results (map f xs) = map (\<lambda>x. case f x of Inr r \<Rightarrow> r | Inl _ \<Rightarrow> z) xs"
proof (induction xs)
  case (Cons x xs)
  then obtain r where "f x = Inr r" by auto
  then show ?case using Cons by simp
qed simp

lemma List_rel:
  assumes L: "reg_laws E A" and R: "reg_rel E A rs d"
  shows "set (root_List E d) = set rs" "distinct (root_List E d)"
proof -
  note D = reg_relD [OF R]
  have "clean_prefix prefixRec"
    unfolding clean_prefix_def by (rule exI [of _ "[''roots'', ''rec'']"]) (use seg_lits in simp)
  then obtain xs where q: "r_Query E prefixRec False d = Inr (map Inr xs)" and dis: "distinct (map fst xs)"
    and fs: "fst ` set xs = {k. A d k \<noteq> None \<and> has_prefix k prefixRec}"
    and vs: "\<forall>(k, v) \<in> set xs. A d k = Some v"
    using reg_lawsD(3) [OF L, of prefixRec False d] by blast
  have hp: "has_prefix (rec_path r) prefixRec" "\<not> has_prefix (cid_path E r) prefixRec" "\<not> has_prefix (name_path r) prefixRec" for r
    by (simp_all add: rec_path_def cid_path_def name_path_def has_prefix_iff)
  have fs': "fst ` set xs = rec_path ` set rs"
    unfolding fs stored_keys [OF R] by (simp only: hp simp_thms) simp
  have mem: "\<exists>r \<in> set rs. x = (rec_path r, record_bytes E r) \<and> decodeRecord E (snd x) = Inr r" if "x \<in> set xs" for x
  proof -
    obtain k v where x: "x = (k, v)" by fastforce
    then have "A d k = Some v" "has_prefix k prefixRec" using vs fs that by force+
    then obtain r where "r \<in> set rs" "k = rec_path r" "v = record_bytes E r"
      using D(4) hp by (auto simp: reg_entries_iff)
    then show ?thesis using x decode_encode(2) [OF L D(3)] by auto
  qed
  define g where "g = (\<lambda>x :: string \<times> bytes. case decodeRecord E (snd x) of Inr r \<Rightarrow> r | Inl _ \<Rightarrow> zero_Root)"
  have "\<exists>r. decodeRecord E (snd x) = Inr r" if "x \<in> set xs" for x using mem [OF that] by blast
  then have "ok_results (map (\<lambda>(_, data). decodeRecord E data) xs) = map g xs"
    unfolding g_def case_prod_beta by (rule ok_results_map)
  then have l: "root_List E d = map g xs" using q by (simp add: root_List_def)
  have g: "g x = r" if x: "x \<in> set xs" and k: "fst x = rec_path r" and r: "r \<in> set rs" for x r
  proof -
    obtain r' where r': "r' \<in> set rs" "x = (rec_path r', record_bytes E r')" "decodeRecord E (snd x) = Inr r'"
      using mem [OF x] by blast
    then have "r_ID r' = r_ID r" using k by (simp add: rec_path_def)
    then have "r' = r" by (rule same_ID [OF D(1) r'(1) r])
    then show ?thesis using r' by (simp add: g_def)
  qed
  show "set (root_List E d) = set rs"
  proof (intro set_eqI iffI)
    fix r assume "r \<in> set (root_List E d)"
    then obtain x where x: "x \<in> set xs" "r = g x" using l by auto
    obtain r' where "r' \<in> set rs" "decodeRecord E (snd x) = Inr r'" using mem [OF x(1)] by blast
    then show "r \<in> set rs" using x by (simp add: g_def)
  next
    fix r assume r: "r \<in> set rs"
    then have "rec_path r \<in> fst ` set xs" using fs' by blast
    then obtain x where x: "x \<in> set xs" "fst x = rec_path r" by auto
    then show "r \<in> set (root_List E d)" using l g [OF x r] by auto
  qed
  have "inj_on g (set xs)"
  proof (rule inj_onI)
    fix x y assume "x \<in> set xs" "y \<in> set xs" "g x = g y"
    moreover obtain r where "x = (rec_path r, record_bytes E r)" "decodeRecord E (snd x) = Inr r"
      using mem [OF calculation(1)] by blast
    moreover obtain s where "y = (rec_path s, record_bytes E s)" "decodeRecord E (snd y) = Inr s"
      using mem [OF calculation(2)] by blast
    ultimately show "x = y" by (simp add: g_def)
  qed
  then show "distinct (root_List E d)" using l dis by (simp add: distinct_map)
qed

section \<open>Refinement\<close>

text \<open>The registry as a list of roots, oldest first: what the operations promise.\<close>

datatype reg_op = OpAdd string int Root | OpRemove string | OpRename string string
datatype reg_out = Added Root "err option" | Done "err option"

definition stamped :: "string \<Rightarrow> int \<Rightarrow> Root \<Rightarrow> Root" where
  "stamped uid now root =
     root\<lparr>r_ID := uid, r_AddedAt := (if r_AddedAt root = zero_Time then now else r_AddedAt root)\<rparr>"

fun spec_exec :: "reg_op \<Rightarrow> Root list \<Rightarrow> reg_out \<times> Root list" where
  "spec_exec (OpAdd uid now root) rs =
     (case find (\<lambda>r. r_CID r = r_CID root) rs of
        Some r \<Rightarrow> (Added r (Some ErrAlreadyTracked), rs)
      | None \<Rightarrow> (Added (stamped uid now root) None, rs @ [stamped uid now root]))"
| "spec_exec (OpRemove i) rs =
     (if find (\<lambda>r. r_ID r = i) rs = None then (Done (Some ErrNotFound), rs)
      else (Done None, filter (\<lambda>r. r_ID r \<noteq> i) rs))"
| "spec_exec (OpRename i name) rs =
     (if name = [] then (Done (Some (Errorf ''name must not be empty'')), rs)
      else if find (\<lambda>r. r_ID r = i) rs = None then (Done (Some ErrNotFound), rs)
      else (Done None, map (\<lambda>r. if r_ID r = i then r\<lparr>r_Name := name\<rparr> else r) rs))"

fun reg_exec :: "'d renv \<Rightarrow> reg_op \<Rightarrow> 'd \<Rightarrow> reg_out \<times> 'd" where
  "reg_exec E (OpAdd uid now root) d = (case root_Add E uid now root d of ((r, e), d') \<Rightarrow> (Added r e, d'))"
| "reg_exec E (OpRemove i) d = (case root_Remove E i d of (e, d') \<Rightarrow> (Done e, d'))"
| "reg_exec E (OpRename i name) d = (case root_Rename E i name d of (e, d') \<Rightarrow> (Done e, d'))"

text \<open>\<open>uuid.New\<close> gives an unused identifier; names are usable path segments once escaped.\<close>

fun op_ok :: "Root list \<Rightarrow> reg_op \<Rightarrow> bool" where
  "op_ok rs (OpAdd uid now root) \<longleftrightarrow> uid \<notin> r_ID ` set rs \<and> root_ok (stamped uid now root)"
| "op_ok rs (OpRemove i) \<longleftrightarrow> seg_ok i"
| "op_ok rs (OpRename i name) \<longleftrightarrow> seg_ok i \<and> (name = [] \<or> name_ok name)"

lemma run_batch_rel:
  assumes "reg_laws E A"
  shows "\<exists>d'. run_batch E ops d = (None, d') \<and> A d' = foldl apply_op (A d) ops"
proof -
  have "bat_errs E ps ops = None" for ps
    by (induction ops arbitrary: ps) (simp_all add: reg_lawsD(5) [OF assms])
  then show ?thesis
    using reg_lawsD(4) [OF assms, of d] reg_lawsD(6,7) [OF assms, of ops d]
    by (intro exI [of _ "snd (r_Commit E ops d)"]) (simp add: run_batch_def prod_eq_iff)
qed

lemma keys_disjoint:
  assumes "root_ok r" "root_ok s" "r_ID r \<noteq> r_ID s" "reg_entries E s k = Some v"
  shows "k \<noteq> rec_path r" "k \<noteq> cid_path E r" "k \<noteq> name_path r"
  using entries_last [OF assms(2,4)] last_part_keys(1,3) [OF assms(1)] last_part_keys(2) [OF assms(1), of E] assms(3) by auto

lemma reg_rel_add:
  assumes R: "reg_rel E A rs d" and ro: "root_ok r" and fresh: "r_ID r \<notin> r_ID ` set rs" "r_CID r \<notin> r_CID ` set rs"
    and A': "A d' = (A d)(rec_path r \<mapsto> record_bytes E r, cid_path E r \<mapsto> [], name_path r \<mapsto> [])"
  shows "reg_rel E A (rs @ [r]) d'"
proof -
  note D = reg_relD [OF R]
  have other: "k \<notin> {rec_path r, cid_path E r, name_path r}" if s: "s \<in> set rs" "reg_entries E s k = Some v" for s k v
    using keys_disjoint [OF ro D(3) [OF s(1)] _ s(2)] fresh(1) s(1) by auto
  have "A d' k = Some v \<longleftrightarrow> (\<exists>s \<in> set (rs @ [r]). reg_entries E s k = Some v)" for k v
  proof (cases "k \<in> {rec_path r, cid_path E r, name_path r}")
    case True
    then have "(\<exists>s \<in> set (rs @ [r]). reg_entries E s k = Some v) \<longleftrightarrow> reg_entries E r k = Some v"
      using other by auto
    then show ?thesis using True A' by (auto simp: reg_entries_iff)
  next
    case False
    then have "\<not> reg_entries E r k = Some v" "A d' k = A d k" using A' by (auto simp: reg_entries_iff)
    then show ?thesis using D(4) by simp
  qed
  then show ?thesis using D(1-3) ro fresh unfolding reg_rel_def by (auto simp: distinct_map)
qed

lemma add_sim:
  assumes L: "reg_laws E A" and R: "reg_rel E A rs d" and ok: "op_ok rs (OpAdd uid now root)"
  shows "\<exists>d'. reg_exec E (OpAdd uid now root) d = (fst (spec_exec (OpAdd uid now root) rs), d') \<and>
    reg_rel E A (snd (spec_exec (OpAdd uid now root) rs)) d'"
proof -
  note D = reg_relD [OF R]
  let ?r = "stamped uid now root"
  have c: "r_CID ?r = r_CID root" "r_ID ?r = uid" by (simp_all add: stamped_def)
  have ro: "root_ok ?r" and fresh: "uid \<notin> r_ID ` set rs" using ok by simp_all
  obtain ys where g: "GetByCID E (r_CID root) d = Inr ys" "set ys = {r \<in> set rs. r_CID r = r_CID root}"
    using GetByCID_rel [OF L R] ro c by (metis root_ok_def)
  show ?thesis
  proof (cases "find (\<lambda>r. r_CID r = r_CID root) rs")
    case (Some x)
    then have x: "x \<in> set rs" "r_CID x = r_CID root" by (auto simp: find_Some_iff)
    have "r = x" if "r \<in> set rs" "r_CID r = r_CID root" for r
      using that x D(2) by (metis distinct_map inj_onD)
    then have "set ys = {x}" unfolding g(2) using x by blast
    then obtain zs where "ys = x # zs" by (cases ys) auto
    then show ?thesis using Some g(1) R by (simp add: root_Add_def)
  next
    case None
    then have none: "\<forall>r \<in> set rs. r_CID r \<noteq> r_CID root" by (auto simp: find_None_iff)
    then have "set ys = {}" unfolding g(2) by blast
    then have "ys = []" by simp
    let ?ops = "[BPut (rec_path ?r) (record_bytes E ?r), BPut (cid_path E ?r) [], BPut (name_path ?r) []]"
    obtain d' where d': "run_batch E ?ops d = (None, d')" "A d' = foldl apply_op (A d) ?ops"
      using run_batch_rel [OF L, of ?ops d] by blast
    have keys: "recKey E uid = rec_path ?r" "cidIdxKey E (r_cidString E (r_CID ?r)) uid = cid_path E ?r"
      "nameIdxKey E (r_Name ?r) uid = name_path ?r"
      using root_keys [OF L ro] c by simp_all
    have ex: "root_Add E uid now root d = ((?r, None), d')"
      unfolding root_Add_def g(1) \<open>ys = []\<close> sum.case list.case Let_def stamped_def [symmetric]
        decode_encode(1) [OF L ro] keys d'(1) by simp
    have A': "A d' = (A d)(rec_path ?r \<mapsto> record_bytes E ?r, cid_path E ?r \<mapsto> [], name_path ?r \<mapsto> [])"
      using d'(2) by (simp add: apply_op_def)
    then have "reg_rel E A (rs @ [?r]) d'" using none fresh c by (intro reg_rel_add [OF R ro]) auto
    then show ?thesis using None ex by simp
  qed
qed

lemma remove_sim:
  assumes L: "reg_laws E A" and R: "reg_rel E A rs d" and i: "seg_ok i"
  shows "\<exists>d'. reg_exec E (OpRemove i) d = (fst (spec_exec (OpRemove i) rs), d') \<and>
    reg_rel E A (snd (spec_exec (OpRemove i) rs)) d'"
proof (cases "find (\<lambda>r. r_ID r = i) rs")
  case None
  then show ?thesis using GetByID_rel [OF L R i] R by (simp add: root_Remove_def)
next
  case (Some r)
  note D = reg_relD [OF R]
  from Some have r: "r \<in> set rs" "r_ID r = i" by (auto simp: find_Some_iff)
  note ro = D(3) [OF r(1)]
  let ?ops = "[BDelete (rec_path r), BDelete (cid_path E r), BDelete (name_path r)]"
  let ?rs = "filter (\<lambda>r. r_ID r \<noteq> i) rs"
  obtain d' where d': "run_batch E ?ops d = (None, d')" "A d' = foldl apply_op (A d) ?ops"
    using run_batch_rel [OF L, of ?ops d] by blast
  have A': "A d' = (A d)(rec_path r := None, cid_path E r := None, name_path r := None)"
    using d'(2) by (simp add: apply_op_def)
  have ex: "root_Remove E i d = (None, d')"
    using GetByID_rel [OF L R i] Some root_keys [OF L ro] r(2) d'(1) by (simp add: root_Remove_def)
  have "A d' k = Some v \<longleftrightarrow> (\<exists>s \<in> set ?rs. reg_entries E s k = Some v)" for k v
  proof
    assume a: "A d' k = Some v"
    then have k: "k \<noteq> rec_path r" "k \<noteq> cid_path E r" "k \<noteq> name_path r" using A' by auto
    then have "A d k = Some v" using a A' by simp
    then obtain s where s: "s \<in> set rs" "reg_entries E s k = Some v" using D(4) by blast
    then have "s \<noteq> r" using k by (auto simp: reg_entries_iff)
    then have "r_ID s \<noteq> i" using same_ID [OF D(1) s(1) r(1)] r(2) by auto
    then show "\<exists>s \<in> set ?rs. reg_entries E s k = Some v" using s by auto
  next
    assume "\<exists>s \<in> set ?rs. reg_entries E s k = Some v"
    then obtain s where s: "s \<in> set rs" "r_ID s \<noteq> i" "reg_entries E s k = Some v" by auto
    then have "A d k = Some v" using D(4) by blast
    moreover have "r_ID r \<noteq> r_ID s" using s(2) r(2) by simp
    ultimately show "A d' k = Some v" using keys_disjoint [OF ro D(3) [OF s(1)] _ s(3)] A' by simp
  qed
  moreover have "distinct (map r_ID ?rs)" "distinct (map r_CID ?rs)"
    using D(1,2) by (simp_all add: distinct_map_filter)
  ultimately have "reg_rel E A ?rs d'" using D(3) unfolding reg_rel_def by simp
  then show ?thesis using ex Some by simp
qed

lemma reg_rel_rename:
  assumes R: "reg_rel E A rs d" and r: "r \<in> set rs" and n: "name_ok name"
    and A': "A d' = (A d)(rec_path r \<mapsto> record_bytes E (r\<lparr>r_Name := name\<rparr>), name_path r := None,
      name_path (r\<lparr>r_Name := name\<rparr>) \<mapsto> [])"
  shows "reg_rel E A (map (\<lambda>s. if r_ID s = r_ID r then s\<lparr>r_Name := name\<rparr> else s) rs) d'"
proof -
  note D = reg_relD [OF R]
  note ro = D(3) [OF r]
  let ?r = "r\<lparr>r_Name := name\<rparr>"
  let ?g = "\<lambda>s. if r_ID s = r_ID r then s\<lparr>r_Name := name\<rparr> else s"
  have ro': "root_ok ?r" using ro n by (simp add: root_ok_def)
  have same: "rec_path ?r = rec_path r" "cid_path E ?r = cid_path E r" by (simp_all add: rec_path_def cid_path_def)
  have g: "?g s = (if s = r then ?r else s)" if "s \<in> set rs" for s using same_ID [OF D(1) that r] by auto
  have own: "A d (cid_path E r) = Some []" using D(4) r by (auto simp: reg_entries_iff)
  have mem: "(\<exists>s \<in> set (map ?g rs). reg_entries E s k = Some v) \<longleftrightarrow>
      reg_entries E ?r k = Some v \<or> (\<exists>s \<in> set rs. s \<noteq> r \<and> reg_entries E s k = Some v)" for k v
    using g r by (auto simp del: if_image_distrib)
  have other: "k \<notin> {rec_path r, name_path r, cid_path E r, name_path ?r}" if s: "s \<in> set rs" "s \<noteq> r" "reg_entries E s k = Some v" for s k v
  proof -
    have i: "r_ID r \<noteq> r_ID s" using same_ID [OF D(1) s(1) r] s(2) by auto
    then have "r_ID ?r \<noteq> r_ID s" by simp
    then show ?thesis
      using keys_disjoint [OF ro D(3) [OF s(1)] i s(3)] keys_disjoint [OF ro' D(3) [OF s(1)] _ s(3)] by blast
  qed
  have "A d' k = Some v \<longleftrightarrow> (\<exists>s \<in> set (map ?g rs). reg_entries E s k = Some v)" for k v
  proof (cases "k \<in> {rec_path r, name_path r, cid_path E r, name_path ?r}")
    case True
    then have "(\<exists>s \<in> set (map ?g rs). reg_entries E s k = Some v) \<longleftrightarrow> reg_entries E ?r k = Some v"
      unfolding mem using other by blast
    moreover have "A d' k = Some v \<longleftrightarrow> reg_entries E ?r k = Some v"
      unfolding A' reg_entries_iff same using True own by (elim insertE emptyE) auto
    ultimately show ?thesis by blast
  next
    case False
    then have "\<not> reg_entries E ?r k = Some v" "\<not> reg_entries E r k = Some v" "A d' k = A d k"
      unfolding A' reg_entries_iff same by simp_all
    then show ?thesis unfolding mem using D(4) by metis
  qed
  moreover have e: "map r_ID (map ?g rs) = map r_ID rs" "map r_CID (map ?g rs) = map r_CID rs" by simp_all
  moreover have "\<forall>s \<in> set (map ?g rs). root_ok s"
    unfolding set_map ball_simps(9) using g ro' D(3) by (intro ballI) (simp only: split: if_splits, simp)
  ultimately show ?thesis using D(1,2) unfolding reg_rel_def e by blast
qed

lemma rename_sim:
  assumes L: "reg_laws E A" and R: "reg_rel E A rs d" and i: "seg_ok i" and n: "name_ok name"
  shows "\<exists>d'. reg_exec E (OpRename i name) d = (fst (spec_exec (OpRename i name) rs), d') \<and>
    reg_rel E A (snd (spec_exec (OpRename i name) rs)) d'"
proof (cases "find (\<lambda>r. r_ID r = i) rs")
  case None
  then show ?thesis using GetByID_rel [OF L R i] R n by (simp add: root_Rename_def name_ok_def)
next
  case (Some r)
  note D = reg_relD [OF R]
  from Some have r: "r \<in> set rs" "r_ID r = i" by (auto simp: find_Some_iff)
  note ro = D(3) [OF r(1)]
  let ?r = "r\<lparr>r_Name := name\<rparr>"
  let ?g = "\<lambda>r. if r_ID r = i then r\<lparr>r_Name := name\<rparr> else r"
  have ro': "root_ok ?r" using ro n by (simp add: root_ok_def)
  have same: "rec_path ?r = rec_path r" "cid_path E ?r = cid_path E r" by (simp_all add: rec_path_def cid_path_def)
  let ?ops = "[BPut (rec_path r) (record_bytes E ?r), BDelete (name_path r), BPut (name_path ?r) []]"
  obtain d' where d': "run_batch E ?ops d = (None, d')" "A d' = foldl apply_op (A d) ?ops"
    using run_batch_rel [OF L, of ?ops d] by blast
  have A': "A d' = (A d)(rec_path r \<mapsto> record_bytes E ?r, name_path r := None, name_path ?r \<mapsto> [])"
    using d'(2) by (simp add: apply_op_def)
  have ex: "root_Rename E i name d = (None, d')"
    using GetByID_rel [OF L R i] Some root_keys [OF L ro] root_keys(3) [OF L ro'] r(2) d'(1) decode_encode(1) [OF L ro'] n
    by (simp add: root_Rename_def name_ok_def)
  have "reg_rel E A (map ?g rs) d'" using reg_rel_rename [OF R r(1) n A'] r(2) by simp
  then show ?thesis using ex Some n by (simp add: name_ok_def)
qed

lemma reg_sim:
  assumes L: "reg_laws E A" and R: "reg_rel E A rs d" and ok: "op_ok rs x"
  shows "\<exists>d'. reg_exec E x d = (fst (spec_exec x rs), d') \<and> reg_rel E A (snd (spec_exec x rs)) d'"
proof (cases x)
  case (OpRename i name)
  show ?thesis
  proof (cases "name = []")
    case True
    then show ?thesis using R by (simp add: OpRename root_Rename_def)
  next
    case False
    then have "seg_ok i" "name_ok name" using ok OpRename by auto
    then show ?thesis unfolding OpRename by (rule rename_sim [OF L R])
  qed
next
  case (OpAdd uid now root)
  then show ?thesis using add_sim [OF L R] ok by blast
next
  case (OpRemove i)
  then show ?thesis using remove_sim [OF L R] ok by simp
qed

section \<open>Sequences of operations\<close>

fun spec_run :: "reg_op list \<Rightarrow> Root list \<Rightarrow> reg_out list \<times> Root list" where
  "spec_run [] rs = ([], rs)"
| "spec_run (x # xs) rs =
     (let (r, rs1) = spec_exec x rs; (out, rs2) = spec_run xs rs1 in (r # out, rs2))"

fun reg_run :: "'d renv \<Rightarrow> reg_op list \<Rightarrow> 'd \<Rightarrow> reg_out list \<times> 'd" where
  "reg_run E [] d = ([], d)"
| "reg_run E (x # xs) d =
     (let (r, d1) = reg_exec E x d; (out, d2) = reg_run E xs d1 in (r # out, d2))"

fun ops_ok :: "reg_op list \<Rightarrow> Root list \<Rightarrow> bool" where
  "ops_ok [] rs \<longleftrightarrow> True"
| "ops_ok (x # xs) rs \<longleftrightarrow> op_ok rs x \<and> ops_ok xs (snd (spec_exec x rs))"

lemma run_sim:
  assumes L: "reg_laws E A"
  shows "reg_rel E A rs d \<Longrightarrow> ops_ok xs rs \<Longrightarrow>
    \<exists>d'. reg_run E xs d = (fst (spec_run xs rs), d') \<and> reg_rel E A (snd (spec_run xs rs)) d'"
proof (induction xs arbitrary: rs d)
  case (Cons x xs)
  obtain d1 where d1: "reg_exec E x d = (fst (spec_exec x rs), d1)" "reg_rel E A (snd (spec_exec x rs)) d1"
    using reg_sim [OF L Cons.prems(1)] Cons.prems(2) by auto
  obtain d2 where "reg_run E xs d1 = (fst (spec_run xs (snd (spec_exec x rs))), d2)"
    "reg_rel E A (snd (spec_run xs (snd (spec_exec x rs)))) d2"
    using Cons.IH [OF d1(2)] Cons.prems(2) by auto
  then show ?case using d1 by (simp add: case_prod_beta Let_def)
qed simp

text \<open>
  C32. The root registry implements a list of roots, for the names its keys can hold. The datastore
  and the codecs obey their contracts (no write fails; a record whose strings are UTF-8 decodes to
  itself), identifiers are unused path segments at each add, and the names and paths stored are
  UTF-8, the names other than the empty name, \<open>.\<close> and \<open>..\<close> (a rename to the empty name is allowed,
  and is refused). Then from an empty store a sequence of adds, removals and renames returns exactly
  the results of the list specification, a second add of a tracked CID and every operation on an
  unknown identifier included; afterwards a lookup by identifier, by CID or by such a name and the
  listing return exactly the roots of the list, once each.
\<close>

theorem registry_refines:
  assumes "reg_laws E A" "A d = Map.empty" "ops_ok xs []" "seg_ok i" "Defined c" "name_ok name"
  shows "\<exists>d' rs ys zs. spec_run xs [] = (fst (reg_run E xs d), rs) \<and> d' = snd (reg_run E xs d) \<and>
    GetByID E i d' = Inr (find (\<lambda>r. r_ID r = i) rs) \<and>
    GetByCID E c d' = Inr ys \<and> distinct ys \<and> set ys = {r \<in> set rs. r_CID r = c} \<and>
    GetByName E name d' = Inr zs \<and> distinct zs \<and> set zs = {r \<in> set rs. r_Name r = name} \<and>
    distinct (root_List E d') \<and> set (root_List E d') = set rs"
proof -
  have "reg_rel E A [] d" using assms(2) by (simp add: reg_rel_def)
  then obtain d' where d': "reg_run E xs d = (fst (spec_run xs []), d')" "reg_rel E A (snd (spec_run xs [])) d'"
    using run_sim [OF assms(1) _ assms(3)] by blast
  obtain ys where ys: "GetByCID E c d' = Inr ys" "set ys = {r \<in> set (snd (spec_run xs [])). r_CID r = c}" "distinct ys"
    using GetByCID_rel [OF assms(1) d'(2) assms(5)] by blast
  obtain zs where zs: "GetByName E name d' = Inr zs" "set zs = {r \<in> set (snd (spec_run xs [])). r_Name r = name}" "distinct zs"
    using GetByName_rel [OF assms(1) d'(2) assms(6)] by blast
  show ?thesis
    using d' ys zs GetByID_rel [OF assms(1) d'(2) assms(4)] List_rel [OF assms(1) d'(2)]
    by (intro exI [of _ d'] exI [of _ "snd (spec_run xs [])"] exI [of _ ys] exI [of _ zs]) simp
qed

section \<open>A key-value store in memory\<close>

text \<open>Strings with a mark before every byte, numbers in unary, as a codec that can be inverted.\<close>

definition enc_str :: "string \<Rightarrow> bytes" where
  "enc_str s = concat (map (\<lambda>c. [1, of_nat (of_char c)]) s) @ [0]"

fun dec_str :: "bytes \<Rightarrow> string \<times> bytes" where
  "dec_str (m # r) =
     (if m = 0 then ([], r)
      else case r of [] \<Rightarrow> ([], []) | b # r' \<Rightarrow> (let (s, t) = dec_str r' in (char_of (unat b) # s, t)))"
| "dec_str [] = ([], [])"

lemma dec_enc_str [simp]: "dec_str (enc_str s @ r) = (s, r)"
proof (induction s)
  case (Cons c s)
  have "char_of (unat (of_nat (of_char c) :: byte)) = c"
    using of_char_bound [of c] by (simp add: unat_of_nat)
  then show ?case using Cons by (simp add: enc_str_def)
qed (simp add: enc_str_def)

lemma byte_of_char: "of_nat (of_char (char_of (unat b) :: char)) = (b :: byte)"
proof -
  have "unat b < 256" using unsigned_less [of b, where ?'a = nat] by simp
  then show ?thesis by (simp add: of_char_of)
qed

fun enc_cid :: "cid \<Rightarrow> bytes" where
  "enc_cid Undef = []"
| "enc_cid (Cid v c h) = replicate v 1 @ [0] @ replicate c 1 @ [0] @ h"

definition dec_nat :: "bytes \<Rightarrow> nat \<times> bytes" where
  "dec_nat b = (length (takeWhile (\<lambda>x. x \<noteq> 0) b), tl (dropWhile (\<lambda>x. x \<noteq> 0) b))"

definition dec_cid :: "bytes \<Rightarrow> cid res" where
  "dec_cid b =
     (if b = [] then Inl (Errorf ''cid too short'')
      else let (v, b1) = dec_nat b; (c, h) = dec_nat b1 in Inr (Cid v c h))"

lemma dec_nat [simp]: "dec_nat (replicate n 1 @ 0 # r) = (n, r)"
  by (induction n) (simp_all add: dec_nat_def)

lemma dec_enc_cid: "Defined c \<Longrightarrow> dec_cid (enc_cid c) = Inr c"
  by (cases c) (simp_all add: Defined_def dec_cid_def)

definition mem_renv :: "(string \<times> bytes) list renv" where
  "mem_renv = \<lparr>r_NewKey = (\<lambda>k. k),
     r_Get = (\<lambda>k d. Inr (map_of d k)),
     r_Query = (\<lambda>p ko d. Inr (map Inr (filter (\<lambda>(k, _). has_prefix k p) (AList.clearjunk d)))),
     r_Batch = (\<lambda>_. None), r_bat = (\<lambda>_ _. None),
     r_Commit = (\<lambda>ops d. (None, foldl (\<lambda>d x. case x of BPut k v \<Rightarrow> aupd k v d | BDelete k \<Rightarrow> adel k d) d ops)),
     rec_Marshal = (\<lambda>r. Inr (enc_str (rr_ID r) @ enc_str (rr_Name r) @
       enc_str (map (\<lambda>b. char_of (unat b)) (rr_CID r)) @ enc_str (rr_Path r) @ encodeInt64LE (rr_AddedAt r))),
     rec_Unmarshal = (\<lambda>b. let (i, b1) = dec_str b; (n, b2) = dec_str b1; (c, b3) = dec_str b2; (p, b4) = dec_str b3
       in case decodeInt64LE b4 of
            None \<Rightarrow> Inl (Errorf ''cbor: invalid'')
          | Some t \<Rightarrow> Inr \<lparr>rr_ID = i, rr_Name = n, rr_CID = map (\<lambda>c. of_nat (of_char c)) c, rr_Path = p, rr_AddedAt = t\<rparr>),
     cid_Bytes = enc_cid, cid_Cast = dec_cid, r_cidString = (\<lambda>c. hex_EncodeToString (enc_cid c))\<rparr>"

lemma mem_reg_laws: "reg_laws mem_renv map_of"
proof -
  have q: "\<exists>xs. r_Query mem_renv p ko d = Inr (map Inr xs) \<and> distinct (map fst xs) \<and>
      fst ` set xs = {k. map_of d k \<noteq> None \<and> has_prefix k p} \<and>
      (\<not> ko \<longrightarrow> (\<forall>(k, v) \<in> set xs. map_of d k = Some v))" for p ko d
  proof (intro exI conjI impI)
    let ?xs = "filter (\<lambda>(k, _). has_prefix k p) (AList.clearjunk d)"
    show "r_Query mem_renv p ko d = Inr (map Inr ?xs)" by (simp add: mem_renv_def)
    show "distinct (map fst ?xs)" using distinct_clearjunk distinct_map_filter by blast
    have mem: "(k, v) \<in> set (AList.clearjunk d) \<longleftrightarrow> map_of d k = Some v" for k v
      using map_of_eq_Some_iff [OF distinct_clearjunk, of d] by (simp add: map_of_clearjunk)
    show "fst ` set ?xs = {k. map_of d k \<noteq> None \<and> has_prefix k p}" using mem by force
    show "\<forall>(k, v) \<in> set ?xs. map_of d k = Some v" using mem by auto
  qed
  have c: "map_of (foldl (\<lambda>d x. case x of BPut k v \<Rightarrow> aupd k v d | BDelete k \<Rightarrow> adel k d) d ops) =
      foldl apply_op (map_of d) ops" for d :: "(string \<times> bytes) list" and ops
    by (induction ops arbitrary: d) (simp_all add: apply_op_def split: batch_op.split)
  have b: "map (\<lambda>c. of_nat (of_char c)) (map (\<lambda>b. char_of (unat b) :: char) bs) = (bs :: bytes)" for bs
    by (induction bs) (simp_all add: byte_of_char)
  have m: "\<exists>v. rec_Marshal mem_renv r = Inr v \<and> rec_Unmarshal mem_renv v = Inr r" for r
    by (cases r) (simp add: mem_renv_def Let_def decode_encodeInt64LE b del: map_map)
  have i: "enc_cid a = enc_cid b \<Longrightarrow> Defined a \<Longrightarrow> Defined b \<Longrightarrow> a = b" for a b
    using dec_enc_cid by (metis sum.inject(2))
  have n: "Defined c \<Longrightarrow> enc_cid c \<noteq> []" for c by (cases c) (simp_all add: Defined_def)
  show ?thesis
    unfolding reg_laws_def
    by (intro conjI allI; (rule impI)?; (rule q | rule m)?)
      (auto simp: mem_renv_def c dec_enc_cid n intro: hex_seg i)
qed

definition reg_demo_root :: Root where
  "reg_demo_root = \<lparr>r_ID = [], r_Name = ''photos'', r_CID = Cid 1 112 [7], r_Path = ''/tmp/p'', r_AddedAt = zero_Time\<rparr>"

definition reg_demo :: "reg_op list" where
  "reg_demo = [OpAdd ''a'' 5 reg_demo_root, OpAdd ''b'' 6 reg_demo_root, OpRename ''a'' ''a/b'', OpRemove ''c'',
     OpRename ''a'' []]"

theorem registry_refines_witness:
  "\<exists>r. fst (reg_run mem_renv reg_demo []) = [Added r None, Added r (Some ErrAlreadyTracked), Done None,
       Done (Some ErrNotFound), Done (Some (Errorf ''name must not be empty''))] \<and>
     GetByName mem_renv ''a/b'' (snd (reg_run mem_renv reg_demo [])) = Inr [r\<lparr>r_Name := ''a/b''\<rparr>]"
proof -
  have t: "zero_Time \<noteq> 5" by (simp add: zero_Time_def)
  have ok: "ops_ok reg_demo []"
    by (simp add: reg_demo_def reg_demo_root_def stamped_def root_ok_def seg_ok_def name_ok_def Defined_def utf8_valid_def)
  have "seg_ok ''a''" "Defined (Cid 1 112 [7])" "name_ok ''a/b''"
    by (simp_all add: seg_ok_def Defined_def name_ok_def utf8_valid_def)
  then obtain rs zs where rs: "spec_run reg_demo [] = (fst (reg_run mem_renv reg_demo []), rs)"
    "GetByName mem_renv ''a/b'' (snd (reg_run mem_renv reg_demo [])) = Inr zs" "distinct zs"
    "set zs = {r \<in> set rs. r_Name r = ''a/b''}"
    using registry_refines [OF mem_reg_laws map_of.simps(1) ok] by blast
  define x y where "x = stamped ''a'' 5 reg_demo_root" and "y = x\<lparr>r_Name := ''a/b''\<rparr>"
  have "spec_run reg_demo [] = ([Added x None, Added x (Some ErrAlreadyTracked), Done None,
      Done (Some ErrNotFound), Done (Some (Errorf ''name must not be empty''))], [y])"
    by (simp add: x_def y_def reg_demo_def reg_demo_root_def stamped_def)
  with rs(1) have s: "fst (reg_run mem_renv reg_demo []) = [Added x None, Added x (Some ErrAlreadyTracked), Done None,
      Done (Some ErrNotFound), Done (Some (Errorf ''name must not be empty''))]" "rs = [y]" by simp_all
  have "r_Name y = ''a/b''" by (simp add: y_def)
  then have zs: "set zs = {y}" unfolding rs(4) s(2) by auto
  then have "length zs = 1" using distinct_card [OF rs(3)] by simp
  then obtain z where "zs = [z]" by (cases zs) simp_all
  with zs have "zs = [y]" by simp
  then show ?thesis using rs(2) s(1) by (intro exI [of _ x] conjI) (simp_all only: y_def)
qed

end
