(* ===== verification/Local_GC.thy ===== *)
theory Local_GC
  imports Root_Registry Net_Contract
begin

text \<open>
  The host's store (\<open>store/store.go\<close>): the local blocks with their roots beside the network
  store, and its garbage collection. The local half marks what the tracked roots reach
  (\<open>gcWalkDAG\<close> of \<open>store/gc.go\<close>) and sweeps the rest.

  The local blocks are the adapter of \<open>store/blockstore.go\<close> over a third-party block store, whose
  operations are the \<open>blk_\<close> fields of \<open>nenv\<close>; reading a DAG node and its links through the DAG
  service is the parameter \<open>s_dag\<close>.
\<close>

section \<open>The local block store\<close>

definition lbs_Put :: "('d, 'b) nenv \<Rightarrow> cid \<Rightarrow> bytes \<Rightarrow> 'b \<Rightarrow> unit res \<times> 'b" where
  "lbs_Put E key data b =
     (case NewBlockWithCid E data key of
        Some e \<Rightarrow> (Inl e, b)
      | None \<Rightarrow> (case blk_Put E key data b of (Some e, b') \<Rightarrow> (Inl e, b') | (None, b') \<Rightarrow> (Inr (), b')))"

definition lbs_Get :: "('d, 'b) nenv \<Rightarrow> cid \<Rightarrow> 'b \<Rightarrow> bytes res \<times> 'b" where
  "lbs_Get E key b = (blk_Get E key b, b)"

definition lbs_Delete :: "('d, 'b) nenv \<Rightarrow> cid \<Rightarrow> 'b \<Rightarrow> unit res \<times> 'b" where
  "lbs_Delete E key b =
     (case blk_DeleteBlock E key b of (Some e, b') \<Rightarrow> (Inl e, b') | (None, b') \<Rightarrow> (Inr (), b'))"

definition lbs_Has :: "('d, 'b) nenv \<Rightarrow> cid \<Rightarrow> 'b \<Rightarrow> bool res" where
  "lbs_Has E key b = blk_Has E key b"

definition lbs_AllKeysChan :: "('d, 'b) nenv \<Rightarrow> 'b \<Rightarrow> cid list res" where
  "lbs_AllKeysChan E b = blk_AllKeys E b"

definition localBlockStore :: "('d, 'b) nenv \<Rightarrow> 'b bs_ops" where
  "localBlockStore E = \<lparr>bs_Put = lbs_Put E, bs_Get = lbs_Get E, bs_Delete = lbs_Delete E,
     bs_Has = lbs_Has E, bs_AllKeys = lbs_AllKeysChan E\<rparr>"

text \<open>A reliable block store: the laws of \<open>blk_laws\<close>, and a put of a stored block changes nothing.\<close>

definition lbs_laws :: "('d, 'b) nenv \<Rightarrow> ('b \<Rightarrow> bytes \<rightharpoonup> bytes) \<Rightarrow> bool" where
  "lbs_laws E B \<longleftrightarrow> blk_laws E B \<and>
     (\<forall>k d b. B b (Hash k) = Some d \<longrightarrow> B (snd (blk_Put E k d b)) = B b)"

lemma local_contract:
  assumes L: "lbs_laws E B"
  shows "block_store (localBlockStore E) Hash (\<lambda>_. True) B"
proof -
  have b: "blk_laws E B" and o: "B b (Hash k) = Some d \<Longrightarrow> B (snd (blk_Put E k d b)) = B b" for b k d
    using L by (auto simp: lbs_laws_def)
  note P = blk_lawsD [OF b]
  show ?thesis
  proof (unfold_locales, goal_cases)
    case (1 s)
    show ?case by (rule P(1))
  next
    case (2 s k d r s')
    have "r = Inr ()" "s' = snd (blk_Put E k d s)"
      using 2 P(12) [of d k] P(7) [of k d s]
      by (auto simp: localBlockStore_def lbs_Put_def split: prod.splits)
    then show ?case using 2(2) P(8) o by (auto intro!: ext)
  next
    case (3 s k r s')
    then show ?case using P(3,5) by (fastforce simp: localBlockStore_def lbs_Get_def split: option.split)
  next
    case (4 s k r s')
    then show ?case using P(9,10) [of k s] by (auto simp: localBlockStore_def lbs_Delete_def split: prod.splits)
  next
    case (5 s k)
    show ?case using P(2) by (simp add: localBlockStore_def lbs_Has_def)
  next
    case (6 s)
    show ?case using P(11) by (simp add: localBlockStore_def lbs_AllKeysChan_def)
  qed
qed

lemma mem_lbs_laws: "lbs_laws mem_nenv map_of"
proof -
  have "map_of (snd (blk_Put mem_nenv k d b)) = map_of b" if "map_of b (Hash k) = Some d" for k d b
    using that by (simp add: mem_nenv_def fun_upd_idem)
  then show ?thesis using mem_blk_laws by (simp add: lbs_laws_def)
qed

interpretation lbs: block_store "localBlockStore mem_nenv" Hash "\<lambda>_. True" map_of
  by (rule local_contract [OF mem_lbs_laws])

section \<open>The host's store\<close>

record ('l, 'd, 'nd, 'nb) store =
  LocalBlocks :: 'l
  NetworkBlocks :: "('nd, 'nb) nbs"
  Roots :: 'd

record ('l, 'd, 'nd, 'nb) senv =
  s_blk :: "('nd, 'l) nenv"
  s_dag :: "cid \<Rightarrow> 'l \<Rightarrow> cid list res"
  s_reg :: "'d renv"
  s_net :: "('nd, 'nb) nenv"

text \<open>
  \<open>Open\<close> over the results of opening the parts, with the databases it closes again when a later
  part fails; \<open>Close\<close> over the results of closing them.
\<close>

datatype handle = localDB | rootsDB | networkDB

definition store_Open ::
  "'l res \<Rightarrow> 'd res \<Rightarrow> ('nd, 'nb) nbs res \<Rightarrow> ('l \<Rightarrow> 'l res) \<Rightarrow> ('d \<Rightarrow> 'd res) \<Rightarrow>
   ('l, 'd, 'nd, 'nb) store res \<times> handle list" where
  "store_Open localFFS rootsLDB nbs CachedBlockstore openRootRegistry =
     (case localFFS of
        Inl e \<Rightarrow> (Inl e, [])
      | Inr l \<Rightarrow>
          (case rootsLDB of
             Inl e \<Rightarrow> (Inl e, [localDB])
           | Inr d \<Rightarrow>
               (case nbs of
                  Inl e \<Rightarrow> (Inl e, [localDB, rootsDB])
                | Inr s \<Rightarrow>
                    (case CachedBlockstore l of
                       Inl e \<Rightarrow> (Inl e, [localDB, rootsDB, networkDB])
                     | Inr cached \<Rightarrow>
                         (case openRootRegistry d of
                            Inl e \<Rightarrow> (Inl e, [localDB, rootsDB, networkDB])
                          | Inr roots \<Rightarrow> (Inr \<lparr>LocalBlocks = cached, NetworkBlocks = s, Roots = roots\<rparr>, []))))))"

definition store_Close ::
  "('nd, 'nb) nenv \<Rightarrow> err option \<Rightarrow> err option \<Rightarrow> err option \<Rightarrow> err option \<Rightarrow> ('l, 'd, 'nd, 'nb) store \<Rightarrow>
   err option \<times> ('l, 'd, 'nd, 'nb) store" where
  "store_Close N err1 err2 metaErr blocksErr st =
     (let (err3, s) = nbs_Close N metaErr blocksErr (NetworkBlocks st) in
      (case err1 of
         Some e \<Rightarrow> Some e
       | None \<Rightarrow> (case err2 of Some e \<Rightarrow> Some e | None \<Rightarrow> err3),
       st\<lparr>NetworkBlocks := s\<rparr>))"

section \<open>Marking\<close>

text \<open>
  The walk, depth first, with the calls still to make on an explicit stack. It never fails: a
  missing block ends its branch. A cycle of links is cut by the set \<open>seen\<close> of multihashes, so
  the recursion is partial here and its termination is a theorem.
\<close>

partial_function (option) gcWalkDAG :: "(cid \<Rightarrow> cid list res) \<Rightarrow> cid list \<Rightarrow> string list \<Rightarrow> string list option" where
  "gcWalkDAG get stack seen =
     (case stack of
        [] \<Rightarrow> Some seen
      | c # rest \<Rightarrow>
          if HexString c \<in> set seen then gcWalkDAG get rest seen
          else
            case get c of
              Inl _ \<Rightarrow> gcWalkDAG get rest (HexString c # seen)
            | Inr links \<Rightarrow> gcWalkDAG get (links @ rest) (HexString c # seen))"

declare gcWalkDAG.simps [code]

fun mark_roots :: "(cid \<Rightarrow> cid list res) \<Rightarrow> Root list \<Rightarrow> string list \<Rightarrow> string list option" where
  "mark_roots get [] seen = Some seen"
| "mark_roots get (r # rs) seen =
     (case gcWalkDAG get [r_CID r] seen of None \<Rightarrow> None | Some seen' \<Rightarrow> mark_roots get rs seen')"

section \<open>Sweeping\<close>

fun local_sweep :: "'l bs_ops \<Rightarrow> string list \<Rightarrow> cid list \<Rightarrow> GCResult \<Rightarrow> 'l \<Rightarrow> GCResult res \<times> 'l" where
  "local_sweep ops reachable [] g l = (Inr g, l)"
| "local_sweep ops reachable (c # cs) g l =
     (if HexString c \<in> set reachable
      then local_sweep ops reachable cs (g\<lparr>gc_Kept := gc_Kept g + 1\<rparr>) l
      else
        case bs_Delete ops c l of
          (Inl e, l') \<Rightarrow> (Inl e, l')
        | (Inr _, l') \<Rightarrow> local_sweep ops reachable cs (g\<lparr>gc_Removed := gc_Removed g + 1\<rparr>) l')"

definition gcLocal ::
  "('l, 'd, 'nd, 'nb) senv \<Rightarrow> ('l, 'd, 'nd, 'nb) store \<Rightarrow> (GCResult res \<times> ('l, 'd, 'nd, 'nb) store) option" where
  "gcLocal S st =
     (case mark_roots (\<lambda>c. s_dag S c (LocalBlocks st)) (root_List (s_reg S) (Roots st)) [] of
        None \<Rightarrow> None
      | Some reachable \<Rightarrow>
          (case bs_AllKeys (localBlockStore (s_blk S)) (LocalBlocks st) of
             Inl e \<Rightarrow> Some (Inl e, st)
           | Inr ks \<Rightarrow>
               (let (r, l) = local_sweep (localBlockStore (s_blk S)) reachable ks \<lparr>gc_Removed = 0, gc_Kept = 0\<rparr> (LocalBlocks st)
                in Some (r, st\<lparr>LocalBlocks := l\<rparr>))))"

definition store_GC ::
  "('l, 'd, 'nd, 'nb) senv \<Rightarrow> int \<Rightarrow> ('l, 'd, 'nd, 'nb) store \<Rightarrow> (GCResult res \<times> ('l, 'd, 'nd, 'nb) store) option" where
  "store_GC S now st =
     (case gcLocal S st of
        None \<Rightarrow> None
      | Some (Inl e, st1) \<Rightarrow> Some (Inl e, st1)
      | Some (Inr g1, st1) \<Rightarrow>
          (case nbs_GC (s_net S) now (NetworkBlocks st1) of
             (Inl e, s) \<Rightarrow> Some (Inl e, st1\<lparr>NetworkBlocks := s\<rparr>)
           | (Inr g2, s) \<Rightarrow>
               Some (Inr \<lparr>gc_Removed = gc_Removed g1 + gc_Removed g2, gc_Kept = gc_Kept g1 + gc_Kept g2\<rparr>,
                     st1\<lparr>NetworkBlocks := s\<rparr>)))"

section \<open>What the walk marks\<close>

inductive dag_reach :: "(cid \<Rightarrow> cid list res) \<Rightarrow> cid set \<Rightarrow> cid \<Rightarrow> bool" for get R where
  root: "c \<in> R \<Longrightarrow> dag_reach get R c"
| link: "dag_reach get R c \<Longrightarrow> get c = Inr ls \<Longrightarrow> l \<in> set ls \<Longrightarrow> dag_reach get R l"









section \<open>What the sweep keeps\<close>



section \<open>Properties\<close>


text \<open>
  A host in memory: the directory \<open>[1]\<close> links to the leaf \<open>[2]\<close> and to itself, \<open>[3]\<close> is garbage, and
  the directory is a tracked root. The links of a DAG-PB block are the multihashes in its bytes.
\<close>

definition gc_root :: Root where
  "gc_root = \<lparr>r_ID = ''a'', r_Name = ''photos'', r_CID = Cid 1 112 [1], r_Path = [], r_AddedAt = 5\<rparr>"

definition gc_links :: "(bytes \<times> cid list) list \<Rightarrow> cid \<Rightarrow> (bytes \<times> bytes) list \<Rightarrow> cid list res" where
  "gc_links T c l =
     (case map_of l (Hash c) of
        None \<Rightarrow> Inl (Errorf ''ipld: could not find node'')
      | Some d \<Rightarrow> if Codec c = codec_DagProtobuf then (case map_of T d of None \<Rightarrow> Inr [] | Some cs \<Rightarrow> Inr cs) else Inr [])"

definition gc_senv :: "(bytes \<times> cid list) list \<Rightarrow>
    ((bytes \<times> bytes) list, (string \<times> bytes) list, (string \<times> bytes) list, (bytes \<times> bytes) list) senv" where
  "gc_senv T = \<lparr>s_blk = mem_nenv, s_dag = gc_links T, s_reg = mem_renv, s_net = mem_nenv\<rparr>"

definition gc_store :: "(bytes \<times> bytes) list \<Rightarrow>
    ((bytes \<times> bytes) list, (string \<times> bytes) list, (string \<times> bytes) list, (bytes \<times> bytes) list) store" where
  "gc_store l = \<lparr>LocalBlocks = l, NetworkBlocks = \<lparr>ds = [], blks = [], maxBytes = 0, usedBytesAtomic = 0,
       blockCountAtomic = 0, ringCtrs = [], knownRings = []\<rparr>,
     Roots = snd (reg_run mem_renv [OpAdd ''a'' 5 (gc_root\<lparr>r_AddedAt := zero_Time\<rparr>)] [])\<rparr>"

lemma gc_store_rel: "reg_rel mem_renv map_of [gc_root] (Roots (gc_store l))"
proof -
  let ?x = "OpAdd ''a'' 5 (gc_root\<lparr>r_AddedAt := zero_Time\<rparr>)"
  have "ops_ok [?x] []"
    by (simp add: gc_root_def stamped_def root_ok_def seg_ok_def name_ok_def Defined_def utf8_valid_def)
  moreover have "reg_rel mem_renv map_of [] []" by (simp add: reg_rel_def)
  moreover have "snd (spec_run [?x] []) = [gc_root]" by (simp add: gc_root_def stamped_def)
  ultimately show ?thesis using run_sim [OF mem_reg_laws, of "[]" "[]" "[?x]"] by (auto simp: gc_store_def)
qed


text \<open>
  C34. The mark phase keys on the multihash and not on the CID. In a concrete host the tracked
  directory \<open>[1]\<close> holds a file \<open>[2]\<close> whose bytes are those of the directory \<open>[2]\<close> it also holds, and that
  directory holds the leaf \<open>[3]\<close>. The walk meets the file first, so the directory of the same
  multihash is taken as seen; the collection succeeds and deletes the leaf, which the tracked
  root reaches.
\<close>

theorem gc_shared_multihash_loses_block:
  "let S = gc_senv [([9], [Cid 1 85 [2], Cid 1 112 [2]]), ([8], [Cid 1 85 [3]])];
       st = gc_store [([1], [9]), ([2], [8]), ([3], [7])]
   in dag_reach (\<lambda>c. s_dag S c (LocalBlocks st)) (r_CID ` set (root_List mem_renv (Roots st))) (Cid 1 85 [3]) \<and>
      map_of (LocalBlocks st) [3] = Some [7] \<and>
      (\<exists>g st'. store_GC S 0 st = Some (Inr g, st') \<and> map_of (LocalBlocks st') [3] = None)"
proof -
  let ?S = "gc_senv [([9], [Cid 1 85 [2], Cid 1 112 [2]]), ([8], [Cid 1 85 [3]])]"
  let ?st = "gc_store [([1], [9]), ([2], [8]), ([3], [7])]"
  let ?get = "\<lambda>c. s_dag ?S c (LocalBlocks ?st)" and ?R = "r_CID ` set (root_List mem_renv (Roots ?st))"
  have "?R = {Cid 1 112 [1]}"
    using List_rel(1) [OF mem_reg_laws gc_store_rel] by (simp add: gc_root_def)
  then have r: "dag_reach ?get ?R (Cid 1 112 [1])" by (intro dag_reach.root) simp
  have g: "?get (Cid 1 112 [1]) = Inr [Cid 1 85 [2], Cid 1 112 [2]]" "?get (Cid 1 112 [2]) = Inr [Cid 1 85 [3]]"
    by (simp_all add: gc_senv_def gc_store_def gc_links_def)
  have r2: "dag_reach ?get ?R (Cid 1 112 [2])" by (rule dag_reach.link [OF r g(1)]) simp
  have 1: "dag_reach ?get ?R (Cid 1 85 [3])" by (rule dag_reach.link [OF r2 g(2)]) simp
  have 2: "map_option (\<lambda>(r, st'). (r, map_of (LocalBlocks st') [3])) (store_GC ?S 0 ?st) =
      Some (Inr \<lparr>gc_Removed = 1, gc_Kept = 2\<rparr>, None)"
    by code_simp
  have "map_of (LocalBlocks ?st) [3] = Some [7]" by (simp add: gc_store_def)
  then show ?thesis unfolding Let_def using 1 2 by (auto simp: map_option_case split: option.splits)
qed

end
