(* ===== verification/Chord_Addr.thy ===== *)
theory Chord_Addr
  imports Chord_Id
begin

text \<open>
  The address conversions of \<open>dht/chord.go\<close> between multiaddrs and \<open>host:port\<close> strings.
  \<open>net.SplitHostPort\<close> and \<open>net.JoinHostPort\<close> are the standard library's and are defined here;
  parsing a multiaddr and reading one of its values belong to a library outside the repository
  and are the fields of the record \<open>mlib\<close>.
\<close>

section \<open>Host and port\<close>

abbreviation colon :: char where "colon \<equiv> CHR '':''"

text \<open>\<open>strings.LastIndex\<close> and \<open>strings.Index\<close> of one byte.\<close>

fun str_Index :: "char \<Rightarrow> string \<Rightarrow> nat option" where
  "str_Index c [] = None"
| "str_Index c (x # xs) = (if x = c then Some 0 else map_option Suc (str_Index c xs))"

definition str_LastIndex :: "char \<Rightarrow> string \<Rightarrow> nat option" where
  "str_LastIndex c s = map_option (\<lambda>i. length s - 1 - i) (str_Index c (rev s))"

text \<open>What stays to check once the port starts after position \<open>i\<close>: brackets elsewhere.\<close>

definition split_rest :: "string \<Rightarrow> string \<Rightarrow> nat \<Rightarrow> nat \<Rightarrow> nat \<Rightarrow> (string \<times> string) res" where
  "split_rest hostport host i j k =
     (if CHR ''['' \<in> set (drop j hostport) then Inl (Errorf ''unexpected '[' in address'')
      else if CHR '']'' \<in> set (drop k hostport) then Inl (Errorf ''unexpected ']' in address'')
      else Inr (host, drop (i + 1) hostport))"

definition SplitHostPort :: "string \<Rightarrow> (string \<times> string) res" where
  "SplitHostPort hostport =
     (case str_LastIndex colon hostport of
        None \<Rightarrow> Inl (Errorf ''missing port in address'')
      | Some i \<Rightarrow>
          if hostport ! 0 = CHR ''['' then
            (case str_Index (CHR '']'') hostport of
               None \<Rightarrow> Inl (Errorf ''missing ']' in address'')
             | Some e \<Rightarrow>
                 if e + 1 = length hostport then Inl (Errorf ''missing port in address'')
                 else if e + 1 = i then split_rest hostport (drop 1 (take e hostport)) i 1 (e + 1)
                 else if hostport ! (e + 1) = colon then Inl (Errorf ''too many colons in address'')
                 else Inl (Errorf ''missing port in address''))
          else if colon \<in> set (take i hostport) then Inl (Errorf ''too many colons in address'')
          else split_rest hostport (take i hostport) i 0 0)"

definition JoinHostPort :: "string \<Rightarrow> string \<Rightarrow> string" where
  "JoinHostPort host port =
     (if colon \<in> set host \<or> CHR ''%'' \<in> set host then ''['' @ host @ '']:'' @ port
      else host @ '':'' @ port)"

section \<open>Multiaddrs\<close>

abbreviation P_IP4 :: nat where "P_IP4 \<equiv> 4"
abbreviation P_TCP :: nat where "P_TCP \<equiv> 6"
abbreviation P_IP6 :: nat where "P_IP6 \<equiv> 41"

record 'a mlib =
  NewMultiaddr :: "string \<Rightarrow> 'a res"
  ValueForProtocol :: "nat \<Rightarrow> 'a \<Rightarrow> string res"

definition MultiaddrToTCPAddr :: "'a mlib \<Rightarrow> string \<Rightarrow> string res" where
  "MultiaddrToTCPAddr M s =
     (case NewMultiaddr M s of
        Inl _ \<Rightarrow> Inr s
      | Inr m \<Rightarrow>
          (case (case ValueForProtocol M P_IP4 m of Inr v \<Rightarrow> Inr v | Inl _ \<Rightarrow> ValueForProtocol M P_IP6 m) of
             Inl _ \<Rightarrow> Inl (Errorf ''no IP protocol in multiaddr'')
           | Inr host \<Rightarrow>
               (case ValueForProtocol M P_TCP m of
                  Inl _ \<Rightarrow> Inl (Errorf ''no TCP protocol in multiaddr'')
                | Inr port \<Rightarrow> Inr (JoinHostPort host port))))"

definition multiaddr :: "string \<Rightarrow> string \<Rightarrow> string" where
  "multiaddr host port =
     (if str_contains host '':'' then ''/ip6/'' @ host @ ''/tcp/'' @ port else ''/ip4/'' @ host @ ''/tcp/'' @ port)"

definition TCPAddrToMultiaddr :: "string \<Rightarrow> string res" where
  "TCPAddrToMultiaddr hostPort =
     (case SplitHostPort hostPort of
        Inl e \<Rightarrow> Inl e
      | Inr (host, port) \<Rightarrow> Inr (multiaddr host port))"

definition effectiveMultiaddr :: "string \<Rightarrow> string \<Rightarrow> string res" where
  "effectiveMultiaddr boundTCP advertiseAddr =
     (case SplitHostPort boundTCP of
        Inl e \<Rightarrow> Inl (Wrap ''parse bound addr'' e)
      | Inr (bound, port) \<Rightarrow> Inr (multiaddr (if advertiseAddr = [] then bound else advertiseAddr) port))"

section \<open>Round trips\<close>

lemma str_Index_append: "c \<notin> set a \<Longrightarrow> str_Index c (a @ c # b) = Some (length a)"
  by (induction a) auto

lemma str_Index_None: "str_Index c s = None \<longleftrightarrow> c \<notin> set s"
  by (induction s) auto

lemma str_LastIndex_append: "c \<notin> set b \<Longrightarrow> str_LastIndex c (a @ c # b) = Some (length a)"
  using str_Index_append [of c "rev b" "rev a"] by (simp add: str_LastIndex_def)

text \<open>Hosts and ports as they occur: no bracket, and a port without a colon.\<close>

definition host_ok :: "string \<Rightarrow> bool" where
  "host_ok h \<longleftrightarrow> CHR ''['' \<notin> set h \<and> CHR '']'' \<notin> set h"

lemma SplitHostPort_Join:
  assumes h: "host_ok host" and p: "host_ok port" "colon \<notin> set port" and z: "colon \<in> set host \<or> CHR ''%'' \<notin> set host"
  shows "SplitHostPort (JoinHostPort host port) = Inr (host, port)"
proof (cases "colon \<in> set host")
  case True
  then have j: "JoinHostPort host port = CHR ''['' # host @ CHR '']'' # colon # port" by (simp add: JoinHostPort_def)
  have 1: "str_LastIndex colon (CHR ''['' # host @ CHR '']'' # colon # port) = Some (length host + 2)"
    using str_LastIndex_append [OF p(2), of "CHR ''['' # host @ [CHR '']'']"] by simp
  have 2: "str_Index (CHR '']'') (host @ CHR '']'' # colon # port) = Some (length host)"
    using str_Index_append [of "CHR '']''" "host" "colon # port"] h by (simp add: host_ok_def)
  show ?thesis using h p(1) by (simp add: SplitHostPort_def j 1 2 split_rest_def host_ok_def)
next
  case False
  then have j: "JoinHostPort host port = host @ colon # port" using z by (simp add: JoinHostPort_def)
  have 1: "str_LastIndex colon (host @ colon # port) = Some (length host)" by (rule str_LastIndex_append [OF p(2)])
  have 2: "(host @ colon # port) ! 0 \<noteq> CHR ''[''" using h by (cases host) (auto simp: host_ok_def)
  show ?thesis using h p(1) False by (simp add: SplitHostPort_def j 1 2 split_rest_def host_ok_def)
qed

text \<open>
  What the multiaddr library documents: the text of an address with an IP and a TCP part parses,
  its values are the ones written, and an IPv6 address has no IPv4 value.
\<close>

definition mlib_ok :: "'a mlib \<Rightarrow> (string \<Rightarrow> bool) \<Rightarrow> (string \<Rightarrow> bool) \<Rightarrow> bool" where
  "mlib_ok M ip port \<longleftrightarrow> (\<forall>h p. ip h \<and> port p \<longrightarrow>
     (\<exists>m. NewMultiaddr M (multiaddr h p) = Inr m \<and> ValueForProtocol M P_TCP m = Inr p \<and>
       (if str_contains h '':'' then ValueForProtocol M P_IP4 m \<in> range Inl \<and> ValueForProtocol M P_IP6 m = Inr h
        else ValueForProtocol M P_IP4 m = Inr h)))"

lemma multiaddr_to_tcp:
  assumes "mlib_ok M ip port" "ip h" "port p"
  shows "MultiaddrToTCPAddr M (multiaddr h p) = Inr (JoinHostPort h p)"
proof -
  obtain m where "NewMultiaddr M (multiaddr h p) = Inr m" "ValueForProtocol M P_TCP m = Inr p"
    "if str_contains h '':'' then ValueForProtocol M P_IP4 m \<in> range Inl \<and> ValueForProtocol M P_IP6 m = Inr h
     else ValueForProtocol M P_IP4 m = Inr h"
    using assms unfolding mlib_ok_def by blast
  then show ?thesis by (auto simp: MultiaddrToTCPAddr_def split: if_splits)
qed

text \<open>The address a node listens on, written as a multiaddr and read back, is the address to dial.\<close>

lemma tcp_multiaddr_roundtrip:
  assumes "mlib_ok M ip port" "ip h" "port p" "host_ok h" "host_ok p" "colon \<notin> set p" "colon \<in> set h \<or> CHR ''%'' \<notin> set h"
  shows "\<exists>s. TCPAddrToMultiaddr (JoinHostPort h p) = Inr s \<and> effectiveMultiaddr (JoinHostPort h p) [] = Inr s \<and>
    MultiaddrToTCPAddr M s = Inr (JoinHostPort h p)"
  using SplitHostPort_Join [OF assms(4-7)] multiaddr_to_tcp [OF assms(1-3)]
  by (simp add: TCPAddrToMultiaddr_def effectiveMultiaddr_def)

end
