(* ===== verification/Rpc_Transport.thy ===== *)
theory Rpc_Transport
  imports Node_Data Chord_Addr
begin

text \<open>
  The network transport of \<open>dht/rpc.go\<close>: the handlers a node serves, the client's connection pool
  and the stubs of \<open>RPCTransport\<close>.

  The network is the world of the local transport seen by address: a dialled address reaches the
  node that listens on it unless the link is broken. \<open>net/rpc\<close> carries the arguments and the reply,
  reduces a handler's error to its text, and does not recover from a panic of a handler, which
  ends the process of the node. Panics are the outcome \<open>None\<close> of a handler. The byte form of a CID
  comes from the CID library (\<open>w_Bytes\<close>, \<open>w_Cast\<close>). The calls a handler makes itself, such as the
  pushes to replicas, are those of the local transport, which the calls below are shown to match.
\<close>

section \<open>Environment\<close>

record ('m, 'd, 'b, 'l, 'a) rpc_env =
  d_env :: "('m, 'd, 'b, 'l) denv"
  m_lib :: "'a mlib"
  w_Bytes :: "cid \<Rightarrow> bytes"
  w_Cast :: "bytes \<Rightarrow> cid res"

type_synonym ('m, 'd, 'b, 'l, 'r) handled = "('r res \<times> ('m, 'd, 'b, 'l) world) option"

definition AddrToNodeID :: "ext \<Rightarrow> string \<Rightarrow> NodeID" where
  "AddrToNodeID X a = sha1_Sum X (map (\<lambda>c. of_nat (of_char c)) a)"

section \<open>Handlers\<close>

text \<open>
  A handler runs on node \<open>i\<close>, whose state is \<open>n\<close>. \<open>auth\<close> is the authenticated identity of the
  peer, if the connection has one.
\<close>

definition h_FindSuccessor :: "NodeID \<Rightarrow> NodeID \<Rightarrow> ('m, 'd, 'b, 'l) world \<Rightarrow> ('m, 'd, 'b, 'l, NodeAddr) handled" where
  "h_FindSuccessor i key w = Some (w_FindSuccessor i key w)"

record ReplyGetPredecessor =
  rp_Node :: NodeAddr
  rp_HasNode :: bool
  rp_SelfID :: NodeID

definition zero_NodeAddr :: NodeAddr where "zero_NodeAddr = \<lparr>ID = zeroID, Addr = []\<rparr>"

definition h_GetPredecessor ::
  "('m, 'd, 'b, 'l) dnode \<Rightarrow> ('m, 'd, 'b, 'l) world \<Rightarrow> ('m, 'd, 'b, 'l, ReplyGetPredecessor) handled" where
  "h_GetPredecessor n w =
     Some (Inr (case predecessor n of
                  Some p \<Rightarrow> \<lparr>rp_Node = p, rp_HasNode = True, rp_SelfID = node_id n\<rparr>
                | None \<Rightarrow> \<lparr>rp_Node = zero_NodeAddr, rp_HasNode = False, rp_SelfID = node_id n\<rparr>), w)"

definition h_GetSuccessorList ::
  "('m, 'd, 'b, 'l) dnode \<Rightarrow> ('m, 'd, 'b, 'l) world \<Rightarrow> ('m, 'd, 'b, 'l, NodeAddr list) handled" where
  "h_GetSuccessorList n w = Some (Inr (successorList n), w)"

definition h_Notify ::
  "NodeID option \<Rightarrow> NodeID \<Rightarrow> NodeAddr \<Rightarrow> ('m, 'd, 'b, 'l) world \<Rightarrow> ('m, 'd, 'b, 'l, unit) handled" where
  "h_Notify auth i caller w =
     (if auth \<noteq> None \<and> auth \<noteq> Some (ID caller)
      then Some (Inl (Errorf ''notify rejected: caller ID does not match authenticated peer''), w)
      else Some (Inr (), on_node i (notify (lt_Ping w i) caller) w))"

definition wire_root :: "('m, 'd, 'b, 'l, 'a) rpc_env \<Rightarrow> bytes \<Rightarrow> int \<Rightarrow> cid \<times> int" where
  "wire_root R root exp =
     (if root \<noteq> [] then (case w_Cast R root of Inr rc \<Rightarrow> (rc, exp) | Inl _ \<Rightarrow> (Undef, 0)) else (Undef, 0))"

definition h_PutBlock ::
  "('m, 'd, 'b, 'l, 'a) rpc_env \<Rightarrow> NodeID \<Rightarrow> ('m, 'd, 'b, 'l) dnode \<Rightarrow> bytes \<Rightarrow> bytes \<Rightarrow> bytes \<Rightarrow> int \<Rightarrow>
   ('m, 'd, 'b, 'l) world \<Rightarrow> ('m, 'd, 'b, 'l, unit) handled" where
  "h_PutBlock R i n key data root exp w =
     (case w_Cast R key of
        Inl e \<Rightarrow> Some (Inl (Wrap ''invalid CID'' e), w)
      | Inr c \<Rightarrow>
          (let (rootCID, rootExpiry) = wire_root R root exp in
           case store_block (d_env R) c data rootCID rootExpiry n of
             (Inr _, n') \<Rightarrow> Some (Inr (), on_node i (replicateAsync (d_env R) c data rootCID rootExpiry) (put_node i n' w))
           | (Inl e, n') \<Rightarrow>
               if \<not> IsStorageFull (Some e) then Some (Inl e, put_node i n' w)
               else
                 let ((replicaOK, _), w') = replicateAndReport (d_env R) i c data rootCID rootExpiry (put_node i n' w)
                 in Some (if replicaOK = 0 then Inl ErrStorageFull else Inr (), w')))"

record ArgsPushBlocks =
  pb_Keys :: "bytes list"
  pb_Data :: "bytes list"
  pb_RootCIDs :: "string list list"
  pb_RootExpiry :: "int list list"

text \<open>The root entries of block \<open>i\<close>; a missing expiry is 0.\<close>

definition pb_roots :: "ArgsPushBlocks \<Rightarrow> nat \<Rightarrow> NetworkRootEntry list" where
  "pb_roots a i =
     (if i < length (pb_RootCIDs a)
      then map (\<lambda>j. \<lparr>nr_CID = pb_RootCIDs a ! i ! j,
                      nr_ExpiresAt = (if j < length (pb_RootExpiry a ! i) then pb_RootExpiry a ! i ! j else 0)\<rparr>)
             [0..<length (pb_RootCIDs a ! i)]
      else [])"

text \<open>
  \<open>args.Data[i]\<close> panics past the end, and so does \<open>args.BlockRootExpiry[i]\<close> once the block is put
  under a root.
\<close>

definition pb_panics :: "('m, 'd, 'b, 'l, 'a) rpc_env \<Rightarrow> ('m, 'd, 'b, 'l) dnode \<Rightarrow> ArgsPushBlocks \<Rightarrow> nat \<Rightarrow> bool" where
  "pb_panics R n a i \<longleftrightarrow> length (pb_Data a) \<le> i \<or>
     (ringStore n \<noteq> None \<and> i < length (pb_RootCIDs a) \<and> length (pb_RootExpiry a) \<le> i \<and>
      (case pb_RootCIDs a ! i of [] \<Rightarrow> False | r # _ \<Rightarrow> cid_Parse (netE (d_env R)) r \<in> range Inr))"

fun h_push_loop ::
  "('m, 'd, 'b, 'l, 'a) rpc_env \<Rightarrow> ArgsPushBlocks \<Rightarrow> nat list \<Rightarrow> nat \<Rightarrow> ('m, 'd, 'b, 'l) dnode \<Rightarrow>
   (nat res \<times> ('m, 'd, 'b, 'l) dnode) option" where
  "h_push_loop R a [] stored n = Some (Inr stored, n)"
| "h_push_loop R a (i # is) stored n =
     (case w_Cast R (pb_Keys a ! i) of
        Inl e \<Rightarrow> Some (Inl (Wrap ''invalid CID'' e), n)
      | Inr c \<Rightarrow>
          if pb_panics R n a i then None
          else
            case push_one (d_env R) (c, pb_Data a ! i, pb_roots a i) n of
              (Inr _, n') \<Rightarrow> h_push_loop R a is (Suc stored) n'
            | (Inl e, n') \<Rightarrow>
                if IsStorageFull (Some e) then h_push_loop R a is stored n' else Some (Inl e, n'))"

definition h_PushBlocks ::
  "('m, 'd, 'b, 'l, 'a) rpc_env \<Rightarrow> NodeID \<Rightarrow> ('m, 'd, 'b, 'l) dnode \<Rightarrow> ArgsPushBlocks \<Rightarrow>
   ('m, 'd, 'b, 'l) world \<Rightarrow> ('m, 'd, 'b, 'l, unit) handled" where
  "h_PushBlocks R i n a w =
     (case h_push_loop R a [0..<length (pb_Keys a)] 0 n of
        None \<Rightarrow> None
      | Some (Inl e, n') \<Rightarrow> Some (Inl e, put_node i n' w)
      | Some (Inr stored, n') \<Rightarrow>
          Some (if stored = 0 \<and> pb_Keys a \<noteq> [] then Inl ErrStorageFull else Inr (), put_node i n' w))"

definition h_ReconcileBlocks ::
  "('m, 'd, 'b, 'l, 'a) rpc_env \<Rightarrow> ('m, 'd, 'b, 'l) dnode \<Rightarrow> bytes list \<Rightarrow>
   ('m, 'd, 'b, 'l) world \<Rightarrow> ('m, 'd, 'b, 'l, 32 word list) handled" where
  "h_ReconcileBlocks R n keys w =
     Some (Inr (map of_nat (filter (\<lambda>i. case w_Cast R (keys ! i) of
              Inl _ \<Rightarrow> True
            | Inr c \<Rightarrow> b_Has (d_env R) c (blocks n) \<noteq> Inr True) [0..<length keys])), w)"

text \<open>
  The targets of \<open>FetchBlock\<close> on a local miss are asked at once through the transport of the node
  (\<open>has\<close>, \<open>fetch\<close>); \<open>sched\<close> is the order of the answers. An empty reply counts as a miss: a slice
  of length 0 arrives as \<open>nil\<close>.
\<close>

fun h_fan_out ::
  "(NodeAddr \<Rightarrow> ('m, 'd, 'b, 'l) world \<Rightarrow> bool res) \<Rightarrow> (NodeAddr \<Rightarrow> ('m, 'd, 'b, 'l) world \<Rightarrow> bytes res \<times> ('m, 'd, 'b, 'l) world) \<Rightarrow>
   NodeAddr list \<Rightarrow> bytes option \<Rightarrow> ('m, 'd, 'b, 'l) world \<Rightarrow> bytes option \<times> ('m, 'd, 'b, 'l) world" where
  "h_fan_out has fetch [] r w = (r, w)"
| "h_fan_out has fetch (t # ts) r w =
     (if has t w \<noteq> Inr True then h_fan_out has fetch ts r w
      else
        let (d, w') = fetch t w
        in h_fan_out has fetch ts
             (case r of Some _ \<Rightarrow> r | None \<Rightarrow> (case d of Inr b \<Rightarrow> if b = [] then None else Some b | Inl _ \<Rightarrow> None)) w')"

definition h_FetchBlock ::
  "('m, 'd, 'b, 'l, 'a) rpc_env \<Rightarrow>
   (NodeAddr \<Rightarrow> cid \<Rightarrow> ('m, 'd, 'b, 'l) world \<Rightarrow> bool res) \<Rightarrow>
   (NodeAddr \<Rightarrow> cid \<Rightarrow> ('m, 'd, 'b, 'l) world \<Rightarrow> bytes res \<times> ('m, 'd, 'b, 'l) world) \<Rightarrow>
   (NodeAddr list \<Rightarrow> NodeAddr list) \<Rightarrow> NodeID \<Rightarrow> ('m, 'd, 'b, 'l) dnode \<Rightarrow> bytes \<Rightarrow>
   ('m, 'd, 'b, 'l) world \<Rightarrow> ('m, 'd, 'b, 'l, bytes option) handled" where
  "h_FetchBlock R has fetch sched i n key w =
     (case w_Cast R key of
        Inl e \<Rightarrow> Some (Inl (Wrap ''invalid CID'' e), w)
      | Inr c \<Rightarrow>
          (case own_Get (d_env R) c n of
             (Inr d, n') \<Rightarrow> Some (Inr (Some d), put_node i n' w)
           | (Inl _, n') \<Rightarrow>
               (let targets = filter (\<lambda>s. ID s \<noteq> node_id n) (successorList n);
                    (r, w') = h_fan_out (\<lambda>t. has t c) (\<lambda>t. fetch t c) (sched targets) None (put_node i n' w)
                in Some (Inr r, w'))))"

definition h_HasBlock ::
  "('m, 'd, 'b, 'l, 'a) rpc_env \<Rightarrow> ('m, 'd, 'b, 'l) dnode \<Rightarrow> bytes \<Rightarrow>
   ('m, 'd, 'b, 'l) world \<Rightarrow> ('m, 'd, 'b, 'l, bool) handled" where
  "h_HasBlock R n key w =
     (case w_Cast R key of
        Inl e \<Rightarrow> Some (Inl (Wrap ''invalid CID'' e), w)
      | Inr c \<Rightarrow> Some (b_Has (d_env R) c (blocks n), w))"

definition h_RemoveBlock ::
  "('m, 'd, 'b, 'l, 'a) rpc_env \<Rightarrow> NodeID \<Rightarrow> ('m, 'd, 'b, 'l) dnode \<Rightarrow> bytes \<Rightarrow>
   ('m, 'd, 'b, 'l) world \<Rightarrow> ('m, 'd, 'b, 'l, unit) handled" where
  "h_RemoveBlock R i n key w =
     (case w_Cast R key of
        Inl e \<Rightarrow> Some (Inl (Wrap ''invalid CID'' e), w)
      | Inr c \<Rightarrow> (let (r, b) = b_Delete (d_env R) c (blocks n) in Some (r, put_node i (n\<lparr>blocks := b\<rparr>) w)))"

text \<open>The reply of \<open>TransferKeys\<close> has the shape of the arguments of \<open>PushBlocks\<close>.\<close>

definition wire_blocks :: "('m, 'd, 'b, 'l, 'a) rpc_env \<Rightarrow> pushed list \<Rightarrow> ArgsPushBlocks" where
  "wire_blocks R xs =
     \<lparr>pb_Keys = map (\<lambda>(k, _, _). w_Bytes R k) xs, pb_Data = map (\<lambda>(_, d, _). d) xs,
      pb_RootCIDs = map (\<lambda>(_, _, rs). map nr_CID rs) xs, pb_RootExpiry = map (\<lambda>(_, _, rs). map nr_ExpiresAt rs) xs\<rparr>"

definition h_TransferKeys ::
  "('m, 'd, 'b, 'l, 'a) rpc_env \<Rightarrow> NodeID \<Rightarrow> ('m, 'd, 'b, 'l) dnode \<Rightarrow> NodeID \<Rightarrow> NodeID \<Rightarrow>
   ('m, 'd, 'b, 'l) world \<Rightarrow> ('m, 'd, 'b, 'l, ArgsPushBlocks) handled" where
  "h_TransferKeys R i n from to w =
     (case collectRingBlocksInRange (d_env R) from to n of
        (Inl e, n') \<Rightarrow> Some (Inl e, put_node i n' w)
      | (Inr xs, n') \<Rightarrow>
          Some (Inr (wire_blocks R xs), put_node i (foldl (\<lambda>n x. drop_key (d_env R) (fst x) n) n' xs) w))"

definition h_DeleteCID ::
  "('m, 'd, 'b, 'l, 'a) rpc_env \<Rightarrow> NodeID \<Rightarrow> bytes \<Rightarrow> bool \<Rightarrow> ('m, 'd, 'b, 'l) world \<Rightarrow> ('m, 'd, 'b, 'l, unit) handled" where
  "h_DeleteCID R i root propagate w =
     (case w_Cast R root of
        Inl e \<Rightarrow> Some (Inl (Wrap ''invalid CID'' e), w)
      | Inr c \<Rightarrow> Some (Inr (), handleDeleteCID (d_env R) i c propagate w))"

definition h_NotifyLeave ::
  "NodeID \<Rightarrow> NodeAddr \<Rightarrow> NodeAddr \<Rightarrow> NodeAddr \<Rightarrow> ('m, 'd, 'b, 'l) world \<Rightarrow> ('m, 'd, 'b, 'l, unit) handled" where
  "h_NotifyLeave i self succ pred w = Some (Inr (), on_node i (\<lambda>n. (handleNotifyLeave self succ pred n, [])) w)"

definition h_ClosestPrecedingNode ::
  "('m, 'd, 'b, 'l) dnode \<Rightarrow> NodeID \<Rightarrow> ('m, 'd, 'b, 'l) world \<Rightarrow> ('m, 'd, 'b, 'l, NodeAddr \<times> NodeAddr) handled" where
  "h_ClosestPrecedingNode n key w = Some (Inr (closestPrecedingNode n key, successor n), w)"

definition h_Ping :: "('m, 'd, 'b, 'l) world \<Rightarrow> ('m, 'd, 'b, 'l, unit) handled" where
  "h_Ping w = Some (Inr (), w)"

definition h_PutRecord ::
  "('m, 'd, 'b, 'l, 'a) rpc_env \<Rightarrow> NodeID option \<Rightarrow> NodeID \<Rightarrow> ('m, 'd, 'b, 'l) dnode \<Rightarrow> NodeID \<Rightarrow> bytes \<Rightarrow> NodeID \<Rightarrow>
   ('m, 'd, 'b, 'l) world \<Rightarrow> ('m, 'd, 'b, 'l, unit) handled" where
  "h_PutRecord R auth i n key data callerID w =
     Some (store_record (d_env R) i n key data (case auth of Some p \<Rightarrow> p | None \<Rightarrow> callerID) w)"

definition h_GetRecord ::
  "('m, 'd, 'b, 'l, 'a) rpc_env \<Rightarrow> ('m, 'd, 'b, 'l) dnode \<Rightarrow> NodeID \<Rightarrow>
   ('m, 'd, 'b, 'l) world \<Rightarrow> ('m, 'd, 'b, 'l, bytes option) handled" where
  "h_GetRecord R n key w =
     Some (Inr (case localRecordGet (rx (d_env R)) (nowNs (d_env R)) key (recs n) of
                  Inl _ \<Rightarrow> None | Inr d \<Rightarrow> Some d), w)"

fun push_records :: "('m, 'd, 'b, 'l, 'a) rpc_env \<Rightarrow> NodeID list \<Rightarrow> bytes list \<Rightarrow> ('m, 'd, 'b, 'l) dnode \<Rightarrow> ('m, 'd, 'b, 'l) dnode option" where
  "push_records R [] data n = Some n"
| "push_records R (k # ks) data n =
     (case data of
        [] \<Rightarrow> None
      | d # data' \<Rightarrow>
          push_records R ks data' (n\<lparr>recs := localRecordPut (rx (d_env R)) (nowNs (d_env R)) k d (recs n)\<rparr>))"

definition h_PushRecords ::
  "('m, 'd, 'b, 'l, 'a) rpc_env \<Rightarrow> NodeID \<Rightarrow> ('m, 'd, 'b, 'l) dnode \<Rightarrow> NodeID list \<Rightarrow> bytes list \<Rightarrow>
   ('m, 'd, 'b, 'l) world \<Rightarrow> ('m, 'd, 'b, 'l, unit) handled" where
  "h_PushRecords R i n keys data w =
     (case push_records R keys data n of None \<Rightarrow> None | Some n' \<Rightarrow> Some (Inr (), put_node i n' w))"

definition h_TransferRecords ::
  "('m, 'd, 'b, 'l) dnode \<Rightarrow> NodeID \<Rightarrow> NodeID \<Rightarrow> ('m, 'd, 'b, 'l) world \<Rightarrow> ('m, 'd, 'b, 'l, (NodeID \<times> bytes) list) handled" where
  "h_TransferRecords n from to w = Some (Inr (getRecordsInRange from to (recs n)), w)"

section \<open>Server and connections\<close>

text \<open>
  \<open>listen\<close> is the outcome of \<open>listenReuse\<close>: the bound \<open>host:port\<close>. Registering the handler under a
  fixed name cannot fail.
\<close>

definition StartServer :: "'a mlib \<Rightarrow> (string \<Rightarrow> string \<Rightarrow> string res) \<Rightarrow> string \<Rightarrow> string \<Rightarrow> string res" where
  "StartServer M listen listenAddr advertiseAddr =
     (case MultiaddrToTCPAddr M listenAddr of
        Inl e \<Rightarrow> Inl (Wrap ''dht rpc parse addr'' e)
      | Inr tcpAddr \<Rightarrow>
          (case listen (if str_contains listenAddr ''/ip4/'' then ''tcp4'' else ''tcp'') tcpAddr of
             Inl e \<Rightarrow> Inl (Wrap ''dht rpc listen'' e)
           | Inr bound \<Rightarrow>
               Inr (case effectiveMultiaddr bound advertiseAddr of Inr boundMA \<Rightarrow> boundMA | Inl _ \<Rightarrow> bound)))"

text \<open>
  A client connection: open to the process of a node, where the server side knows the
  authenticated identity of the caller if there is one, or noticed to be closed.
\<close>

datatype conn = Open NodeID "NodeID option" | Shut

definition listener_at :: "'a mlib \<Rightarrow> string \<Rightarrow> ('m, 'd, 'b, 'l) world \<Rightarrow> NodeID option" where
  "listener_at M tcp w = map_option fst (find (\<lambda>x. MultiaddrToTCPAddr M (addr (snd x)) = Inr tcp) (nodeMap w))"

definition dial :: "'a mlib \<Rightarrow> NodeID \<Rightarrow> string \<Rightarrow> ('m, 'd, 'b, 'l) world \<Rightarrow> NodeID res" where
  "dial M me tcp w =
     (case listener_at M tcp w of
        None \<Rightarrow> Inl (Errorf ''connection refused'')
      | Some i \<Rightarrow> if (me, i) \<in> set (blocked w) then Inl (Errorf ''i/o timeout'') else Inr i)"

text \<open>The process of a node ends: the node and its goroutines are gone.\<close>

definition crash :: "NodeID \<Rightarrow> ('m, 'd, 'b, 'l) world \<Rightarrow> ('m, 'd, 'b, 'l) world" where
  "crash i w = (RemoveNode i w)\<lparr>pending := filter (\<lambda>t. fst t \<noteq> i) (pending w)\<rparr>"

datatype 'r called = Down | Failed err | Answered 'r

text \<open>\<open>rpc.Client.Call\<close>: a connection that is known to be closed gives \<open>rpc.ErrShutdown\<close>.\<close>

definition client_Call ::
  "NodeID \<Rightarrow> conn \<Rightarrow> (NodeID option \<Rightarrow> NodeID \<Rightarrow> ('m, 'd, 'b, 'l) dnode \<Rightarrow> ('m, 'd, 'b, 'l) world \<Rightarrow> ('m, 'd, 'b, 'l, 'r) handled) \<Rightarrow>
   ('m, 'd, 'b, 'l) world \<Rightarrow> 'r called \<times> ('m, 'd, 'b, 'l) world" where
  "client_Call me c h w =
     (case c of
        Shut \<Rightarrow> (Down, w)
      | Open i auth \<Rightarrow>
          (case getNode w me i of
             None \<Rightarrow> (Failed (Errorf ''unexpected EOF''), w)
           | Some n \<Rightarrow>
               (case h auth i n w of
                  None \<Rightarrow> (Failed (Errorf ''unexpected EOF''), crash i w)
                | Some (Inl e, w') \<Rightarrow> (Failed (Errorf (err_text e)), w')
                | Some (Inr r, w') \<Rightarrow> (Answered r, w'))))"

abbreviation ErrShutdown :: err where "ErrShutdown \<equiv> Errorf ''connection is shut down''"

section \<open>The client\<close>

text \<open>
  How a transport finds and forgets the pooled connection to a target. The stubs below are the
  same for every transport and take it as an argument; \<open>'s\<close> is the state of the transport.
\<close>

record ('m, 'd, 'b, 'l, 's) link =
  self_id :: NodeID
  get_client :: "NodeAddr \<Rightarrow> ('m, 'd, 'b, 'l) world \<Rightarrow> 's \<Rightarrow> conn res \<times> 's"
  del_client :: "NodeAddr \<Rightarrow> 's \<Rightarrow> 's"

definition call ::
  "('m, 'd, 'b, 'l, 's) link \<Rightarrow> NodeAddr \<Rightarrow>
   (NodeID option \<Rightarrow> NodeID \<Rightarrow> ('m, 'd, 'b, 'l) dnode \<Rightarrow> ('m, 'd, 'b, 'l) world \<Rightarrow> ('m, 'd, 'b, 'l, 'r) handled) \<Rightarrow>
   's \<Rightarrow> ('m, 'd, 'b, 'l) world \<Rightarrow> 'r res \<times> 's \<times> ('m, 'd, 'b, 'l) world" where
  "call L target h t w =
     (case get_client L target w t of
        (Inl e, t1) \<Rightarrow> (Inl e, t1, w)
      | (Inr c, t1) \<Rightarrow>
          (case client_Call (self_id L) c h w of
             (Answered r, w1) \<Rightarrow> (Inr r, t1, w1)
           | (Failed e, w1) \<Rightarrow> (Inl e, del_client L target t1, w1)
           | (Down, w1) \<Rightarrow>
               (case get_client L target w1 (del_client L target t1) of
                  (Inl _, t2) \<Rightarrow> (Inl ErrShutdown, t2, w1)
                | (Inr c2, t2) \<Rightarrow>
                    (case client_Call (self_id L) c2 h w1 of
                       (Answered r, w2) \<Rightarrow> (Inr r, t2, w2)
                     | (Failed e, w2) \<Rightarrow> (Inl e, del_client L target t2, w2)
                     | (Down, w2) \<Rightarrow> (Inl ErrShutdown, del_client L target t2, w2)))))"

text \<open>\<open>RPCTransport\<close>: connections by address, without authentication.\<close>

type_synonym RPCTransport = "(string \<times> conn) list"

definition NewRPCTransport :: RPCTransport where "NewRPCTransport = []"

definition rpc_getClient ::
  "'a mlib \<Rightarrow> NodeID \<Rightarrow> string \<Rightarrow> ('m, 'd, 'b, 'l) world \<Rightarrow> RPCTransport \<Rightarrow> conn res \<times> RPCTransport" where
  "rpc_getClient M me peer w conns =
     (case map_of conns peer of
        Some c \<Rightarrow> (Inr c, conns)
      | None \<Rightarrow>
          (case MultiaddrToTCPAddr M peer of
             Inl e \<Rightarrow> (Inl (Wrap ''parse peer addr'' e), conns)
           | Inr tcpAddr \<Rightarrow>
               (case dial M me tcpAddr w of
                  Inl e \<Rightarrow> (Inl e, conns)
                | Inr i \<Rightarrow> (Inr (Open i None), aupd peer (Open i None) conns))))"

definition rpc_link :: "'a mlib \<Rightarrow> NodeID \<Rightarrow> ('m, 'd, 'b, 'l, RPCTransport) link" where
  "rpc_link M me =
     \<lparr>self_id = me, get_client = \<lambda>target. rpc_getClient M me (Addr target), del_client = \<lambda>target. adel (Addr target)\<rparr>"

definition rpc_Close :: "RPCTransport \<Rightarrow> RPCTransport" where
  "rpc_Close conns = foldl (\<lambda>p x. adel (fst x) p) conns conns"

section \<open>The stubs\<close>

definition rt_FindSuccessor where
  "rt_FindSuccessor L target key t w = call L target (\<lambda>_ i _. h_FindSuccessor i key) t w"

definition rt_ClosestPrecedingNode where
  "rt_ClosestPrecedingNode L target key t w = call L target (\<lambda>_ _ n. h_ClosestPrecedingNode n key) t w"

definition rt_GetPredecessor where
  "rt_GetPredecessor L target t w =
     (case call L target (\<lambda>_ _ n. h_GetPredecessor n) t w of
        (Inl e, t', w') \<Rightarrow> (Inl e, t', w')
      | (Inr reply, t', w') \<Rightarrow>
          (if rp_SelfID reply \<noteq> zeroID \<and> rp_SelfID reply \<noteq> ID target then Inl (Errorf ''identity mismatch'')
           else if \<not> rp_HasNode reply then Inr None else Inr (Some (rp_Node reply)), t', w'))"

definition rt_GetSuccessorList where
  "rt_GetSuccessorList L target t w = call L target (\<lambda>_ _ n. h_GetSuccessorList n) t w"

definition rt_Notify where
  "rt_Notify L target caller t w = call L target (\<lambda>auth i _. h_Notify auth i caller) t w"

definition rt_PutBlock where
  "rt_PutBlock R L target key data rootCID rootExpiry t w =
     call L target (\<lambda>_ i n. h_PutBlock R i n (w_Bytes R key) data
       (if Defined rootCID then w_Bytes R rootCID else []) rootExpiry) t w"

text \<open>The three parallel slices of the call are one list of triples here.\<close>

definition rt_PushBlocks where
  "rt_PushBlocks R L target xs t w = call L target (\<lambda>_ i n. h_PushBlocks R i n (wire_blocks R xs)) t w"

definition rt_ReconcileBlocks where
  "rt_ReconcileBlocks R L target keys t w =
     (case call L target (\<lambda>_ _ n. h_ReconcileBlocks R n (map (w_Bytes R) keys)) t w of
        (Inl e, t', w') \<Rightarrow> (Inl e, t', w')
      | (Inr idxs, t', w') \<Rightarrow>
          (Inr (map (\<lambda>idx. keys ! unat idx) (filter (\<lambda>idx. unat idx < length keys) idxs)), t', w'))"

definition rt_FetchBlock where
  "rt_FetchBlock R has fetch sched L target key t w =
     (case call L target (\<lambda>_ i n. h_FetchBlock R has fetch sched i n (w_Bytes R key)) t w of
        (Inl e, t', w') \<Rightarrow> (Inl e, t', w')
      | (Inr None, t', w') \<Rightarrow> (Inl (Errorf ''block not found''), t', w')
      | (Inr (Some d), t', w') \<Rightarrow> (Inr d, t', w'))"

definition rt_HasBlock where
  "rt_HasBlock R L target key t w = call L target (\<lambda>_ _ n. h_HasBlock R n (w_Bytes R key)) t w"

definition rt_RemoveBlock where
  "rt_RemoveBlock R L target key t w = call L target (\<lambda>_ i n. h_RemoveBlock R i n (w_Bytes R key)) t w"

fun cast_all :: "('m, 'd, 'b, 'l, 'a) rpc_env \<Rightarrow> bytes list \<Rightarrow> cid list res" where
  "cast_all R [] = Inr []"
| "cast_all R (k # ks) =
     (case w_Cast R k of
        Inl e \<Rightarrow> Inl (Wrap ''invalid CID in transfer reply'' e)
      | Inr c \<Rightarrow> (case cast_all R ks of Inl e \<Rightarrow> Inl e | Inr cs \<Rightarrow> Inr (c # cs)))"

definition tk_roots :: "ArgsPushBlocks \<Rightarrow> nat \<Rightarrow> NetworkRootEntry list" where
  "tk_roots a i =
     (if i < length (pb_RootCIDs a)
      then map (\<lambda>j. \<lparr>nr_CID = pb_RootCIDs a ! i ! j,
                      nr_ExpiresAt = (if i < length (pb_RootExpiry a) \<and> j < length (pb_RootExpiry a ! i)
                                      then pb_RootExpiry a ! i ! j else 0)\<rparr>)
             [0..<length (pb_RootCIDs a ! i)]
      else [])"

definition rt_TransferKeys where
  "rt_TransferKeys R L target from to t w =
     (case call L target (\<lambda>_ i n. h_TransferKeys R i n from to) t w of
        (Inl e, t', w') \<Rightarrow> (Inl e, t', w')
      | (Inr reply, t', w') \<Rightarrow>
          ((case cast_all R (pb_Keys reply) of
              Inl e \<Rightarrow> Inl e
            | Inr keys \<Rightarrow> Inr (keys, pb_Data reply, map (tk_roots reply) [0..<length keys])), t', w'))"

definition rt_DeleteCID where
  "rt_DeleteCID R L target key propagate t w =
     call L target (\<lambda>_ i _. h_DeleteCID R i (w_Bytes R key) propagate) t w"

definition rt_NotifyLeave where
  "rt_NotifyLeave L target self succ pred t w = call L target (\<lambda>_ i _. h_NotifyLeave i self succ pred) t w"

definition rt_Ping where
  "rt_Ping L target t w = call L target (\<lambda>_ _ _. h_Ping) t w"

definition rt_PutRecord where
  "rt_PutRecord R L target key data callerID t w =
     call L target (\<lambda>auth i n. h_PutRecord R auth i n key data callerID) t w"

definition rt_GetRecord where
  "rt_GetRecord R L target key t w =
     (case call L target (\<lambda>_ _ n. h_GetRecord R n key) t w of
        (Inl e, t', w') \<Rightarrow> (Inl e, t', w')
      | (Inr None, t', w') \<Rightarrow> (Inl (Errorf ''record not found''), t', w')
      | (Inr (Some d), t', w') \<Rightarrow> (Inr d, t', w'))"

definition rt_PushRecords where
  "rt_PushRecords R L target keys data t w = call L target (\<lambda>_ i n. h_PushRecords R i n keys data) t w"

definition rt_TransferRecords where
  "rt_TransferRecords L target from to t w =
     (case call L target (\<lambda>_ _ n. h_TransferRecords n from to) t w of
        (Inl e, t', w') \<Rightarrow> (Inl e, t', w')
      | (Inr kvs, t', w') \<Rightarrow> (Inr (map fst kvs, map snd kvs), t', w'))"

end
