(* ===== verification/Rpc_Props.thy ===== *)
theory Rpc_Props
  imports Rpc_Transport Member_Props
begin

text \<open>
  The calls of the network transport against those of the in-process transport: over an open or
  reopened connection every call has the same effect on the world and the same answer, with the
  error reduced to its text.
\<close>

section \<open>A call over a connection\<close>

text \<open>The transport has, or can get, a connection to the target.\<close>

definition connects ::
  "('m, 'd, 'b, 'l, 's) link \<Rightarrow> NodeAddr \<Rightarrow> NodeID option \<Rightarrow> ('m, 'd, 'b, 'l) world \<Rightarrow> 's \<Rightarrow> bool" where
  "connects L target auth w t \<longleftrightarrow>
     (case get_client L target w t of
        (Inr (Open i a), _) \<Rightarrow> i = ID target \<and> a = auth
      | (Inr Shut, t1) \<Rightarrow> fst (get_client L target w (del_client L target t1)) = Inr (Open (ID target) auth)
      | (Inl _, _) \<Rightarrow> False)"

definition wire :: "'r res \<Rightarrow> 'r res" where
  "wire r = map_sum (\<lambda>e. Errorf (err_text e)) id r"

lemma wire_simps [simp]: "wire (Inr x) = Inr x" "wire (Inl e) = Inl (Errorf (err_text e))"
  by (simp_all add: wire_def)

definition outcome :: "'r \<times> 's \<times> 'w \<Rightarrow> 'r \<times> 'w" where
  "outcome x = (fst x, snd (snd x))"

lemma outcome_simp [simp]: "outcome (r, t, w) = (r, w)"
  by (simp add: outcome_def)

lemma client_Call_open:
  assumes "getNode w me i = Some n" "h auth i n w = Some (r, w')"
  shows "client_Call me (Open i auth) h w = (case r of Inl e \<Rightarrow> Failed (Errorf (err_text e)) | Inr x \<Rightarrow> Answered x, w')"
  using assms by (simp add: client_Call_def split: sum.split)

lemma call_connected:
  assumes c: "connects L target auth w t" and n: "getNode w (self_id L) (ID target) = Some n"
    and h: "h auth (ID target) n w = Some (r, w')"
  shows "outcome (call L target h t w) = (wire r, w')"
proof (cases "get_client L target w t")
  case (Pair r1 t1)
  then obtain c1 where r1: "r1 = Inr c1" using c by (cases r1) (auto simp: connects_def)
  note o = client_Call_open [OF n, of h, OF h]
  show ?thesis
  proof (cases c1)
    case (Open i a)
    with c Pair r1 have "i = ID target" "a = auth" by (auto simp: connects_def)
    with Pair r1 Open o show ?thesis by (cases r) (simp_all add: call_def)
  next
    case Shut
    then obtain t2 where "get_client L target w (del_client L target t1) = (Inr (Open (ID target) auth), t2)"
      using c Pair r1 by (cases "get_client L target w (del_client L target t1)") (auto simp: connects_def)
    with Pair r1 Shut o show ?thesis by (cases r) (simp_all add: call_def client_Call_def [of _ Shut])
  qed
qed

text \<open>A handler that panics takes its node down, and the caller sees the connection end.\<close>

lemma call_panics:
  assumes c: "connects L target auth w t" and n: "getNode w (self_id L) (ID target) = Some n"
    and h: "h auth (ID target) n w = None"
  shows "outcome (call L target h t w) = (Inl (Errorf ''unexpected EOF''), crash (ID target) w)"
proof (cases "get_client L target w t")
  case (Pair r1 t1)
  then obtain c1 where r1: "r1 = Inr c1" using c by (cases r1) (auto simp: connects_def)
  have o: "client_Call (self_id L) (Open (ID target) auth) h w = (Failed (Errorf ''unexpected EOF''), crash (ID target) w)"
    using n h by (simp add: client_Call_def)
  show ?thesis
  proof (cases c1)
    case (Open i a)
    with c Pair r1 have "i = ID target" "a = auth" by (auto simp: connects_def)
    with Pair r1 Open o show ?thesis by (simp add: call_def)
  next
    case Shut
    then obtain t2 where "get_client L target w (del_client L target t1) = (Inr (Open (ID target) auth), t2)"
      using c Pair r1 by (cases "get_client L target w (del_client L target t1)") (auto simp: connects_def)
    with Pair r1 Shut o show ?thesis by (simp add: call_def client_Call_def [of _ Shut])
  qed
qed

text \<open>\<open>RPCTransport\<close> connects to a node that listens on the address of the target.\<close>

definition listens :: "'a mlib \<Rightarrow> NodeAddr \<Rightarrow> ('m, 'd, 'b, 'l) world \<Rightarrow> bool" where
  "listens M target w \<longleftrightarrow>
     (case MultiaddrToTCPAddr M (Addr target) of Inl _ \<Rightarrow> False | Inr tcp \<Rightarrow> listener_at M tcp w = Some (ID target))"

definition pooled :: "NodeAddr \<Rightarrow> RPCTransport \<Rightarrow> bool" where
  "pooled target t \<longleftrightarrow> map_of t (Addr target) \<in> {None, Some Shut, Some (Open (ID target) None)}"

lemma rpc_connects:
  assumes "listens M target w" "pooled target t" "getNode w me (ID target) \<noteq> None"
  shows "connects (rpc_link M me) target None w t"
proof -
  obtain tcp where "MultiaddrToTCPAddr M (Addr target) = Inr tcp" "listener_at M tcp w = Some (ID target)"
    using assms(1) by (auto simp: listens_def split: sum.splits)
  moreover have "(me, ID target) \<notin> set (blocked w)" using assms(3) by (auto simp: getNode_def)
  ultimately have d: "fst (rpc_getClient M me (Addr target) w p) = Inr (Open (ID target) None)"
    if "map_of p (Addr target) = None" for p
    using that by (simp add: rpc_getClient_def dial_def)
  consider "map_of t (Addr target) = None" | "map_of t (Addr target) = Some Shut"
    | "map_of t (Addr target) = Some (Open (ID target) None)" using assms(2) by (auto simp: pooled_def)
  then show ?thesis
  proof cases
    case 1
    then show ?thesis using d [of t] by (auto simp: connects_def rpc_link_def split: prod.split)
  next
    case 2
    then have "rpc_getClient M me (Addr target) w t = (Inr Shut, t)" by (simp add: rpc_getClient_def)
    then show ?thesis using d [of "adel (Addr target) t"] by (simp add: connects_def rpc_link_def)
  next
    case 3
    then show ?thesis by (simp add: connects_def rpc_link_def rpc_getClient_def)
  qed
qed

section \<open>Handlers against the local transport\<close>

text \<open>What the CID library documents: the bytes of a CID are not empty and decode to it.\<close>

definition cid_codec :: "('m, 'd, 'b, 'l, 'a) rpc_env \<Rightarrow> bool" where
  "cid_codec R \<longleftrightarrow> (\<forall>c. Defined c \<longrightarrow> w_Bytes R c \<noteq> [] \<and> w_Cast R (w_Bytes R c) = Inr c)"

lemma cid_codecD: "cid_codec R \<Longrightarrow> Defined c \<Longrightarrow> w_Cast R (w_Bytes R c) = Inr c"
  by (simp add: cid_codec_def)

lemma wire_root_ok:
  assumes "cid_codec R" "Defined rootCID \<or> rootExpiry = 0"
  shows "wire_root R (if Defined rootCID then w_Bytes R rootCID else []) rootExpiry = (rootCID, rootExpiry)"
  using assms by (auto simp: wire_root_def cid_codec_def Defined_def)

lemma h_PutBlock_local:
  assumes "cid_codec R" "Defined key" "Defined rootCID \<or> rootExpiry = 0" "lt_resolve w me target = Inr n"
  shows "h_PutBlock R (ID target) n (w_Bytes R key) data (if Defined rootCID then w_Bytes R rootCID else []) rootExpiry w =
    Some (lt_PutBlock (d_env R) me target key data rootCID rootExpiry w)"
  using assms
  by (simp add: h_PutBlock_def lt_PutBlock_def cid_codecD wire_root_ok split: sum.split prod.split)

lemma pb_roots_wire: "i < length xs \<Longrightarrow> pb_roots (wire_blocks R xs) i = snd (snd (xs ! i))"
  by (rule nth_equalityI) (simp_all add: pb_roots_def wire_blocks_def split_beta)

lemma tk_roots_wire: "i < length xs \<Longrightarrow> tk_roots (wire_blocks R xs) i = snd (snd (xs ! i))"
  by (rule nth_equalityI) (simp_all add: tk_roots_def wire_blocks_def split_beta)

lemma h_push_loop_local:
  assumes "cid_codec R" "\<forall>x \<in> set xs. Defined (fst x)"
  shows "k \<le> length xs \<Longrightarrow>
    h_push_loop R (wire_blocks R xs) [k..<length xs] stored n = Some (push_loop (d_env R) (drop k xs) stored n)"
proof (induction "length xs - k" arbitrary: k stored n)
  case (Suc m)
  then have k: "k < length xs" by simp
  have d: "drop k xs = xs ! k # drop (Suc k) xs" using k by (simp add: Cons_nth_drop_Suc)
  have u: "[k..<length xs] = k # [Suc k..<length xs]" using k by (rule upt_conv_Cons)
  have c: "w_Cast R (pb_Keys (wire_blocks R xs) ! k) = Inr (fst (xs ! k))"
    using assms k by (simp add: wire_blocks_def split_beta cid_codecD)
  have p: "\<not> pb_panics R n (wire_blocks R xs) k" using k by (simp add: pb_panics_def wire_blocks_def)
  have t: "(fst (xs ! k), pb_Data (wire_blocks R xs) ! k, pb_roots (wire_blocks R xs) k) = xs ! k"
    using k by (simp add: pb_roots_wire) (simp add: wire_blocks_def split_beta)
  have IH: "h_push_loop R (wire_blocks R xs) [Suc k..<length xs] st n' = Some (push_loop (d_env R) (drop (Suc k) xs) st n')" for st n'
    by (rule Suc(1)) (use Suc(2) k in simp_all)
  show ?case unfolding u d by (simp add: c p t IH split: prod.split sum.split)
qed simp

lemma h_PushBlocks_local:
  assumes "cid_codec R" "\<forall>x \<in> set xs. Defined (fst x)" "lt_resolve w me target = Inr n"
  shows "h_PushBlocks R (ID target) n (wire_blocks R xs) w = Some (lt_PushBlocks (d_env R) me target xs w)"
proof -
  have l: "length (pb_Keys (wire_blocks R xs)) = length xs" "pb_Keys (wire_blocks R xs) = [] \<longleftrightarrow> xs = []"
    by (simp_all add: wire_blocks_def)
  show ?thesis
    using h_push_loop_local [OF assms(1,2), of 0 0 n] assms(3)
    by (simp add: h_PushBlocks_def lt_PushBlocks_def push_blocks_def l split: prod.split sum.split)
qed

lemma map_filter_upt: "map (\<lambda>i. xs ! i) (filter (\<lambda>i. P (xs ! i)) [0..<length xs]) = filter P xs"
proof -
  have "filter P (map (\<lambda>i. xs ! i) [0..<length xs]) = map (\<lambda>i. xs ! i) (filter (\<lambda>i. P (xs ! i)) [0..<length xs])"
    by (simp add: filter_map o_def)
  then show ?thesis by (simp add: map_nth)
qed

lemma reconcile_indices:
  assumes "length keys < 2 ^ 32"
  shows "map (\<lambda>idx. keys ! unat idx) (filter (\<lambda>idx. unat idx < length keys)
      (map (of_nat :: nat \<Rightarrow> 32 word) (filter P [0..<length keys]))) = map (\<lambda>i. keys ! i) (filter P [0..<length keys])"
proof -
  have u: "unat (of_nat i :: 32 word) = i" if "i < length keys" for i
    using that assms by (simp add: unat_of_nat take_bit_nat_eq_self)
  have "filter (\<lambda>idx. unat idx < length keys) (map (of_nat :: nat \<Rightarrow> 32 word) (filter P [0..<length keys])) =
    map of_nat (filter P [0..<length keys])"
    by (rule filter_True) (auto simp: u)
  then show ?thesis by (simp add: u)
qed

lemma cast_all_ok: "cid_codec R \<Longrightarrow> \<forall>c \<in> set cs. Defined c \<Longrightarrow> cast_all R (map (w_Bytes R) cs) = Inr cs"
  by (induction cs) (auto simp: cid_codecD)

lemma push_records_ok:
  "push_records R (map fst kvs) (map snd kvs) n = Some (put_records (d_env R) kvs n)"
  by (induction kvs arbitrary: n) (simp_all add: put_records_def)

lemma read_blocks_keys: "set (map fst (fst (read_blocks E ks n))) \<subseteq> set ks"
proof (induction ks arbitrary: n)
  case (Cons k ks)
  obtain r n1 where g: "node_Get E k n = (r, n1)" by fastforce
  obtain xs n2 where x: "read_blocks E ks n1 = (xs, n2)" by fastforce
  show ?case using Cons [of n1] g x by (cases r) auto
qed simp

lemma collect_defined:
  assumes "collectRingBlocksInRange E from to n = (Inr xs, n')" "\<forall>ks. ring_keys E n = Inr ks \<longrightarrow> (\<forall>k \<in> set ks. Defined k)"
  shows "\<forall>x \<in> set xs. Defined (fst x)"
proof -
  obtain ks where ks: "ring_keys E n = Inr ks"
    using assms(1) by (auto simp: collectRingBlocksInRange_def enumerateRingKeysInRange_def split: sum.splits)
  define ks' where "ks' = filter (\<lambda>k. BetweenRightInclusive (CIDToNodeID (rx E) k) from to) ks"
  have "xs = fst (read_blocks E ks' n)"
    using assms(1) ks by (auto simp: collectRingBlocksInRange_def enumerateRingKeysInRange_def ks'_def split: prod.splits)
  with assms(2) ks read_blocks_keys [of E ks' n] show ?thesis by (auto simp: ks'_def)
qed

section \<open>Refinement\<close>

text \<open>A call whose handler is total on the target, in the form the calls below use.\<close>

lemma call_local:
  assumes "connects L target auth w t" "getNode w (self_id L) (ID target) = Some n"
    "h auth (ID target) n w = Some (r, w')"
  obtains t' where "call L target h t w = (wire r, t', w')"
  using call_connected [of L target auth w t n h r w', OF assms] by (cases "call L target h t w") auto

lemma call_total:
  assumes "connects L target auth w t" "getNode w (self_id L) (ID target) = Some n" "h auth (ID target) n w = Some x"
  shows "outcome (call L target h t w) = map_prod wire id x"
  using call_connected [of L target auth w t n h "fst x" "snd x", OF assms(1,2)] assms(3) by (cases x) simp

lemma resolve_getNode: "getNode w me (ID target) = Some n \<Longrightarrow> lt_resolve w me target = Inr n"
  by (simp add: lt_resolve_def)

lemma routing_refines:
  fixes w :: "('m, 'd, 'b, 'l) world"
  assumes c: "connects L target auth w t" and n: "getNode w (self_id L) (ID target) = Some n" and i: "node_id n = ID target"
  defines "me \<equiv> self_id L"
  shows "outcome (rt_FindSuccessor L target key t w) = map_prod wire id (lt_FindSuccessor me target key w)"
    "outcome (rt_ClosestPrecedingNode L target key t w) = (Inr (closestPrecedingNode n key, successor n), w)"
    "outcome (rt_GetPredecessor L target t w) = (lt_GetPredecessor w me target, w)"
    "outcome (rt_GetSuccessorList L target t w) = (lt_GetSuccessorList w me target, w)"
    "auth = None \<or> auth = Some (ID caller) \<Longrightarrow> outcome (rt_Notify L target caller t w) = (Inr (), lt_Notify me target caller w)"
    "outcome (rt_NotifyLeave L target self succ pred t w) = (Inr (), lt_NotifyLeave me target self succ pred w)"
    "outcome (rt_Ping L target t w) = (Inr (), w)" "lt_Ping w me target"
proof -
  note r = resolve_getNode [OF n]
  note C = call_total [OF c n]
  show "outcome (rt_FindSuccessor L target key t w) = map_prod wire id (lt_FindSuccessor me target key w)"
    unfolding rt_FindSuccessor_def me_def
    by (cases "w_FindSuccessor (ID target) key w") (simp add: C h_FindSuccessor_def lt_FindSuccessor_def r)
  show "outcome (rt_ClosestPrecedingNode L target key t w) = (Inr (closestPrecedingNode n key, successor n), w)"
    unfolding rt_ClosestPrecedingNode_def by (subst C) (auto simp: h_ClosestPrecedingNode_def)
  show "outcome (rt_GetPredecessor L target t w) = (lt_GetPredecessor w me target, w)"
  proof -
    obtain t' where "call L target (\<lambda>_ _ n. h_GetPredecessor n) t w =
      (Inr (case predecessor n of Some p \<Rightarrow> \<lparr>rp_Node = p, rp_HasNode = True, rp_SelfID = node_id n\<rparr>
            | None \<Rightarrow> \<lparr>rp_Node = zero_NodeAddr, rp_HasNode = False, rp_SelfID = node_id n\<rparr>), t', w)"
      by (rule call_local [OF c n, of "\<lambda>_ _ n. h_GetPredecessor n"]) (auto simp: h_GetPredecessor_def)
    then show ?thesis
      by (simp add: rt_GetPredecessor_def lt_GetPredecessor_def r me_def i split: option.split)
  qed
  show "outcome (rt_GetSuccessorList L target t w) = (lt_GetSuccessorList w me target, w)"
    unfolding rt_GetSuccessorList_def me_def by (subst C) (auto simp: h_GetSuccessorList_def lt_GetSuccessorList_def r)
  show "outcome (rt_Notify L target caller t w) = (Inr (), lt_Notify me target caller w)" if "auth = None \<or> auth = Some (ID caller)"
    using that unfolding rt_Notify_def me_def by (subst C) (auto simp: h_Notify_def lt_Notify_def r)
  show "outcome (rt_NotifyLeave L target self succ pred t w) = (Inr (), lt_NotifyLeave me target self succ pred w)"
    unfolding rt_NotifyLeave_def me_def by (subst C) (auto simp: h_NotifyLeave_def lt_NotifyLeave_def r)
  show "outcome (rt_Ping L target t w) = (Inr (), w)"
    unfolding rt_Ping_def by (subst C) (auto simp: h_Ping_def)
  show "lt_Ping w me target" using n by (auto simp: lt_Ping_def canReach_def getNode_def me_def split: if_splits)
qed

lemma block_refines:
  fixes w :: "('m, 'd, 'b, 'l) world" and R :: "('m, 'd, 'b, 'l, 'a) rpc_env"
  assumes R: "cid_codec R" and c: "connects L target auth w t" and n: "getNode w (self_id L) (ID target) = Some n"
    and k: "Defined key"
  defines "me \<equiv> self_id L" and "E \<equiv> d_env R"
  shows "Defined rootCID \<or> rootExpiry = 0 \<Longrightarrow> outcome (rt_PutBlock R L target key data rootCID rootExpiry t w) =
      map_prod wire id (lt_PutBlock E me target key data rootCID rootExpiry w)"
    "\<forall>x \<in> set xs. Defined (fst x) \<Longrightarrow> outcome (rt_PushBlocks R L target xs t w) = map_prod wire id (lt_PushBlocks E me target xs w)"
    "own_Get E key n = (Inr d, n') \<Longrightarrow> outcome (rt_FetchBlock R has fetch sched L target key t w) = lt_FetchBlock E me target key w"
    "own_Get E key n = (Inl e, n') \<Longrightarrow> outcome (rt_FetchBlock R has fetch sched L target key t w) =
      map_prod (\<lambda>d. case d of None \<Rightarrow> Inl (Errorf ''block not found'') | Some b \<Rightarrow> Inr b) id
        (h_fan_out (\<lambda>s. has s key) (\<lambda>s. fetch s key) (sched (filter (\<lambda>s. ID s \<noteq> node_id n) (successorList n))) None
          (put_node (ID target) n' w))"
    "outcome (rt_HasBlock R L target key t w) = (wire (b_Has E key (blocks n)), w)"
    "outcome (rt_RemoveBlock R L target key t w) = map_prod wire id (lt_RemoveBlock E me target key w)"
    "outcome (rt_DeleteCID R L target key propagate t w) = (Inr (), lt_DeleteCID E me target key propagate w)"
proof -
  note r = resolve_getNode [OF n]
  note C = call_total [OF c n]
  note K = cid_codecD [OF R k]
  show "outcome (rt_PutBlock R L target key data rootCID rootExpiry t w) =
      map_prod wire id (lt_PutBlock E me target key data rootCID rootExpiry w)" if "Defined rootCID \<or> rootExpiry = 0"
    unfolding rt_PutBlock_def me_def E_def
    by (rule C) (rule h_PutBlock_local [OF R k that r])
  show "outcome (rt_PushBlocks R L target xs t w) = map_prod wire id (lt_PushBlocks E me target xs w)"
    if "\<forall>x \<in> set xs. Defined (fst x)"
    unfolding rt_PushBlocks_def me_def E_def
    by (rule C) (rule h_PushBlocks_local [OF R that r])
  show "outcome (rt_FetchBlock R has fetch sched L target key t w) = lt_FetchBlock E me target key w"
    if g: "own_Get E key n = (Inr d, n')"
  proof -
    obtain t' where "call L target (\<lambda>_ i n. h_FetchBlock R has fetch sched i n (w_Bytes R key)) t w = (Inr (Some d), t', put_node (ID target) n' w)"
      by (rule call_local [OF c n, of "\<lambda>_ i n. h_FetchBlock R has fetch sched i n (w_Bytes R key)"])
        (use g in \<open>auto simp: h_FetchBlock_def K E_def\<close>)
    then show ?thesis using g by (simp add: rt_FetchBlock_def lt_FetchBlock_def r me_def)
  qed
  show "outcome (rt_FetchBlock R has fetch sched L target key t w) =
      map_prod (\<lambda>d. case d of None \<Rightarrow> Inl (Errorf ''block not found'') | Some b \<Rightarrow> Inr b) id
        (h_fan_out (\<lambda>s. has s key) (\<lambda>s. fetch s key) (sched (filter (\<lambda>s. ID s \<noteq> node_id n) (successorList n))) None
          (put_node (ID target) n' w))"
    if g: "own_Get E key n = (Inl e, n')"
  proof -
    let ?f = "h_fan_out (\<lambda>s. has s key) (\<lambda>s. fetch s key) (sched (filter (\<lambda>s. ID s \<noteq> node_id n) (successorList n))) None
      (put_node (ID target) n' w)"
    obtain t' where "call L target (\<lambda>_ i n. h_FetchBlock R has fetch sched i n (w_Bytes R key)) t w = (Inr (fst ?f), t', snd ?f)"
      by (rule call_local [OF c n, of "\<lambda>_ i n. h_FetchBlock R has fetch sched i n (w_Bytes R key)"])
        (use g in \<open>auto simp: h_FetchBlock_def K E_def Let_def split_beta\<close>)
    then show ?thesis by (cases ?f) (simp add: rt_FetchBlock_def split: option.split)
  qed
  show "outcome (rt_HasBlock R L target key t w) = (wire (b_Has E key (blocks n)), w)"
    unfolding rt_HasBlock_def me_def E_def by (subst C) (auto simp: h_HasBlock_def K)
  show "outcome (rt_RemoveBlock R L target key t w) = map_prod wire id (lt_RemoveBlock E me target key w)"
    unfolding rt_RemoveBlock_def me_def E_def
    by (subst C) (auto simp: h_RemoveBlock_def K lt_RemoveBlock_def r split_beta)
  show "outcome (rt_DeleteCID R L target key propagate t w) = (Inr (), lt_DeleteCID E me target key propagate w)"
    unfolding rt_DeleteCID_def me_def E_def
    by (subst C) (auto simp: h_DeleteCID_def K lt_DeleteCID_def r)
qed

lemma reconcile_refines:
  fixes w :: "('m, 'd, 'b, 'l) world" and R :: "('m, 'd, 'b, 'l, 'a) rpc_env"
  assumes R: "cid_codec R" and c: "connects L target auth w t" and n: "getNode w (self_id L) (ID target) = Some n"
    and k: "\<forall>k \<in> set keys. Defined k" "length keys < 2 ^ 32"
  shows "outcome (rt_ReconcileBlocks R L target keys t w) = (lt_ReconcileBlocks (d_env R) (self_id L) target keys w, w)"
proof -
  let ?P = "\<lambda>i. b_Has (d_env R) (keys ! i) (blocks n) \<noteq> Inr True"
  have f: "filter (\<lambda>i. case w_Cast R (map (w_Bytes R) keys ! i) of Inl _ \<Rightarrow> True
      | Inr c \<Rightarrow> b_Has (d_env R) c (blocks n) \<noteq> Inr True) [0..<length keys] = filter ?P [0..<length keys]"
    by (rule filter_cong) (use k cid_codecD [OF R] in auto)
  obtain t' where "call L target (\<lambda>_ _ n. h_ReconcileBlocks R n (map (w_Bytes R) keys)) t w =
      (Inr (map of_nat (filter ?P [0..<length keys])), t', w)"
    by (rule call_local [OF c n, of "\<lambda>_ _ n. h_ReconcileBlocks R n (map (w_Bytes R) keys)"])
      (auto simp: h_ReconcileBlocks_def f)
  then show ?thesis
    using reconcile_indices [OF k(2), of ?P] map_filter_upt [of keys "\<lambda>c. b_Has (d_env R) c (blocks n) \<noteq> Inr True"]
    by (simp add: rt_ReconcileBlocks_def lt_ReconcileBlocks_def resolve_getNode [OF n])
qed

lemma transfer_keys_refines:
  fixes w :: "('m, 'd, 'b, 'l) world" and R :: "('m, 'd, 'b, 'l, 'a) rpc_env"
  assumes R: "cid_codec R" and c: "connects L target auth w t" and n: "getNode w (self_id L) (ID target) = Some n"
    and k: "\<forall>ks. ring_keys (d_env R) n = Inr ks \<longrightarrow> (\<forall>k \<in> set ks. Defined k)"
  shows "outcome (rt_TransferKeys R L target from to t w) =
    map_prod (\<lambda>r. wire (map_sum id (\<lambda>xs. (map fst xs, map (fst \<circ> snd) xs, map (snd \<circ> snd) xs)) r)) id
      (lt_TransferKeys (d_env R) (self_id L) target from to w)"
proof -
  note r = resolve_getNode [OF n]
  obtain q n' where q: "collectRingBlocksInRange (d_env R) from to n = (q, n')" by fastforce
  show ?thesis
  proof (cases q)
    case (Inl e)
    obtain t' where "call L target (\<lambda>_ i n. h_TransferKeys R i n from to) t w = (Inl (Errorf (err_text e)), t', put_node (ID target) n' w)"
      by (rule call_local [OF c n, of "\<lambda>_ i n. h_TransferKeys R i n from to"]) (use q Inl in \<open>auto simp: h_TransferKeys_def\<close>)
    then show ?thesis using q Inl by (simp add: rt_TransferKeys_def lt_TransferKeys_def r)
  next
    case (Inr xs)
    define w' where "w' = put_node (ID target) (foldl (\<lambda>n x. drop_key (d_env R) (fst x) n) n' xs) w"
    have D: "\<forall>c \<in> set (map fst xs). Defined c" using collect_defined [OF _ k] q Inr by simp
    obtain t' where t': "call L target (\<lambda>_ i n. h_TransferKeys R i n from to) t w = (Inr (wire_blocks R xs), t', w')"
      by (rule call_local [OF c n, of "\<lambda>_ i n. h_TransferKeys R i n from to"]) (use q Inr in \<open>auto simp: h_TransferKeys_def w'_def\<close>)
    have 1: "cast_all R (pb_Keys (wire_blocks R xs)) = Inr (map fst xs)"
      using cast_all_ok [OF R D] by (simp add: wire_blocks_def case_prod_beta' comp_def)
    have 2: "map (tk_roots (wire_blocks R xs)) [0..<length xs] = map (snd \<circ> snd) xs"
      by (rule nth_equalityI) (simp_all add: tk_roots_wire)
    have 3: "pb_Data (wire_blocks R xs) = map (fst \<circ> snd) xs" by (simp add: wire_blocks_def case_prod_beta' comp_def)
    show ?thesis using q Inr t' 1 2 3 by (simp add: rt_TransferKeys_def lt_TransferKeys_def r w'_def)
  qed
qed

lemma record_refines:
  fixes w :: "('m, 'd, 'b, 'l) world" and R :: "('m, 'd, 'b, 'l, 'a) rpc_env"
  assumes c: "connects L target auth w t" and n: "getNode w (self_id L) (ID target) = Some n"
  defines "me \<equiv> self_id L" and "E \<equiv> d_env R"
  shows "auth = None \<or> auth = Some callerID \<Longrightarrow>
      outcome (rt_PutRecord R L target key data callerID t w) = map_prod wire id (lt_PutRecord E me target key data callerID w)"
    "map_prod res_value id (outcome (rt_GetRecord R L target key t w)) = (res_value (lt_GetRecord E me target key w), w)"
    "outcome (rt_PushRecords R L target (map fst kvs) (map snd kvs) t w) = lt_PushRecords E me target kvs w"
    "outcome (rt_TransferRecords L target from to t w) =
      (map_sum id (\<lambda>kvs. (map fst kvs, map snd kvs)) (lt_TransferRecords me target from to w), w)"
proof -
  note r = resolve_getNode [OF n]
  note C = call_total [OF c n]
  show "outcome (rt_PutRecord R L target key data callerID t w) = map_prod wire id (lt_PutRecord E me target key data callerID w)"
    if "auth = None \<or> auth = Some callerID"
    using that unfolding rt_PutRecord_def me_def E_def
    by (subst C) (auto simp: h_PutRecord_def lt_PutRecord_def r)
  show "map_prod res_value id (outcome (rt_GetRecord R L target key t w)) = (res_value (lt_GetRecord E me target key w), w)"
  proof -
    obtain t' where "call L target (\<lambda>_ _ n. h_GetRecord R n key) t w =
      (Inr (case localRecordGet (rx E) (nowNs E) key (recs n) of Inl _ \<Rightarrow> None | Inr d \<Rightarrow> Some d), t', w)"
      by (rule call_local [OF c n, of "\<lambda>_ _ n. h_GetRecord R n key"]) (auto simp: h_GetRecord_def E_def)
    then show ?thesis
      by (simp add: rt_GetRecord_def lt_GetRecord_def r me_def res_value_def split: sum.split)
  qed
  show "outcome (rt_PushRecords R L target (map fst kvs) (map snd kvs) t w) = lt_PushRecords E me target kvs w"
    unfolding rt_PushRecords_def me_def E_def
    by (subst C) (auto simp: h_PushRecords_def push_records_ok lt_PushRecords_def r)
  show "outcome (rt_TransferRecords L target from to t w) =
      (map_sum id (\<lambda>kvs. (map fst kvs, map snd kvs)) (lt_TransferRecords me target from to w), w)"
  proof -
    obtain t' where "call L target (\<lambda>_ _ n. h_TransferRecords n from to) t w = (Inr (getRecordsInRange from to (recs n)), t', w)"
      by (rule call_local [OF c n, of "\<lambda>_ _ n. h_TransferRecords n from to"]) (auto simp: h_TransferRecords_def)
    then show ?thesis by (simp add: rt_TransferRecords_def lt_TransferRecords_def r me_def)
  qed
qed

text \<open>The conditions a caller tests for survive the reduction of an error to its text.\<close>

lemma wire_keeps_conditions:
  "IsStorageFull (Some e) \<Longrightarrow> IsStorageFull (Some (Errorf (err_text e)))"
  "isVersionConflict (Some e) \<Longrightarrow> isVersionConflict (Some (Errorf (err_text e)))"
  using storage_full_survives_rpc [of e] version_conflict_survives_rpc [of e]
  by (auto simp: IsStorageFull_def isVersionConflict_def)

text \<open>
  C35. The network transport refines the in-process transport. When the target listens on its
  address, the link is up and the pool holds no connection to another node under that address
  (it may hold a live one, a dead one or none), every call of \<open>RPCTransport\<close> leaves the world and
  gives the answer that the same call of \<open>localTransport\<close> does, an error being reduced to its text;
  that keeps the storage-full and version-conflict conditions. CIDs sent are defined, fewer than
  \<open>2 ^ 32\<close> keys are reconciled at once, and the further calls a handler makes are
  those of the in-process transport on both sides. Two calls differ, and what the network transport does there is stated:
  \<open>HasBlock\<close> asks the ring store of the target and not its local store, so the answers agree when there
  is no local store or the ring store has the block; \<open>FetchBlock\<close> of a block the target lacks asks
  the successors of the target through the target's transport and reports a miss when none answers.
\<close>

theorem rpc_refines_local:
  fixes w :: "('m, 'd, 'b, 'l) world" and R :: "('m, 'd, 'b, 'l, 'a) rpc_env"
  assumes R: "cid_codec R" and n: "getNode w me (ID target) = Some n" and i: "node_id n = ID target"
    and l: "listens (m_lib R) target w" and p: "pooled target t"
    and k: "Defined key" "\<forall>k \<in> set keys. Defined k" "length keys < 2 ^ 32" "\<forall>x \<in> set xs. Defined (fst x)"
      "Defined rootCID \<or> rootExpiry = 0" "\<forall>ks. ring_keys (d_env R) n = Inr ks \<longrightarrow> (\<forall>k \<in> set ks. Defined k)"
  defines "L \<equiv> rpc_link (m_lib R) me" and "E \<equiv> d_env R"
  shows "outcome (rt_FindSuccessor L target x t w) = map_prod wire id (lt_FindSuccessor me target x w)
    \<and> outcome (rt_ClosestPrecedingNode L target x t w) = (Inr (closestPrecedingNode n x, successor n), w)
    \<and> outcome (rt_GetPredecessor L target t w) = (lt_GetPredecessor w me target, w)
    \<and> outcome (rt_GetSuccessorList L target t w) = (lt_GetSuccessorList w me target, w)
    \<and> outcome (rt_Notify L target caller t w) = (Inr (), lt_Notify me target caller w)
    \<and> outcome (rt_NotifyLeave L target self succ pred t w) = (Inr (), lt_NotifyLeave me target self succ pred w)
    \<and> outcome (rt_Ping L target t w) = (Inr (), w) \<and> lt_Ping w me target
    \<and> outcome (rt_PutBlock R L target key data rootCID rootExpiry t w) =
        map_prod wire id (lt_PutBlock E me target key data rootCID rootExpiry w)
    \<and> outcome (rt_PushBlocks R L target xs t w) = map_prod wire id (lt_PushBlocks E me target xs w)
    \<and> outcome (rt_ReconcileBlocks R L target keys t w) = (lt_ReconcileBlocks E me target keys w, w)
    \<and> (fst (own_Get E key n) \<in> range Inr \<longrightarrow>
        outcome (rt_FetchBlock R has fetch sched L target key t w) = lt_FetchBlock E me target key w)
    \<and> (\<forall>e n'. own_Get E key n = (Inl e, n') \<longrightarrow> outcome (rt_FetchBlock R has fetch sched L target key t w) =
        map_prod (\<lambda>d. case d of None \<Rightarrow> Inl (Errorf ''block not found'') | Some b \<Rightarrow> Inr b) id
          (h_fan_out (\<lambda>s. has s key) (\<lambda>s. fetch s key) (sched (filter (\<lambda>s. ID s \<noteq> node_id n) (successorList n))) None
            (put_node (ID target) n' w)))
    \<and> outcome (rt_HasBlock R L target key t w) = (wire (b_Has E key (blocks n)), w)
    \<and> (localBlocks n = None \<or> b_Has E key (blocks n) = Inr True \<longrightarrow>
        outcome (rt_HasBlock R L target key t w) = (wire (lt_HasBlock E me target key w), w))
    \<and> outcome (rt_RemoveBlock R L target key t w) = map_prod wire id (lt_RemoveBlock E me target key w)
    \<and> outcome (rt_TransferKeys R L target from to t w) =
        map_prod (\<lambda>r. wire (map_sum id (\<lambda>xs. (map fst xs, map (fst \<circ> snd) xs, map (snd \<circ> snd) xs)) r)) id
          (lt_TransferKeys E me target from to w)
    \<and> outcome (rt_DeleteCID R L target key propagate t w) = (Inr (), lt_DeleteCID E me target key propagate w)
    \<and> outcome (rt_PutRecord R L target x data callerID t w) = map_prod wire id (lt_PutRecord E me target x data callerID w)
    \<and> map_prod res_value id (outcome (rt_GetRecord R L target x t w)) = (res_value (lt_GetRecord E me target x w), w)
    \<and> outcome (rt_PushRecords R L target (map fst kvs) (map snd kvs) t w) = lt_PushRecords E me target kvs w
    \<and> outcome (rt_TransferRecords L target from to t w) =
        (map_sum id (\<lambda>kvs. (map fst kvs, map snd kvs)) (lt_TransferRecords me target from to w), w)
    \<and> (IsStorageFull (Some e) \<longrightarrow> IsStorageFull (Some (Errorf (err_text e))))
    \<and> (isVersionConflict (Some e) \<longrightarrow> isVersionConflict (Some (Errorf (err_text e))))"
proof -
  have c: "connects L target None w t" unfolding L_def by (rule rpc_connects [OF l p]) (simp add: n)
  have m: "self_id L = me" by (simp add: L_def rpc_link_def)
  have n': "getNode w (self_id L) (ID target) = Some n" using n m by simp
  have f: "fst (own_Get E key n) \<in> range Inr \<longrightarrow>
      outcome (rt_FetchBlock R has fetch sched L target key t w) = lt_FetchBlock E me target key w"
    using block_refines(3) [OF R c n' k(1), of _ _ has fetch sched] by (auto simp: E_def m) (metis prod.collapse)
  note rs = routing_refines [OF c n' i, unfolded m] block_refines(1,2,6,7) [OF R c n' k(1), unfolded m, folded E_def]
    reconcile_refines [OF R c n' k(2,3), unfolded m, folded E_def] transfer_keys_refines [OF R c n' k(6), unfolded m, folded E_def]
    record_refines [OF c n', unfolded m]
  have f': "\<forall>e n'. own_Get E key n = (Inl e, n') \<longrightarrow> outcome (rt_FetchBlock R has fetch sched L target key t w) =
      map_prod (\<lambda>d. case d of None \<Rightarrow> Inl (Errorf ''block not found'') | Some b \<Rightarrow> Inr b) id
        (h_fan_out (\<lambda>s. has s key) (\<lambda>s. fetch s key) (sched (filter (\<lambda>s. ID s \<noteq> node_id n) (successorList n))) None
          (put_node (ID target) n' w))"
    using block_refines(4) [OF R c n' k(1), of _ _ has fetch sched] by (simp add: E_def)
  have h: "outcome (rt_HasBlock R L target key t w) = (wire (b_Has E key (blocks n)), w)"
    using block_refines(5) [OF R c n' k(1)] by (simp add: E_def)
  then have h': "localBlocks n = None \<or> b_Has E key (blocks n) = Inr True \<longrightarrow>
      outcome (rt_HasBlock R L target key t w) = (wire (lt_HasBlock E me target key w), w)"
    by (auto simp: lt_HasBlock_def resolve_getNode [OF n])
  show ?thesis
    by (intro conjI f f' h h') (simp_all add: rs k(4,5) wire_keeps_conditions E_def)
qed

text \<open>The condition on the pool is kept by every call.\<close>

lemma rpc_call_pooled:
  assumes l: "listens M target w" and p: "pooled target t" and n: "getNode w me (ID target) \<noteq> None"
    and "call (rpc_link M me) target h t w = (r, t', w')"
  shows "pooled target t'"
proof -
  obtain tcp where tcp: "MultiaddrToTCPAddr M (Addr target) = Inr tcp" "listener_at M tcp w = Some (ID target)"
    using l by (auto simp: listens_def split: sum.splits)
  have b: "(me, ID target) \<notin> set (blocked w)" using n by (auto simp: getNode_def)
  have dn: "w1 = w" if "client_Call me c h w = (Down, w1)" for c w1
    using that by (auto simp: client_Call_def split: conn.splits option.splits sum.splits prod.splits)
  have d: "pooled target (adel (Addr target) q)" for q by (simp add: pooled_def)
  have g: "pooled target (snd (rpc_getClient M me (Addr target) w q))" if "pooled target q" for q
    using that tcp b by (auto simp: rpc_getClient_def dial_def pooled_def split: option.split)
  show ?thesis
    using assms(4) g [OF p] g [OF d [of "snd (rpc_getClient M me (Addr target) w t)"]] d
    by (auto simp: call_def rpc_link_def dest: dn split: prod.splits sum.splits called.splits)
qed

section \<open>A request with missing data\<close>

lemma push_records_short: "length data < length keys \<Longrightarrow> push_records R keys data n = None"
  by (induction R keys data n rule: push_records.induct) (auto split: list.splits)

text \<open>
  C36. A short request ends the process that receives it. \<open>PushRecords\<close> with more keys than values, and
  \<open>PushBlocks\<close> with a valid key and no data, index past the end of the slice of values; the panic is
  not recovered, so the node that served the call is gone, with the tasks it had pending. The
  caller needs no more than a connection.
\<close>

theorem rpc_short_request_panics:
  assumes n: "getNode w me (ID target) = Some n" and l: "listens (m_lib R) target w" and p: "pooled target t"
    and s: "length data < length keys" and a: "pb_Keys a = k # ks" "w_Cast R k = Inr c" "pb_Data a = []"
  defines "L \<equiv> rpc_link (m_lib R) me"
  shows "outcome (rt_PushRecords R L target keys data t w) = (Inl (Errorf ''unexpected EOF''), crash (ID target) w)
    \<and> outcome (call L target (\<lambda>_ i n. h_PushBlocks R i n a) t w) = (Inl (Errorf ''unexpected EOF''), crash (ID target) w)
    \<and> w_node (crash (ID target) w) (ID target) = None
    \<and> (\<forall>x \<in> set (pending (crash (ID target) w)). fst x \<noteq> ID target)"
proof -
  have c: "connects L target None w t" unfolding L_def by (rule rpc_connects [OF l p]) (simp add: n)
  have n': "getNode w (self_id L) (ID target) = Some n" using n by (simp add: L_def rpc_link_def)
  have u: "[0..<length (pb_Keys a)] = 0 # [1..<length (pb_Keys a)]" using a(1) by (simp add: upt_rec)
  have "h_PushBlocks R (ID target) n a w = None"
    unfolding h_PushBlocks_def u using a by (simp add: pb_panics_def)
  moreover have "h_PushRecords R (ID target) n keys data w = None"
    by (simp add: h_PushRecords_def push_records_short [OF s])
  moreover have "w_node (crash (ID target) w) (ID target) = None"
    by (simp add: crash_def RemoveNode_def w_node_def)
  ultimately show ?thesis
    using call_panics [OF c n', of "\<lambda>_ i n. h_PushRecords R i n keys data"]
      call_panics [OF c n', of "\<lambda>_ i n. h_PushBlocks R i n a"]
    by (auto simp: rt_PushRecords_def crash_def)
qed

section \<open>Two nodes on a network\<close>

definition unary_Bytes :: "cid \<Rightarrow> bytes" where
  "unary_Bytes c = (case c of Undef \<Rightarrow> [] | Cid v m h \<Rightarrow> replicate v 1 @ 0 # replicate m 1 @ 0 # h)"

definition unary_Cast :: "bytes \<Rightarrow> cid res" where
  "unary_Cast b =
     (let v = takeWhile (\<lambda>x. x = 1) b; b1 = drop (Suc (length v)) b; m = takeWhile (\<lambda>x. x = 1) b1
      in if b = [] then Inl (Errorf ''cid too short'')
         else Inr (Cid (length v) (length m) (drop (Suc (length m)) b1)))"

lemma unary_codec: "Defined c \<Longrightarrow> unary_Bytes c \<noteq> [] \<and> unary_Cast (unary_Bytes c) = Inr c"
proof (cases c)
  case (Cid v m h)
  have t: "takeWhile (\<lambda>x. x = (1 :: 8 word)) (replicate k 1 @ 0 # r) = replicate k 1" for k r
    by (induction k) simp_all
  have d: "drop (Suc k) (replicate k (1 :: 8 word) @ 0 # r) = r" for k r by (induction k) simp_all
  show ?thesis by (simp add: Cid unary_Bytes_def unary_Cast_def Let_def t d)
qed (simp add: Defined_def)

definition net_renv where
  "net_renv = \<lparr>d_env = mem_denv, m_lib = \<lparr>NewMultiaddr = \<lambda>_. Inl (Errorf ''not a multiaddr''), ValueForProtocol = \<lambda>_ (_ :: unit). Inl (Errorf ''absent'')\<rparr>,
     w_Bytes = unary_Bytes, w_Cast = unary_Cast\<rparr>"

definition net_node where
  "net_node k a = NewDNode (testNodeID k) a [(demo_block, [1, 2])] (test_config 2)"

definition net_world :: "(testMemStore, (string \<times> bytes) list, (bytes \<times> bytes) list, testMemStore) world" where
  "net_world = \<lparr>nodeMap = [(testNodeID 10, net_node 10 ''10.0.0.1:4001''), (testNodeID 20, net_node 20 ''10.0.0.2:4001'')],
     Nodes = [testNodeID 10, testNodeID 20], blocked = [], pending = [], ring_Replication = 2\<rparr>"

abbreviation net_peer :: NodeAddr where "net_peer \<equiv> \<lparr>ID = testNodeID 20, Addr = ''10.0.0.2:4001''\<rparr>"

lemma net_facts:
  "cid_codec net_renv" "getNode net_world (testNodeID 10) (ID net_peer) = Some (net_node 20 ''10.0.0.2:4001'')"
  "listens (m_lib net_renv) net_peer net_world" "node_id (net_node 20 ''10.0.0.2:4001'') = ID net_peer"
  "ring_keys (d_env net_renv) (net_node 20 ''10.0.0.2:4001'') = Inr [demo_block]"
proof -
  show "cid_codec net_renv" using unary_codec by (simp add: cid_codec_def net_renv_def)
  show "getNode net_world (testNodeID 10) (ID net_peer) = Some (net_node 20 ''10.0.0.2:4001'')"
    by (simp add: getNode_def net_world_def w_node_def)
  show "listens (m_lib net_renv) net_peer net_world"
    by (simp add: listens_def net_renv_def MultiaddrToTCPAddr_def listener_at_def net_world_def net_node_def NewDNode_def
        NewNode_def Let_def node.defs)
  show "node_id (net_node 20 ''10.0.0.2:4001'') = ID net_peer"
    by (simp add: net_node_def NewDNode_def NewNode_def Let_def node.defs)
  show "ring_keys (d_env net_renv) (net_node 20 ''10.0.0.2:4001'') = Inr [demo_block]"
    by (simp add: ring_keys_def ringStore_def net_renv_def mem_denv_def net_node_def NewDNode_def node.defs dnode.defs
        b_AllKeys_def mem_ops_def mem_AllKeysChan_def)
qed

theorem rpc_refines_local_witness:
  "fst (rt_PushBlocks net_renv (rpc_link (m_lib net_renv) (testNodeID 10)) net_peer [(demo_small, [1], [])]
     [(''10.0.0.2:4001'', Shut)] net_world) = Inr ()
   \<and> map_option blocks (w_node (snd (snd (rt_PushBlocks net_renv (rpc_link (m_lib net_renv) (testNodeID 10)) net_peer [(demo_small, [1], [])]
     [(''10.0.0.2:4001'', Shut)] net_world))) (testNodeID 20)) = Some (Plain [(demo_block, [1, 2]), (demo_small, [1])])"
proof -
  define x where "x = rt_PushBlocks net_renv (rpc_link (m_lib net_renv) (testNodeID 10)) net_peer [(demo_small, [1], [])]
     [(''10.0.0.2:4001'', Shut)] net_world"
  have "pooled net_peer [(''10.0.0.2:4001'', Shut)]" "Defined demo_block" "Defined demo_small"
    by (simp_all add: pooled_def Defined_def NewCidV1_def)
  then have "outcome x = map_prod wire id (lt_PushBlocks mem_denv (testNodeID 10) net_peer [(demo_small, [1], [])] net_world)"
    unfolding x_def
    using rpc_refines_local [OF net_facts(1,2,4,3), of "[(''10.0.0.2:4001'', Shut)]" demo_block "[]" "[(demo_small, [1], [])]" Undef 0]
    by (simp add: net_facts(5)) (simp add: net_renv_def)
  moreover have "fst (lt_PushBlocks mem_denv (testNodeID 10) net_peer [(demo_small, [1], [])] net_world) = Inr ()"
    "map_option blocks (w_node (snd (lt_PushBlocks mem_denv (testNodeID 10) net_peer [(demo_small, [1], [])] net_world)) (testNodeID 20)) =
      Some (Plain [(demo_block, [1, 2]), (demo_small, [1])])"
    by code_simp+
  ultimately show ?thesis unfolding x_def [symmetric] by (simp add: outcome_def prod_eq_iff)
qed

theorem rpc_short_request_panics_witness:
  "\<exists>t'. rt_PushRecords net_renv (rpc_link (m_lib net_renv) (testNodeID 10)) net_peer [testNodeID 1] [] [] net_world =
     (Inl (Errorf ''unexpected EOF''), t', crash (testNodeID 20) net_world)"
proof -
  have "pooled net_peer []" by (simp add: pooled_def)
  moreover have "w_Cast net_renv [1, 0] = Inr (Cid 1 0 [])" by (simp add: net_renv_def unary_Cast_def)
  ultimately have "outcome (rt_PushRecords net_renv (rpc_link (m_lib net_renv) (testNodeID 10)) net_peer [testNodeID 1] [] [] net_world) =
     (Inl (Errorf ''unexpected EOF''), crash (testNodeID 20) net_world)"
    using rpc_short_request_panics [OF net_facts(2,3), of "[]" "[]" "[testNodeID 1]"
        "\<lparr>pb_Keys = [[1, 0]], pb_Data = [], pb_RootCIDs = [], pb_RootExpiry = []\<rparr>" "[1, 0]" "[]" "Cid 1 0 []"] by simp
  then show ?thesis by (simp add: outcome_def prod_eq_iff)
qed

end
