(* ===== verification/Dag_Transfer.thy ===== *)
theory Dag_Transfer
  imports Node_Delete
begin

text \<open>
  Sharing and fetching a DAG (\<open>dht/fetch.go\<close>). \<open>ShareDAG\<close> walks the DAG in the local store of a node
  and puts every block into the ring; \<open>FetchDAG\<close> walks it from the root and stores every block
  locally. Both run many goroutines over shared sets and queues. A state holds what the goroutines
  share and the ones still to run, and a schedule is the list of choices which of them runs next;
  the semaphore and the capacities of the channels only rule schedules out. The first error cancels
  the pipeline, and so does the caller's context, at any choice of the schedule: what runs later does
  nothing. A step is atomic, so a cancellation falls between two steps.
\<close>

section \<open>Concurrency settings\<close>

abbreviation minDAGShareConcurrency :: int where "minDAGShareConcurrency \<equiv> 1"
abbreviation maxDAGShareConcurrency :: int where "maxDAGShareConcurrency \<equiv> 1024"

definition SetDAGShareConcurrency :: "int \<Rightarrow> int" where
  "SetDAGShareConcurrency n =
     (let n1 = (if n < minDAGShareConcurrency then minDAGShareConcurrency else n)
      in if n1 > maxDAGShareConcurrency then maxDAGShareConcurrency else n1)"

lemma SetDAGShareConcurrency_range: "1 \<le> SetDAGShareConcurrency n \<and> SetDAGShareConcurrency n \<le> 1024"
  by (simp add: SetDAGShareConcurrency_def Let_def)

section \<open>The store a DAG is read from and written to\<close>

text \<open>\<open>localOrRingBlocks\<close>: the local store when there is one, otherwise the store of the ring.\<close>

definition lob_Get ::
  "('m, 'd, 'b, 'l) denv \<Rightarrow> cid \<Rightarrow> ('m, 'd, 'b, 'l) dnode \<Rightarrow> bytes res \<times> ('m, 'd, 'b, 'l) dnode" where
  "lob_Get E c n = (if localBlocks n \<noteq> None then local_Get E c n else node_Get E c n)"

definition lob_Has :: "('m, 'd, 'b, 'l) denv \<Rightarrow> cid \<Rightarrow> ('m, 'd, 'b, 'l) dnode \<Rightarrow> bool res" where
  "lob_Has E c n = (case localBlocks n of Some l \<Rightarrow> bs_Has (locE E) c l | None \<Rightarrow> b_Has E c (blocks n))"

definition lob_Put ::
  "('m, 'd, 'b, 'l) denv \<Rightarrow> cid \<Rightarrow> bytes \<Rightarrow> ('m, 'd, 'b, 'l) dnode \<Rightarrow> unit res \<times> ('m, 'd, 'b, 'l) dnode" where
  "lob_Put E c d n =
     (case localBlocks n of
        Some l \<Rightarrow> (let (r, l') = bs_Put (locE E) c d l in (r, n\<lparr>localBlocks := Some l'\<rparr>))
      | None \<Rightarrow> (let (r, b) = b_Put E c d (blocks n) in (r, n\<lparr>blocks := b\<rparr>)))"

definition links_or_none :: "('m, 'd, 'b, 'l) denv \<Rightarrow> cid \<Rightarrow> bytes \<Rightarrow> cid list" where
  "links_or_none E c d = (case LinksOf E c d of Inl _ \<Rightarrow> [] | Inr cs \<Rightarrow> cs)"

section \<open>Sharing\<close>

text \<open>
  The walks started and not yet run, the jobs queued, the visited set and the first error. The
  context of the pipeline is done when the caller's context is (\<open>ctx_done\<close>) or after an error.
\<close>

datatype choice = Run nat | Cancel

record 'w share =
  walks :: "cid list"
  jobs :: "(cid \<times> bytes) list"
  visited :: "cid list"
  firstErr :: "err option"
  ctx_done :: bool
  world_of :: 'w

definition pipe_done :: "'w share \<Rightarrow> bool" where
  "pipe_done s \<longleftrightarrow> ctx_done s \<or> firstErr s \<noteq> None"

definition share_walk ::
  "('m, 'd, 'b, 'l) denv \<Rightarrow> NodeID \<Rightarrow> cid \<Rightarrow> ('m, 'd, 'b, 'l) world share \<Rightarrow> ('m, 'd, 'b, 'l) world share" where
  "share_walk E me c s =
     (if pipe_done s \<or> c \<in> set (visited s) then s
      else
        case w_node (world_of s) me of
          None \<Rightarrow> s
        | Some n \<Rightarrow>
            (let (r, n') = lob_Get E c n;
                 s1 = s\<lparr>visited := c # visited s, world_of := put_node me n' (world_of s)\<rparr>
             in case r of
                  Inl e \<Rightarrow> s1\<lparr>firstErr := Some (Wrap ''get local block'' e)\<rparr>
                | Inr data \<Rightarrow> s1\<lparr>jobs := jobs s @ [(c, data)], walks := walks s @ links_or_none E c data\<rparr>))"

definition share_job ::
  "('m, 'd, 'b, 'l) denv \<Rightarrow> NodeID \<Rightarrow> cid \<Rightarrow> int \<Rightarrow> cid \<times> bytes \<Rightarrow> ('m, 'd, 'b, 'l) world share \<Rightarrow> ('m, 'd, 'b, 'l) world share" where
  "share_job E me root rootExpiry j s =
     (if pipe_done s then s
      else
        case n_PutWithRoot E me (fst j) (snd j) root rootExpiry (world_of s) of
          (Inr _, w') \<Rightarrow> s\<lparr>world_of := w'\<rparr>
        | (Inl e, w') \<Rightarrow> s\<lparr>world_of := w', firstErr := Some (Wrap ''put to ring'' e)\<rparr>)"

definition drop_nth :: "nat \<Rightarrow> 'a list \<Rightarrow> 'a list" where
  "drop_nth k xs = take k xs @ drop (Suc k) xs"

text \<open>One choice: the walk number \<open>k\<close>, or the job of that number after the walks.\<close>

definition share_next ::
  "('m, 'd, 'b, 'l) denv \<Rightarrow> NodeID \<Rightarrow> cid \<Rightarrow> int \<Rightarrow> nat \<Rightarrow> ('m, 'd, 'b, 'l) world share \<Rightarrow> ('m, 'd, 'b, 'l) world share" where
  "share_next E me root rootExpiry k s =
     (if k < length (walks s) then share_walk E me (walks s ! k) (s\<lparr>walks := drop_nth k (walks s)\<rparr>)
      else
        let j = k - length (walks s)
        in share_job E me root rootExpiry (jobs s ! j) (s\<lparr>jobs := drop_nth j (jobs s)\<rparr>))"

fun share_run ::
  "('m, 'd, 'b, 'l) denv \<Rightarrow> NodeID \<Rightarrow> cid \<Rightarrow> int \<Rightarrow> choice list \<Rightarrow> ('m, 'd, 'b, 'l) world share \<Rightarrow> ('m, 'd, 'b, 'l) world share option" where
  "share_run E me root rootExpiry [] s = Some s"
| "share_run E me root rootExpiry (Cancel # ks) s = share_run E me root rootExpiry ks (s\<lparr>ctx_done := True\<rparr>)"
| "share_run E me root rootExpiry (Run k # ks) s =
     (if k < length (walks s) + length (jobs s) then share_run E me root rootExpiry ks (share_next E me root rootExpiry k s)
      else None)"

definition share_start :: "cid \<Rightarrow> ('m, 'd, 'b, 'l) world \<Rightarrow> ('m, 'd, 'b, 'l) world share" where
  "share_start root w = \<lparr>walks = [root], jobs = [], visited = [], firstErr = None, ctx_done = False, world_of = w\<rparr>"

definition share_done :: "('m, 'd, 'b, 'l) world share \<Rightarrow> bool" where
  "share_done s \<longleftrightarrow> walks s = [] \<and> jobs s = []"

text \<open>Times are nanoseconds; \<open>UnixNano\<close> is defined up to the year 2262.\<close>

definition rootExpiry_of :: "int \<Rightarrow> int \<Rightarrow> int" where
  "rootExpiry_of now lifetime = (if lifetime > 0 then now + lifetime else 0)"

text \<open>
  The result under a schedule, or \<open>None\<close> when the schedule leaves goroutines to run or picks one
  that does not exist.
\<close>

definition ShareDAGWithTTL ::
  "('m, 'd, 'b, 'l) denv \<Rightarrow> choice list \<Rightarrow> NodeID \<Rightarrow> cid \<Rightarrow> int \<Rightarrow> ('m, 'd, 'b, 'l) world \<Rightarrow> (unit res \<times> ('m, 'd, 'b, 'l) world) option" where
  "ShareDAGWithTTL E ks me root duration w =
     (case share_run E me root (rootExpiry_of (wallNs E) duration) ks (share_start root w) of
        None \<Rightarrow> None
      | Some s \<Rightarrow>
          if share_done s then Some (case firstErr s of Some e \<Rightarrow> Inl e | None \<Rightarrow> Inr (), world_of s) else None)"

definition ShareDAG ::
  "('m, 'd, 'b, 'l) denv \<Rightarrow> choice list \<Rightarrow> NodeID \<Rightarrow> cid \<Rightarrow> ('m, 'd, 'b, 'l) world \<Rightarrow> (unit res \<times> ('m, 'd, 'b, 'l) world) option" where
  "ShareDAG E ks me root w = ShareDAGWithTTL E ks me root 0 w"

section \<open>Fetching\<close>

record 'w fetch =
  queue :: "cid list"
  enqueued :: "cid list"
  fetchErr :: "err option"
  fetch_done :: bool
  fetch_world :: 'w

definition enqueue :: "'w fetch \<Rightarrow> cid \<Rightarrow> 'w fetch" where
  "enqueue s c =
     (if c \<in> set (enqueued s) then s else s\<lparr>enqueued := c # enqueued s, queue := queue s @ [c]\<rparr>)"

text \<open>The work on one block: its children, or the error, with the world after it.\<close>

definition fetchOneDAGBlock ::
  "('m, 'd, 'b, 'l) denv \<Rightarrow> (cid \<Rightarrow> ('m, 'd, 'b, 'l) world \<Rightarrow> bytes res \<times> ('m, 'd, 'b, 'l) world) \<Rightarrow> NodeID \<Rightarrow> cid \<Rightarrow>
   ('m, 'd, 'b, 'l) world \<Rightarrow> cid list res \<times> ('m, 'd, 'b, 'l) world" where
  "fetchOneDAGBlock E fetch me c w =
     (case w_node w me of
        None \<Rightarrow> (Inl (Errorf ''no such node''), w)
      | Some n \<Rightarrow>
          (case lob_Has E c n of
             Inl e \<Rightarrow> (Inl (Wrap ''check local'' e), w)
           | Inr has \<Rightarrow>
               if has
               then
                 (case lob_Get E c n of
                    (Inl e, n') \<Rightarrow> (Inl (Wrap ''local get'' e), put_node me n' w)
                  | (Inr data, n') \<Rightarrow> (Inr (links_or_none E c data), put_node me n' w))
               else
                 (case fetch c w of
                    (Inl e, w1) \<Rightarrow> (Inl (Wrap ''fetch'' e), w1)
                  | (Inr data, w1) \<Rightarrow>
                      (case w_node w1 me of
                         None \<Rightarrow> (Inl (Errorf ''no such node''), w1)
                       | Some n1 \<Rightarrow>
                           (case lob_Put E c data n1 of
                              (Inl e, n2) \<Rightarrow> (Inl (Wrap ''store'' e), put_node me n2 w1)
                            | (Inr _, n2) \<Rightarrow> (Inr (links_or_none E c data), put_node me n2 w1))))))"

definition fetch_next ::
  "('m, 'd, 'b, 'l) denv \<Rightarrow> (cid \<Rightarrow> ('m, 'd, 'b, 'l) world \<Rightarrow> bytes res \<times> ('m, 'd, 'b, 'l) world) \<Rightarrow> NodeID \<Rightarrow> nat \<Rightarrow>
   ('m, 'd, 'b, 'l) world fetch \<Rightarrow> ('m, 'd, 'b, 'l) world fetch" where
  "fetch_next E fetch me k s =
     (let c = queue s ! k; s1 = s\<lparr>queue := drop_nth k (queue s)\<rparr> in
      if fetch_done s \<or> fetchErr s \<noteq> None then s1
      else
        case fetchOneDAGBlock E fetch me c (fetch_world s) of
          (Inl e, w') \<Rightarrow> s1\<lparr>fetch_world := w', fetchErr := Some e\<rparr>
        | (Inr children, w') \<Rightarrow> foldl enqueue (s1\<lparr>fetch_world := w'\<rparr>) children)"

fun fetch_run ::
  "('m, 'd, 'b, 'l) denv \<Rightarrow> (cid \<Rightarrow> ('m, 'd, 'b, 'l) world \<Rightarrow> bytes res \<times> ('m, 'd, 'b, 'l) world) \<Rightarrow> NodeID \<Rightarrow> choice list \<Rightarrow>
   ('m, 'd, 'b, 'l) world fetch \<Rightarrow> ('m, 'd, 'b, 'l) world fetch option" where
  "fetch_run E fetch me [] s = Some s"
| "fetch_run E fetch me (Cancel # ks) s = fetch_run E fetch me ks (s\<lparr>fetch_done := True\<rparr>)"
| "fetch_run E fetch me (Run k # ks) s =
     (if k < length (queue s) then fetch_run E fetch me ks (fetch_next E fetch me k s) else None)"

definition fetch_start :: "cid \<Rightarrow> ('m, 'd, 'b, 'l) world \<Rightarrow> ('m, 'd, 'b, 'l) world fetch" where
  "fetch_start root w = enqueue \<lparr>queue = [], enqueued = [], fetchErr = None, fetch_done = False, fetch_world = w\<rparr> root"

definition fetchDAGPipeline ::
  "('m, 'd, 'b, 'l) denv \<Rightarrow> (cid \<Rightarrow> ('m, 'd, 'b, 'l) world \<Rightarrow> bytes res \<times> ('m, 'd, 'b, 'l) world) \<Rightarrow> choice list \<Rightarrow> NodeID \<Rightarrow> cid \<Rightarrow>
   ('m, 'd, 'b, 'l) world \<Rightarrow> (unit res \<times> ('m, 'd, 'b, 'l) world) option" where
  "fetchDAGPipeline E fetch ks me root w =
     (case fetch_run E fetch me ks (fetch_start root w) of
        None \<Rightarrow> None
      | Some s \<Rightarrow>
          if queue s = [] then Some (case fetchErr s of Some e \<Rightarrow> Inl e | None \<Rightarrow> Inr (), fetch_world s) else None)"

definition FetchDAG ::
  "('m, 'd, 'b, 'l) denv \<Rightarrow> (NodeAddr list \<Rightarrow> NodeAddr list) \<Rightarrow> choice list \<Rightarrow> NodeID \<Rightarrow> cid \<Rightarrow> ('m, 'd, 'b, 'l) world \<Rightarrow>
   (unit res \<times> ('m, 'd, 'b, 'l) world) option" where
  "FetchDAG E sched ks me root w = fetchDAGPipeline E (n_Get E sched me) ks me root w"

definition FetchDAGFromPeer ::
  "('m, 'd, 'b, 'l) denv \<Rightarrow> choice list \<Rightarrow> NodeID \<Rightarrow> cid \<Rightarrow> NodeAddr \<Rightarrow> ('m, 'd, 'b, 'l) world \<Rightarrow>
   (unit res \<times> ('m, 'd, 'b, 'l) world) option" where
  "FetchDAGFromPeer E ks me root peer w = fetchDAGPipeline E (\<lambda>c. lt_FetchBlock E me peer c) ks me root w"

section \<open>Bookkeeping of a run\<close>

definition below_root :: "('m, 'd, 'b, 'l) denv \<Rightarrow> (cid \<Rightarrow> bytes) \<Rightarrow> cid \<Rightarrow> cid set" where
  "below_root E truth root = {c. below E truth UNIV root c}"

lemma links_kids: "links_or_none E c (truth c) = kids E truth UNIV c"
  by (simp add: links_or_none_def kids_def split: sum.split)

lemma below_root_self: "root \<in> below_root E truth root"
  by (simp add: below_root_def below.root)

lemma below_root_kids: "c \<in> below_root E truth root \<Longrightarrow> set (kids E truth UNIV c) \<subseteq> below_root E truth root"
  by (auto simp: below_root_def intro: below.link)

lemma below_root_least:
  assumes "root \<in> A" "\<And>c. c \<in> A \<Longrightarrow> set (kids E truth UNIV c) \<subseteq> A"
  shows "below_root E truth root \<subseteq> A"
proof
  fix c assume "c \<in> below_root E truth root"
  then have "below E truth UNIV root c" by (simp add: below_root_def)
  then show "c \<in> A" using assms by (induction E truth "UNIV :: cid set" root c rule: below.induct) auto
qed

lemma drop_nth_set: "k < length xs \<Longrightarrow> set xs = insert (xs ! k) (set (drop_nth k xs))"
proof -
  assume k: "k < length xs"
  have "set xs = set (take k xs @ xs ! k # drop (Suc k) xs)" by (simp only: id_take_nth_drop [OF k, symmetric])
  then show ?thesis by (simp add: drop_nth_def)
qed

lemma drop_nth_length: "k < length xs \<Longrightarrow> length xs = Suc (length (drop_nth k xs))"
  by (simp add: drop_nth_def)

lemma enqueue_all:
  assumes "distinct (enqueued s)"
  shows "set (enqueued (foldl enqueue s cs)) = set (enqueued s) \<union> set cs
    \<and> set (queue (foldl enqueue s cs)) = set (queue s) \<union> (set cs - set (enqueued s))
    \<and> distinct (enqueued (foldl enqueue s cs))
    \<and> length (queue (foldl enqueue s cs)) + length (enqueued s) = length (queue s) + length (enqueued (foldl enqueue s cs))
    \<and> fetchErr (foldl enqueue s cs) = fetchErr s \<and> fetch_done (foldl enqueue s cs) = fetch_done s \<and> fetch_world (foldl enqueue s cs) = fetch_world s"
  using assms
proof (induction cs arbitrary: s)
  case (Cons c cs)
  have "distinct (enqueued (enqueue s c))" using Cons.prems by (simp add: enqueue_def)
  from Cons.IH [OF this] show ?case by (auto simp: enqueue_def)
qed simp

section \<open>The local half of a node\<close>

text \<open>The block is in the store the DAG operations use.\<close>

definition has_block where
  "has_block hold lhold n c \<longleftrightarrow>
     (case localBlocks n of Some l \<Rightarrow> lhold l c \<noteq> None | None \<Rightarrow> hold (blocks n) c \<noteq> None)"

text \<open>A step that keeps the content of the local store.\<close>

definition lsame where
  "lsame lok lhold n n' \<longleftrightarrow>
     (case localBlocks n of
        None \<Rightarrow> localBlocks n' = None
      | Some l \<Rightarrow> \<exists>l'. localBlocks n' = Some l' \<and> (lok l \<longrightarrow> lok l' \<and> lhold l' = lhold l))"

definition wlsame where
  "wlsame lok lhold w w' \<longleftrightarrow> (\<forall>i. rel_option (lsame lok lhold) (w_node w i) (w_node w' i))"

lemma lsame_refl [simp]: "lsame lok lhold n n"
  by (simp add: lsame_def split: option.split)

lemma lsame_trans: "lsame lok lhold a b \<Longrightarrow> lsame lok lhold b c \<Longrightarrow> lsame lok lhold a c"
  by (fastforce simp: lsame_def split: option.splits)

lemma lsame_blocks [simp]: "lsame lok lhold n (n\<lparr>blocks := b\<rparr>)"
  by (simp add: lsame_def split: option.split)

lemma wlsame_refl [simp]: "wlsame lok lhold w w"
  by (simp add: wlsame_def option.rel_refl)

lemma wlsame_trans:
  assumes "wlsame lok lhold u v" "wlsame lok lhold v w"
  shows "wlsame lok lhold u w"
  unfolding wlsame_def
proof
  fix i
  have "rel_option (lsame lok lhold) (w_node u i) (w_node v i)" "rel_option (lsame lok lhold) (w_node v i) (w_node w i)"
    using assms by (simp_all add: wlsame_def)
  then show "rel_option (lsame lok lhold) (w_node u i) (w_node w i)"
    by (cases "w_node u i"; cases "w_node v i"; cases "w_node w i") (auto intro: lsame_trans)
qed

lemma wlsame_put: "w_node w i = Some n \<Longrightarrow> lsame lok lhold n n' \<Longrightarrow> wlsame lok lhold w (put_node i n' w)"
  by (auto simp: wlsame_def option.rel_refl)

lemma wlsameD:
  assumes "wlsame lok lhold w w'" "w_node w i = Some n"
  obtains n' where "w_node w' i = Some n'" "lsame lok lhold n n'"
  using assms by (auto simp: wlsame_def option_rel_Some1 dest!: spec [of _ i])

lemma has_block_mono:
  assumes "lsame lok lhold n n'" "good ok lok n" "node_le hold n n'" "has_block hold lhold n c"
  shows "has_block hold lhold n' c"
  using assms
  by (auto simp: has_block_def lsame_def good_def node_le_def map_le_def dom_def split: option.splits)

text \<open>
  The stores of a node as the DAG operations use them: what \<open>node_store\<close> asks of the ring store,
  and a local store that returns what it holds and never loses a block on a put.
\<close>

locale dag_store = node_store E truth ok hold lok
  for E :: "('m, 'd, 'b, 'l) denv" and truth ok hold lok +
  fixes lhold :: "'l \<Rightarrow> cid \<rightharpoonup> bytes"
  assumes local_read: "lok l \<Longrightarrow> bs_Get (locE E) k l = (x, l') \<Longrightarrow>
      lok l' \<and> lhold l' = lhold l \<and> (case lhold l k of Some d \<Rightarrow> x = Inr (truth k) | None \<Rightarrow> x \<in> range Inl)"
    and local_has: "lok l \<Longrightarrow> bs_Has (locE E) k l = Inr (lhold l k \<noteq> None)"
    and local_put: "lok l \<Longrightarrow> bs_Put (locE E) k (truth k) l = (r, l') \<Longrightarrow>
      lok l' \<and> lhold l \<subseteq>\<^sub>m lhold l' \<and> (r = Inr () \<longrightarrow> lhold l' k \<noteq> None)"
begin

abbreviation "LS \<equiv> lsame lok lhold"
abbreviation "WL \<equiv> wlsame lok lhold"
abbreviation "HB \<equiv> has_block hold lhold"

lemma LS_node_Get: "LS n (snd (node_Get E k n))"
  by (simp add: node_Get_def split_beta)

lemma LS_local_Get: "LS n (snd (local_Get E k n))"
proof (cases "localBlocks n")
  case (Some l)
  obtain r l' where g: "bs_Get (locE E) k l = (r, l')" by fastforce
  then show ?thesis using local_read [OF _ g] Some by (auto simp: local_Get_def lsame_def)
qed (simp add: local_Get_def)

lemma LS_own_Get: "LS n (snd (own_Get E k n))"
proof (cases "node_Get E k n")
  case (Pair r n1)
  have 1: "LS n n1" using LS_node_Get [of n k] Pair by simp
  then show ?thesis using Pair lsame_trans [OF 1 LS_local_Get] by (cases r) (simp_all add: own_Get_def)
qed

lemma WL_resolve: "lt_resolve w me t = Inr n \<Longrightarrow> LS n n' \<Longrightarrow> WL w (put_node (ID t) n' w)"
  using wlsame_put [OF node_of_resolve] by blast

lemma WL_fetch_succs: "WL w (snd (fetch_succs E me k ss w))"
proof (induction ss arbitrary: w)
  case (Cons s ss)
  show ?case
  proof (cases "ID s = me \<or> getNode w me (ID s) = None")
    case False
    then obtain p where p: "getNode w me (ID s) = Some p" by auto
    obtain r p' where g: "node_Get E k p = (r, p')" by fastforce
    have "w_node w (ID s) = Some p" using p by (simp add: getNode_def split: if_splits)
    then have 1: "WL w (put_node (ID s) p' w)" using wlsame_put LS_node_Get [of p k] g by fastforce
    then show ?thesis using False p g wlsame_trans [OF 1 Cons.IH] by (cases r) auto
  qed (use Cons.IH in auto)
qed simp

lemma WL_FetchBlock: "WL w (snd (lt_FetchBlock E me t k w))"
proof (cases "lt_resolve w me t")
  case (Inr n)
  obtain r n' where g: "own_Get E k n = (r, n')" by fastforce
  have 1: "WL w (put_node (ID t) n' w)" using WL_resolve [OF Inr] LS_own_Get [of n k] g by simp
  then show ?thesis using Inr g wlsame_trans [OF 1 WL_fetch_succs] by (cases r) (auto simp: lt_FetchBlock_def)
qed (simp add: lt_FetchBlock_def)

lemma WL_fan_out: "WL w (snd (fan_out E me k ts r w))"
proof (induction ts arbitrary: r w)
  case (Cons t ts)
  obtain r' w' where f: "lt_FetchBlock E me t k w = (r', w')" by fastforce
  then show ?case using wlsame_trans [OF _ Cons.IH] WL_FetchBlock [of w me t k] by simp
qed simp

lemma WL_Get:
  assumes w: "serving truth ok lok S w" "me \<in> S"
  shows "WL w (snd (n_Get E sched me k w))"
proof -
  obtain a where a: "w_FindSuccessor me (CIDToNodeID (rx E) k) w = (Inr a, w)" using w by (rule serving_route)
  obtain n where n: "w_node w me = Some n" using w by (rule serving_node)
  obtain r n' where s: "own_Get E k n = (r, n')" by fastforce
  have 1: "WL w (put_node me n' w)" using wlsame_put [OF n] LS_own_Get [of n k] s by simp
  show ?thesis
    using a n s 1 wlsame_trans [OF 1 WL_fan_out] WL_FetchBlock by (cases r) (simp_all add: n_Get_def)
qed

lemma lob_Get_ok:
  assumes n: "good ok lok n" and g: "lob_Get E c n = (r, n')"
  shows "N n n'" "LS n n'" "if HB n c then r = Inr (truth c) else r \<in> range Inl"
proof -
  have gn: "good ok lok n' \<and> node_le hold n n'"
    using g n local_Get_ok [OF n, of c r n'] node_Get_ok [OF n, of c r n']
    by (auto simp: lob_Get_def node_le_def split: if_splits)
  then show "N n n'" by (simp add: nkeeps_def)
  show "LS n n'" using g LS_local_Get [of n c] LS_node_Get [of n c] by (auto simp: lob_Get_def split: if_splits)
  show "if HB n c then r = Inr (truth c) else r \<in> range Inl"
  proof (cases "localBlocks n")
    case None
    then show ?thesis using g node_Get_ok(5) [OF n, of c r n'] honest n
      by (auto simp: lob_Get_def has_block_def good_def split: option.splits)
  next
    case (Some l)
    obtain l' where "bs_Get (locE E) c l = (r, l')" using g Some by (auto simp: lob_Get_def local_Get_def split: prod.splits)
    moreover have "lok l" using n Some by (simp add: good_def)
    ultimately show ?thesis using local_read [of l c r l'] Some by (auto simp: has_block_def split: option.splits)
  qed
qed

lemma lob_Has_ok: "good ok lok n \<Longrightarrow> lob_Has E c n = Inr (HB n c)"
  using has local_has by (auto simp: lob_Has_def has_block_def good_def split: option.split)

lemma lob_Put_ok:
  assumes n: "good ok lok n" and p: "lob_Put E c (truth c) n = (r, n')"
  shows "N n n'" "HB n d \<Longrightarrow> HB n' d" "r = Inr () \<Longrightarrow> HB n' c"
proof -
  have "N n n' \<and> (HB n d \<longrightarrow> HB n' d) \<and> (r = Inr () \<longrightarrow> HB n' c)"
  proof (cases "localBlocks n")
    case None
    obtain b where b: "b_Put E c (truth c) (blocks n) = (r, b)" "n' = n\<lparr>blocks := b\<rparr>"
      using p None by (auto simp: lob_Put_def split: prod.splits)
    have "ok (blocks n)" using n by (simp add: good_def)
    from put [OF this b(1)] show ?thesis
      using b(2) n None by (auto simp: has_block_def nkeeps_def good_def node_le_def map_le_def dom_def)
  next
    case (Some l)
    obtain l' where l': "bs_Put (locE E) c (truth c) l = (r, l')" "n' = n\<lparr>localBlocks := Some l'\<rparr>"
      using p Some by (auto simp: lob_Put_def split: prod.splits)
    have "lok l" using n Some by (simp add: good_def)
    from local_put [OF this l'(1)] show ?thesis
      using l'(2) n Some by (auto simp: has_block_def nkeeps_def good_def node_le_def map_le_def dom_def)
  qed
  then show "N n n'" "HB n d \<Longrightarrow> HB n' d" "r = Inr () \<Longrightarrow> HB n' c" by simp_all
qed

section \<open>Sharing puts every block of the DAG into the ring\<close>

definition placed where
  "placed S w c \<longleftrightarrow> (\<exists>i. owner S (CIDToNodeID (rx E) c) i \<and> found_at hold w i c)"

lemma placed_K:
  assumes "K w w'" "world_good truth ok lok w" "placed S w c"
  shows "placed S w' c"
proof -
  have le: "world_le hold w w'" using assms(1,2) by (simp add: keeps_def)
  obtain i where i: "owner S (CIDToNodeID (rx E) c) i" "found_at hold w i c" using assms(3) by (auto simp: placed_def)
  have "found_at hold w' i c"
  proof (cases "holds hold w i c")
    case True
    then show ?thesis using holds_le [OF le] by (simp add: found_at_def)
  next
    case False
    then obtain n s where n: "w_node w i = Some n" "s \<in> set (successorList n)" "ID s \<noteq> i" "holds hold w (ID s) c"
      using i(2) by (auto simp: found_at_def)
    obtain n' where "w_node w' i = Some n'" "links n' = links n" using le n(1) by (rule world_leD)
    then show ?thesis using n(2,3) holds_le [OF le n(4)] by (auto simp: found_at_def links_def)
  qed
  then show ?thesis using i(1) by (auto simp: placed_def)
qed

definition share_inv where
  "share_inv S root s \<longleftrightarrow> serving truth ok lok S (world_of s) \<and>
     (\<forall>(c, d) \<in> set (jobs s). d = truth c) \<and>
     set (walks s) \<union> set (visited s) \<subseteq> below_root E truth root \<and>
     (\<not> pipe_done s \<longrightarrow> root \<in> set (walks s) \<union> set (visited s) \<and>
       (\<forall>c \<in> set (visited s). set (kids E truth UNIV c) \<subseteq> set (walks s) \<union> set (visited s) \<and>
          (c \<in> fst ` set (jobs s) \<or> placed S (world_of s) c)))"

lemma share_inv_walk:
  assumes s: "share_inv S root s" and me: "me \<in> S" and k: "k < length (walks s)"
  shows "share_inv S root (share_walk E me (walks s ! k) (s\<lparr>walks := drop_nth k (walks s)\<rparr>))"
proof -
  define c where "c = walks s ! k"
  define W where "W = set (drop_nth k (walks s))"
  have ws: "set (walks s) = insert c W" using drop_nth_set [OF k] by (simp add: c_def W_def)
  have sv: "serving truth ok lok S (world_of s)" using s by (simp add: share_inv_def)
  obtain n where n: "w_node (world_of s) me = Some n" "good ok lok n" using sv me by (rule serving_node)
  obtain r n' where g: "lob_Get E c n = (r, n')" by fastforce
  note g' = lob_Get_ok [OF n(2) g]
  have K': "K (world_of s) (put_node me n' (world_of s))" using keeps_put [OF n(1) g'(1)] .
  have sv': "serving truth ok lok S (put_node me n' (world_of s))" by (rule serving_keeps [OF K' sv])
  have wg: "world_good truth ok lok (world_of s)" using sv by (simp add: serving_def)
  have cb: "c \<in> below_root E truth root" using s ws by (auto simp: share_inv_def)
  note kb = below_root_kids [OF cb]
  show ?thesis
  proof (cases "pipe_done s \<or> c \<in> set (visited s)")
    case True
    then have e: "share_walk E me c (s\<lparr>walks := drop_nth k (walks s)\<rparr>) = s\<lparr>walks := drop_nth k (walks s)\<rparr>"
      by (auto simp: share_walk_def pipe_done_def)
    show ?thesis
      using s True ws unfolding c_def [symmetric] e share_inv_def by (auto simp: W_def [symmetric] pipe_done_def)
  next
    case False
    show ?thesis
    proof (cases r)
      case (Inl e)
      then show ?thesis using s sv' False n g ws cb unfolding c_def [symmetric]
        by (auto simp: share_inv_def share_walk_def pipe_done_def W_def [symmetric])
    next
      case (Inr d)
      then have d: "d = truth c" using g'(3) by (auto split: if_splits)
      have e: "share_walk E me c (s\<lparr>walks := drop_nth k (walks s)\<rparr>) =
        s\<lparr>walks := drop_nth k (walks s) @ kids E truth UNIV c, visited := c # visited s, jobs := jobs s @ [(c, truth c)],
          world_of := put_node me n' (world_of s)\<rparr>"
        using False n g Inr d by (simp add: share_walk_def pipe_done_def links_kids)
      have p: "placed S (put_node me n' (world_of s)) x" if "placed S (world_of s) x" for x
        using placed_K [OF K' wg that] .
      show ?thesis
        using s sv' False ws cb kb p unfolding c_def [symmetric] e share_inv_def pipe_done_def
        by (auto simp: W_def [symmetric])
    qed
  qed
qed

lemma share_inv_job:
  assumes s: "share_inv S root s" and me: "me \<in> S" and k: "k < length (jobs s)"
  shows "share_inv S root (share_job E me r0 ex (jobs s ! k) (s\<lparr>jobs := drop_nth k (jobs s)\<rparr>))"
proof -
  obtain c d where j: "jobs s ! k = (c, d)" by fastforce
  define J where "J = set (drop_nth k (jobs s))"
  have js: "set (jobs s) = insert (c, d) J" using drop_nth_set [OF k] j by (simp add: J_def)
  have d: "d = truth c" using s js by (auto simp: share_inv_def)
  have sv: "serving truth ok lok S (world_of s)" using s by (simp add: share_inv_def)
  have wg: "world_good truth ok lok (world_of s)" using sv by (simp add: serving_def)
  obtain r w' where p: "n_PutWithRoot E me c (truth c) r0 ex (world_of s) = (r, w')" by fastforce
  have K': "K (world_of s) w'" using K_PutWithRoot [OF sv me, of c r0 ex] p by simp
  note sv' = serving_keeps [OF K' sv]
  have pl: "placed S w' x" if "placed S (world_of s) x" for x using placed_K [OF K' wg that] .
  show ?thesis
  proof (cases "pipe_done s")
    case True
    then show ?thesis using s js by (auto simp: share_job_def share_inv_def pipe_done_def J_def [symmetric])
  next
    case None: False
    show ?thesis
    proof (cases r)
      case (Inl e)
      then show ?thesis using s sv' js None p j d by (auto simp: share_job_def share_inv_def pipe_done_def J_def [symmetric])
    next
      case (Inr u)
      then have "placed S w' c" using Put_found [OF sv me] p by (simp add: placed_def)
      then show ?thesis using s sv' js None p j d pl Inr
        by (auto simp: share_job_def share_inv_def pipe_done_def J_def [symmetric])
    qed
  qed
qed

lemma share_inv_run:
  assumes "share_inv S root s" "me \<in> S" "share_run E me r0 ex ks s = Some s'"
  shows "share_inv S root s'"
  using assms(1,3)
proof (induction ks arbitrary: s)
  case (Cons x ks)
  show ?case
  proof (cases x)
    case (Run k)
    have k: "k < length (walks s) + length (jobs s)" using Cons.prems(2) by (auto simp: Run split: if_splits)
    have "share_inv S root (share_next E me r0 ex k s)"
      using share_inv_walk [OF Cons.prems(1) assms(2), of k] share_inv_job [OF Cons.prems(1) assms(2), of "k - length (walks s)"] k
      by (auto simp: share_next_def Let_def)
    then show ?thesis using Cons.IH Cons.prems(2) k by (simp add: Run)
  next
    case Cancel
    have "share_inv S root (s\<lparr>ctx_done := True\<rparr>)" using Cons.prems(1) by (simp add: share_inv_def pipe_done_def)
    then show ?thesis using Cons.IH Cons.prems(2) by (simp add: Cancel)
  qed
qed simp

lemma share_next_ctx: "ctx_done (share_next E me r0 ex k s) = ctx_done s"
  by (simp add: share_next_def Let_def share_walk_def share_job_def split: option.split prod.split sum.split)

lemma share_run_ctx: "share_run E me r0 ex ks s = Some s' \<Longrightarrow> Cancel \<notin> set ks \<Longrightarrow> ctx_done s' = ctx_done s"
proof (induction ks arbitrary: s)
  case (Cons x ks)
  then show ?case by (cases x) (auto simp: share_next_ctx split: if_splits)
qed simp

lemma share_places:
  assumes w: "serving truth ok lok S w" and me: "me \<in> S" and nc: "Cancel \<notin> set ks"
    and r: "ShareDAGWithTTL E ks me root lt w = Some (Inr (), w')"
  shows "serving truth ok lok S w' \<and> (\<forall>c \<in> below_root E truth root. placed S w' c)"
proof -
  obtain s where s: "share_run E me root (rootExpiry_of (wallNs E) lt) ks (share_start root w) = Some s"
      "share_done s" "firstErr s = None" "world_of s = w'"
    using r by (auto simp: ShareDAGWithTTL_def split: option.splits if_splits)
  have "share_inv S root (share_start root w)" using w by (simp add: share_inv_def share_start_def below_root_self)
  note i = share_inv_run [OF this me s(1)]
  have "\<not> pipe_done s" using share_run_ctx [OF s(1) nc] s(3) by (simp add: pipe_done_def share_start_def)
  then have v: "root \<in> set (visited s)" "\<And>c. c \<in> set (visited s) \<Longrightarrow> set (kids E truth UNIV c) \<subseteq> set (visited s) \<and> placed S w' c"
    using i s(2-4) by (auto simp: share_inv_def share_done_def)
  have "below_root E truth root \<subseteq> set (visited s)" by (rule below_root_least) (use v in auto)
  then show ?thesis using v(2) i s(4) by (auto simp: share_inv_def)
qed

text \<open>Every choice uses the pipeline up: the walks and jobs to run, and what unvisited blocks can add.\<close>

definition share_left where
  "share_left root s = length (walks s) + length (jobs s) +
     (\<Sum>c \<in> below_root E truth root - set (visited s). Suc (length (kids E truth UNIV c)))"

lemma share_left_walk:
  assumes fin: "finite (below_root E truth root)" and s: "share_inv S root s" and me: "me \<in> S" and k: "k < length (walks s)"
  shows "share_left root (share_walk E me (walks s ! k) (s\<lparr>walks := drop_nth k (walks s)\<rparr>)) < share_left root s"
proof -
  define c where "c = walks s ! k"
  let ?D = "below_root E truth root" and ?f = "\<lambda>c. Suc (length (kids E truth UNIV c))"
  have l: "length (walks s) = Suc (length (drop_nth k (walks s)))" by (rule drop_nth_length [OF k])
  have sv: "serving truth ok lok S (world_of s)" using s by (simp add: share_inv_def)
  obtain n where n: "w_node (world_of s) me = Some n" "good ok lok n" using sv me by (rule serving_node)
  obtain r n' where g: "lob_Get E c n = (r, n')" by fastforce
  note g' = lob_Get_ok [OF n(2) g]
  have "walks s ! k \<in> set (walks s)" using k by simp
  then have c: "c \<in> ?D" using s by (auto simp: share_inv_def c_def)
  show ?thesis
  proof (cases "pipe_done s \<or> c \<in> set (visited s)")
    case True
    then show ?thesis unfolding c_def [symmetric] by (auto simp: share_walk_def pipe_done_def share_left_def l)
  next
    case False
    then have "sum ?f (?D - set (visited s)) = ?f c + sum ?f (?D - set (visited s) - {c})"
      using c fin by (intro sum.remove) auto
    moreover have "?D - set (c # visited s) = ?D - set (visited s) - {c}" by auto
    ultimately have "sum ?f (?D - set (visited s)) = ?f c + sum ?f (?D - set (c # visited s))" by simp
    then show ?thesis
      using False n g g'(3) unfolding c_def [symmetric]
      by (cases r) (auto simp: share_walk_def pipe_done_def share_left_def l links_kids split: if_splits)
  qed
qed

lemma share_left_job:
  assumes "k < length (jobs s)"
  shows "share_left root (share_job E me r0 ex j (s\<lparr>jobs := drop_nth k (jobs s)\<rparr>)) < share_left root s"
  using drop_nth_length [OF assms] by (auto simp: share_job_def share_left_def split: prod.split sum.split)

lemma share_bounded:
  assumes fin: "finite (below_root E truth root)" and "share_inv S root s" "me \<in> S" "share_run E me r0 ex ks s = Some s'"
  shows "length (filter (\<lambda>x. x \<noteq> Cancel) ks) + share_left root s' \<le> share_left root s"
  using assms(2,4)
proof (induction ks arbitrary: s)
  case (Cons x ks)
  show ?case
  proof (cases x)
    case (Run k)
    have k: "k < length (walks s) + length (jobs s)" "share_run E me r0 ex ks (share_next E me r0 ex k s) = Some s'"
      using Cons.prems(2) by (auto simp: Run split: if_splits)
    have "share_run E me r0 ex [Run k] s = Some (share_next E me r0 ex k s)" using k(1) by simp
    note i = share_inv_run [OF Cons.prems(1) assms(3) this]
    have "share_left root (share_next E me r0 ex k s) < share_left root s"
      using share_left_walk [OF fin Cons.prems(1) assms(3), of k] share_left_job [of "k - length (walks s)" s] k(1)
      by (auto simp: share_next_def Let_def)
    then show ?thesis using Cons.IH [OF i k(2)] by (simp add: Run)
  next
    case Cancel
    have "share_run E me r0 ex [Cancel] s = Some (s\<lparr>ctx_done := True\<rparr>)" by simp
    note i = share_inv_run [OF Cons.prems(1) assms(3) this]
    show ?thesis using Cons.IH [OF i] Cons.prems(2) by (simp add: Cancel share_left_def)
  qed
qed simp

section \<open>Fetching brings every block of the DAG to the node\<close>

definition stores where
  "stores w me c \<longleftrightarrow> (\<exists>n. w_node w me = Some n \<and> HB n c)"

lemma stores_step:
  assumes "K w w'" "WL w w'" "world_good truth ok lok w" "stores w me c"
  shows "stores w' me c"
proof -
  obtain n where n: "w_node w me = Some n" "HB n c" using assms(4) by (auto simp: stores_def)
  have g: "good ok lok n" using assms(3) n(1) by (simp add: world_good_def)
  have le: "world_le hold w w'" using assms(1,3) by (simp add: keeps_def)
  obtain m where m: "w_node w' me = Some m" "LS n m" using assms(2) n(1) by (rule wlsameD)
  have "node_le hold n m" using le n(1) m(1) by (auto simp: world_le_def dest!: spec [of _ me])
  then show ?thesis using has_block_mono [OF m(2) g _ n(2)] m(1) by (auto simp: stores_def)
qed

lemma fetch_one_ok:
  assumes w: "serving truth ok lok S w" "me \<in> S" and p: "placed S w c" and sched: "\<And>xs. set (sched xs) = set xs"
    and f: "fetchOneDAGBlock E (n_Get E sched me) me c w = (r, w')"
  shows "K w w'" "stores w me d \<Longrightarrow> stores w' me d"
    "r = Inr (kids E truth UNIV c) \<and> stores w' me c \<or> (\<exists>e. r = Inl (Wrap ''store'' e))"
proof -
  have wg: "world_good truth ok lok w" using w(1) by (simp add: serving_def)
  obtain n where n: "w_node w me = Some n" "good ok lok n" using w by (rule serving_node)
  obtain rg ng where g: "lob_Get E c n = (rg, ng)" by fastforce
  note g' = lob_Get_ok [OF n(2) g]
  obtain i where i: "owner S (CIDToNodeID (rx E) c) i" "found_at hold w i c" using p by (auto simp: placed_def)
  obtain w1 where w1: "n_Get E sched me c w = (Inr (truth c), w1)"
    using Get_found [OF w i sched] by (cases "n_Get E sched me c w") auto
  have K1: "K w w1" and L1: "WL w w1" using K_Get [OF w, of sched c] WL_Get [OF w, of sched c] w1 by simp_all
  note sv1 = serving_keeps [OF K1 w(1)]
  obtain n1 where n1: "w_node w1 me = Some n1" "good ok lok n1" using sv1 w(2) by (rule serving_node)
  obtain rp n2 where q: "lob_Put E c (truth c) n1 = (rp, n2)" by fastforce
  note q' = lob_Put_ok [OF n1(2) q]
  have "K w w' \<and> (stores w me d \<longrightarrow> stores w' me d) \<and>
    (r = Inr (kids E truth UNIV c) \<and> stores w' me c \<or> (\<exists>e. r = Inl (Wrap ''store'' e)))"
  proof (cases "HB n c")
    case True
    then have e: "r = Inr (kids E truth UNIV c)" "w' = put_node me ng w"
      using f n g g'(3) lob_Has_ok [OF n(2)] by (auto simp: fetchOneDAGBlock_def links_kids)
    have k: "K w w'" "WL w w'" using keeps_put [OF n(1) g'(1)] wlsame_put [OF n(1) g'(2)] e(2) by simp_all
    have "stores w me c" using n(1) True by (auto simp: stores_def)
    then show ?thesis using k stores_step [OF k wg] e(1) by blast
  next
    case False
    then have e: "w' = put_node me n2 w1" "r = (case rp of Inl e \<Rightarrow> Inl (Wrap ''store'' e) | Inr _ \<Rightarrow> Inr (kids E truth UNIV c))"
      using f n w1 n1 q lob_Has_ok [OF n(2)] by (auto simp: fetchOneDAGBlock_def links_kids split: sum.splits)
    have "K w w'" using keeps_trans [OF K1 keeps_put [OF n1(1) q'(1)]] e(1) by simp
    moreover have "stores w' me d" if "stores w me d"
      using stores_step [OF K1 L1 wg that] q'(2) n1(1) e(1) by (auto simp: stores_def)
    moreover have "stores w' me c" if "rp = Inr ()" using q'(3) [OF that] e(1) by (simp add: stores_def)
    ultimately show ?thesis using e(2) by (cases rp) auto
  qed
  then show "K w w'" "stores w me d \<Longrightarrow> stores w' me d"
    "r = Inr (kids E truth UNIV c) \<and> stores w' me c \<or> (\<exists>e. r = Inl (Wrap ''store'' e))" by blast+
qed

definition fetch_inv where
  "fetch_inv S me root s \<longleftrightarrow> serving truth ok lok S (fetch_world s) \<and>
     (\<forall>c \<in> below_root E truth root. placed S (fetch_world s) c) \<and>
     distinct (enqueued s) \<and> set (queue s) \<subseteq> set (enqueued s) \<and> set (enqueued s) \<subseteq> below_root E truth root \<and>
     root \<in> set (enqueued s) \<and> (\<forall>e. fetchErr s = Some e \<longrightarrow> (\<exists>x. e = Wrap ''store'' x)) \<and>
     (fetchErr s = None \<and> \<not> fetch_done s \<longrightarrow> (\<forall>c \<in> set (enqueued s). c \<in> set (queue s) \<or>
        stores (fetch_world s) me c \<and> set (kids E truth UNIV c) \<subseteq> set (enqueued s)))"

lemma fetch_inv_next:
  assumes s: "fetch_inv S me root s" and me: "me \<in> S" and k: "k < length (queue s)" and sched: "\<And>xs. set (sched xs) = set xs"
  defines "t \<equiv> fetch_next E (n_Get E sched me) me k s"
  shows "fetch_inv S me root t"
    "length (queue t) + length (enqueued s) < length (queue s) + length (enqueued t)"
proof -
  define c where "c = queue s ! k"
  define Q where "Q = drop_nth k (queue s)"
  have qs: "set (queue s) = insert c (set Q)" using drop_nth_set [OF k] by (simp add: c_def Q_def)
  have l: "length (queue s) = Suc (length Q)" using drop_nth_length [OF k] by (simp add: Q_def)
  have sv: "serving truth ok lok S (fetch_world s)" using s by (simp add: fetch_inv_def)
  have wg: "world_good truth ok lok (fetch_world s)" using sv by (simp add: serving_def)
  have c: "c \<in> below_root E truth root" using s qs by (auto simp: fetch_inv_def)
  then have p: "placed S (fetch_world s) c" using s by (simp add: fetch_inv_def)
  obtain r w' where f: "fetchOneDAGBlock E (n_Get E sched me) me c (fetch_world s) = (r, w')" by fastforce
  note one = fetch_one_ok [OF sv me p sched f]
  note sv' = serving_keeps [OF one(1) sv]
  have pl: "\<forall>c \<in> below_root E truth root. placed S w' c" using s placed_K [OF one(1) wg] by (simp add: fetch_inv_def)
  have "fetch_inv S me root t \<and> length (queue t) + length (enqueued s) < length (queue s) + length (enqueued t)"
  proof (cases "fetch_done s \<or> fetchErr s \<noteq> None")
    case True
    then have t: "t = s\<lparr>queue := Q\<rparr>" by (auto simp: t_def fetch_next_def Q_def)
    show ?thesis using s True qs l unfolding t fetch_inv_def by auto
  next
    case False
    then have None: "fetchErr s = None" "\<not> fetch_done s" by simp_all
    show ?thesis
    proof (cases r)
      case (Inl e)
      then have t: "t = s\<lparr>queue := Q, fetch_world := w', fetchErr := Some e\<rparr>"
        using None f by (simp add: t_def fetch_next_def Q_def c_def)
      show ?thesis using s None qs l sv' pl one(3) Inl unfolding t fetch_inv_def by auto
    next
      case (Inr cs)
      then have cs: "cs = kids E truth UNIV c" "stores w' me c" using one(3) by auto
      let ?u = "s\<lparr>queue := Q, fetch_world := w'\<rparr>"
      have t: "t = foldl enqueue ?u cs" using None f Inr by (simp add: t_def fetch_next_def Q_def c_def)
      have "distinct (enqueued ?u)" using s by (simp add: fetch_inv_def)
      from enqueue_all [OF this, of cs] have
        e: "set (enqueued t) = set (enqueued s) \<union> set cs" "set (queue t) = set Q \<union> (set cs - set (enqueued s))" "distinct (enqueued t)"
          "length (queue t) + length (enqueued s) = length Q + length (enqueued t)" "fetchErr t = None" "fetch_world t = w'" "\<not> fetch_done t"
        using None by (simp_all add: t)
      have kb: "set cs \<subseteq> below_root E truth root" using below_root_kids [OF c] cs(1) by simp
      have "x \<in> set (queue t) \<or> stores w' me x \<and> set (kids E truth UNIV x) \<subseteq> set (enqueued t)" if x: "x \<in> set (enqueued t)" for x
      proof (cases "x \<in> set (enqueued s) \<and> x \<noteq> c")
        case True
        then have "x \<in> set Q \<or> stores (fetch_world s) me x \<and> set (kids E truth UNIV x) \<subseteq> set (enqueued s)"
          using s None qs by (auto simp: fetch_inv_def)
        then show ?thesis using e(1,2) one(2) by blast
      next
        case False
        then show ?thesis using x e(1,2) cs by auto
      qed
      then show ?thesis using s sv' pl kb qs l e by (auto simp: fetch_inv_def)
    qed
  qed
  then show "fetch_inv S me root t" "length (queue t) + length (enqueued s) < length (queue s) + length (enqueued t)" by simp_all
qed

lemma fetch_run_inv:
  assumes "fetch_inv S me root s" "me \<in> S" "\<And>xs. set (sched xs) = set xs" "fetch_run E (n_Get E sched me) me ks s = Some s'"
  shows "fetch_inv S me root s' \<and>
    length (filter (\<lambda>x. x \<noteq> Cancel) ks) + length (queue s') + length (enqueued s) \<le> length (queue s) + length (enqueued s')"
  using assms(1,4)
proof (induction ks arbitrary: s)
  case (Cons x ks)
  show ?case
  proof (cases x)
    case (Run k)
    have k: "k < length (queue s)" "fetch_run E (n_Get E sched me) me ks (fetch_next E (n_Get E sched me) me k s) = Some s'"
      using Cons.prems(2) by (auto simp: Run split: if_splits)
    note n = fetch_inv_next [OF Cons.prems(1) assms(2) k(1) assms(3)]
    show ?thesis using Cons.IH [OF n(1) k(2)] n(2) by (simp add: Run)
  next
    case Cancel
    have "fetch_inv S me root (s\<lparr>fetch_done := True\<rparr>)" using Cons.prems(1) by (simp add: fetch_inv_def)
    from Cons.IH [OF this] show ?thesis using Cons.prems(2) by (simp add: Cancel)
  qed
qed simp

lemma fetch_next_ctx: "distinct (enqueued s) \<Longrightarrow> fetch_done (fetch_next E f me k s) = fetch_done s"
  by (simp add: fetch_next_def Let_def enqueue_all split: prod.split sum.split)

lemma fetch_run_ctx:
  assumes "fetch_inv S me root s" "me \<in> S" "\<And>xs. set (sched xs) = set xs"
    "fetch_run E (n_Get E sched me) me ks s = Some s'" "Cancel \<notin> set ks"
  shows "fetch_done s' = fetch_done s"
  using assms(1,4,5)
proof (induction ks arbitrary: s)
  case (Cons x ks)
  then obtain k where x: "x = Run k" by (cases x) auto
  have k: "k < length (queue s)" "fetch_run E (n_Get E sched me) me ks (fetch_next E (n_Get E sched me) me k s) = Some s'"
    using Cons.prems(2) by (auto simp: x split: if_splits)
  have "distinct (enqueued s)" using Cons.prems(1) by (simp add: fetch_inv_def)
  then show ?case
    using Cons.IH [OF fetch_inv_next(1) [OF Cons.prems(1) assms(2) k(1) assms(3)] k(2)] Cons.prems(3) fetch_next_ctx by simp
qed simp

lemma fetch_start_inv:
  assumes "serving truth ok lok S w" "\<forall>c \<in> below_root E truth root. placed S w c"
  shows "fetch_inv S me root (fetch_start root w)"
  using assms by (simp add: fetch_inv_def fetch_start_def enqueue_def below_root_self)

lemma fetch_brings:
  assumes w: "serving truth ok lok S w" "\<forall>c \<in> below_root E truth root. placed S w c" and me: "me \<in> S"
    and sched: "\<And>xs. set (sched xs) = set xs" and nc: "Cancel \<notin> set ks"
    and r: "FetchDAG E sched ks me root w = Some (r, w')"
  shows "r = Inr () \<and> (\<forall>c \<in> below_root E truth root. stores w' me c) \<or> (\<exists>e. r = Inl (Wrap ''store'' e))"
proof -
  obtain s where s: "fetch_run E (n_Get E sched me) me ks (fetch_start root w) = Some s" "queue s = []"
      "r = (case fetchErr s of Some e \<Rightarrow> Inl e | None \<Rightarrow> Inr ())" "fetch_world s = w'"
    using r by (auto simp: FetchDAG_def fetchDAGPipeline_def split: option.splits if_splits)
  have i: "fetch_inv S me root s" using fetch_run_inv [OF fetch_start_inv [OF w] me sched s(1)] by simp
  have f: "\<not> fetch_done s"
    using fetch_run_ctx [OF fetch_start_inv [OF w] me sched s(1) nc] by (simp add: fetch_start_def enqueue_def)
  show ?thesis
  proof (cases "fetchErr s")
    case (Some e)
    then show ?thesis using i s(3) by (auto simp: fetch_inv_def)
  next
    case None
    have v: "root \<in> set (enqueued s)" "\<And>c. c \<in> set (enqueued s) \<Longrightarrow> set (kids E truth UNIV c) \<subseteq> set (enqueued s) \<and> stores w' me c"
      using i s(2,4) None f by (auto simp: fetch_inv_def)
    have "below_root E truth root \<subseteq> set (enqueued s)" by (rule below_root_least) (use v in auto)
    then show ?thesis using v(2) s(3) None by auto
  qed
qed

lemma fetch_bounded:
  assumes w: "serving truth ok lok S w" "\<forall>c \<in> below_root E truth root. placed S w c" and me: "me \<in> S"
    and sched: "\<And>xs. set (sched xs) = set xs" and fin: "finite (below_root E truth root)"
    and s: "fetch_run E (n_Get E sched me) me ks (fetch_start root w) = Some s"
  shows "length (filter (\<lambda>x. x \<noteq> Cancel) ks) \<le> card (below_root E truth root)"
proof -
  have i: "fetch_inv S me root s" "length (filter (\<lambda>x. x \<noteq> Cancel) ks) + length (queue s) + length (enqueued (fetch_start root w)) \<le>
      length (queue (fetch_start root w)) + length (enqueued s)"
    using fetch_run_inv [OF fetch_start_inv [OF w] me sched s] by simp_all
  have "length (enqueued s) = card (set (enqueued s))" using i(1) by (simp add: fetch_inv_def distinct_card)
  also have "\<dots> \<le> card (below_root E truth root)" using i(1) fin by (intro card_mono) (simp_all add: fetch_inv_def)
  finally show ?thesis using i(2) by (simp add: fetch_start_def enqueue_def)
qed

text \<open>A schedule that keeps choosing comes to an end.\<close>

lemma share_completes:
  assumes fin: "finite (below_root E truth root)" and me: "me \<in> S"
  shows "share_inv S root s \<Longrightarrow> \<exists>ks s'. share_run E me r0 ex ks s = Some s' \<and> share_done s' \<and> Cancel \<notin> set ks"
proof (induction "share_left root s" arbitrary: s rule: less_induct)
  case less
  show ?case
  proof (cases "share_done s")
    case True
    then show ?thesis by (intro exI [of _ "[]"] exI [of _ s]) simp
  next
    case False
    then have c: "0 < length (walks s) + length (jobs s)" by (auto simp: share_done_def)
    then have o: "share_run E me r0 ex [Run 0] s = Some (share_next E me r0 ex 0 s)" by simp
    have "share_left root (share_next E me r0 ex 0 s) < share_left root s"
      using share_bounded [OF fin less.prems me o] by simp
    from less.hyps [OF this share_inv_run [OF less.prems me o]] obtain ks s' where
      "share_run E me r0 ex ks (share_next E me r0 ex 0 s) = Some s'" "share_done s'" "Cancel \<notin> set ks" by blast
    then have "share_run E me r0 ex (Run 0 # ks) s = Some s' \<and> share_done s' \<and> Cancel \<notin> set (Run 0 # ks)" using c by simp
    then show ?thesis by blast
  qed
qed

lemma fetch_completes:
  assumes fin: "finite (below_root E truth root)" and me: "me \<in> S" and sched: "\<And>xs. set (sched xs) = set xs"
  shows "fetch_inv S me root s \<Longrightarrow> \<exists>ks s'. fetch_run E (n_Get E sched me) me ks s = Some s' \<and> queue s' = [] \<and> Cancel \<notin> set ks"
proof (induction "length (queue s) + (card (below_root E truth root) - length (enqueued s))" arbitrary: s rule: less_induct)
  case less
  show ?case
  proof (cases "queue s")
    case Nil
    then show ?thesis by (intro exI [of _ "[]"] exI [of _ s]) simp
  next
    case (Cons c q)
    let ?t = "fetch_next E (n_Get E sched me) me 0 s"
    have k: "0 < length (queue s)" using Cons by simp
    note n = fetch_inv_next [OF less.prems me k sched]
    have "length (enqueued ?t) \<le> card (below_root E truth root)"
      using n(1) fin card_mono [of "below_root E truth root" "set (enqueued ?t)"] by (simp add: fetch_inv_def distinct_card)
    then have "length (queue ?t) + (card (below_root E truth root) - length (enqueued ?t)) <
        length (queue s) + (card (below_root E truth root) - length (enqueued s))" using n(2) by linarith
    from less.hyps [OF this n(1)] obtain ks s' where
      "fetch_run E (n_Get E sched me) me ks ?t = Some s'" "queue s' = []" "Cancel \<notin> set ks" by blast
    then have "fetch_run E (n_Get E sched me) me (Run 0 # ks) s = Some s' \<and> queue s' = [] \<and> Cancel \<notin> set (Run 0 # ks)" using k by simp
    then show ?thesis by blast
  qed
qed

lemma share_start_inv: "serving truth ok lok S w \<Longrightarrow> share_inv S root (share_start root w)"
  by (simp add: share_inv_def share_start_def below_root_self)

end

section \<open>Sharing, then fetching\<close>

text \<open>The stores of \<open>node_env\<close>, where a local store tells blocks with different bytes apart.\<close>

definition dag_env where
  "dag_env E truth kf pinv M B lf linv L \<longleftrightarrow>
     node_env E truth kf pinv M B lf linv L \<and> (\<forall>j k. lf j = lf k \<longrightarrow> truth j = truth k)"

lemma dag_env_store:
  assumes "dag_env E truth kf pinv M B lf linv L"
  shows "dag_store E truth (store_ok truth kf pinv M B) (held kf M B) (local_ok truth lf linv L) (\<lambda>l k. L l (lf k))"
proof -
  have e: "node_env E truth kf pinv M B lf linv L" and lf: "\<And>j k. lf j = lf k \<Longrightarrow> truth j = truth k"
    using assms unfolding dag_env_def by blast+
  note bs = node_envD(3) [OF e]
  show ?thesis
  proof (intro dag_store.intro dag_store_axioms.intro node_env_store [OF e])
    fix l k x l' assume l: "local_ok truth lf linv L l" "bs_Get (locE E) k l = (x, l')"
    have i: "linv l" "honest truth (\<lambda>k. L l (lf k))" using l(1) by (simp_all add: local_ok_def)
    note g = block_store.get [OF bs i(1) l(2)]
    have "L l (lf k) = Some d \<Longrightarrow> d = truth k" for d using i(2) by (simp add: honest_def)
    then show "local_ok truth lf linv L l' \<and> (\<lambda>k. L l' (lf k)) = (\<lambda>k. L l (lf k)) \<and>
      (case L l (lf k) of Some d \<Rightarrow> x = Inr (truth k) | None \<Rightarrow> x \<in> range Inl)"
      using g i by (auto simp: local_ok_def split: option.splits)
  next
    fix l k assume "local_ok truth lf linv L l"
    then show "bs_Has (locE E) k l = Inr (L l (lf k) \<noteq> None)" using block_store.has [OF bs] by (simp add: local_ok_def)
  next
    fix l k r l' assume l: "local_ok truth lf linv L l" "bs_Put (locE E) k (truth k) l = (r, l')"
    have i: "linv l" "honest truth (\<lambda>k. L l (lf k))" using l(1) by (simp_all add: local_ok_def)
    note h = honest_put [where c = "L l" and f = lf and k = k, OF i(2)]
    note p = block_store.put [OF bs i(1) h(1) l(2)]
    have "honest truth (\<lambda>j. ((L l)(lf k \<mapsto> truth k)) (lf j))" by (rule honest_upd [where f = lf, OF i(2) lf])
    then show "local_ok truth lf linv L l' \<and> (\<lambda>k. L l (lf k)) \<subseteq>\<^sub>m (\<lambda>k. L l' (lf k)) \<and> (r = Inr () \<longrightarrow> L l' (lf k) \<noteq> None)"
      using p i h(2) by (auto simp: local_ok_def)
  qed
qed

text \<open>
  C39. What one member shares every member can fetch, when the DAG below the root is finite. Sharing it
  takes no more steps than the DAG has blocks and links under every schedule of its goroutines, with
  or without a cancellation, and some schedule without one completes. Once it has succeeded without a
  cancellation, fetching the DAG at any member takes no more steps than the DAG has blocks, under
  every schedule and every order of answers, and some schedule completes; a fetch that completes
  without a cancellation leaves every block below the root in the store of that member, unless that
  store refused one: no other error is possible. When the caller's context is cancelled instead, both
  report success: cancelled at the start, they return nil and have moved nothing.
\<close>

theorem share_then_fetch:
  assumes "dag_env E truth kf pinv M B lf linv L"
    and "serving truth (store_ok truth kf pinv M B) (local_ok truth lf linv L) S w" "me \<in> S" "you \<in> S"
    and "finite (below_root E truth root)" "\<And>xs. set (sched xs) = set xs"
  defines "D \<equiv> below_root E truth root" and "steps \<equiv> \<lambda>ks. length (filter (\<lambda>x. x \<noteq> Cancel) ks)"
  shows "(\<exists>ks. Cancel \<notin> set ks \<and> ShareDAGWithTTL E ks me root lifetime w \<noteq> None)
    \<and> (\<forall>ks s. share_run E me root ex ks (share_start root w) = Some s \<longrightarrow>
        steps ks \<le> 1 + (\<Sum>c \<in> D. 1 + length (kids E truth UNIV c)))
    \<and> (\<forall>ks w1. Cancel \<notin> set ks \<and> ShareDAGWithTTL E ks me root lifetime w = Some (Inr (), w1) \<longrightarrow>
        (\<exists>js. Cancel \<notin> set js \<and> FetchDAG E sched js you root w1 \<noteq> None)
        \<and> (\<forall>js s. fetch_run E (n_Get E sched you) you js (fetch_start root w1) = Some s \<longrightarrow> steps js \<le> card D)
        \<and> (\<forall>js r w2. Cancel \<notin> set js \<and> FetchDAG E sched js you root w1 = Some (r, w2) \<longrightarrow>
            r = Inr () \<and> (\<forall>c \<in> D. \<exists>n. w_node w2 you = Some n \<and> has_block (held kf M B) (\<lambda>l k. L l (lf k)) n c)
            \<or> (\<exists>e. r = Inl (Wrap ''store'' e))))
    \<and> ShareDAGWithTTL E [Cancel, Run 0] me root lifetime w = Some (Inr (), w)
    \<and> FetchDAG E sched [Cancel, Run 0] you root w = Some (Inr (), w)"
proof -
  note ns = dag_env_store [OF assms(1)]
  note i = dag_store.share_start_inv [OF ns assms(2), where root = root]
  have left: "dag_store.share_left E truth root (share_start root w) = 1 + (\<Sum>c \<in> D. 1 + length (kids E truth UNIV c))"
    by (simp add: dag_store.share_left_def [OF ns] share_start_def D_def)
  obtain ks s where "share_run E me root (rootExpiry_of (wallNs E) lifetime) ks (share_start root w) = Some s" "share_done s"
      "Cancel \<notin> set ks"
    using dag_store.share_completes [OF ns assms(5,3) i, of root "rootExpiry_of (wallNs E) lifetime"] by blast
  then have "Cancel \<notin> set ks \<and> ShareDAGWithTTL E ks me root lifetime w \<noteq> None" by (simp add: ShareDAGWithTTL_def)
  then have 1: "\<exists>ks. Cancel \<notin> set ks \<and> ShareDAGWithTTL E ks me root lifetime w \<noteq> None" by blast
  have 2: "steps ks \<le> 1 + (\<Sum>c \<in> D. 1 + length (kids E truth UNIV c))"
    if "share_run E me root ex ks (share_start root w) = Some s" for ks s
    using dag_store.share_bounded [OF ns assms(5) i assms(3) that] left unfolding steps_def by linarith
  have 3: "(\<exists>js. Cancel \<notin> set js \<and> FetchDAG E sched js you root w1 \<noteq> None)
      \<and> (\<forall>js s. fetch_run E (n_Get E sched you) you js (fetch_start root w1) = Some s \<longrightarrow> steps js \<le> card D)
      \<and> (\<forall>js r w2. Cancel \<notin> set js \<and> FetchDAG E sched js you root w1 = Some (r, w2) \<longrightarrow>
          r = Inr () \<and> (\<forall>c \<in> D. \<exists>n. w_node w2 you = Some n \<and> has_block (held kf M B) (\<lambda>l k. L l (lf k)) n c)
          \<or> (\<exists>e. r = Inl (Wrap ''store'' e)))"
    if sh: "Cancel \<notin> set ks" "ShareDAGWithTTL E ks me root lifetime w = Some (Inr (), w1)" for ks w1
  proof -
    note p = dag_store.share_places [OF ns assms(2,3) sh, THEN conjunct1] dag_store.share_places [OF ns assms(2,3) sh, THEN conjunct2]
    note fi = dag_store.fetch_start_inv [OF ns p, where me = you]
    obtain js s where "fetch_run E (n_Get E sched you) you js (fetch_start root w1) = Some s" "queue s = []" "Cancel \<notin> set js"
      using dag_store.fetch_completes [OF ns assms(5,4,6) fi] by blast
    then have "Cancel \<notin> set js \<and> FetchDAG E sched js you root w1 \<noteq> None" by (simp add: FetchDAG_def fetchDAGPipeline_def)
    then show ?thesis
      using dag_store.fetch_bounded [OF ns p assms(4,6,5)] dag_store.fetch_brings [OF ns p assms(4,6)]
      unfolding dag_store.stores_def [OF ns] D_def steps_def by blast
  qed
  have 4: "ShareDAGWithTTL E [Cancel, Run 0] me root lifetime w = Some (Inr (), w)"
    by (simp add: ShareDAGWithTTL_def share_start_def share_next_def share_walk_def pipe_done_def drop_nth_def share_done_def)
  have 5: "FetchDAG E sched [Cancel, Run 0] you root w = Some (Inr (), w)"
    by (simp add: FetchDAG_def fetchDAGPipeline_def fetch_start_def enqueue_def fetch_next_def drop_nth_def)
  show ?thesis using 1 2 3 4 5 by blast
qed

section \<open>A DAG with a cycle of links\<close>

lemma cyc_env: "dag_env dag_denv Hash (\<lambda>k. k) (\<lambda>m. distinct (map fst m)) map_of map_of (\<lambda>k. k) (\<lambda>m. distinct (map fst m)) map_of"
  using dag_env by (simp add: dag_env_def walk_env_def)

interpretation cycring: dag_store dag_denv Hash "store_ok Hash (\<lambda>k. k) (\<lambda>m. distinct (map fst m)) map_of map_of"
    "mem_hold map_of" "local_ok Hash (\<lambda>k. k) (\<lambda>m. distinct (map fst m)) map_of" "\<lambda>l k. map_of l k"
  by (rule dag_env_store [OF cyc_env])

lemma cyc_below: "below_root dag_denv Hash dag_root = {dag_root, dag_leaf}"
proof
  have k: "kids dag_denv Hash UNIV dag_root = [dag_leaf]" "kids dag_denv Hash UNIV dag_leaf = [dag_root]"
    by (simp_all add: kids_def LinksOf_def dag_denv_def mem_denv_def mem_nenv_def NewCidV1_def)
  show "below_root dag_denv Hash dag_root \<subseteq> {dag_root, dag_leaf}" by (rule below_root_least) (auto simp: k)
  show "{dag_root, dag_leaf} \<subseteq> below_root dag_denv Hash dag_root"
    using below_root_kids [OF below_root_self, of dag_denv Hash dag_root] by (auto simp: k below_root_self)
qed

definition cyc_shared where
  "cyc_shared = snd (the (ShareDAGWithTTL dag_denv [Run 0, Run 1, Run 0, Run 0, Run 0] (demo_id 20) dag_root 0 dag_world))"

lemma cyc_share: "ShareDAGWithTTL dag_denv [Run 0, Run 1, Run 0, Run 0, Run 0] (demo_id 20) dag_root 0 dag_world = Some (Inr (), cyc_shared)"
proof -
  have "map_option fst (ShareDAGWithTTL dag_denv [Run 0, Run 1, Run 0, Run 0, Run 0] (demo_id 20) dag_root 0 dag_world) = Some (Inr ())" by code_simp
  then show ?thesis by (auto simp: cyc_shared_def)
qed

theorem share_then_fetch_witness:
  "\<exists>w2. FetchDAG dag_denv rev [Run 0, Run 0] (demo_id 10) dag_root cyc_shared = Some (Inr (), w2) \<and>
     (\<forall>c \<in> {dag_root, dag_leaf}. \<exists>n. w_node w2 (demo_id 10) = Some n \<and> has_block (mem_hold map_of) (\<lambda>l k. map_of l k) n c)"
proof -
  have "map_option fst (FetchDAG dag_denv rev [Run 0, Run 0] (demo_id 10) dag_root cyc_shared) = Some (Inr ())"
    unfolding cyc_shared_def by code_simp
  then obtain w2 where w2: "FetchDAG dag_denv rev [Run 0, Run 0] (demo_id 10) dag_root cyc_shared = Some (Inr (), w2)" by auto
  have "finite (below_root dag_denv Hash dag_root)" "demo_id 20 \<in> demo_ids" "demo_id 10 \<in> demo_ids" by (simp_all add: cyc_below)
  note th = share_then_fetch [where sched = rev and lifetime = 0 and ex = 0, OF cyc_env dag_serving(1) this(2,3,1) set_rev,
      THEN conjunct2, THEN conjunct2, THEN conjunct1]
  have "Cancel \<notin> set [Run 0, Run 1, Run 0, Run 0, Run 0]" by simp
  note f = th [THEN spec, THEN spec, THEN mp, OF conjI, OF this cyc_share, THEN conjunct2, THEN conjunct2]
  have "Cancel \<notin> set [Run 0, Run 0]" by simp
  from f [THEN spec, THEN spec, THEN spec, THEN mp, OF conjI, OF this w2]
  have "\<forall>c \<in> below_root dag_denv Hash dag_root. \<exists>n. w_node w2 (demo_id 10) = Some n \<and> has_block (mem_hold map_of) (\<lambda>l k. map_of l k) n c"
    by blast
  then show ?thesis using w2 unfolding cyc_below by blast
qed

end
