(* ===== verification/Public_Ring.thy ===== *)
theory Public_Ring
  imports Dag_Transfer Record_Ring
begin

text \<open>
  The public ring as its clients use it (\<open>dht/public.go\<close>): publishing and looking up peer, group and
  provider records on top of the record calls of a node, fetching from providers, and one round of
  each republishing loop. A registered callback is represented by what it does: a provider of group
  addresses by the address it returns, a group republisher by its effect on the ring and on the
  files of the host.
\<close>

section \<open>State\<close>

type_synonym files = "string \<rightharpoonup> bytes"

record 'w PublicDring =
  pub_node :: NodeID
  pub_identity :: Identity
  pub_version :: "64 word"
  announcedCIDs :: "cid list"
  groupRepublishers :: "('w \<times> files \<Rightarrow> unit res \<times> 'w \<times> files) list"
  groupAddrProviders :: "(NodeID \<times> string) list"

definition NewPublicDring :: "NodeID \<Rightarrow> Identity \<Rightarrow> 'w PublicDring" where
  "NewPublicDring i ident =
     \<lparr>pub_node = i, pub_identity = ident, pub_version = 0, announcedCIDs = [], groupRepublishers = [], groupAddrProviders = []\<rparr>"

definition RegisterGroupRepublisher :: "('w \<times> files \<Rightarrow> unit res \<times> 'w \<times> files) \<Rightarrow> 'w PublicDring \<Rightarrow> 'w PublicDring" where
  "RegisterGroupRepublisher fn p = p\<lparr>groupRepublishers := groupRepublishers p @ [fn]\<rparr>"

definition RegisterGroupAddrProvider :: "NodeID \<Rightarrow> string \<Rightarrow> 'w PublicDring \<Rightarrow> 'w PublicDring" where
  "RegisterGroupAddrProvider groupID a p = p\<lparr>groupAddrProviders := aupd groupID a (groupAddrProviders p)\<rparr>"

definition UnregisterGroupAddrProvider :: "NodeID \<Rightarrow> 'w PublicDring \<Rightarrow> 'w PublicDring" where
  "UnregisterGroupAddrProvider groupID p = p\<lparr>groupAddrProviders := adel groupID (groupAddrProviders p)\<rparr>"

definition collectGroupAddrs :: "'w PublicDring \<Rightarrow> string \<rightharpoonup> string" where
  "collectGroupAddrs p =
     map_of (map (\<lambda>(i, a). (id_String i, a)) (filter (\<lambda>(i, a). a \<noteq> []) (groupAddrProviders p)))"

section \<open>Signed records\<close>

definition LookupPeer ::
  "('m, 'd, 'b, 'l) denv \<Rightarrow> NodeID \<Rightarrow> NodeID \<Rightarrow> ('m, 'd, 'b, 'l) world \<Rightarrow> PeerIdentityRecord res \<times> ('m, 'd, 'b, 'l) world" where
  "LookupPeer E me peerID w =
     (case RecordGet E me peerID w of
        (Inl e, w') \<Rightarrow> (Inl (Wrap ''fetch peer record'' e), w')
      | (Inr data, w') \<Rightarrow>
          (case DecodePeerIdentityRecord (rx E) data of
             Inl e \<Rightarrow> (Inl (Wrap ''decode peer record'' e), w')
           | Inr rec \<Rightarrow>
               (case peer_Verify (rx E) rec of
                  Inl e \<Rightarrow> (Inl (Wrap ''invalid peer record'' e), w')
                | Inr _ \<Rightarrow> (Inr rec, w'))))"

definition LookupGroup ::
  "('m, 'd, 'b, 'l) denv \<Rightarrow> NodeID \<Rightarrow> NodeID \<Rightarrow> ('m, 'd, 'b, 'l) world \<Rightarrow> GroupIdentityRecord res \<times> ('m, 'd, 'b, 'l) world" where
  "LookupGroup E me groupID w =
     (case RecordGet E me groupID w of
        (Inl e, w') \<Rightarrow> (Inl (Wrap ''fetch group record'' e), w')
      | (Inr data, w') \<Rightarrow>
          (case DecodeGroupIdentityRecord (rx E) data of
             Inl e \<Rightarrow> (Inl (Wrap ''decode group record'' e), w')
           | Inr rec \<Rightarrow>
               (case group_Verify (rx E) rec of
                  Inl e \<Rightarrow> (Inl (Wrap ''invalid group record'' e), w')
                | Inr _ \<Rightarrow> (Inr rec, w'))))"

definition publishSelfVersion ::
  "('m, 'd, 'b, 'l) denv \<Rightarrow> ('m, 'd, 'b, 'l) world PublicDring \<Rightarrow> 64 word \<Rightarrow> ('m, 'd, 'b, 'l) world \<Rightarrow> unit res \<times> ('m, 'd, 'b, 'l) world" where
  "publishSelfVersion E p v w =
     (case NewPeerIdentityRecord (rx E) (pub_identity p) v
             (case w_node w (pub_node p) of Some n \<Rightarrow> addr n | None \<Rightarrow> []) (collectGroupAddrs p) of
        Inl e \<Rightarrow> (Inl (Wrap ''build peer record'' e), w)
      | Inr rec \<Rightarrow>
          (case peer_Encode (rx E) rec of
             Inl e \<Rightarrow> (Inl (Wrap ''encode peer record'' e), w)
           | Inr data \<Rightarrow> RecordPut E (pub_node p) (i_ID (pub_identity p)) data w))"

definition fetchStoredPeerVersion ::
  "('m, 'd, 'b, 'l) denv \<Rightarrow> ('m, 'd, 'b, 'l) world PublicDring \<Rightarrow> ('m, 'd, 'b, 'l) world \<Rightarrow> 64 word res \<times> ('m, 'd, 'b, 'l) world" where
  "fetchStoredPeerVersion E p w =
     (case LookupPeer E (pub_node p) (i_ID (pub_identity p)) w of
        (Inl e, w') \<Rightarrow> (Inl e, w')
      | (Inr rec, w') \<Rightarrow> (Inr (pd_Version (pr_Data rec)), w'))"

definition PublishSelf ::
  "('m, 'd, 'b, 'l) denv \<Rightarrow> ('m, 'd, 'b, 'l) world PublicDring \<Rightarrow> ('m, 'd, 'b, 'l) world \<Rightarrow>
   unit res \<times> ('m, 'd, 'b, 'l) world PublicDring \<times> ('m, 'd, 'b, 'l) world" where
  "PublishSelf E p w =
     (let v = pub_version p + 1; p1 = p\<lparr>pub_version := v\<rparr> in
      case publishSelfVersion E p1 v w of
        (Inr _, w1) \<Rightarrow> (Inr (), p1, w1)
      | (Inl e, w1) \<Rightarrow>
          if \<not> isVersionConflict (Some e) then (Inl e, p1, w1)
          else
            (case fetchStoredPeerVersion E p1 w1 of
               (Inl fe, w2) \<Rightarrow> (Inl (Wrap ''version conflict and failed to fetch stored version'' fe), p1, w2)
             | (Inr storedVersion, w2) \<Rightarrow>
                 (let newV = storedVersion + 1; p2 = p1\<lparr>pub_version := newV\<rparr>; (r, w3) = publishSelfVersion E p2 newV w2
                  in (r, p2, w3))))"

definition PublishGroup ::
  "('m, 'd, 'b, 'l) denv \<Rightarrow> NodeID \<Rightarrow> GroupIdentity \<Rightarrow> 64 word \<Rightarrow> GroupMember list \<Rightarrow> ('m, 'd, 'b, 'l) world \<Rightarrow>
   unit res \<times> ('m, 'd, 'b, 'l) world" where
  "PublishGroup E me grp version peers w =
     (case NewGroupIdentityRecord (rx E) grp version peers of
        Inl e \<Rightarrow> (Inl (Wrap ''build group record'' e), w)
      | Inr rec \<Rightarrow>
          (case group_Encode (rx E) rec of
             Inl e \<Rightarrow> (Inl (Wrap ''encode group record'' e), w)
           | Inr data \<Rightarrow> RecordPut E me (g_GroupID grp) data w))"

text \<open>The lookups by hexadecimal identifier; \<open>json\<close> is the outcome of \<open>json.Marshal\<close> on the record.\<close>

definition LookupPeerJSON ::
  "('m, 'd, 'b, 'l) denv \<Rightarrow> (PeerIdentityRecord \<Rightarrow> bytes res) \<Rightarrow> NodeID \<Rightarrow> string \<Rightarrow> ('m, 'd, 'b, 'l) world \<Rightarrow> bytes res \<times> ('m, 'd, 'b, 'l) world" where
  "LookupPeerJSON E json me peerIDHex w =
     (case hex_DecodeString peerIDHex of
        None \<Rightarrow> (Inl (Errorf ''invalid peer ID hex''), w)
      | Some b \<Rightarrow>
          if length b \<noteq> 20 then (Inl (Errorf ''invalid peer ID hex''), w)
          else
            case LookupPeer E me (copy20 b) w of
              (Inl e, w') \<Rightarrow> (Inl e, w')
            | (Inr rec, w') \<Rightarrow> (json rec, w'))"

definition LookupGroupJSON ::
  "('m, 'd, 'b, 'l) denv \<Rightarrow> (GroupIdentityRecord \<Rightarrow> bytes res) \<Rightarrow> NodeID \<Rightarrow> string \<Rightarrow> ('m, 'd, 'b, 'l) world \<Rightarrow> bytes res \<times> ('m, 'd, 'b, 'l) world" where
  "LookupGroupJSON E json me groupIDHex w =
     (case hex_DecodeString groupIDHex of
        None \<Rightarrow> (Inl (Errorf ''invalid group ID hex''), w)
      | Some b \<Rightarrow>
          if length b \<noteq> 20 then (Inl (Errorf ''invalid group ID hex''), w)
          else
            case LookupGroup E me (copy20 b) w of
              (Inl e, w') \<Rightarrow> (Inl e, w')
            | (Inr rec, w') \<Rightarrow> (json rec, w'))"

section \<open>Providers\<close>

definition publishProvider ::
  "('m, 'd, 'b, 'l) denv \<Rightarrow> cid \<Rightarrow> ('m, 'd, 'b, 'l) world PublicDring \<Rightarrow> ('m, 'd, 'b, 'l) world \<Rightarrow>
   unit res \<times> ('m, 'd, 'b, 'l) world PublicDring \<times> ('m, 'd, 'b, 'l) world" where
  "publishProvider E c p w =
     (let key = CIDToNodeID (rx E) c in
      case provider_Encode (rx E) \<lparr>ContentHash = key, Provider = i_ID (pub_identity p)\<rparr> of
        Inl e \<Rightarrow> (Inl (Wrap ''encode provider record'' e), p, w)
      | Inr data \<Rightarrow>
          (case RecordPut E (pub_node p) key data w of
             (Inl e, w') \<Rightarrow> (Inl e, p, w')
           | (Inr _, w') \<Rightarrow> (Inr (), p\<lparr>announcedCIDs := List.insert c (announcedCIDs p)\<rparr>, w')))"

definition AnnounceProvider ::
  "('m, 'd, 'b, 'l) denv \<Rightarrow> cid \<Rightarrow> ('m, 'd, 'b, 'l) world PublicDring \<Rightarrow> ('m, 'd, 'b, 'l) world \<Rightarrow>
   unit res \<times> ('m, 'd, 'b, 'l) world PublicDring \<times> ('m, 'd, 'b, 'l) world" where
  "AnnounceProvider E c p w = publishProvider E c p w"

definition PublishProvider ::
  "('m, 'd, 'b, 'l) denv \<Rightarrow> string \<Rightarrow> ('m, 'd, 'b, 'l) world PublicDring \<Rightarrow> ('m, 'd, 'b, 'l) world \<Rightarrow>
   unit res \<times> ('m, 'd, 'b, 'l) world PublicDring \<times> ('m, 'd, 'b, 'l) world" where
  "PublishProvider E cidStr p w =
     (case cid_Parse (netE E) cidStr of
        Inl e \<Rightarrow> (Inl (Wrap ''invalid CID'' e), p, w)
      | Inr c \<Rightarrow> publishProvider E c p w)"

definition FindProviders ::
  "('m, 'd, 'b, 'l) denv \<Rightarrow> NodeID \<Rightarrow> cid \<Rightarrow> ('m, 'd, 'b, 'l) world \<Rightarrow> ProviderRecord list res \<times> ('m, 'd, 'b, 'l) world" where
  "FindProviders E me c w =
     (case RecordGet E me (CIDToNodeID (rx E) c) w of
        (Inl _, w') \<Rightarrow> (Inl (Errorf ''no providers''), w')
      | (Inr data, w') \<Rightarrow>
          (case DecodeProviderRecords (rx E) data of
             Inl e \<Rightarrow> (Inl (Wrap ''decode providers'' e), w')
           | Inr rs \<Rightarrow> (if rs = [] then Inl (Errorf ''no providers'') else Inr rs, w')))"

definition FindProvidersJSON ::
  "('m, 'd, 'b, 'l) denv \<Rightarrow> (ProviderRecord list \<Rightarrow> bytes res) \<Rightarrow> NodeID \<Rightarrow> string \<Rightarrow> ('m, 'd, 'b, 'l) world \<Rightarrow> bytes res \<times> ('m, 'd, 'b, 'l) world" where
  "FindProvidersJSON E json me cidStr w =
     (case cid_Parse (netE E) cidStr of
        Inl e \<Rightarrow> (Inl (Wrap ''invalid CID'' e), w)
      | Inr c \<Rightarrow>
          (case FindProviders E me c w of
             (Inl e, w') \<Rightarrow> (Inl e, w')
           | (Inr rs, w') \<Rightarrow> (json rs, w')))"

text \<open>
  The loop over the providers: the first one that delivers the whole DAG ends it. \<open>sched\<close> gives the
  schedule of the pipeline for a provider; the result is \<open>None\<close> when a schedule is not complete.
\<close>

fun provider_loop ::
  "('m, 'd, 'b, 'l) denv \<Rightarrow> (NodeID \<Rightarrow> choice list) \<Rightarrow> NodeID \<Rightarrow> cid \<Rightarrow> ProviderRecord list \<Rightarrow> err option \<Rightarrow> ('m, 'd, 'b, 'l) world \<Rightarrow>
   (unit res \<times> ('m, 'd, 'b, 'l) world) option" where
  "provider_loop E sched me root [] lastErr w =
     Some (Inl (case lastErr of Some e \<Rightarrow> e | None \<Rightarrow> Errorf ''no reachable providers''), w)"
| "provider_loop E sched me root (pr # prs) lastErr w =
     (case LookupPeer E me (Provider pr) w of
        (Inl e, w1) \<Rightarrow> provider_loop E sched me root prs (Some (Wrap ''lookup provider'' e)) w1
      | (Inr peerRec, w1) \<Rightarrow>
          (case FetchDAGFromPeer E (sched (Provider pr)) me root \<lparr>ID = Provider pr, Addr = Address (pr_Data peerRec)\<rparr> w1 of
             None \<Rightarrow> None
           | Some (Inl e, w2) \<Rightarrow> provider_loop E sched me root prs (Some (Wrap ''fetch from'' e)) w2
           | Some (Inr _, w2) \<Rightarrow> Some (Inr (), w2)))"

definition FetchDAGFromProviders ::
  "('m, 'd, 'b, 'l) denv \<Rightarrow> (NodeID \<Rightarrow> choice list) \<Rightarrow> NodeID \<Rightarrow> cid \<Rightarrow> ('m, 'd, 'b, 'l) world \<Rightarrow> (unit res \<times> ('m, 'd, 'b, 'l) world) option" where
  "FetchDAGFromProviders E sched me root w =
     (case FindProviders E me root w of
        (Inl e, w') \<Rightarrow> Some (Inl (Wrap ''find providers'' e), w')
      | (Inr prs, w') \<Rightarrow> provider_loop E sched me root prs None w')"

definition FetchDAGFromProvidersStr ::
  "('m, 'd, 'b, 'l) denv \<Rightarrow> (NodeID \<Rightarrow> choice list) \<Rightarrow> NodeID \<Rightarrow> string \<Rightarrow> ('m, 'd, 'b, 'l) world \<Rightarrow> (unit res \<times> ('m, 'd, 'b, 'l) world) option" where
  "FetchDAGFromProvidersStr E sched me cidStr w =
     (case cid_Parse (netE E) cidStr of
        Inl e \<Rightarrow> Some (Inl (Wrap ''invalid CID'' e), w)
      | Inr c \<Rightarrow> FetchDAGFromProviders E sched me c w)"

section \<open>Republishing\<close>

definition republish_peer ::
  "('m, 'd, 'b, 'l) denv \<Rightarrow> ('m, 'd, 'b, 'l) world PublicDring \<Rightarrow> ('m, 'd, 'b, 'l) world \<times> files \<Rightarrow>
   ('m, 'd, 'b, 'l) world PublicDring \<times> ('m, 'd, 'b, 'l) world \<times> files" where
  "republish_peer E p s =
     (let (_, p1, w1) = PublishSelf E p (fst s)
      in (p1, foldl (\<lambda>s fn. snd (fn s)) (w1, snd s) (groupRepublishers p1)))"

definition republish_providers ::
  "('m, 'd, 'b, 'l) denv \<Rightarrow> ('m, 'd, 'b, 'l) world PublicDring \<Rightarrow> ('m, 'd, 'b, 'l) world \<Rightarrow>
   ('m, 'd, 'b, 'l) world PublicDring \<times> ('m, 'd, 'b, 'l) world" where
  "republish_providers E p w =
     foldl (\<lambda>(p, w) c. let (_, p', w') = publishProvider E c p w in (p', w')) (p, w) (announcedCIDs p)"

end
