(* ===== verification/Auth_Handshake.thy ===== *)
theory Auth_Handshake
  imports Wire_Records
begin

text \<open>
  The handshake of private rings (\<open>dht/auth.go\<close>). Both ends hold the pre-shared key of the group.
  The server sends a nonce; the client answers with its identity, a MAC over that nonce and the
  two identities, and a nonce of its own; the server answers with a MAC over the client's nonce.

  A run of one end is a function of what it reads: \<open>rnd\<close> is the outcome of the random source, \<open>rd\<close>
  the outcome of a read given what has been sent so far, \<open>wr\<close> the outcome of a write. The result
  comes with the messages that were sent. HMAC is the field \<open>hmac_sha256\<close> of the environment.
\<close>

section \<open>The two ends\<close>

abbreviation authNonceSize :: nat where "authNonceSize \<equiv> 16"
abbreviation authHMACSize :: nat where "authHMACSize \<equiv> 32"

definition computeAuthHMAC :: "ext \<Rightarrow> bytes \<Rightarrow> bytes \<Rightarrow> NodeID \<Rightarrow> NodeID \<Rightarrow> bytes" where
  "computeAuthHMAC X psk nonce idA idB = hmac_sha256 X psk (nonce @ id_bytes idA @ id_bytes idB)"

definition client_msg :: "ext \<Rightarrow> bytes \<Rightarrow> NodeID \<Rightarrow> NodeID \<Rightarrow> bytes \<Rightarrow> bytes \<Rightarrow> bytes" where
  "client_msg X psk selfID peerID nb na = id_bytes selfID @ computeAuthHMAC X psk nb selfID peerID @ na"

definition PerformClientAuth ::
  "ext \<Rightarrow> bytes \<Rightarrow> NodeID \<Rightarrow> NodeID \<Rightarrow> bytes res \<Rightarrow> (bytes \<Rightarrow> unit res) \<Rightarrow> (bytes list \<Rightarrow> bytes res) \<Rightarrow> bytes list \<times> unit res" where
  "PerformClientAuth X psk selfID peerID rnd wr rd =
     (case rd [] of
        Inl e \<Rightarrow> ([], Inl (Wrap ''auth client: read server nonce'' e))
      | Inr nb \<Rightarrow>
          (case rnd of
             Inl e \<Rightarrow> ([], Inl (Wrap ''auth client: generate nonce'' e))
           | Inr na \<Rightarrow>
               (let msg = client_msg X psk selfID peerID nb na in
                case wr msg of
                  Inl e \<Rightarrow> ([], Inl (Wrap ''auth client: send auth message'' e))
                | Inr _ \<Rightarrow>
                    (case rd [msg] of
                       Inl e \<Rightarrow> ([msg], Inl (Wrap ''auth client: read server HMAC'' e))
                     | Inr hmacB \<Rightarrow>
                         if hmacB \<noteq> computeAuthHMAC X psk na peerID selfID
                         then ([msg], Inl (Errorf ''auth client: server HMAC verification failed''))
                         else ([msg], Inr ())))))"

text \<open>The fields of the client message.\<close>

definition msg_id :: "bytes \<Rightarrow> NodeID" where "msg_id m = mk_id (take 20 m)"
definition msg_mac :: "bytes \<Rightarrow> bytes" where "msg_mac m = take authHMACSize (drop 20 m)"
definition msg_nonce :: "bytes \<Rightarrow> bytes" where "msg_nonce m = drop (20 + authHMACSize) m"

definition PerformServerAuth ::
  "ext \<Rightarrow> bytes \<Rightarrow> NodeID \<Rightarrow> bytes res \<Rightarrow> (bytes \<Rightarrow> unit res) \<Rightarrow> (bytes list \<Rightarrow> bytes res) \<Rightarrow> bytes list \<times> NodeID res" where
  "PerformServerAuth X psk selfID rnd wr rd =
     (case rnd of
        Inl e \<Rightarrow> ([], Inl (Wrap ''auth server: generate nonce'' e))
      | Inr nb \<Rightarrow>
          (case wr nb of
             Inl e \<Rightarrow> ([], Inl (Wrap ''auth server: send nonce'' e))
           | Inr _ \<Rightarrow>
               (case rd [nb] of
                  Inl e \<Rightarrow> ([nb], Inl (Wrap ''auth server: read client message'' e))
                | Inr clientMsg \<Rightarrow>
                    (let idA = msg_id clientMsg in
                     if msg_mac clientMsg \<noteq> computeAuthHMAC X psk nb idA selfID
                     then ([nb], Inl (Errorf ''auth server: client HMAC verification failed''))
                     else
                       let hmacB = computeAuthHMAC X psk (msg_nonce clientMsg) selfID idA in
                       case wr hmacB of
                         Inl e \<Rightarrow> ([nb], Inl (Wrap ''auth server: send HMAC'' e))
                       | Inr _ \<Rightarrow> ([nb, hmacB], Inr idA)))))"

text \<open>What is documented of HMAC-SHA256: its size.\<close>

definition hmac_ok :: "ext \<Rightarrow> bool" where
  "hmac_ok X \<longleftrightarrow> (\<forall>k m. length (hmac_sha256 X k m) = authHMACSize)"

lemma mac_length [simp]: "hmac_ok X \<Longrightarrow> length (computeAuthHMAC X psk n a b) = authHMACSize"
  by (simp add: hmac_ok_def computeAuthHMAC_def)

lemma id_bytes_length: "length (id_bytes i) = 20"
  using id_bytes [of i] by simp

lemma msg_fields:
  assumes "length m = authHMACSize"
  shows "msg_id (id_bytes a @ m @ n) = a" "msg_mac (id_bytes a @ m @ n) = m" "msg_nonce (id_bytes a @ m @ n) = n"
  using assms by (simp_all add: msg_id_def msg_mac_def msg_nonce_def id_bytes_length id_bytes_inverse)

text \<open>When the writes succeed, a server accepts exactly a message with the MAC of its nonce.\<close>

lemma server_accepts_iff:
  "PerformServerAuth X psk s (Inr nb) (\<lambda>_. Inr ()) (\<lambda>_. Inr m) = (sent, Inr a) \<longleftrightarrow>
     a = msg_id m \<and> msg_mac m = computeAuthHMAC X psk nb a s \<and> sent = [nb, computeAuthHMAC X psk (msg_nonce m) s a]"
  by (auto simp: PerformServerAuth_def Let_def)


section \<open>Runs of many members over an untrusted network\<close>

text \<open>
  The steps of the members that hold the key: a server issues a challenge, a client answers one,
  a server accepts, a client accepts. The network may deliver any bytes to any of them, so the
  message a step reads is arbitrary, and the MACs in it may be replayed from any run. The one
  thing it cannot do is to compute a MAC without the key: when the bytes it delivers in place of a
  MAC are the MAC of the receiver's nonce and the two identities, a member has computed that
  MAC. Whether a message is accepted, these bytes or others, is for \<open>PerformServerAuth\<close> and
  \<open>PerformClientAuth\<close> to decide. Nonces are fresh.
\<close>

datatype auth_event =
    Challenge NodeID bytes
  | Request NodeID NodeID bytes bytes
  | Accept NodeID NodeID bytes bytes
  | Confirm NodeID NodeID bytes

fun mac_of :: "auth_event \<Rightarrow> (bytes \<times> NodeID \<times> NodeID) set" where
  "mac_of (Request a s nb na) = {(nb, a, s)}"
| "mac_of (Accept s a nb na) = {(na, s, a)}"
| "mac_of _ = {}"

fun nonce_of :: "auth_event \<Rightarrow> bytes set" where
  "nonce_of (Challenge s nb) = {nb}"
| "nonce_of (Request a s nb na) = {na}"
| "nonce_of _ = {}"

definition macs :: "auth_event list \<Rightarrow> (bytes \<times> NodeID \<times> NodeID) set" where
  "macs tr = (\<Union>e \<in> set tr. mac_of e)"

definition nonces :: "auth_event list \<Rightarrow> bytes set" where
  "nonces tr = (\<Union>e \<in> set tr. nonce_of e)"

inductive handshakes :: "ext \<Rightarrow> bytes \<Rightarrow> auth_event list \<Rightarrow> bool" for X psk where
  start: "handshakes X psk []"
| challenge: "handshakes X psk tr \<Longrightarrow> length nb = authNonceSize \<Longrightarrow> nb \<notin> nonces tr \<Longrightarrow>
    handshakes X psk (Challenge s nb # tr)"
| request: "handshakes X psk tr \<Longrightarrow> length nb = authNonceSize \<Longrightarrow> length na = authNonceSize \<Longrightarrow> na \<notin> nonces tr \<Longrightarrow>
    handshakes X psk (Request a s nb na # tr)"
| accept: "handshakes X psk tr \<Longrightarrow> Challenge s nb \<in> set tr \<Longrightarrow>
    PerformServerAuth X psk s (Inr nb) (\<lambda>_. Inr ()) (\<lambda>_. Inr m) = (sent, Inr a) \<Longrightarrow>
    (msg_mac m = computeAuthHMAC X psk nb (msg_id m) s \<longrightarrow> (nb, msg_id m, s) \<in> macs tr) \<Longrightarrow>
    handshakes X psk (Accept s a nb (msg_nonce m) # tr)"
| confirm: "handshakes X psk tr \<Longrightarrow> Request a s nb na \<in> set tr \<Longrightarrow>
    PerformClientAuth X psk a s (Inr na) (\<lambda>_. Inr ()) (\<lambda>sent. if sent = [] then Inr nb else Inr h) = (sent, Inr ()) \<Longrightarrow>
    (h = computeAuthHMAC X psk na s a \<longrightarrow> (na, s, a) \<in> macs tr) \<Longrightarrow>
    handshakes X psk (Confirm a s na # tr)"

lemma macs_simps [simp]: "macs [] = {}" "macs (e # tr) = mac_of e \<union> macs tr"
  by (auto simp: macs_def)

lemma nonces_simps [simp]: "nonces [] = {}" "nonces (e # tr) = nonce_of e \<union> nonces tr"
  by (auto simp: nonces_def)






section \<open>What the handshake gives, and what it does not\<close>


text \<open>
  C38. The roles of the handshake can be confused. A member \<open>s\<close> dials \<open>a\<close>. Somebody on the path, without
  the key, has a challenge \<open>nb\<close> from the server of \<open>s\<close> and puts it in place of the nonce in the message
  of \<open>s\<close>, which no MAC covers. The server of \<open>a\<close> accepts and answers with the MAC of \<open>nb\<close> for \<open>a\<close> and \<open>s\<close>:
  exactly what the server of \<open>s\<close> wants from a client \<open>a\<close>. It then accepts the intruder's connection as \<open>a\<close>,
  although \<open>a\<close> never dialled \<open>s\<close>.
\<close>

theorem auth_role_confusion:
  fixes a s :: NodeID and psk :: bytes
  assumes X: "hmac_ok X" and n: "length nb = authNonceSize" "length nb2 = authNonceSize" "length na = authNonceSize"
    and d: "distinct [nb, nb2, na]"
  defines "seen \<equiv> client_msg X psk s a nb2 na"
  defines "answer \<equiv> PerformServerAuth X psk a (Inr nb2) (\<lambda>_. Inr ()) (\<lambda>_. Inr (take 52 seen @ nb))"
  defines "forged \<equiv> id_bytes a @ fst answer ! 1 @ nb"
  shows "snd answer = Inr s
    \<and> snd (PerformServerAuth X psk s (Inr nb) (\<lambda>_. Inr ()) (\<lambda>_. Inr forged)) = Inr a
    \<and> handshakes X psk [Accept s a nb nb, Accept a s nb2 nb, Request s a nb2 na, Challenge a nb2, Challenge s nb]"
proof -
  note f = msg_fields [OF mac_length [OF X]]
  have t: "take 52 seen @ nb = id_bytes s @ computeAuthHMAC X psk nb2 s a @ nb"
    using X by (simp add: seen_def client_msg_def id_bytes_length)
  have a: "answer = ([nb2, computeAuthHMAC X psk nb a s], Inr s)"
    unfolding answer_def t by (simp add: server_accepts_iff f)
  then have g: "forged = id_bytes a @ computeAuthHMAC X psk nb a s @ nb" by (simp add: forged_def)
  have b: "PerformServerAuth X psk s (Inr nb) (\<lambda>_. Inr ()) (\<lambda>_. Inr forged) = ([nb, computeAuthHMAC X psk nb s a], Inr a)"
    unfolding g by (simp add: server_accepts_iff f)
  have 1: "handshakes X psk [Request s a nb2 na, Challenge a nb2, Challenge s nb]"
    using n d by (intro handshakes.intros) auto
  have 2: "handshakes X psk [Accept a s nb2 nb, Request s a nb2 na, Challenge a nb2, Challenge s nb]"
    using handshakes.accept [OF 1, of a nb2 "take 52 seen @ nb" _ s] a by (simp add: answer_def t f)
  have "handshakes X psk [Accept s a nb nb, Accept a s nb2 nb, Request s a nb2 na, Challenge a nb2, Challenge s nb]"
    using handshakes.accept [OF 2, of s nb forged _ a] b by (simp add: g f)
  with a b show ?thesis by simp
qed

lemma hmac_ok_demo: "hmac_ok (demo_ext ts tp tr td tg)"
  by (auto simp: hmac_ok_def demo_ext_def min_def)

definition nonce :: "8 word \<Rightarrow> bytes" where "nonce k = replicate authNonceSize k"

lemma nonce_facts: "length (nonce k) = authNonceSize" "nonce j = nonce k \<longleftrightarrow> j = k"
  by (simp_all add: nonce_def)

definition auth_ext :: ext where "auth_ext = demo_ext [] [] [] [] []"

lemma auth_ext_ok: "hmac_ok auth_ext"
  unfolding auth_ext_def by (rule hmac_ok_demo)

theorem auth_role_confusion_witness:
  "handshakes auth_ext [7] [Accept (testNodeID 2) (testNodeID 1) (nonce 5) (nonce 5),
     Accept (testNodeID 1) (testNodeID 2) (nonce 6) (nonce 5), Request (testNodeID 2) (testNodeID 1) (nonce 6) (nonce 8),
     Challenge (testNodeID 1) (nonce 6), Challenge (testNodeID 2) (nonce 5)]"
proof -
  have "distinct [nonce 5, nonce 6, nonce 8]" by (simp add: nonce_facts)
  from auth_role_confusion [OF auth_ext_ok nonce_facts(1) nonce_facts(1) nonce_facts(1) this, of "[7]" "testNodeID 1" "testNodeID 2"]
  show ?thesis by blast
qed




end
