(* ===== verification/Private_Ring.thy ===== *)
theory Private_Ring
  imports Public_Ring Rpc_Transport Auth_Handshake
begin

text \<open>
  A private ring (\<open>dht/private.go\<close>): its server and its transport, which run the handshake on every
  new connection, joining through the group record of the public ring, and the maintenance of that
  record. The stubs of \<open>privateRPCTransport\<close> have the bodies of those of \<open>RPCTransport\<close>: they are the
  definitions \<open>rt_*\<close> over the link \<open>priv_link\<close>, without the four record calls, which a private ring does
  not have. Its world is that of \<open>Node_Data\<close>, whose record transfers move nothing between nodes that
  hold no records.
\<close>

section \<open>Transport and server\<close>

record privateRPCTransport =
  tr_pool :: "(NodeID \<times> conn) list"
  tr_poolAddrs :: "(NodeID \<times> string) list"
  tr_verified :: "NodeID list"

text \<open>What the server does with a connection: the identity it hands to the handlers, if the handshake succeeds.\<close>

definition serve_conn ::
  "ext \<Rightarrow> bytes \<Rightarrow> NodeID \<Rightarrow> bytes res \<Rightarrow> (bytes \<Rightarrow> unit res) \<Rightarrow> (bytes list \<Rightarrow> bytes res) \<Rightarrow> NodeID list \<Rightarrow>
   bytes list \<times> NodeID option \<times> NodeID list" where
  "serve_conn X psk selfID rnd wr rd verified =
     (case PerformServerAuth X psk selfID rnd wr rd of
        (out, Inl _) \<Rightarrow> (out, None, verified)
      | (out, Inr clientID) \<Rightarrow> (out, Some clientID, List.insert clientID verified))"

definition startPrivateRPCServer :: "'a mlib \<Rightarrow> (string \<Rightarrow> string \<Rightarrow> string res) \<Rightarrow> string \<Rightarrow> string \<Rightarrow> string res" where
  "startPrivateRPCServer M listen listenAddr advertiseAddr =
     (case MultiaddrToTCPAddr M listenAddr of
        Inl e \<Rightarrow> Inl (Wrap ''parse addr'' e)
      | Inr tcpAddr \<Rightarrow>
          (case listen (if str_contains listenAddr ''/ip4/'' then ''tcp4'' else ''tcp'') tcpAddr of
             Inl e \<Rightarrow> Inl (Wrap ''listen'' e)
           | Inr bound \<Rightarrow>
               Inr (case effectiveMultiaddr bound advertiseAddr of Inr boundMA \<Rightarrow> boundMA | Inl _ \<Rightarrow> bound)))"

text \<open>
  The environment of the connections of a node: its key, the keys of the servers, and the nonces
  both ends draw on a connection from one node to another.
\<close>

record 'a priv_env =
  p_lib :: "'a mlib"
  p_ext :: ext
  p_psk :: bytes
  server_psk :: "NodeID \<Rightarrow> bytes"
  server_nonce :: "NodeID \<Rightarrow> bytes"
  client_nonce :: "NodeID \<Rightarrow> bytes"

text \<open>
  The handshake with the server of node \<open>i\<close> on a connection that delivers: the server reads what the
  client sent and the client reads what the server answered, or the end of a connection the server
  has closed. The result is the identity the handlers of the server see.
\<close>

definition priv_auth :: "'a priv_env \<Rightarrow> NodeID \<Rightarrow> NodeID \<Rightarrow> NodeID \<Rightarrow> NodeID option res" where
  "priv_auth V selfID target i =
     (let srv = (\<lambda>msg. serve_conn (p_ext V) (server_psk V i) i (Inr (server_nonce V i)) (\<lambda>_. Inr ()) (\<lambda>_. Inr msg) []);
          (sent, r) = PerformClientAuth (p_ext V) (p_psk V) selfID target (Inr (client_nonce V i)) (\<lambda>_. Inr ())
            (\<lambda>sent. case sent of
                       [] \<Rightarrow> Inr (server_nonce V i)
                     | msg # _ \<Rightarrow>
                         (case srv msg of
                            (out, None, _) \<Rightarrow> Inl (Errorf ''EOF'')
                          | (out, Some _, _) \<Rightarrow> Inr (out ! 1)))
      in case r of Inl e \<Rightarrow> Inl e | Inr _ \<Rightarrow> Inr (fst (snd (srv (hd sent)))))"

definition priv_getClient ::
  "'a priv_env \<Rightarrow> NodeID \<Rightarrow> NodeAddr \<Rightarrow> ('m, 'd, 'b, 'l) world \<Rightarrow> privateRPCTransport \<Rightarrow> conn res \<times> privateRPCTransport" where
  "priv_getClient V selfID target w t =
     (case map_of (tr_pool t) (ID target) of
        Some c \<Rightarrow> (Inr c, t)
      | None \<Rightarrow>
          (case MultiaddrToTCPAddr (p_lib V) (Addr target) of
             Inl e \<Rightarrow> (Inl (Wrap ''parse peer addr'' e), t)
           | Inr tcpAddr \<Rightarrow>
               (case dial (p_lib V) selfID tcpAddr w of
                  Inl e \<Rightarrow> (Inl (Wrap ''dial'' e), t)
                | Inr i \<Rightarrow>
                    (case priv_auth V selfID (ID target) i of
                       Inl e \<Rightarrow> (Inl (Wrap ''auth with'' e), t)
                     | Inr clientID \<Rightarrow>
                         (let c = Open i clientID
                          in (Inr c, t\<lparr>tr_verified := List.insert (ID target) (tr_verified t),
                                       tr_pool := aupd (ID target) c (tr_pool t),
                                       tr_poolAddrs := aupd (ID target) (Addr target) (tr_poolAddrs t)\<rparr>))))))"

definition priv_delClient :: "NodeAddr \<Rightarrow> privateRPCTransport \<Rightarrow> privateRPCTransport" where
  "priv_delClient target t =
     t\<lparr>tr_pool := adel (ID target) (tr_pool t), tr_poolAddrs := adel (ID target) (tr_poolAddrs t)\<rparr>"

definition priv_link :: "'a priv_env \<Rightarrow> NodeID \<Rightarrow> ('m, 'd, 'b, 'l, privateRPCTransport) link" where
  "priv_link V selfID = \<lparr>self_id = selfID, get_client = priv_getClient V selfID, del_client = priv_delClient\<rparr>"

definition PoolState :: "privateRPCTransport \<Rightarrow> string \<rightharpoonup> string" where
  "PoolState t =
     map_of (map (\<lambda>(i, _). (id_String i,
       case map_of (tr_poolAddrs t) i of Some a \<Rightarrow> (if a = [] then ''<unknown>'' else a) | None \<Rightarrow> ''<unknown>'')) (tr_pool t))"

definition priv_Close :: "privateRPCTransport \<Rightarrow> privateRPCTransport" where
  "priv_Close t =
     t\<lparr>tr_pool := foldl (\<lambda>p x. adel (fst x) p) (tr_pool t) (tr_pool t),
       tr_poolAddrs := foldl (\<lambda>p x. adel (fst x) p) (tr_poolAddrs t) (tr_pool t)\<rparr>"

section \<open>The ring of a group\<close>

record PrivateDring =
  grp :: GroupIdentity
  pv_peerID :: NodeID
  serving_rpc :: bool
  pv_multiaddr :: string
  pv_tr :: privateRPCTransport
  groupRecordCachePath :: string

definition NewPrivateDring ::
  "GroupIdentity \<Rightarrow> Identity \<Rightarrow> 'm \<Rightarrow> Config \<Rightarrow> PrivateDring \<times> ('m, 'd, 'b, 'l) dnode" where
  "NewPrivateDring g peerIdent m cfg =
     (\<lparr>grp = g, pv_peerID = i_ID peerIdent, serving_rpc = False, pv_multiaddr = [],
       pv_tr = \<lparr>tr_pool = [], tr_poolAddrs = [], tr_verified = []\<rparr>, groupRecordCachePath = []\<rparr>,
      SetRingID (id_String (g_GroupID g)) (NewDNode (i_ID peerIdent) [] m cfg))"

definition priv_StartServer ::
  "'a mlib \<Rightarrow> (string \<Rightarrow> string \<Rightarrow> string res) \<Rightarrow> string \<Rightarrow> string \<Rightarrow> PrivateDring \<Rightarrow> ('m, 'd, 'b, 'l) world \<Rightarrow>
   string res \<times> PrivateDring \<times> ('m, 'd, 'b, 'l) world" where
  "priv_StartServer M listen listenAddr advertiseAddr p w =
     (case startPrivateRPCServer M listen listenAddr advertiseAddr of
        Inl e \<Rightarrow> (Inl e, p, w)
      | Inr boundAddr \<Rightarrow>
          (Inr boundAddr, p\<lparr>serving_rpc := True, pv_multiaddr := boundAddr\<rparr>,
           on_node (pv_peerID p) (\<lambda>n. (setAddr boundAddr n, [])) w))"

definition priv_Create :: "PrivateDring \<Rightarrow> ('m, 'd, 'b, 'l) world \<Rightarrow> ('m, 'd, 'b, 'l) world" where
  "priv_Create p = on_node (pv_peerID p) (\<lambda>n. (Create n, []))"

definition SetGroupRecordCachePath :: "string \<Rightarrow> PrivateDring \<Rightarrow> PrivateDring" where
  "SetGroupRecordCachePath path p = p\<lparr>groupRecordCachePath := path\<rparr>"

definition IsVerified :: "NodeID \<Rightarrow> PrivateDring \<Rightarrow> bool" where
  "IsVerified i p \<longleftrightarrow> i \<in> set (tr_verified (pv_tr p))"

definition VerifiedPeers :: "PrivateDring \<Rightarrow> NodeID list" where
  "VerifiedPeers p = tr_verified (pv_tr p)"

text \<open>
  The loop of \<open>JoinViaPublicDring\<close> over the members of the group record: the addresses that were
  tried so far, and whether a join ended. \<open>E\<close> and \<open>w\<close> are the public ring, \<open>F\<close> and \<open>v\<close> the private one.
\<close>

fun join_members ::
  "('m, 'd, 'b, 'l) denv \<Rightarrow> ('n, 'e, 'c, 'k) denv \<Rightarrow> NodeID \<Rightarrow> PrivateDring \<Rightarrow> GroupMember list \<Rightarrow> NodeAddr list \<Rightarrow>
   ('m, 'd, 'b, 'l) world \<Rightarrow> ('n, 'e, 'c, 'k) world \<Rightarrow> bool \<times> NodeAddr list \<times> ('m, 'd, 'b, 'l) world \<times> ('n, 'e, 'c, 'k) world" where
  "join_members E F pub p [] knownPeers w v = (False, knownPeers, w, v)"
| "join_members E F pub p (m # ms) knownPeers w v =
     (if gm_ID m = pv_peerID p then join_members E F pub p ms knownPeers w v
      else
        case LookupPeer E pub (gm_ID m) w of
          (Inl _, w1) \<Rightarrow> join_members E F pub p ms knownPeers w1 v
        | (Inr peerRec, w1) \<Rightarrow>
            (case GroupAddrs (pr_Data peerRec) (id_String (g_GroupID (grp p))) of
               None \<Rightarrow> join_members E F pub p ms knownPeers w1 v
             | Some a \<Rightarrow>
                 if a = [] then join_members E F pub p ms knownPeers w1 v
                 else
                   let bootstrap = \<lparr>ID = gm_ID m, Addr = a\<rparr>; known = knownPeers @ [bootstrap] in
                   case Join F (pv_peerID p) bootstrap v of
                     (Inl _, v1) \<Rightarrow> join_members E F pub p ms known w1 v1
                   | (Inr _, v1) \<Rightarrow>
                       if map_option (\<lambda>n. ID (successor n)) (w_node v1 (pv_peerID p)) = Some (pv_peerID p)
                       then join_members E F pub p ms known w1 v1
                       else (True, known, w1, v1)))"

definition JoinViaPublicDring ::
  "('m, 'd, 'b, 'l) denv \<Rightarrow> ('n, 'e, 'c, 'k) denv \<Rightarrow> NodeID \<Rightarrow> PrivateDring \<Rightarrow>
   ('m, 'd, 'b, 'l) world \<Rightarrow> ('n, 'e, 'c, 'k) world \<Rightarrow> unit res \<times> ('m, 'd, 'b, 'l) world \<times> ('n, 'e, 'c, 'k) world" where
  "JoinViaPublicDring E F pub p w v =
     (case LookupGroup E pub (g_GroupID (grp p)) w of
        (Inl e, w1) \<Rightarrow> (Inl (Wrap ''lookup group on public dring'' e), w1, v)
      | (Inr rec, w1) \<Rightarrow>
          if Peers (gr_Data rec) = [] then (Inl (Errorf ''group has no peers in public record''), w1, v)
          else
            case join_members E F pub p (Peers (gr_Data rec)) [] w1 v of
              (True, _, w2, v2) \<Rightarrow> (Inr (), w2, v2)
            | (False, knownPeers, w2, v2) \<Rightarrow>
                (Inr (), w2,
                 on_node (pv_peerID p) (\<lambda>n. (n\<lparr>successorList := successorList n @ knownPeers\<rparr>, [])) (priv_Create p v2)))"

section \<open>The group record\<close>

abbreviation maxGroupRecordRetries :: nat where "maxGroupRecordRetries \<equiv> 5"

text \<open>\<open>wr\<close> is the error of \<open>os.WriteFile\<close> on a path, if any.\<close>

definition cacheGroupRecord ::
  "ext \<Rightarrow> (string \<Rightarrow> err option) \<Rightarrow> PrivateDring \<Rightarrow> GroupIdentityRecord \<Rightarrow> files \<Rightarrow> unit res \<times> files" where
  "cacheGroupRecord X wr p rec fs =
     (let path = groupRecordCachePath p in
      if path = [] then (Inr (), fs)
      else
        case group_Encode X rec of
          Inl e \<Rightarrow> (Inl (Wrap ''encode group record for cache'' e), fs)
        | Inr data \<Rightarrow>
            (case wr path of
               Some e \<Rightarrow> (Inl (Wrap ''write group record cache'' e), fs)
             | None \<Rightarrow> (Inr (), fs(path \<mapsto> data))))"

definition loadCachedGroupRecord :: "ext \<Rightarrow> PrivateDring \<Rightarrow> files \<Rightarrow> GroupIdentityRecord res" where
  "loadCachedGroupRecord X p fs =
     (if groupRecordCachePath p = [] then Inl (Errorf ''no cache path configured'')
      else
        case fs (groupRecordCachePath p) of
          None \<Rightarrow> Inl (Errorf ''read group record cache'')
        | Some data \<Rightarrow>
            (case DecodeGroupIdentityRecord X data of
               Inl e \<Rightarrow> Inl (Wrap ''decode cached group record'' e)
             | Inr rec \<Rightarrow> Inr rec))"

definition current_group ::
  "('m, 'd, 'b, 'l) denv \<Rightarrow> NodeID \<Rightarrow> PrivateDring \<Rightarrow> files \<Rightarrow> ('m, 'd, 'b, 'l) world \<Rightarrow>
   GroupMember list \<times> 64 word \<times> ('m, 'd, 'b, 'l) world" where
  "current_group E pub p fs w =
     (case LookupGroup E pub (g_GroupID (grp p)) w of
        (Inr rec, w1) \<Rightarrow> (Peers (gr_Data rec), gd_Version (gr_Data rec), w1)
      | (Inl _, w1) \<Rightarrow>
          (case loadCachedGroupRecord (rx E) p fs of
             Inr cached \<Rightarrow> (Peers (gr_Data cached), gd_Version (gr_Data cached), w1)
           | Inl _ \<Rightarrow> ([], 0, w1)))"

definition without_member :: "NodeID \<Rightarrow> GroupMember list \<Rightarrow> GroupMember list" where
  "without_member i ms = filter (\<lambda>m. gm_ID m \<noteq> i) ms"

text \<open>
  What the other members of the rings do meanwhile: \<open>pause k\<close> in the wait before attempt \<open>k\<close>, during which
  the context may also end, and \<open>between k\<close> after the lookup of attempt \<open>k\<close> and before its publication.
\<close>

record 'w others =
  pause :: "nat \<Rightarrow> 'w \<Rightarrow> err option \<times> 'w"
  between :: "nat \<Rightarrow> 'w \<Rightarrow> 'w"

definition wait_turn :: "'w others \<Rightarrow> nat \<Rightarrow> 'w \<Rightarrow> err option \<times> 'w" where
  "wait_turn oth k w = (if k = 0 then (None, w) else pause oth k w)"

text \<open>The loops over the attempts; the last argument but the state counts the attempts left.\<close>

fun update_attempts ::
  "('m, 'd, 'b, 'l) denv \<Rightarrow> (string \<Rightarrow> err option) \<Rightarrow> ('m, 'd, 'b, 'l) world others \<Rightarrow> NodeID \<Rightarrow> PrivateDring \<Rightarrow> nat \<Rightarrow>
   ('m, 'd, 'b, 'l) world \<times> files \<Rightarrow> unit res \<times> ('m, 'd, 'b, 'l) world \<times> files" where
  "update_attempts E wr oth pub p 0 s =
     (Inl (Errorf ''update group record: too many concurrent updates, try again''), s)"
| "update_attempts E wr oth pub p (Suc left) (w, fs) =
     (let attempt = maxGroupRecordRetries - Suc left in
      case wait_turn oth attempt w of
        (Some e, w1) \<Rightarrow> (Inl e, w1, fs)
      | (None, w1) \<Rightarrow>
          (let (currentPeers, currentVersion, w2) = current_group E pub p fs w1;
               out = without_member (pv_peerID p) currentPeers @ [\<lparr>gm_ID = pv_peerID p\<rparr>];
               newVersion = currentVersion + 1
           in case PublishGroup E pub (grp p) newVersion out (between oth attempt w2) of
                (Inr _, w3) \<Rightarrow>
                  (Inr (), w3,
                   case NewGroupIdentityRecord (rx E) (grp p) newVersion out of
                     Inl _ \<Rightarrow> fs
                   | Inr cacheRec \<Rightarrow> snd (cacheGroupRecord (rx E) wr p cacheRec fs))
              | (Inl e, w3) \<Rightarrow>
                  if isVersionConflict (Some e) then update_attempts E wr oth pub p left (w3, fs)
                  else (Inl e, w3, fs)))"

definition UpdateGroupRecord ::
  "('m, 'd, 'b, 'l) denv \<Rightarrow> (string \<Rightarrow> err option) \<Rightarrow> ('m, 'd, 'b, 'l) world others \<Rightarrow> NodeID \<Rightarrow> PrivateDring \<Rightarrow>
   ('m, 'd, 'b, 'l) world \<times> files \<Rightarrow> unit res \<times> ('m, 'd, 'b, 'l) world \<times> files" where
  "UpdateGroupRecord E wr oth pub p s = update_attempts E wr oth pub p maxGroupRecordRetries s"

fun remove_attempts ::
  "('m, 'd, 'b, 'l) denv \<Rightarrow> ('m, 'd, 'b, 'l) world others \<Rightarrow> NodeID \<Rightarrow> PrivateDring \<Rightarrow> nat \<Rightarrow>
   ('m, 'd, 'b, 'l) world \<Rightarrow> unit res \<times> ('m, 'd, 'b, 'l) world" where
  "remove_attempts E oth pub p 0 w =
     (Inl (Errorf ''remove from group record: too many concurrent updates, try again''), w)"
| "remove_attempts E oth pub p (Suc left) w =
     (let attempt = maxGroupRecordRetries - Suc left in
      case wait_turn oth attempt w of
        (Some e, w1) \<Rightarrow> (Inl e, w1)
      | (None, w1) \<Rightarrow>
          (case LookupGroup E pub (g_GroupID (grp p)) w1 of
             (Inl e, w2) \<Rightarrow> (Inl (Wrap ''lookup group record'' e), w2)
           | (Inr rec, w2) \<Rightarrow>
               (case PublishGroup E pub (grp p) (gd_Version (gr_Data rec) + 1)
                       (without_member (pv_peerID p) (Peers (gr_Data rec))) (between oth attempt w2) of
                  (Inr _, w3) \<Rightarrow> (Inr (), w3)
                | (Inl e, w3) \<Rightarrow>
                    if isVersionConflict (Some e) then remove_attempts E oth pub p left w3 else (Inl e, w3))))"

definition removeFromGroupRecord ::
  "('m, 'd, 'b, 'l) denv \<Rightarrow> ('m, 'd, 'b, 'l) world others \<Rightarrow> NodeID \<Rightarrow> PrivateDring \<Rightarrow>
   ('m, 'd, 'b, 'l) world \<Rightarrow> unit res \<times> ('m, 'd, 'b, 'l) world" where
  "removeFromGroupRecord E oth pub p w = remove_attempts E oth pub p maxGroupRecordRetries w"

section \<open>Leaving, and the link to the public ring\<close>

text \<open>
  Stopping the server closes the listener; calls on connections that are open are still served, so
  the node stays in the world and only the flag changes.
\<close>

definition priv_Leave ::
  "('n, 'e, 'c, 'k) denv \<Rightarrow> PrivateDring \<Rightarrow> ('n, 'e, 'c, 'k) world \<Rightarrow> PrivateDring \<times> ('n, 'e, 'c, 'k) world" where
  "priv_Leave F p v = (p\<lparr>serving_rpc := False\<rparr>, Leave F (pv_peerID p) v)"

definition priv_Stop ::
  "('n, 'e, 'c, 'k) denv \<Rightarrow> PrivateDring \<Rightarrow> ('n, 'e, 'c, 'k) world \<Rightarrow> PrivateDring \<times> ('n, 'e, 'c, 'k) world" where
  "priv_Stop F p v = (p\<lparr>serving_rpc := False\<rparr>, Stop F (pv_peerID p) v)"

definition LeaveGroup ::
  "('m, 'd, 'b, 'l) denv \<Rightarrow> ('n, 'e, 'c, 'k) denv \<Rightarrow> ('m, 'd, 'b, 'l) world others \<Rightarrow> ('m, 'd, 'b, 'l) world PublicDring \<Rightarrow> PrivateDring \<Rightarrow>
   ('m, 'd, 'b, 'l) world \<Rightarrow> ('n, 'e, 'c, 'k) world \<Rightarrow>
   ('m, 'd, 'b, 'l) world PublicDring \<times> PrivateDring \<times> ('m, 'd, 'b, 'l) world \<times> ('n, 'e, 'c, 'k) world" where
  "LeaveGroup E F oth pub p w v =
     (let (_, w1) = removeFromGroupRecord E oth (pub_node pub) p w;
          pub1 = UnregisterGroupAddrProvider (g_GroupID (grp p)) pub;
          (p1, v1) = priv_Leave F p v
      in (pub1, p1\<lparr>pv_tr := priv_Close (pv_tr p1)\<rparr>, w1, v1))"

text \<open>The address of a peer in the group, as its record on the public ring has it; empty without one.\<close>

definition group_address ::
  "('m, 'd, 'b, 'l) denv \<Rightarrow> NodeID \<Rightarrow> NodeID \<Rightarrow> ('m, 'd, 'b, 'l) world \<Rightarrow> NodeID \<Rightarrow> string" where
  "group_address E pub groupID w peerID =
     (case LookupPeer E pub peerID w of
        (Inl _, _) \<Rightarrow> []
      | (Inr rec, _) \<Rightarrow> (case GroupAddrs (pr_Data rec) (id_String groupID) of Some a \<Rightarrow> a | None \<Rightarrow> []))"

text \<open>
  The refresher of the model answers from the public ring \<open>w\<close> at the time it is set; the code asks it
  anew on every call.
\<close>

definition SetPublicDring ::
  "('m, 'd, 'b, 'l) denv \<Rightarrow> (string \<Rightarrow> err option) \<Rightarrow> ('m, 'd, 'b, 'l) world others \<Rightarrow> PrivateDring \<Rightarrow>
   ('m, 'd, 'b, 'l) world PublicDring \<Rightarrow> ('m, 'd, 'b, 'l) world \<Rightarrow> ('n, 'e, 'c, 'k) world \<Rightarrow>
   ('m, 'd, 'b, 'l) world PublicDring \<times> ('n, 'e, 'c, 'k) world" where
  "SetPublicDring E wr oth p pub w v =
     (RegisterGroupAddrProvider (g_GroupID (grp p)) (pv_multiaddr p)
        (RegisterGroupRepublisher (UpdateGroupRecord E wr oth (pub_node pub) p) pub),
      on_node (pv_peerID p) (\<lambda>n. (n\<lparr>addrRefresher := Some (group_address E (pub_node pub) (g_GroupID (grp p)) w)\<rparr>, [])) v)"

end
