(* ===== verification/Record_Formats.thy ===== *)
theory Record_Formats
  imports Record_Ring
begin

text \<open>
  How the node tells the kinds of records apart, and every outcome of a put of a signed record on a
  serving ring.
\<close>

section \<open>Telling the records apart\<close>

text \<open>
  The node recognises a record by decoding it. What it relies on: the encoding of a signed record
  does not decode as a provider record, and the CBOR map of a group has no peer identifier.
\<close>

definition provider_like :: "ext \<Rightarrow> bytes \<Rightarrow> bool" where
  "provider_like X b \<longleftrightarrow>
     (case unmarshal_provider X b of Inr p \<Rightarrow> length (pb_ContentHash p) = 20 \<and> length (pb_Provider p) = 20 | Inl _ \<Rightarrow> False) \<or>
     (case unmarshal_providers X b of
        Inr l \<Rightarrow> (case pb_Providers l of p # _ \<Rightarrow> length (pb_ContentHash p) = 20 \<and> length (pb_Provider p) = 20 | [] \<Rightarrow> False)
      | Inl _ \<Rightarrow> False)"

definition formats_apart :: "ext \<Rightarrow> bool" where
  "formats_apart X \<longleftrightarrow>
     (\<forall>s b. marshal_signed X s = Inr b \<and> length (pb_Pubkey s) = PublicKeySize \<longrightarrow> \<not> provider_like X b) \<and>
     (\<forall>d b. cbor_marshal_peer X d = Inr b \<longrightarrow> b \<noteq> []) \<and>
     (\<forall>g b. cbor_marshal_group X g = Inr b \<longrightarrow> b \<noteq> [] \<and> (\<forall>d. cbor_unmarshal_peer X b = Inr d \<longrightarrow> PeerID d = zeroID))"

lemma classify_signed:
  assumes X: "ext_ok X" "formats_apart X" and s: "marshal_signed X s = Inr b"
    "length (pb_Pubkey s) = PublicKeySize" "length (pb_Signature s) = SignatureSize" "pb_Data s \<noteq> []"
  shows "classifyRecord X b = (case cbor_unmarshal_peer X (pb_Data s) of Inr d \<Rightarrow> if PeerID d \<noteq> zeroID then recPeer else recGroup | Inl _ \<Rightarrow> recGroup)"
proof -
  have "\<not> provider_like X b" using X(2) s(1,2) unfolding formats_apart_def by blast
  then show ?thesis
    using ext_okD(1) [OF X(1) s(1)] s(2-4)
    by (auto simp: classifyRecord_def provider_like_def split: sum.splits list.splits)
qed

lemma peer_record_class:
  assumes X: "ext_ok X" "formats_apart X" and r: "peer_Encode X r = Inr b" "peer_Verify X r = Inr ()"
    "length (pr_Signature r) = SignatureSize" "PeerID (pr_Data r) \<noteq> zeroID"
  shows "classifyRecord X b = recPeer" "incoming_version X b recPeer = Inr (pd_Version (pr_Data r))"
    "extractRecordVersion X b = pd_Version (pr_Data r)"
proof -
  obtain c where c: "cbor_marshal_peer X (pr_Data r) = Inr c"
    "marshal_signed X \<lparr>pb_Data = c, pb_Pubkey = pr_PubKey r, pb_Signature = pr_Signature r\<rparr> = Inr b"
    using r(1) by (auto simp: peer_Encode_def bind_res_Inr)
  have "c \<noteq> []" using X(2) c(1) unfolding formats_apart_def by blast
  then show "classifyRecord X b = recPeer"
    using classify_signed [OF X c(2)] r(2-4) ext_okD(4) [OF X(1) c(1)] by (simp add: peer_Verify_iff)
  have d: "DecodePeerIdentityRecord X b = Inr r" using X(1) r(1) by (rule peer_Decode_Encode)
  then show "incoming_version X b recPeer = Inr (pd_Version (pr_Data r))"
    using r(2) by (simp add: incoming_version_def)
  show "extractRecordVersion X b = pd_Version (pr_Data r)" using d r(4) by (simp add: extractRecordVersion_def)
qed

lemma group_record_class:
  assumes X: "ext_ok X" "formats_apart X" and r: "group_Encode X r = Inr b" "group_Verify X r = Inr ()"
    "length (gr_Signature r) = SignatureSize" "GroupID (gr_Data r) \<noteq> zeroID"
  shows "classifyRecord X b = recGroup" "incoming_version X b recGroup = Inr (gd_Version (gr_Data r))"
    "extractRecordVersion X b = gd_Version (gr_Data r)"
proof -
  obtain c where c: "cbor_marshal_group X (gr_Data r) = Inr c"
    "marshal_signed X \<lparr>pb_Data = c, pb_Pubkey = gr_PubKey r, pb_Signature = gr_Signature r\<rparr> = Inr b"
    using r(1) by (auto simp: group_Encode_def bind_res_Inr)
  have g: "c \<noteq> []" "\<And>d. cbor_unmarshal_peer X c = Inr d \<Longrightarrow> PeerID d = zeroID"
    using X(2) c(1) unfolding formats_apart_def by blast+
  then show cl: "classifyRecord X b = recGroup"
    using classify_signed [OF X c(2)] r(2,3) by (auto simp: group_Verify_iff split: sum.splits)
  have d: "DecodeGroupIdentityRecord X b = Inr r" using X(1) r(1) by (rule group_Decode_Encode)
  then show i: "incoming_version X b recGroup = Inr (gd_Version (gr_Data r))"
    using r(2) by (simp add: incoming_version_def)
  show "extractRecordVersion X b = gd_Version (gr_Data r)"
    using incoming_version_extract [of X b] cl i d r(4) by simp
qed

section \<open>A put of a signed record and its outcome\<close>

lemma signed_put_outcome:
  assumes ns: "node_store E truth ok hold lok" and w: "serving truth ok lok S w" "me \<in> S"
    and o: "owner S key i" and n: "w_node w i = Some n" "map_of (providerEntryTimes (recs n)) key = None"
    and c: "classifyRecord (rx E) d = t" "t = recPeer \<or> t = recGroup" "incoming_version (rx E) d t = Inr v"
      "extractRecordVersion (rx E) d = v"
    and p: "RecordPut E me key d w = (r, w')"
  shows "serving truth ok lok S w'"
    "localRecordGet (rx E) (nowNs E) key (recs n) = Inr raw \<Longrightarrow> v \<le> extractRecordVersion (rx E) raw \<Longrightarrow>
       r = Inl (Wrap ''stored version, incoming version'' ErrVersionConflict) \<and> w_node w' = w_node w"
    "0 < v \<Longrightarrow> (\<And>raw. localRecordGet (rx E) (nowNs E) key (recs n) = Inr raw \<Longrightarrow> extractRecordVersion (rx E) raw < v) \<Longrightarrow>
       r = Inr () \<and> (\<exists>n'. w_node w' i = Some n' \<and> map_of (providerEntryTimes (recs n')) key = None \<and>
         localRecordGet (rx E) (nowNs E) key (recs n') = Inr d)"
proof -
  have iS: "i \<in> S" using o by (simp add: owner_def)
  have ni: "node_id n = i" using w(1) n(1) iS unfolding serving_def ideal_def member_ok_def node_wf_def by fastforce
  have s: "store_record E i n key d me w = (r, w')" using RecordPut_owner [OF ns w o n(1), of d] p by simp
  show "serving truth ok lok S w'"
    using node_store.serving_keeps [OF ns node_store.K_RecordPut [OF ns w, of key d] w(1)] p by simp
  show "r = Inl (Wrap ''stored version, incoming version'' ErrVersionConflict) \<and> w_node w' = w_node w"
    if "localRecordGet (rx E) (nowNs E) key (recs n) = Inr raw" "v \<le> extractRecordVersion (rx E) raw"
    using that s c n by (auto simp: store_record_def storeRecord_def storeSignedRecord_def localRecordGet_def fun_eq_iff
        split: option.splits if_splits)
  assume v: "0 < v" and low: "\<And>raw. localRecordGet (rx E) (nowNs E) key (recs n) = Inr raw \<Longrightarrow> extractRecordVersion (rx E) raw < v"
  have "\<exists>st. storeRecord (rx E) (nowNs E) (wallNs E) key d me (recs n) = (Inr (), st)"
  proof -
    have "\<not> (case map_of (records (recs n)) key of
        Some raw \<Rightarrow> \<not> isExpiredAt (meta_at (recs n) key) (nowNs E) \<and> v \<le> extractRecordVersion (rx E) raw | None \<Rightarrow> False)"
    proof (cases "map_of (records (recs n)) key")
      case (Some raw)
      then show ?thesis
        using low [of raw] n(2) by (cases "isExpiredAt (meta_at (recs n) key) (nowNs E)") (simp_all add: localRecordGet_def not_le)
    qed simp
    then have "\<exists>st. storeSignedRecord (rx E) (nowNs E) key d t (recs n) = (Inr (), st)"
      using c(3) by (simp add: storeSignedRecord_def)
    then show ?thesis using c(1,2) by (auto simp: storeRecord_def)
  qed
  then have r: "r = Inr ()" using s by (auto simp: store_record_def)
  note f = store_record_signed(1) [OF n(1) ni serving_targets [OF w(1) iS n(1)] _ s [unfolded r]]
  obtain n' where "w_node w' i = Some n'" "recs n' = put_record key d \<lparr>storedAt = nowNs E, ttl = ttlForType (recs n) t, rtyp = t\<rparr> (recs n)"
    using f c by (auto simp: recs_at_def)
  then show "r = Inr () \<and> (\<exists>n'. w_node w' i = Some n' \<and> map_of (providerEntryTimes (recs n')) key = None \<and>
      localRecordGet (rx E) (nowNs E) key (recs n') = Inr d)"
    using r n(2) fresh_get [OF n(2)] by auto
qed

section \<open>A concrete ring with records\<close>

lemma formats_apart_demo:
  assumes "\<forall>b \<in> snd ` set td. b \<noteq> []" "\<forall>b \<in> snd ` set tg. b \<noteq> [] \<and> b \<notin> snd ` set td"
  shows "formats_apart (demo_ext ts [] [] td tg)"
proof -
  have d: "b \<in> snd ` set tbl" if "table_enc tbl m = Inr b" for tbl :: "('x \<times> bytes) list" and m b
    using that by (auto simp: table_enc_def image_iff split: option.splits dest!: map_of_SomeD) force
  have n: "table_dec tbl b = Inl (Errorf ''unmarshal'')" if "b \<notin> snd ` set tbl" for tbl :: "('x \<times> bytes) list" and b
  proof -
    have "map_of (map prod.swap tbl) b = None" using that by (force simp: map_of_eq_None_iff)
    then show ?thesis by (simp add: table_dec_def)
  qed
  have "\<not> provider_like (demo_ext ts [] [] td tg) b" for b
    by (simp add: provider_like_def demo_ext_def table_dec_def)
  moreover have "b \<noteq> []" if "table_enc td x = Inr b" for x b using d [OF that] assms(1) by blast
  moreover have "b \<noteq> [] \<and> (\<forall>x. table_dec td b \<noteq> Inr x)" if "table_enc tg g = Inr b" for g b
    using d [OF that] assms(2) n [of b td] by (metis Inl_Inr_False)
  ultimately show ?thesis unfolding formats_apart_def by (simp add: demo_ext_def)
qed

definition pub_priv :: bytes where "pub_priv = id_bytes (demo_id 25) @ replicate 44 0"

definition pub_data :: "64 word \<Rightarrow> PeerIdentityData" where
  "pub_data v = \<lparr>PeerID = demo_id 25, pd_Version = v, Address = ''test'', GroupAddrs = Map.empty\<rparr>"

definition grp_data :: "64 word \<Rightarrow> NodeID list \<Rightarrow> GroupIdentityData" where
  "grp_data v ps = \<lparr>GroupID = demo_id 25, gd_Version = v, Peers = map (\<lambda>i. \<lparr>gm_ID = i\<rparr>) ps\<rparr>"

definition pub_signed :: "bytes \<Rightarrow> pb_SignedRecord" where
  "pub_signed b = \<lparr>pb_Data = b, pb_Pubkey = take 32 pub_priv, pb_Signature = replicate 64 0\<rparr>"

definition pub_ext :: ext where
  "pub_ext = demo_ext (map (\<lambda>b. (pub_signed [b], [9, b])) [1, 3, 4, 11, 12]) [] []
     [(pub_data 1, [1]), (pub_data 3, [3]), (pub_data 4, [4])]
     [(grp_data 1 [demo_id 10], [11]), (grp_data 2 [demo_id 10, demo_id 20], [12])]"

lemma pub_inject [simp]: "pub_data u = pub_data v \<longleftrightarrow> u = v" "grp_data u ps = grp_data v qs \<longleftrightarrow> u = v \<and> ps = qs"
    "pub_signed b = pub_signed c \<longleftrightarrow> b = c"
proof -
  have inj: "inj (\<lambda>i. \<lparr>gm_ID = i\<rparr>)" by (simp add: inj_def)
  show "grp_data u ps = grp_data v qs \<longleftrightarrow> u = v \<and> ps = qs" by (simp add: grp_data_def inj_map_eq_map [OF inj])
qed (simp_all add: pub_data_def pub_signed_def)

lemma pub_ext_ok: "ext_ok pub_ext" "formats_apart pub_ext"
proof -
  show "ext_ok pub_ext" unfolding pub_ext_def by (rule ext_ok_demo) simp_all
  show "formats_apart pub_ext" unfolding pub_ext_def by (rule formats_apart_demo) simp_all
qed

lemma pub_priv_facts:
  "length pub_priv = PrivateKeySize" "i_ID (IdentityFromKey pub_ext pub_priv) = demo_id 25"
  "g_GroupID (NewGroupIdentity pub_ext pub_priv) = demo_id 25" "demo_id 25 \<noteq> zeroID"
proof -
  show "length pub_priv = PrivateKeySize" by (simp add: pub_priv_def)
  have "copy20 (take 32 pub_priv) = demo_id 25" by (simp add: pub_priv_def copy20_def id_bytes_inverse)
  then show "i_ID (IdentityFromKey pub_ext pub_priv) = demo_id 25" "g_GroupID (NewGroupIdentity pub_ext pub_priv) = demo_id 25"
    by (simp_all add: IdentityFromKey_def NewGroupIdentity_def Let_def PubKeyToNodeID_def pub_ext_def demo_ext_def)
  have "id_bytes (demo_id 25) \<noteq> id_bytes zeroID" by code_simp
  then show "demo_id 25 \<noteq> zeroID" by auto
qed

lemma pub_records:
  assumes "(v, b) \<in> {(1, 1), (3, 3), (4, 4)}"
  shows "NewPeerIdentityRecord pub_ext (IdentityFromKey pub_ext pub_priv) v ''test'' Map.empty =
      Inr \<lparr>pr_Data = pub_data v, pr_PubKey = take 32 pub_priv, pr_Signature = replicate 64 0\<rparr>"
    "peer_Encode pub_ext \<lparr>pr_Data = pub_data v, pr_PubKey = take 32 pub_priv, pr_Signature = replicate 64 0\<rparr> = Inr [9, b]"
proof -
  have m: "cbor_marshal_peer pub_ext (pub_data v) = Inr [b]" using assms by (auto simp: pub_ext_def demo_ext_def table_enc_def)
  have s: "marshal_signed pub_ext (pub_signed [b]) = Inr [9, b]" using assms by (auto simp: pub_ext_def demo_ext_def table_enc_def)
  have i: "IdentityFromKey pub_ext pub_priv = \<lparr>i_PrivKey = pub_priv, i_PubKey = take 32 pub_priv, i_ID = demo_id 25\<rparr>"
    using pub_priv_facts(2) by (simp add: IdentityFromKey_def Let_def pub_ext_def demo_ext_def)
  show "NewPeerIdentityRecord pub_ext (IdentityFromKey pub_ext pub_priv) v ''test'' Map.empty =
      Inr \<lparr>pr_Data = pub_data v, pr_PubKey = take 32 pub_priv, pr_Signature = replicate 64 0\<rparr>"
    using m unfolding i by (simp add: NewPeerIdentityRecord_def peer_sign_def cborSignPayload_def flip: pub_data_def)
      (simp add: pub_ext_def demo_ext_def)
  show "peer_Encode pub_ext \<lparr>pr_Data = pub_data v, pr_PubKey = take 32 pub_priv, pr_Signature = replicate 64 0\<rparr> = Inr [9, b]"
    using m s by (simp add: peer_Encode_def flip: pub_signed_def)
qed

lemma pub_groups:
  assumes "(v, ps, b) \<in> {(1, [demo_id 10], 11), (2, [demo_id 10, demo_id 20], 12)}"
  shows "NewGroupIdentityRecord pub_ext (NewGroupIdentity pub_ext pub_priv) v (map (\<lambda>i. \<lparr>gm_ID = i\<rparr>) ps) =
      Inr \<lparr>gr_Data = grp_data v ps, gr_PubKey = take 32 pub_priv, gr_Signature = replicate 64 0\<rparr>"
    "group_Encode pub_ext \<lparr>gr_Data = grp_data v ps, gr_PubKey = take 32 pub_priv, gr_Signature = replicate 64 0\<rparr> = Inr [9, b]"
proof -
  have m: "cbor_marshal_group pub_ext (grp_data v ps) = Inr [b]" using assms by (auto simp: pub_ext_def demo_ext_def table_enc_def)
  have s: "marshal_signed pub_ext (pub_signed [b]) = Inr [9, b]" using assms by (auto simp: pub_ext_def demo_ext_def table_enc_def)
  have i: "g_PrivKey (NewGroupIdentity pub_ext pub_priv) = pub_priv" "g_PubKey (NewGroupIdentity pub_ext pub_priv) = take 32 pub_priv"
    by (simp_all add: NewGroupIdentity_def Let_def pub_ext_def demo_ext_def)
  show "NewGroupIdentityRecord pub_ext (NewGroupIdentity pub_ext pub_priv) v (map (\<lambda>i. \<lparr>gm_ID = i\<rparr>) ps) =
      Inr \<lparr>gr_Data = grp_data v ps, gr_PubKey = take 32 pub_priv, gr_Signature = replicate 64 0\<rparr>"
    using m by (simp add: NewGroupIdentityRecord_def group_sign_def cborSignPayload_def i pub_priv_facts(3) flip: grp_data_def)
      (simp add: pub_ext_def demo_ext_def)
  show "group_Encode pub_ext \<lparr>gr_Data = grp_data v ps, gr_PubKey = take 32 pub_priv, gr_Signature = replicate 64 0\<rparr> = Inr [9, b]"
    using m s by (simp add: group_Encode_def flip: pub_signed_def)
qed

definition pub_denv where "pub_denv = demo_denv\<lparr>rx := pub_ext\<rparr>"

lemma pub_node_env:
  "node_env pub_denv Hash (\<lambda>k. k) (quota_inv (\<lambda>m. distinct (map fst m)) map_of) (\<lambda>q. map_of (q_inner q))
     map_of (\<lambda>k. k) (\<lambda>m. distinct (map fst m)) map_of"
  using demo_node_env by (simp add: node_env_def pub_denv_def)

lemma pub_denv_rx [simp]: "rx pub_denv = pub_ext"
  by (simp add: pub_denv_def)

lemma PushRecords_addr: "map_option addr (w_node (snd (lt_PushRecords E me t kvs w)) j) = map_option addr (w_node w j)"
proof (cases "lt_resolve w me t")
  case (Inr n)
  then show ?thesis using node_of_resolve [OF Inr] by (simp add: lt_PushRecords_def put_records_def)
qed (simp add: lt_PushRecords_def)

lemma store_record_addr:
  assumes "w_node w i = Some n"
  shows "map_option addr (w_node (snd (store_record E i n key d c w)) j) = map_option addr (w_node w j)"
proof -
  have f: "map_option addr (w_node (foldl (\<lambda>w t. snd (lt_PushRecords E i t kvs w)) v ts) j) = map_option addr (w_node v j)" for kvs v ts
    by (induction ts arbitrary: v) (simp_all add: PushRecords_addr)
  show ?thesis using assms f by (simp add: store_record_def replicateRecordBestEffort_def split: prod.split sum.split)
qed

text \<open>The ring after a member has put a signed record at the key 25, whose owner is 30.\<close>

lemma pub_stage:
  assumes "classifyRecord pub_ext d = t" "t = recPeer \<or> t = recGroup" "incoming_version pub_ext d t = Inr v"
    "extractRecordVersion pub_ext d = v" "0 < v"
  obtains w :: "(testMemStore quotaBlockStore, (string \<times> bytes) list, (bytes \<times> bytes) list, testMemStore) world" and n m where "serving Hash demo_ok demo_lok demo_ids w" "w_node w (demo_id 30) = Some n"
    "map_of (providerEntryTimes (recs n)) (demo_id 25) = None" "localRecordGet pub_ext (nowNs pub_denv) (demo_id 25) (recs n) = Inr d"
    "w_node w (demo_id 20) = Some m" "addr m = ''test''"
proof -
  note ns = node_env_store [OF pub_node_env]
  let ?n = "demo_node 30 [10, 20] 20 2 :: (testMemStore quotaBlockStore, (string \<times> bytes) list, (bytes \<times> bytes) list, testMemStore) dnode"
    and ?m = "demo_node 20 [30, 10] 10 100 :: (testMemStore quotaBlockStore, (string \<times> bytes) list, (bytes \<times> bytes) list, testMemStore) dnode"
  have n: "w_node demo_world (demo_id 30) = Some ?n" "w_node demo_world (demo_id 20) = Some ?m"
    by (simp_all add: demo_world_nodes)
  have p: "map_of (providerEntryTimes (recs ?n)) (demo_id 25) = None" "localRecordGet pub_ext k (demo_id 25) (recs ?n) \<noteq> Inr raw" for k raw
    by (simp_all add: demo_node_def node.defs dnode.defs new_records_def localRecordGet_def)
  obtain r w where r: "RecordPut pub_denv (demo_id 20) (demo_id 25) d demo_world = (r, w)" by fastforce
  have me: "demo_id 20 \<in> demo_ids" by simp
  note out = signed_put_outcome [OF ns demo_serving me demo_owner n(1) p(1), unfolded pub_denv_rx, OF assms(1-4) r]
  obtain n' where n': "w_node w (demo_id 30) = Some n'" "map_of (providerEntryTimes (recs n')) (demo_id 25) = None"
    "localRecordGet pub_ext (nowNs pub_denv) (demo_id 25) (recs n') = Inr d" using out(3) assms(5) p(2) by blast
  have sr: "store_record pub_denv (demo_id 30) ?n (demo_id 25) d (demo_id 20) demo_world = (r, w)"
    using RecordPut_owner [OF ns demo_serving me demo_owner n(1), of d] r by metis
  have "addr ?m = ''test''"
    by (simp add: demo_node_def demo_member_def NewNode_def node.defs Let_def)
  then have "map_option addr (w_node w (demo_id 20)) = Some ''test''"
    using store_record_addr [OF n(1), of pub_denv "demo_id 25" d "demo_id 20" "demo_id 20"] unfolding sr n(2) by simp
  then obtain m where "w_node w (demo_id 20) = Some m" "addr m = ''test''" by blast
  then show ?thesis using that out(1) n' by blast
qed

end
