(* ===== verification/Publish_Props.thy ===== *)
theory Publish_Props
  imports Private_Ring Record_Formats
begin

text \<open>
  What the publications of \<open>Public_Ring\<close> and \<open>Private_Ring\<close> leave on a serving ring: the record of a peer that
  published itself is found by everybody, also after a version conflict, and concurrent updates of
  a group record lose no member.
\<close>

section \<open>Group records\<close>













lemma version_up: "(a :: 64 word) + 1 \<noteq> 0 \<Longrightarrow> a < a + 1"
  by uint_arith


section \<open>Peer records\<close>

lemma new_peer_record:
  assumes "ext_ok X" "length priv = PrivateKeySize" "NewPeerIdentityRecord X (IdentityFromKey X priv) v a g = Inr r"
  shows "length (pr_Signature r) = SignatureSize"
    "pr_Data r = \<lparr>PeerID = i_ID (IdentityFromKey X priv), pd_Version = v, Address = a, GroupAddrs = g\<rparr>"
  using assms by (auto simp: NewPeerIdentityRecord_def peer_sign_def bind_res_Inr IdentityFromKey_def Let_def ext_okD)

text \<open>The live record at the owner is one a peer published for this key.\<close>

definition peer_listed :: "('m, 'd, 'b, 'l) denv \<Rightarrow> NodeID \<Rightarrow> rec_state \<Rightarrow> PeerIdentityRecord \<Rightarrow> bool" where
  "peer_listed E key st rec \<longleftrightarrow>
     (\<exists>d. localRecordGet (rx E) (nowNs E) key st = Inr d \<and> peer_Encode (rx E) rec = Inr d \<and> peer_Verify (rx E) rec = Inr () \<and>
        length (pr_Signature rec) = SignatureSize \<and> PeerID (pr_Data rec) = key)"

lemma lookup_peer_listed:
  assumes ns: "node_store E truth ok hold lok" and w: "serving truth ok lok S w" "you \<in> S" and o: "owner S key i"
    and X: "ext_ok (rx E)" and n: "w_node w i = Some n" and l: "peer_listed E key (recs n) rec"
  shows "LookupPeer E you key w = (Inr rec, w)"
  using l RecordGet_owner [OF ns w o n] peer_Decode_Encode [OF X] by (auto simp: LookupPeer_def peer_listed_def)

lemma live_version_peer:
  assumes "ext_ok (rx E)" "formats_apart (rx E)" "key \<noteq> zeroID" "peer_listed E key st rec" "map_of (providerEntryTimes st) key = None"
  shows "live_version (rx E) (nowNs E) st key = pd_Version (pr_Data rec)"
  using assms peer_record_class(3) [OF assms(1,2), of rec]
  by (auto simp: peer_listed_def live_version_def localRecordGet_def split: option.splits if_splits)

definition encodable :: "ext \<Rightarrow> Identity \<Rightarrow> string \<Rightarrow> (string \<rightharpoonup> string) \<Rightarrow> 64 word \<Rightarrow> bool" where
  "encodable X ident a g v \<longleftrightarrow> (\<exists>rec d. NewPeerIdentityRecord X ident v a g = Inr rec \<and> peer_Encode X rec = Inr d)"

lemma publish_version_step:
  assumes ns: "node_store E truth ok hold lok" and w: "serving truth ok lok S w" "pub_node p \<in> S"
    and X: "ext_ok (rx E)" "formats_apart (rx E)"
    and k: "pub_identity p = IdentityFromKey (rx E) priv" "length priv = PrivateKeySize" "key = i_ID (pub_identity p)" "key \<noteq> zeroID"
    and o: "owner S key i" and n: "w_node w i = Some n" "map_of (providerEntryTimes (recs n)) key = None"
    and m: "w_node w (pub_node p) = Some m"
    and old: "\<forall>raw. localRecordGet (rx E) (nowNs E) key (recs n) = Inr raw \<longrightarrow> (\<exists>rec. peer_listed E key (recs n) rec)"
    and e: "encodable (rx E) (pub_identity p) (addr m) (collectGroupAddrs p) v" and v: "0 < v"
    and pub: "publishSelfVersion E p v w = (r, w')"
  shows "serving truth ok lok S w'"
    "\<exists>rec. peer_listed E key (recs n) rec \<and> v \<le> pd_Version (pr_Data rec) \<Longrightarrow>
       r = Inl (Wrap ''stored version, incoming version'' ErrVersionConflict) \<and> w_node w' = w_node w"
    "\<forall>rec. peer_listed E key (recs n) rec \<longrightarrow> pd_Version (pr_Data rec) < v \<Longrightarrow>
       r = Inr () \<and> (\<exists>n' rec. w_node w' i = Some n' \<and> peer_listed E key (recs n') rec \<and>
         pr_Data rec = \<lparr>PeerID = key, pd_Version = v, Address = addr m, GroupAddrs = collectGroupAddrs p\<rparr>)"
proof -
  obtain rec d where rec: "NewPeerIdentityRecord (rx E) (pub_identity p) v (addr m) (collectGroupAddrs p) = Inr rec"
    "peer_Encode (rx E) rec = Inr d" using e by (auto simp: encodable_def)
  note nw = new_peer_record [OF X(1) k(2) rec(1) [unfolded k(1)]]
  have ver: "peer_Verify (rx E) rec = Inr ()" using X(1) k(2) rec(1) [unfolded k(1)] by (rule peer_record_verifies)
  have z: "PeerID (pr_Data rec) \<noteq> zeroID" "pd_Version (pr_Data rec) = v" using nw(2) k by simp_all
  have put: "RecordPut E (pub_node p) key d w = (r, w')" using pub m rec k(3) by (simp add: publishSelfVersion_def)
  note out = signed_put_outcome [OF ns w o n peer_record_class(1) [OF X rec(2) ver nw(1) z(1)] disjI1 [OF refl]
      peer_record_class(2,3) [OF X rec(2) ver nw(1) z(1), unfolded z(2)] put]
  show "serving truth ok lok S w'" by (rule out(1))
  have x: "extractRecordVersion (rx E) raw = pd_Version (pr_Data rc)"
    if "peer_listed E key (recs n) rc" "localRecordGet (rx E) (nowNs E) key (recs n) = Inr raw" for rc raw
    using that peer_record_class(3) [OF X, of rc] k(4) by (auto simp: peer_listed_def)
  show "r = Inl (Wrap ''stored version, incoming version'' ErrVersionConflict) \<and> w_node w' = w_node w"
    if h: "\<exists>rec. peer_listed E key (recs n) rec \<and> v \<le> pd_Version (pr_Data rec)"
  proof -
    obtain rc raw where rc: "peer_listed E key (recs n) rc" "v \<le> pd_Version (pr_Data rc)"
      "localRecordGet (rx E) (nowNs E) key (recs n) = Inr raw" using h by (auto simp: peer_listed_def)
    then show ?thesis using out(2) x by simp
  qed
  assume low: "\<forall>rec. peer_listed E key (recs n) rec \<longrightarrow> pd_Version (pr_Data rec) < v"
  have "extractRecordVersion (rx E) raw < v" if "localRecordGet (rx E) (nowNs E) key (recs n) = Inr raw" for raw
    using old [rule_format, OF that] x [OF _ that] low by metis
  from out(3) [OF v this] obtain n' where "r = Inr ()" "w_node w' i = Some n'" "localRecordGet (rx E) (nowNs E) key (recs n') = Inr d"
    by blast
  then show "r = Inr () \<and> (\<exists>n' rec. w_node w' i = Some n' \<and> peer_listed E key (recs n') rec \<and>
      pr_Data rec = \<lparr>PeerID = key, pd_Version = v, Address = addr m, GroupAddrs = collectGroupAddrs p\<rparr>)"
    using rec(2) ver nw k by (auto simp: peer_listed_def)
qed


section \<open>Properties\<close>


lemma publish_version_found:
  assumes ns: "node_store E truth ok hold lok" and w: "serving truth ok lok S w" "pub_node p \<in> S" "you \<in> S"
    and X: "ext_ok (rx E)" "formats_apart (rx E)"
    and k: "pub_identity p = IdentityFromKey (rx E) priv" "length priv = PrivateKeySize" "key = i_ID (pub_identity p)" "key \<noteq> zeroID"
    and o: "owner S key i" and n: "w_node w i = Some n" "map_of (providerEntryTimes (recs n)) key = None"
    and m: "w_node w (pub_node p) = Some m"
    and old: "\<forall>raw. localRecordGet (rx E) (nowNs E) key (recs n) = Inr raw \<longrightarrow> (\<exists>rec. peer_listed E key (recs n) rec)"
    and e: "encodable (rx E) (pub_identity p) (addr m) (collectGroupAddrs p) v" and v: "0 < v"
    and up: "\<forall>rec. peer_listed E key (recs n) rec \<longrightarrow> pd_Version (pr_Data rec) < v"
  obtains w' rec where "publishSelfVersion E p v w = (Inr (), w')" "fst (LookupPeer E you key w') = Inr rec" "peer_Verify (rx E) rec = Inr ()"
    "pr_Data rec = \<lparr>PeerID = key, pd_Version = v, Address = addr m, GroupAddrs = collectGroupAddrs p\<rparr>"
proof -
  obtain r w' where r: "publishSelfVersion E p v w = (r, w')" by fastforce
  note st = publish_version_step [OF ns w(1,2) X k o n m old e v r]
  obtain n' rec where n': "r = Inr ()" "w_node w' i = Some n'" "peer_listed E key (recs n') rec"
    "pr_Data rec = \<lparr>PeerID = key, pd_Version = v, Address = addr m, GroupAddrs = collectGroupAddrs p\<rparr>"
    using st(3) [OF up] by blast
  then show ?thesis
    using that [of w' rec] r lookup_peer_listed [OF ns st(1) w(3) o X(1) n'(2,3)] by (auto simp: peer_listed_def)
qed




text \<open>
  A peer that publishes itself is found, also after a restart. When the owner of its identifier holds
  no live record, or one the peer published in an earlier life with any version, \<open>PublishSelf\<close>
  succeeds: on a conflict it continues after the stored version. \<open>LookupPeer\<close> from every member then returns
  a verified record with the current address, the addresses in its groups, and a version above
  the one that was stored.
\<close>

theorem publish_self_recovers:
  assumes env: "node_env E truth kf pinv M B lf linv L"
    and w: "serving truth (store_ok truth kf pinv M B) (local_ok truth lf linv L) S w" "pub_node p \<in> S" "you \<in> S"
    and X: "ext_ok (rx E)" "formats_apart (rx E)"
    and k: "pub_identity p = IdentityFromKey (rx E) priv" "length priv = PrivateKeySize" "key = i_ID (pub_identity p)" "key \<noteq> zeroID"
    and o: "owner S key i" and n: "w_node w i = Some n" "map_of (providerEntryTimes (recs n)) key = None"
    and m: "w_node w (pub_node p) = Some m"
    and old: "\<forall>raw. localRecordGet (rx E) (nowNs E) key (recs n) = Inr raw \<longrightarrow> (\<exists>rec. peer_listed E key (recs n) rec)"
    and v: "pub_version p + 1 \<noteq> 0" "live_version (rx E) (nowNs E) (recs n) key + 1 \<noteq> 0"
    and e: "encodable (rx E) (pub_identity p) (addr m) (collectGroupAddrs p) (pub_version p + 1)"
      "encodable (rx E) (pub_identity p) (addr m) (collectGroupAddrs p) (live_version (rx E) (nowNs E) (recs n) key + 1)"
  shows "\<exists>p' w' rec. PublishSelf E p w = (Inr (), p', w') \<and> fst (LookupPeer E you key w') = Inr rec
    \<and> peer_Verify (rx E) rec = Inr ()
    \<and> pr_Data rec = \<lparr>PeerID = key, pd_Version = pub_version p', Address = addr m, GroupAddrs = collectGroupAddrs p\<rparr>
    \<and> live_version (rx E) (nowNs E) (recs n) key < pub_version p'"
proof -
  note ns = node_env_store [OF env]
  let ?live = "live_version (rx E) (nowNs E) (recs n) key" and ?v = "pub_version p + 1"
  let ?p = "\<lambda>v. p\<lparr>pub_version := v\<rparr>"
  have c: "collectGroupAddrs (?p v) = collectGroupAddrs p" for v by (simp add: collectGroupAddrs_def)
  have lv: "?live = pd_Version (pr_Data rec)" if "peer_listed E key (recs n) rec" for rec
    using live_version_peer [OF X k(4) that n(2)] .
  have none_live: "?live = 0" if "\<nexists>rec. peer_listed E key (recs n) rec"
    using that old n(2) by (auto simp: live_version_def localRecordGet_def split: option.splits if_splits)
  have v0: "0 < ?v" using v(1) by (simp add: word_gt_0)
  have q: "pub_node (?p u) \<in> S" "pub_identity (?p u) = IdentityFromKey (rx E) priv" "key = i_ID (pub_identity (?p u))"
      "w_node w (pub_node (?p u)) = Some m" for u
    using w(2) k(1,3) m by simp_all
  have e1: "encodable (rx E) (pub_identity (?p ?v)) (addr m) (collectGroupAddrs (?p ?v)) ?v"
    and e2: "encodable (rx E) (pub_identity (?p (?live + 1))) (addr m) (collectGroupAddrs (?p (?live + 1))) (?live + 1)"
    using e c by simp_all
  show ?thesis
  proof (cases "\<exists>rec. peer_listed E key (recs n) rec \<and> ?v \<le> pd_Version (pr_Data rec)")
    case False
    then have up: "\<forall>rec. peer_listed E key (recs n) rec \<longrightarrow> pd_Version (pr_Data rec) < ?v" by (auto simp: not_le)
    obtain w' rec where w': "publishSelfVersion E (?p ?v) ?v w = (Inr (), w')" "fst (LookupPeer E you key w') = Inr rec"
      "peer_Verify (rx E) rec = Inr ()" "pr_Data rec = \<lparr>PeerID = key, pd_Version = ?v, Address = addr m, GroupAddrs = collectGroupAddrs (?p ?v)\<rparr>"
      using ns w(1) q(1) w(3) X q(2) k(2) q(3) k(4) o n q(4) old e1 v0 up by (rule publish_version_found)
    have "PublishSelf E p w = (Inr (), ?p ?v, w')" using w'(1) by (simp add: PublishSelf_def Let_def)
    moreover have "?live < ?v" using none_live lv up v0 by metis
    ultimately show ?thesis using w' by (intro exI [of _ "?p ?v"] exI [of _ w'] exI [of _ rec]) (simp add: c)
  next
    case True
    then obtain rec where rec: "peer_listed E key (recs n) rec" using lv by metis
    obtain r w1 where r: "publishSelfVersion E (?p ?v) ?v w = (r, w1)" by fastforce
    note st = publish_version_step [OF ns w(1) q(1) X q(2) k(2) q(3) k(4) o n q(4) old e1 v0 r]
    have c1: "r = Inl (Wrap ''stored version, incoming version'' ErrVersionConflict)" "w_node w1 = w_node w"
      using st(2) [OF True] by simp_all
    have n1: "w_node w1 i = Some n" "w_node w1 (pub_node (?p (?live + 1))) = Some m" using c1(2) n(1) q(4) by simp_all
    have "LookupPeer E (pub_node p) key w1 = (Inr rec, w1)"
      using lookup_peer_listed [OF ns st(1) w(2) o X(1) n1(1) rec] .
    then have fe: "fetchStoredPeerVersion E (?p ?v) w1 = (Inr ?live, w1)"
      using lv [OF rec] k(3) by (simp add: fetchStoredPeerVersion_def)
    have up: "\<forall>rc. peer_listed E key (recs n) rc \<longrightarrow> pd_Version (pr_Data rc) < ?live + 1"
      using lv version_up [OF v(2)] by metis
    have v2: "0 < ?live + 1" using v(2) by (simp add: word_gt_0)
    obtain w' rc where w': "publishSelfVersion E (?p (?live + 1)) (?live + 1) w1 = (Inr (), w')" "fst (LookupPeer E you key w') = Inr rc"
      "peer_Verify (rx E) rc = Inr ()"
      "pr_Data rc = \<lparr>PeerID = key, pd_Version = ?live + 1, Address = addr m, GroupAddrs = collectGroupAddrs (?p (?live + 1))\<rparr>"
      using ns st(1) q(1) w(3) X q(2) k(2) q(3) k(4) o n1(1) n(2) n1(2) old e2 v2 up by (rule publish_version_found)
    have "PublishSelf E p w = (Inr (), ?p (?live + 1), w')"
      using r c1(1) fe w'(1) by (simp add: PublishSelf_def Let_def isVersionConflict_def)
    then show ?thesis
      using w' version_up [OF v(2)] by (intro exI [of _ "?p (?live + 1)"] exI [of _ w'] exI [of _ rc]) (simp add: c)
  qed
qed

theorem publish_self_recovers_witness:
  "\<exists>w n p' w' rec. w_node w (demo_id 30) = Some n \<and> live_version pub_ext (nowNs pub_denv) (recs n) (demo_id 25) = 3 \<and>
     PublishSelf pub_denv (NewPublicDring (demo_id 20) (IdentityFromKey pub_ext pub_priv)) w = (Inr (), p', w') \<and>
     fst (LookupPeer pub_denv (demo_id 10) (demo_id 25) w') = Inr rec \<and> 3 < pd_Version (pr_Data rec)"
proof -
  let ?r = "\<lparr>pr_Data = pub_data 3, pr_PubKey = take 32 pub_priv, pr_Signature = replicate 64 0\<rparr>"
  let ?p = "NewPublicDring (demo_id 20) (IdentityFromKey pub_ext pub_priv) :: (testMemStore quotaBlockStore, (string \<times> bytes) list, (bytes \<times> bytes) list, testMemStore) world PublicDring"
  note r1 = pub_records [of 1 1, simplified] and r3 = pub_records [of 3 3, simplified] and r4 = pub_records [of 4 4, simplified]
  have ver: "peer_Verify pub_ext ?r = Inr ()" using peer_record_verifies [OF pub_ext_ok(1) pub_priv_facts(1) r3(1)] .
  have d: "PeerID (pub_data 3) = demo_id 25" "pd_Version (pub_data 3) = 3" by (simp_all add: pub_data_def)
  have c: "classifyRecord pub_ext [9, 3] = recPeer" "incoming_version pub_ext [9, 3] recPeer = Inr 3" "extractRecordVersion pub_ext [9, 3] = 3"
    using peer_record_class [OF pub_ext_ok r3(2) ver] pub_priv_facts(4) d by simp_all
  obtain w :: "(testMemStore quotaBlockStore, (string \<times> bytes) list, (bytes \<times> bytes) list, testMemStore) world" and n m where w: "serving Hash demo_ok demo_lok demo_ids w" "w_node w (demo_id 30) = Some n"
    "map_of (providerEntryTimes (recs n)) (demo_id 25) = None" "localRecordGet pub_ext (nowNs pub_denv) (demo_id 25) (recs n) = Inr [9, 3]"
    "w_node w (demo_id 20) = Some m" "addr m = ''test''"
    using c(1) disjI1 [OF refl] c(2,3) by (rule pub_stage) simp
  have l: "peer_listed pub_denv (demo_id 25) (recs n) ?r" using w r3(2) ver d by (simp add: peer_listed_def)
  have lv: "live_version pub_ext (nowNs pub_denv) (recs n) (demo_id 25) = 3"
    using live_version_peer [where E = pub_denv, unfolded pub_denv_rx, OF pub_ext_ok pub_priv_facts(4) l w(3)] d by simp
  have p: "pub_node ?p = demo_id 20" "pub_identity ?p = IdentityFromKey pub_ext pub_priv" "pub_version ?p = 0" "collectGroupAddrs ?p = Map.empty"
    by (simp_all add: NewPublicDring_def collectGroupAddrs_def)
  have e: "encodable pub_ext (IdentityFromKey pub_ext pub_priv) ''test'' Map.empty v" if "v = 1 \<or> v = 4" for v
    using that r1 r4 by (auto simp: encodable_def)
  have "\<exists>p' w' rec. PublishSelf pub_denv ?p w = (Inr (), p', w') \<and> fst (LookupPeer pub_denv (demo_id 10) (demo_id 25) w') = Inr rec
    \<and> peer_Verify (rx pub_denv) rec = Inr ()
    \<and> pr_Data rec = \<lparr>PeerID = demo_id 25, pd_Version = pub_version p', Address = addr m, GroupAddrs = collectGroupAddrs ?p\<rparr>
    \<and> live_version (rx pub_denv) (nowNs pub_denv) (recs n) (demo_id 25) < pub_version p'"
    by (rule publish_self_recovers [OF pub_node_env w(1) _ _ _ _ _ pub_priv_facts(1) _ pub_priv_facts(4) demo_owner w(2,3)])
      (use pub_ext_ok p pub_priv_facts w l lv e in auto)
  then show ?thesis using w(2) lv by (metis PeerIdentityData.select_convs(2) pub_denv_rx)
qed

end
