(* ===== verification/Group_Keys.thy ===== *)
theory Group_Keys
  imports Wire_Records
begin

text \<open>
  The keys of private groups on a host: the vault of named keys (\<open>dht/vault.go\<close>) and the file of
  groups the daemon joins (\<open>dht/groupconfig.go\<close>). The JSON codec and the file are arguments: a file
  read gives the content, \<open>None\<close> when the file does not exist, or an error; \<open>wr\<close> is the outcome of a
  write. What an operation leaves in memory is returned beside its result.
\<close>

section \<open>The vault\<close>

record VaultEntry =
  Alias :: string
  Key :: string

type_synonym Vault = "VaultEntry list"

definition LoadVault :: "(bytes \<Rightarrow> Vault res) \<Rightarrow> bytes option res \<Rightarrow> Vault res" where
  "LoadVault unmarshal file =
     (case file of
        Inr None \<Rightarrow> Inr []
      | Inl e \<Rightarrow> Inl e
      | Inr (Some data) \<Rightarrow> (case unmarshal data of Inl e \<Rightarrow> Inl (Wrap ''parse vault'' e) | Inr v \<Rightarrow> Inr v))"

definition vault_save :: "(Vault \<Rightarrow> bytes res) \<Rightarrow> (bytes \<Rightarrow> unit res) \<Rightarrow> Vault \<Rightarrow> unit res" where
  "vault_save marshal wr v = (case marshal v of Inl e \<Rightarrow> Inl e | Inr data \<Rightarrow> wr data)"

fun set_key :: "string \<Rightarrow> string \<Rightarrow> Vault \<Rightarrow> Vault option" where
  "set_key a k [] = None"
| "set_key a k (e # es) =
     (if Alias e = a then Some (e\<lparr>Key := k\<rparr> # es) else map_option (\<lambda>es'. e # es') (set_key a k es))"

definition vault_Add ::
  "ext \<Rightarrow> (Vault \<Rightarrow> bytes res) \<Rightarrow> (bytes \<Rightarrow> unit res) \<Rightarrow> string \<Rightarrow> string \<Rightarrow> Vault \<Rightarrow> unit res \<times> Vault" where
  "vault_Add X marshal wr a keyHex v =
     (if a = [] then (Inl (Errorf ''alias must not be empty''), v)
      else
        case GroupIdentityFromHex X keyHex of
          Inl e \<Rightarrow> (Inl (Wrap ''invalid group key'' e), v)
        | Inr _ \<Rightarrow>
            (let v' = (case set_key a keyHex v of Some v' \<Rightarrow> v' | None \<Rightarrow> v @ [\<lparr>Alias = a, Key = keyHex\<rparr>])
             in (vault_save marshal wr v', v')))"

definition vault_Remove ::
  "(Vault \<Rightarrow> bytes res) \<Rightarrow> (bytes \<Rightarrow> unit res) \<Rightarrow> string \<Rightarrow> Vault \<Rightarrow> (bool \<times> err option) \<times> Vault" where
  "vault_Remove marshal wr a v =
     (let out = filter (\<lambda>e. Alias e \<noteq> a) v
      in if length out = length v then ((False, None), out)
         else ((True, case vault_save marshal wr out of Inl e \<Rightarrow> Some e | Inr _ \<Rightarrow> None), out))"

text \<open>The second loop of \<open>LookupKey\<close>: the one entry whose alias has the prefix.\<close>

fun prefix_match :: "string \<Rightarrow> VaultEntry list \<Rightarrow> VaultEntry option \<Rightarrow> VaultEntry option res" where
  "prefix_match a [] matched = Inr matched"
| "prefix_match a (e # es) matched =
     (if take (length a) (Alias e) = a
      then (if matched \<noteq> None then Inl (Errorf ''alias is ambiguous'') else prefix_match a es (Some e))
      else prefix_match a es matched)"

definition LookupKey :: "string \<Rightarrow> Vault \<Rightarrow> string res" where
  "LookupKey a v =
     (case find (\<lambda>e. Alias e = a) v of
        Some e \<Rightarrow> Inr (Key e)
      | None \<Rightarrow>
          (case prefix_match a v None of
             Inl e \<Rightarrow> Inl e
           | Inr (Some e) \<Rightarrow> Inr (Key e)
           | Inr None \<Rightarrow> Inl (Errorf ''alias not found in vault'')))"

definition vault_Lookup :: "ext \<Rightarrow> string \<Rightarrow> Vault \<Rightarrow> GroupIdentity res" where
  "vault_Lookup X a v = (case LookupKey a v of Inl e \<Rightarrow> Inl e | Inr k \<Rightarrow> GroupIdentityFromHex X k)"

definition vault_List :: "ext \<Rightarrow> Vault \<Rightarrow> (string \<times> string) list" where
  "vault_List X v =
     map (\<lambda>e. (Alias e, case GroupIdentityFromHex X (Key e) of
                           Inl _ \<Rightarrow> ''(invalid key)'' | Inr g \<Rightarrow> id_String (g_GroupID g))) v"

definition ResolveGroupKey :: "ext \<Rightarrow> Vault \<Rightarrow> string \<Rightarrow> (string \<times> string) res" where
  "ResolveGroupKey X v s =
     (case GroupIdentityFromHex X s of
        Inr _ \<Rightarrow> Inr (s, [])
      | Inl _ \<Rightarrow> (case LookupKey s v of Inl e \<Rightarrow> Inl e | Inr k \<Rightarrow> Inr (k, s)))"

section \<open>The groups of a host\<close>

record GroupConfig =
  GroupPrivKeyHex :: string
  gc_ListenAddr :: string
  gc_Name :: string
  StorageMaxBytes :: int

type_synonym GroupsFile = "GroupConfig list"

definition LoadGroupsFile :: "(bytes \<Rightarrow> GroupsFile res) \<Rightarrow> bytes option res \<Rightarrow> GroupsFile res" where
  "LoadGroupsFile unmarshal file =
     (case file of
        Inr None \<Rightarrow> Inr []
      | Inl e \<Rightarrow> Inl (Wrap ''read groups file'' e)
      | Inr (Some data) \<Rightarrow> (case unmarshal data of Inl e \<Rightarrow> Inl (Wrap ''parse groups file'' e) | Inr f \<Rightarrow> Inr f))"

definition SaveGroupsFile :: "(GroupsFile \<Rightarrow> bytes res) \<Rightarrow> (bytes \<Rightarrow> unit res) \<Rightarrow> GroupsFile \<Rightarrow> unit res" where
  "SaveGroupsFile marshal wr f =
     (case marshal f of Inl e \<Rightarrow> Inl (Wrap ''marshal groups file'' e) | Inr data \<Rightarrow> wr data)"

definition group_of :: "ext \<Rightarrow> GroupConfig \<Rightarrow> NodeID option" where
  "group_of X g = (case GroupIdentityFromHex X (GroupPrivKeyHex g) of Inl _ \<Rightarrow> None | Inr i \<Rightarrow> Some (g_GroupID i))"

fun replace_group :: "ext \<Rightarrow> NodeID \<Rightarrow> GroupConfig \<Rightarrow> GroupsFile \<Rightarrow> GroupsFile option" where
  "replace_group X i cfg [] = None"
| "replace_group X i cfg (g # gs) =
     (if group_of X g = Some i then Some (cfg # gs) else map_option (\<lambda>gs'. g # gs') (replace_group X i cfg gs))"

definition AddGroup :: "ext \<Rightarrow> GroupConfig \<Rightarrow> GroupsFile \<Rightarrow> GroupsFile" where
  "AddGroup X cfg f =
     (case group_of X cfg of
        None \<Rightarrow> f @ [cfg]
      | Some i \<Rightarrow> (case replace_group X i cfg f of Some f' \<Rightarrow> f' | None \<Rightarrow> f @ [cfg]))"

definition RemoveGroup :: "ext \<Rightarrow> string \<Rightarrow> GroupsFile \<Rightarrow> bool \<times> GroupsFile" where
  "RemoveGroup X groupIDHex f =
     (let out = filter (\<lambda>g. case group_of X g of None \<Rightarrow> True | Some i \<Rightarrow> id_String i \<noteq> groupIDHex) f
      in (length out < length f, out))"

section \<open>What they keep\<close>

lemma set_key_None: "set_key a k v = None \<longleftrightarrow> a \<notin> Alias ` set v"
  by (induction v) auto

lemma set_key_alias: "set_key a k v = Some v' \<Longrightarrow> map Alias v' = map Alias v"
  by (induction v arbitrary: v') (auto split: if_splits)

lemma set_key_find: "set_key a k v = Some v' \<Longrightarrow> find (\<lambda>e. Alias e = a) v' = Some \<lparr>Alias = a, Key = k\<rparr>"
  by (induction v arbitrary: v') (auto split: if_splits)

lemma find_None_append: "(\<forall>x \<in> set xs. \<not> P x) \<Longrightarrow> find P (xs @ ys) = find P ys"
  by (induction xs) auto

text \<open>An added key is found under its alias, aliases stay unique, and the key is usable.\<close>

lemma vault_add_lookup:
  assumes "vault_Add X marshal wr a k v = (Inr (), v')"
  shows "LookupKey a v' = Inr k \<and> vault_Lookup X a v' \<in> range Inr \<and> (distinct (map Alias v) \<longrightarrow> distinct (map Alias v'))"
proof -
  have a: "a \<noteq> []" and g: "GroupIdentityFromHex X k \<in> range Inr"
    and v': "v' = (case set_key a k v of Some v' \<Rightarrow> v' | None \<Rightarrow> v @ [\<lparr>Alias = a, Key = k\<rparr>])"
    using assms by (auto simp: vault_Add_def Let_def split: if_splits sum.splits)
  have f: "find (\<lambda>e. Alias e = a) v' = Some \<lparr>Alias = a, Key = k\<rparr>"
  proof (cases "set_key a k v")
    case None
    then have "\<forall>e \<in> set v. Alias e \<noteq> a" by (auto simp: set_key_None)
    then show ?thesis using v' None by (simp add: find_None_append)
  next
    case (Some u)
    then show ?thesis using v' set_key_find by simp
  qed
  have "distinct (map Alias v) \<longrightarrow> distinct (map Alias v')"
    using v' set_key_alias [of a k v] set_key_None [of a k v] by (cases "set_key a k v") auto
  then show ?thesis using f g by (auto simp: LookupKey_def vault_Lookup_def)
qed

lemma vault_remove_lookup:
  assumes "vault_Remove marshal wr a v = (r, v')"
  shows "find (\<lambda>e. Alias e = a) v' = None" "fst r \<longleftrightarrow> a \<in> Alias ` set v"
proof -
  have v': "v' = filter (\<lambda>e. Alias e \<noteq> a) v" and r: "fst r \<longleftrightarrow> length v' \<noteq> length v"
    using assms by (auto simp: vault_Remove_def Let_def split: if_splits)
  show "find (\<lambda>e. Alias e = a) v' = None" unfolding v' find_None_iff by auto
  have "length v' = length v \<longleftrightarrow> (\<forall>e \<in> set v. Alias e \<noteq> a)"
    unfolding v' by (metis (mono_tags, lifting) filter_True filter_id_conv length_filter_less nat_less_le)
  then show "fst r \<longleftrightarrow> a \<in> Alias ` set v" using r by auto
qed

text \<open>A group is configured once: adding it again replaces its entry.\<close>

lemma replace_group_ids: "replace_group X i cfg f = Some f' \<Longrightarrow> group_of X cfg = Some i \<Longrightarrow> map (group_of X) f' = map (group_of X) f"
  by (induction f arbitrary: f') (auto split: if_splits)

lemma replace_group_None: "replace_group X i cfg f = None \<longleftrightarrow> Some i \<notin> group_of X ` set f"
  by (induction f) auto

lemma add_group_unique:
  assumes "distinct (filter (\<lambda>i. i \<noteq> None) (map (group_of X) f))"
  shows "distinct (filter (\<lambda>i. i \<noteq> None) (map (group_of X) (AddGroup X cfg f)))"
proof (cases "group_of X cfg")
  case None
  then show ?thesis using assms by (simp add: AddGroup_def)
next
  case (Some i)
  then show ?thesis
    using assms replace_group_ids [of X i cfg f] replace_group_None [of X i cfg f]
    by (cases "replace_group X i cfg f") (auto simp: AddGroup_def)
qed

lemma remove_group_gone: "Some i \<notin> group_of X ` set (snd (RemoveGroup X (id_String i) f))"
  by (auto simp: RemoveGroup_def Let_def split: option.splits dest: sym)

end
